(* ===== verification/Prelude.thy ===== *)
theory Prelude
  imports Main "HOL-Library.Sublist"
begin

text \<open>
  What every component of the development shares: the error type of
  \<^verbatim>\<open>crates/agentsync-core/src/error.rs\<close>, results as sums, the sequencing of
  fallible stateful steps (the \<^verbatim>\<open>?\<close> operator on a \<^verbatim>\<open>&mut self\<close> method), loops over
  lists, and generic facts on lists and maps that the component proofs use.
\<close>

section \<open>Errors and results\<close>

text \<open>
  One constructor per variant of \<^verbatim>\<open>enum Error\<close>. The variants that wrap a foreign error
  value carry its rendered text. The last constructor is no variant of the enum: it is the
  panic of an \<^verbatim>\<open>unwrap()\<close> on \<^verbatim>\<open>None\<close> or of an index out of range.
\<close>

datatype error =
    Io string
  | Automerge string
  | AutomergeLoad string
  | InvalidPath string
  | NotFound string
  | AlreadyExists string
  | Auth string
  | Config string
  | Protocol string
  | Network string
  | Notify string
  | SerdeJson string
  | MsgpackEncode string
  | MsgpackDecode string
  | WebSocket string
  | VaultError string
  | TooLarge string
  | InvalidUtf8
  | Other string
  | Panic string

type_synonym 'a result = "error + 'a"

abbreviation Ok :: "'a \<Rightarrow> 'a result" where "Ok \<equiv> Inr"
abbreviation Err :: "error \<Rightarrow> 'a result" where "Err \<equiv> Inl"

fun is_ok :: "'a result \<Rightarrow> bool" where
  "is_ok (Inr _) = True"
| "is_ok (Inl _) = False"

text \<open>\<^verbatim>\<open>r.ok().flatten()\<close>, \<^verbatim>\<open>unwrap_or\<close> and \<^verbatim>\<open>ok_or_else\<close>.\<close>

fun ok_opt :: "'a result \<Rightarrow> 'a option" where
  "ok_opt (Inr x) = Some x"
| "ok_opt (Inl _) = None"

fun ok_or :: "error \<Rightarrow> 'a option \<Rightarrow> 'a result" where
  "ok_or e None = Inl e"
| "ok_or e (Some x) = Inr x"

fun unwrap_or :: "'a \<Rightarrow> 'a option \<Rightarrow> 'a" where
  "unwrap_or d None = d"
| "unwrap_or d (Some x) = x"

definition bind_result :: "'a result \<Rightarrow> ('a \<Rightarrow> 'b result) \<Rightarrow> 'b result" where
  "bind_result r f = (case r of Inl e \<Rightarrow> Inl e | Inr x \<Rightarrow> f x)"

lemma bind_result_simps [simp]:
  "bind_result (Inl e) f = Inl e"
  "bind_result (Inr x) f = f x"
  by (simp_all add: bind_result_def)

lemma bind_result_eq_Inr:
  "bind_result r f = Inr y \<longleftrightarrow> (\<exists>x. r = Inr x \<and> f x = Inr y)"
  by (cases r) auto

section \<open>Stateful fallible steps\<close>

text \<open>
  A \<^verbatim>\<open>&mut self\<close> method that returns \<^verbatim>\<open>Result\<close> is a function from the state to a result and
  the state it leaves behind; an error keeps the writes made before it, as the code does.
  \<open>andthen m f\<close> is \<^verbatim>\<open>let x = m?; f(x)\<close>.
\<close>

type_synonym ('s, 'a) action = "'s \<Rightarrow> 'a result \<times> 's"

definition ret :: "'a \<Rightarrow> ('s, 'a) action" where
  "ret x = (\<lambda>s. (Inr x, s))"

definition fail :: "error \<Rightarrow> ('s, 'a) action" where
  "fail e = (\<lambda>s. (Inl e, s))"

definition lift :: "'a result \<Rightarrow> ('s, 'a) action" where
  "lift r = (\<lambda>s. (r, s))"

definition andthen :: "('s, 'a) action \<Rightarrow> ('a \<Rightarrow> ('s, 'b) action) \<Rightarrow> ('s, 'b) action" where
  "andthen m f = (\<lambda>s. case m s of (Inl e, t) \<Rightarrow> (Inl e, t) | (Inr x, t) \<Rightarrow> f x t)"

definition unwrap :: "'a option \<Rightarrow> ('s, 'a) action" where
  "unwrap x = lift (ok_or (Panic ''unwrap on None'') x)"

text \<open>\<^verbatim>\<open>m.ok()\<close>: the result as a value, so that the caller goes on after an error.\<close>

definition attempt :: "('s, 'a) action \<Rightarrow> ('s, 'a result) action" where
  "attempt m = (\<lambda>s. case m s of (r, t) \<Rightarrow> (Inr r, t))"

text \<open>A \<^verbatim>\<open>for\<close> loop whose body may fail, and one that returns at the first hit.\<close>

fun foreach :: "'a list \<Rightarrow> ('a \<Rightarrow> ('s, unit) action) \<Rightarrow> ('s, unit) action" where
  "foreach [] f = ret ()"
| "foreach (x # xs) f = andthen (f x) (\<lambda>_. foreach xs f)"

fun first_some :: "'a list \<Rightarrow> ('a \<Rightarrow> ('s, 'b option) action) \<Rightarrow> ('s, 'b option) action" where
  "first_some [] f = ret None"
| "first_some (x # xs) f =
     andthen (f x) (\<lambda>r. case r of Some y \<Rightarrow> ret (Some y) | None \<Rightarrow> first_some xs f)"

text \<open>A loop that pushes onto a vector when its body yields a value.\<close>

fun collect :: "'a list \<Rightarrow> ('a \<Rightarrow> ('s, 'b option) action) \<Rightarrow> ('s, 'b list) action" where
  "collect [] f = ret []"
| "collect (x # xs) f =
     andthen (f x) (\<lambda>r. andthen (collect xs f)
       (\<lambda>ys. ret (case r of Some y \<Rightarrow> y # ys | None \<Rightarrow> ys)))"

named_theorems act_simps "running the sequencing combinators"

lemma ret_run [act_simps]: "ret x s = (Inr x, s)"
  by (simp add: ret_def)

lemma fail_run [act_simps]: "fail e s = (Inl e, s)"
  by (simp add: fail_def)

lemma lift_run [act_simps]: "lift r s = (r, s)"
  by (simp add: lift_def)

lemma andthen_run [act_simps]:
  "andthen m f s = (case m s of (Inl e, t) \<Rightarrow> (Inl e, t) | (Inr x, t) \<Rightarrow> f x t)"
  by (simp add: andthen_def)

lemma attempt_run [act_simps]: "attempt m s = (case m s of (r, t) \<Rightarrow> (Inr r, t))"
  by (simp add: attempt_def)

lemma unwrap_run [act_simps]: "unwrap (Some x) s = (Inr x, s)"
  by (simp add: unwrap_def lift_def)

lemma andthen_Inr:
  "m s = (Inr x, t) \<Longrightarrow> andthen m f s = f x t"
  by (simp add: andthen_def)

lemma andthen_step:
  "m s = (Inr x, t) \<Longrightarrow> f x t = r \<Longrightarrow> andthen m f s = r"
  by (simp add: andthen_def)

lemma andthen_Inl:
  "m s = (Inl e, t) \<Longrightarrow> andthen m f s = (Inl e, t)"
  by (simp add: andthen_def)

lemma andthen_eq_Inr:
  "andthen m f s = (Inr y, u) \<longleftrightarrow> (\<exists>x t. m s = (Inr x, t) \<and> f x t = (Inr y, u))"
  by (auto simp: andthen_def split: prod.splits sum.splits)

text \<open>
  Loops whose body only reads: the state is threaded through unchanged and the result is a
  list function of the values read.
\<close>

lemma first_some_pure:
  assumes "\<And>x. x \<in> set xs \<Longrightarrow> f x s = (Inr (g x), s)"
  shows "first_some xs f s = (Inr (Option.bind (List.find (\<lambda>x. g x \<noteq> None) xs) g), s)"
  using assms by (induction xs) (auto simp: act_simps split: option.splits)

lemma first_some_find:
  assumes "\<And>x. x \<in> set xs \<Longrightarrow> f x s = (Inr (if P x then Some x else None), s)"
  shows "first_some xs f s = (Inr (List.find P xs), s)"
  using assms by (induction xs) (auto simp: act_simps split: option.splits)

lemma collect_pure:
  assumes "\<And>x. x \<in> set xs \<Longrightarrow> f x s = (Inr (g x), s)"
  shows "collect xs f s = (Inr (List.map_filter g xs), s)"
  using assms
  by (induction xs) (auto simp: act_simps List.map_filter_simps split: option.splits)

text \<open>A loop whose body always succeeds keeps an invariant of the state.\<close>

lemma foreach_invariant:
  assumes "\<And>x s. x \<in> set xs \<Longrightarrow> I s \<Longrightarrow> \<exists>t. f x s = (Inr (), t) \<and> I t"
    and "I s"
  shows "\<exists>t. foreach xs f s = (Inr (), t) \<and> I t"
  using assms
proof (induction xs arbitrary: s)
  case Nil
  then show ?case by (simp add: act_simps)
next
  case (Cons x xs)
  then obtain t where "f x s = (Inr (), t)" and "I t" by fastforce
  with Cons show ?case by (simp add: act_simps)
qed

text \<open>
  A loop each step of which changes one point of a map \<open>M\<close>, the abstract state, and keeps the
  relation \<open>I\<close> between the state and the map.
\<close>

lemma foreach_pointwise:
  assumes "\<And>x s M. x \<in> set xs \<Longrightarrow> I s M \<Longrightarrow>
      \<exists>t M'. f x s = (Inr (), t) \<and> I t M' \<and> (\<forall>y. y \<noteq> x \<longrightarrow> M' y = M y) \<and> R x (M x) (M' x)"
    and "I s M" "distinct xs"
  shows "\<exists>t M'. foreach xs f s = (Inr (), t) \<and> I t M' \<and>
    (\<forall>x \<in> set xs. R x (M x) (M' x)) \<and> (\<forall>y. y \<notin> set xs \<longrightarrow> M' y = M y)"
  using assms
proof (induction xs arbitrary: s M)
  case Nil
  then show ?case by (auto simp: act_simps)
next
  case (Cons x xs)
  from Cons.prems(1) [of x, OF _ Cons.prems(2)] obtain t M1 where t: "f x s = (Inr (), t)" "I t M1"
    "\<forall>y. y \<noteq> x \<longrightarrow> M1 y = M y" "R x (M x) (M1 x)" by auto
  have "\<exists>u M2. foreach xs f t = (Inr (), u) \<and> I u M2 \<and>
      (\<forall>x \<in> set xs. R x (M1 x) (M2 x)) \<and> (\<forall>y. y \<notin> set xs \<longrightarrow> M2 y = M1 y)"
    using Cons.prems(1,3) by (intro Cons.IH [OF _ t(2)]) auto
  then obtain u M2 where u: "foreach xs f t = (Inr (), u)" "I u M2"
    "\<forall>x \<in> set xs. R x (M1 x) (M2 x)" "\<forall>y. y \<notin> set xs \<longrightarrow> M2 y = M1 y" by blast
  have "R y (M y) (M2 y)" if "y \<in> set (x # xs)" for y
  proof (cases "y = x")
    case True
    with Cons.prems(3) u(4) t(4) show ?thesis by simp
  next
    case False
    with that u(3) t(3) show ?thesis by (metis set_ConsD)
  qed
  moreover have "M2 y = M y" if "y \<notin> set (x # xs)" for y
    using that u(4) t(3) by simp
  ultimately show ?case using t(1) u(1,2) by (auto simp: act_simps)
qed

section \<open>Lists\<close>

lemma find_Some_in: "List.find P xs = Some x \<Longrightarrow> x \<in> set xs \<and> P x"
  by (auto simp: find_Some_iff)

lemma distinct_map_filter_fst:
  assumes "distinct xs" and "\<And>x y. x \<in> set xs \<Longrightarrow> g x = Some y \<Longrightarrow> fst y = x"
  shows "distinct (map fst (List.map_filter g xs))"
proof -
  have "map fst (List.map_filter g xs) = filter (\<lambda>x. g x \<noteq> None) xs"
    using assms(2) by (induction xs) (auto simp: List.map_filter_simps split: option.splits)
  then show ?thesis using assms(1) by simp
qed

lemma set_map_filter: "set (List.map_filter g xs) = {y. \<exists>x \<in> set xs. g x = Some y}"
  by (induction xs) (auto simp: List.map_filter_simps split: option.splits)

lemma map_of_tagged:
  "map_of (List.map_filter (\<lambda>x. map_option (Pair x) (h x)) xs) x = (if x \<in> set xs then h x else None)"
  by (induction xs) (auto simp: List.map_filter_simps split: option.splits)

end
