(* ===== verification/RustStd.thy ===== *)
theory RustStd
  imports Prelude "HOL-Library.Word"
begin

text \<open>
  The parts of Rust's standard library the program uses on strings, bytes and integers.
  A \<^verbatim>\<open>&str\<close> is the list of its UTF-8 bytes (Isabelle's \<^verbatim>\<open>string\<close>: a \<^verbatim>\<open>char\<close> is one byte), so
  \<^verbatim>\<open>len\<close> is \<open>length\<close> and byte offsets are list positions. A byte buffer is a list of
  \<open>8 word\<close>. Unicode white space is recognised on its UTF-8 encoding; UTF-8 is
  self-synchronising, so looking for an encoding at every byte position finds exactly the
  characters of a valid string.
\<close>

section \<open>Bytes\<close>

type_synonym byte = "8 word"

definition byte_of :: "char \<Rightarrow> nat" where
  "byte_of c = of_char c"

definition as_bytes :: "string \<Rightarrow> byte list" where
  "as_bytes s = map (\<lambda>c. of_nat (of_char c)) s"

definition of_bytes :: "byte list \<Rightarrow> string" where
  "of_bytes bs = map (\<lambda>b. char_of (unat b)) bs"

lemma of_bytes_as_bytes [simp]: "of_bytes (as_bytes s) = s"
proof -
  have "char_of (unat (of_nat (of_char c) :: byte)) = c" for c :: char
    by (simp add: unat_of_nat of_char_mod_256)
  then show ?thesis by (simp add: of_bytes_def as_bytes_def comp_def)
qed

lemma as_bytes_of_bytes [simp]: "as_bytes (of_bytes bs) = bs"
proof -
  have "of_nat (of_char (char_of (unat b) :: char)) = b" for b :: byte
    using unsigned_less [of b, where ?'a = nat] by simp
  then show ?thesis by (simp add: of_bytes_def as_bytes_def comp_def)
qed

lemma length_as_bytes [simp]: "length (as_bytes s) = length s"
  by (simp add: as_bytes_def)

lemma length_of_bytes [simp]: "length (of_bytes s) = length s"
  by (simp add: of_bytes_def)

lemma as_bytes_append [simp]: "as_bytes (s @ t) = as_bytes s @ as_bytes t"
  by (simp add: as_bytes_def)

lemma as_bytes_inject [simp]: "as_bytes s = as_bytes t \<longleftrightarrow> s = t"
  by (metis of_bytes_as_bytes)

text \<open>\<^verbatim>\<open>u32::to_be_bytes\<close> and \<^verbatim>\<open>u32::from_be_bytes\<close>; \<^verbatim>\<open>n as u32\<close> wraps.\<close>

definition u32_be :: "nat \<Rightarrow> byte list" where
  "u32_be n = [of_nat (n div 16777216), of_nat (n div 65536), of_nat (n div 256), of_nat n]"

fun u32_of_be :: "byte list \<Rightarrow> nat" where
  "u32_of_be [a, b, c, d] = unat a * 16777216 + unat b * 65536 + unat c * 256 + unat d"
| "u32_of_be _ = 0"

lemma length_u32_be [simp]: "length (u32_be n) = 4"
  by (simp add: u32_be_def)

lemma u32_of_be_u32_be: "n < 4294967296 \<Longrightarrow> u32_of_be (u32_be n) = n"
proof -
  assume n: "n < 4294967296"
  have h: "n div 16777216 < 256" using n by (simp add: less_mult_imp_div_less)
  have 1: "n div 65536 = 256 * (n div 16777216) + n div 65536 mod 256"
    using div_mult_mod_eq [of "n div 65536" 256] by (simp add: div_mult2_eq [symmetric])
  have 2: "n div 256 = 256 * (n div 65536) + n div 256 mod 256"
    using div_mult_mod_eq [of "n div 256" 256] by (simp add: div_mult2_eq [symmetric])
  have 3: "n = 256 * (n div 256) + n mod 256" by simp
  have "u32_of_be (u32_be n) = n div 16777216 * 16777216 + n div 65536 mod 256 * 65536 +
      n div 256 mod 256 * 256 + n mod 256"
    using h by (simp add: u32_be_def unat_of_nat)
  then show ?thesis using 1 2 3 by linarith
qed

section \<open>White space and trimming\<close>

text \<open>
  \<^verbatim>\<open>char::is_whitespace\<close>: the length in bytes of the white-space character a string starts
  with, 0 when it starts with none. The encoded characters are U+0009 to U+000D, U+0020,
  U+0085, U+00A0, U+1680, U+2000 to U+200A, U+2028, U+2029, U+202F, U+205F and U+3000.
\<close>

definition ws3 :: "nat \<Rightarrow> nat \<Rightarrow> nat \<Rightarrow> bool" where
  "ws3 a b c \<longleftrightarrow>
     (a = 225 \<and> b = 154 \<and> c = 128) \<or>
     (a = 226 \<and> b = 128 \<and> ((128 \<le> c \<and> c \<le> 138) \<or> c = 168 \<or> c = 169 \<or> c = 175)) \<or>
     (a = 226 \<and> b = 129 \<and> c = 159) \<or>
     (a = 227 \<and> b = 128 \<and> c = 128)"

definition ascii_ws :: "char \<Rightarrow> bool" where
  "ascii_ws c \<longleftrightarrow> byte_of c = 32 \<or> (9 \<le> byte_of c \<and> byte_of c \<le> 13)"

fun ws_len :: "string \<Rightarrow> nat" where
  "ws_len [] = 0"
| "ws_len [a] = (if ascii_ws a then 1 else 0)"
| "ws_len [a, b] =
     (if ascii_ws a then 1
      else if byte_of a = 194 \<and> (byte_of b = 133 \<or> byte_of b = 160) then 2 else 0)"
| "ws_len (a # b # c # _) =
     (if ascii_ws a then 1
      else if byte_of a = 194 \<and> (byte_of b = 133 \<or> byte_of b = 160) then 2
      else if ws3 (byte_of a) (byte_of b) (byte_of c) then 3 else 0)"

lemma ws_len_le: "ws_len s \<le> length s"
  by (cases s rule: ws_len.cases) auto

text \<open>A byte that can open a white-space character.\<close>

definition ws_lead :: "char \<Rightarrow> bool" where
  "ws_lead c \<longleftrightarrow> ascii_ws c \<or> byte_of c \<in> {194, 225, 226, 227}"

lemma ws_len_lead: "\<not> ws_lead c \<Longrightarrow> ws_len (c # s) = 0"
  by (cases "c # s" rule: ws_len.cases) (auto simp: ws_lead_def ws3_def)

function trim_start :: "string \<Rightarrow> string" where
  "trim_start s = (if ws_len s = 0 then s else trim_start (drop (ws_len s) s))"
  by pat_completeness auto
termination
proof (relation "measure length")
  fix s :: string assume "ws_len s \<noteq> 0"
  moreover from this have "s \<noteq> []" by auto
  ultimately show "(drop (ws_len s) s, s) \<in> measure length" by simp
qed simp

declare trim_start.simps [simp del]

text \<open>The length of the white-space character a string ends with.\<close>

definition ws_end_len :: "string \<Rightarrow> nat" where
  "ws_end_len s =
     (if 1 \<le> length s \<and> ws_len (drop (length s - 1) s) = 1 then 1
      else if 2 \<le> length s \<and> ws_len (drop (length s - 2) s) = 2 then 2
      else if 3 \<le> length s \<and> ws_len (drop (length s - 3) s) = 3 then 3 else 0)"

lemma ws_end_len_le: "ws_end_len s \<le> length s"
  by (simp add: ws_end_len_def)

function trim_end :: "string \<Rightarrow> string" where
  "trim_end s = (if ws_end_len s = 0 then s else trim_end (take (length s - ws_end_len s) s))"
  by pat_completeness auto
termination
proof (relation "measure length")
  fix s :: string assume "ws_end_len s \<noteq> 0"
  then show "(take (length s - ws_end_len s) s, s) \<in> measure length"
    using ws_end_len_le [of s] by auto
qed simp

declare trim_end.simps [simp del]

definition trim :: "string \<Rightarrow> string" where
  "trim s = trim_end (trim_start s)"

lemma trim_start_id: "ws_len s = 0 \<Longrightarrow> trim_start s = s"
  by (simp add: trim_start.simps)

lemma trim_start_clean: "ws_len (trim_start s) = 0"
  by (induction s rule: trim_start.induct) (subst trim_start.simps, auto)

lemma trim_start_idem [simp]: "trim_start (trim_start s) = trim_start s"
  by (simp add: trim_start_id trim_start_clean)

lemma trim_end_id: "ws_end_len s = 0 \<Longrightarrow> trim_end s = s"
  by (simp add: trim_end.simps)

lemma trim_end_clean: "ws_end_len (trim_end s) = 0"
  by (induction s rule: trim_end.induct) (subst trim_end.simps, auto)

lemma trim_end_idem [simp]: "trim_end (trim_end s) = trim_end s"
  by (simp add: trim_end_id trim_end_clean)

lemma trim_id: "ws_len s = 0 \<Longrightarrow> ws_end_len s = 0 \<Longrightarrow> trim s = s"
  by (simp add: trim_def trim_start_id trim_end_id)

lemma trim_Nil [simp]: "trim [] = []" "trim_start [] = []" "trim_end [] = []"
  by (simp_all add: trim_def trim_start_id trim_end_id ws_end_len_def)

lemma trim_start_suffix: "suffix (trim_start s) s"
proof (induction s rule: trim_start.induct)
  case (1 s)
  show ?case
  proof (cases "ws_len s = 0")
    case True
    then show ?thesis by (simp add: trim_start_id)
  next
    case False
    with 1 have "suffix (trim_start (drop (ws_len s) s)) (drop (ws_len s) s)" by simp
    then have "suffix (trim_start (drop (ws_len s) s)) s"
      using suffix_drop suffix_order.trans by blast
    with False show ?thesis by (simp add: trim_start.simps [of s])
  qed
qed

lemma trim_end_prefix: "prefix (trim_end s) s"
proof (induction s rule: trim_end.induct)
  case (1 s)
  show ?case
  proof (cases "ws_end_len s = 0")
    case True
    then show ?thesis by (simp add: trim_end_id)
  next
    case False
    with 1 have "prefix (trim_end (take (length s - ws_end_len s) s)) (take (length s - ws_end_len s) s)"
      by simp
    then have "prefix (trim_end (take (length s - ws_end_len s) s)) s"
      using take_is_prefix prefix_order.trans by blast
    with False show ?thesis by (simp add: trim_end.simps [of s])
  qed
qed

lemma set_trim: "set (trim s) \<subseteq> set s"
proof -
  have "set (trim_end (trim_start s)) \<subseteq> set (trim_start s)"
    using trim_end_prefix [of "trim_start s"] set_mono_prefix by blast
  also have "\<dots> \<subseteq> set s"
    using trim_start_suffix [of s] set_mono_suffix by blast
  finally show ?thesis by (simp add: trim_def)
qed

text \<open>A string whose first and last bytes are not part of white space is its own trim.\<close>

definition plain_char :: "char \<Rightarrow> bool" where
  "plain_char c \<longleftrightarrow> 33 \<le> byte_of c \<and> byte_of c \<le> 126"

lemma plain_not_lead: "plain_char c \<Longrightarrow> \<not> ws_lead c"
  by (auto simp: plain_char_def ws_lead_def ascii_ws_def)

lemma ws_len_plain [simp]: "plain_char c \<Longrightarrow> ws_len (c # s) = 0"
  by (rule ws_len_lead) (rule plain_not_lead)

lemma ws_len_ge2_cont:
  assumes "ws_len s = Suc k" "0 < k"
  shows "128 \<le> byte_of (s ! k)"
  using assms by (cases s rule: ws_len.cases) (auto simp: ws3_def split: if_splits)

lemma ws_len_end_cont:
  assumes "ws_len (drop (length s - k) s) = k" "2 \<le> k" "k \<le> length s"
  shows "128 \<le> byte_of (last s)"
proof -
  let ?d = "drop (length s - k) s"
  have len: "length ?d = k" using assms(3) by simp
  obtain j where j: "k = Suc j" "0 < j" using assms(2) by (cases k) auto
  have "128 \<le> byte_of (?d ! j)"
    by (rule ws_len_ge2_cont) (use assms(1) j in auto)
  moreover have "?d ! j = last s"
    using assms(3) j by (subst last_conv_nth) auto
  ultimately show ?thesis by simp
qed

lemma ws_end_len_plain [simp]:
  assumes "plain_char c"
  shows "ws_end_len (s @ [c]) = 0"
proof -
  have c: "\<not> 128 \<le> byte_of c" using assms by (simp add: plain_char_def)
  have 1: "ws_len (drop (length (s @ [c]) - 1) (s @ [c])) \<noteq> 1"
    using assms by (simp del: ws_len.simps)
  have big: "ws_len (drop (length (s @ [c]) - k) (s @ [c])) \<noteq> k"
    if "2 \<le> k" "k \<le> length (s @ [c])" for k
    using ws_len_end_cont [OF _ that] c by auto
  show ?thesis
    using 1 big [of 2] big [of 3] unfolding ws_end_len_def by auto
qed

section \<open>Splitting and searching\<close>

definition starts_with :: "'a list \<Rightarrow> 'a list \<Rightarrow> bool" where
  "starts_with s p \<longleftrightarrow> take (length p) s = p"

definition ends_with :: "string \<Rightarrow> string \<Rightarrow> bool" where
  "ends_with s p \<longleftrightarrow> length p \<le> length s \<and> drop (length s - length p) s = p"

definition strip_prefix :: "string \<Rightarrow> string \<Rightarrow> string option" where
  "strip_prefix p s = (if starts_with s p then Some (drop (length p) s) else None)"

lemma starts_with_iff: "starts_with s p \<longleftrightarrow> (\<exists>r. s = p @ r)"
  by (metis append_eq_conv_conj append_take_drop_id starts_with_def)

lemma starts_with_append [simp]: "starts_with (p @ r) p"
  by (simp add: starts_with_def)

lemma strip_prefix_append [simp]: "strip_prefix p (p @ r) = Some r"
  by (simp add: strip_prefix_def)

text \<open>\<^verbatim>\<open>str::split(c)\<close>: never empty, the empty string gives one empty piece.\<close>

fun split_on :: "char \<Rightarrow> string \<Rightarrow> string list" where
  "split_on c [] = [[]]"
| "split_on c (x # xs) =
     (if x = c then [] # split_on c xs
      else (case split_on c xs of [] \<Rightarrow> [[x]] | y # ys \<Rightarrow> (x # y) # ys))"

text \<open>\<^verbatim>\<open>slice::join\<close>.\<close>

fun join :: "string \<Rightarrow> string list \<Rightarrow> string" where
  "join sep [] = []"
| "join sep [x] = x"
| "join sep (x # y # ys) = x @ sep @ join sep (y # ys)"

lemma split_on_ne [simp]: "split_on c s \<noteq> []"
  by (cases s) (auto split: list.splits)

lemma split_on_pieces: "\<forall>p \<in> set (split_on c s). c \<notin> set p"
proof (induction s)
  case (Cons x xs)
  then show ?case by (auto split: list.splits)
qed simp

lemma split_on_subset: "p \<in> set (split_on c s) \<Longrightarrow> set p \<subseteq> set s"
proof (induction s arbitrary: p)
  case (Cons a s)
  obtain y ys where "split_on c s = y # ys" by (cases "split_on c s") auto
  with Cons.IH Cons.prems show ?case by (fastforce split: if_splits)
qed simp

lemma split_on_clean: "c \<notin> set s \<Longrightarrow> split_on c s = [s]"
  by (induction s) auto

lemma split_on_append_sep:
  "c \<notin> set x \<Longrightarrow> split_on c (x @ c # s) = x # split_on c s"
  by (induction x) auto

lemma split_on_join:
  assumes "ps \<noteq> []" "\<forall>p \<in> set ps. c \<notin> set p"
  shows "split_on c (join [c] ps) = ps"
  using assms
proof (induction ps rule: induct_list012)
  case (3 x y zs)
  then show ?case by (simp add: split_on_append_sep)
qed (auto simp: split_on_clean)

lemma join_split_on: "join [c] (split_on c s) = s"
proof (induction s)
  case (Cons x xs)
  obtain y ys where s: "split_on c xs = y # ys" by (cases "split_on c xs") auto
  with Cons have j: "join [c] (y # ys) = xs" by simp
  show ?case
  proof (cases "x = c")
    case True
    with s j show ?thesis by simp
  next
    case False
    with s j show ?thesis by (cases ys) auto
  qed
qed simp

lemma join_snoc: "ps \<noteq> [] \<Longrightarrow> join sep (ps @ [q]) = join sep ps @ sep @ q"
  by (induction sep ps rule: join.induct) auto

lemma join_append:
  "ps \<noteq> [] \<Longrightarrow> qs \<noteq> [] \<Longrightarrow> join sep (ps @ qs) = join sep ps @ sep @ join sep qs"
proof (induction sep ps rule: join.induct)
  case (2 sep x)
  then show ?case by (cases qs) auto
qed auto

lemma set_join_subset: "set (join sep ps) \<subseteq> set sep \<union> (\<Union>p \<in> set ps. set p)"
  by (induction sep ps rule: join.induct) auto

text \<open>The part before the first \<open>c\<close> and, when there is one, the part after it.\<close>

fun break_on :: "char \<Rightarrow> string \<Rightarrow> string \<times> string option" where
  "break_on c [] = ([], None)"
| "break_on c (x # xs) =
     (if x = c then ([], Some xs)
      else (case break_on c xs of (a, b) \<Rightarrow> (x # a, b)))"

lemma break_on_clean: "c \<notin> set s \<Longrightarrow> break_on c s = (s, None)"
  by (induction s) auto

lemma break_on_sep: "c \<notin> set x \<Longrightarrow> break_on c (x @ c # r) = (x, Some r)"
  by (induction x) auto

lemma break_on_shorter: "break_on c s = (a, Some r) \<Longrightarrow> length r < length s"
  by (induction s arbitrary: a) (fastforce split: if_splits prod.splits)+

text \<open>\<^verbatim>\<open>str::lines\<close>: a final line without newline counts unless it is empty; a carriage
  return is dropped only in front of a newline.\<close>

definition strip_cr :: "string \<Rightarrow> string" where
  "strip_cr l = (if l \<noteq> [] \<and> byte_of (last l) = 13 then butlast l else l)"

lemmas break_on_shorter' = break_on_shorter [OF sym]

function lines :: "string \<Rightarrow> string list" where
  "lines s =
     (case break_on (CHR 0x0A) s of
        (l, None) \<Rightarrow> (if l = [] then [] else [l])
      | (l, Some r) \<Rightarrow> strip_cr l # lines r)"
  by pat_completeness auto
termination
  by (relation "measure length") (auto dest: break_on_shorter')

declare lines.simps [simp del]

lemma lines_Nil [simp]: "lines [] = []"
  by (subst lines.simps) simp

lemma lines_cons:
  assumes "CHR 0x0A \<notin> set l"
  shows "lines (l @ CHR 0x0A # r) = strip_cr l # lines r"
  by (subst lines.simps) (simp add: break_on_sep [OF assms])

lemma lines_last:
  assumes "CHR 0x0A \<notin> set l" "l \<noteq> []"
  shows "lines l = [l]"
  by (subst lines.simps) (use assms in \<open>simp add: break_on_clean\<close>)

text \<open>\<^verbatim>\<open>str::splitn(3, char::is_whitespace)\<close> and \<^verbatim>\<open>str::split_whitespace\<close>.\<close>

fun split_ws_once :: "string \<Rightarrow> string \<times> string option" where
  "split_ws_once [] = ([], None)"
| "split_ws_once (x # xs) =
     (if 0 < ws_len (x # xs) then ([], Some (drop (ws_len (x # xs)) (x # xs)))
      else (case split_ws_once xs of (a, b) \<Rightarrow> (x # a, b)))"

lemma split_ws_once_shorter: "split_ws_once s = (a, Some r) \<Longrightarrow> length r < length s"
  by (induction s arbitrary: a) (fastforce split: if_splits prod.splits)+

lemmas split_ws_once_shorter' = split_ws_once_shorter [OF sym]

fun splitn_ws :: "nat \<Rightarrow> string \<Rightarrow> string list" where
  "splitn_ws 0 s = []"
| "splitn_ws (Suc 0) s = [s]"
| "splitn_ws (Suc (Suc n)) s =
     (case split_ws_once s of
        (a, None) \<Rightarrow> [a]
      | (a, Some r) \<Rightarrow> a # splitn_ws (Suc n) r)"

function split_ws :: "string \<Rightarrow> string list" where
  "split_ws s =
     (case split_ws_once s of (a, None) \<Rightarrow> [a] | (a, Some r) \<Rightarrow> a # split_ws r)"
  by pat_completeness auto
termination
  by (relation "measure length") (auto dest: split_ws_once_shorter')

declare split_ws.simps [simp del]

definition split_whitespace :: "string \<Rightarrow> string list" where
  "split_whitespace s = filter (\<lambda>w. w \<noteq> []) (split_ws s)"

lemma split_ws_once_plain:
  "\<forall>c \<in> set x. plain_char c \<Longrightarrow> split_ws_once x = (x, None)"
  by (induction x) auto

lemma split_ws_once_sep:
  "\<forall>c \<in> set x. plain_char c \<Longrightarrow> split_ws_once (x @ CHR 0x20 # r) = (x, Some r)"
proof (induction x)
  case Nil
  have "ws_len (CHR 0x20 # r) = 1"
    by (cases "CHR 0x20 # r" rule: ws_len.cases) (auto simp: ascii_ws_def byte_of_def)
  then show ?case by simp
next
  case (Cons a x)
  then show ?case by simp
qed

text \<open>\<^verbatim>\<open>str::find\<close> of a substring: the byte offset of its first occurrence.\<close>

fun find_sub :: "string \<Rightarrow> string \<Rightarrow> nat option" where
  "find_sub p [] = (if p = [] then Some 0 else None)"
| "find_sub p (x # xs) =
     (if starts_with (x # xs) p then Some 0 else map_option Suc (find_sub p xs))"

text \<open>\<^verbatim>\<open>str::rfind(c)\<close>: the position of the last \<open>c\<close>.\<close>

fun rfind :: "char \<Rightarrow> string \<Rightarrow> nat option" where
  "rfind c [] = None"
| "rfind c (x # xs) =
     (case rfind c xs of
        Some i \<Rightarrow> Some (Suc i)
      | None \<Rightarrow> (if x = c then Some 0 else None))"

text \<open>\<^verbatim>\<open>str::replace\<close> of one byte by a string.\<close>

definition replace_char :: "char \<Rightarrow> string \<Rightarrow> string \<Rightarrow> string" where
  "replace_char c t s = concat (map (\<lambda>x. if x = c then t else [x]) s)"

text \<open>\<^verbatim>\<open>trim_matches(c)\<close> and \<^verbatim>\<open>trim_start_matches(c)\<close> on one ASCII character.\<close>

definition trim_start_char :: "char \<Rightarrow> string \<Rightarrow> string" where
  "trim_start_char c s = dropWhile (\<lambda>x. x = c) s"

definition trim_matches_char :: "char \<Rightarrow> string \<Rightarrow> string" where
  "trim_matches_char c s = rev (dropWhile (\<lambda>x. x = c) (rev (dropWhile (\<lambda>x. x = c) s)))"

section \<open>ASCII case, code points, UTF-8\<close>

definition ascii_lower :: "char \<Rightarrow> char" where
  "ascii_lower c = (if 65 \<le> byte_of c \<and> byte_of c \<le> 90 then char_of (byte_of c + 32) else c)"

definition to_ascii_lowercase :: "string \<Rightarrow> string" where
  "to_ascii_lowercase s = map ascii_lower s"

definition eq_ignore_ascii_case :: "string \<Rightarrow> string \<Rightarrow> bool" where
  "eq_ignore_ascii_case s t \<longleftrightarrow> to_ascii_lowercase s = to_ascii_lowercase t"

definition is_ascii_alphabetic :: "char \<Rightarrow> bool" where
  "is_ascii_alphabetic c \<longleftrightarrow>
     (65 \<le> byte_of c \<and> byte_of c \<le> 90) \<or> (97 \<le> byte_of c \<and> byte_of c \<le> 122)"

definition is_ascii_digit :: "char \<Rightarrow> bool" where
  "is_ascii_digit c \<longleftrightarrow> 48 \<le> byte_of c \<and> byte_of c \<le> 57"

definition utf8_cont :: "char \<Rightarrow> bool" where
  "utf8_cont c \<longleftrightarrow> 128 \<le> byte_of c \<and> byte_of c \<le> 191"

text \<open>\<^verbatim>\<open>s.chars()\<close> of a valid string, each character as its bytes, and its count.\<close>

function chars :: "string \<Rightarrow> string list" where
  "chars [] = []"
| "chars (x # xs) = (x # takeWhile utf8_cont xs) # chars (dropWhile utf8_cont xs)"
  by pat_completeness auto
termination
  by (relation "measure length") (auto simp: less_Suc_eq_le length_dropWhile_le)

lemma concat_chars [simp]: "concat (chars s) = s"
  by (induction s rule: chars.induct) auto

text \<open>\<^verbatim>\<open>std::str::from_utf8\<close>: well-formedness of the byte sequence.\<close>

function utf8_valid :: "string \<Rightarrow> bool" where
  "utf8_valid s =
    (case s of
       [] \<Rightarrow> True
     | a # r \<Rightarrow>
        (let n = byte_of a in
         if n < 128 then utf8_valid r
         else if 194 \<le> n \<and> n \<le> 223 then
           (case r of b # r' \<Rightarrow> utf8_cont b \<and> utf8_valid r' | _ \<Rightarrow> False)
         else if 224 \<le> n \<and> n \<le> 239 then
           (case r of
              b # c # r' \<Rightarrow>
                utf8_cont b \<and> utf8_cont c \<and> (n = 224 \<longrightarrow> 160 \<le> byte_of b) \<and>
                (n = 237 \<longrightarrow> byte_of b \<le> 159) \<and> utf8_valid r'
            | _ \<Rightarrow> False)
         else if 240 \<le> n \<and> n \<le> 244 then
           (case r of
              b # c # d # r' \<Rightarrow>
                utf8_cont b \<and> utf8_cont c \<and> utf8_cont d \<and> (n = 240 \<longrightarrow> 144 \<le> byte_of b) \<and>
                (n = 244 \<longrightarrow> byte_of b \<le> 143) \<and> utf8_valid r'
            | _ \<Rightarrow> False)
         else False))"
  by pat_completeness auto
termination
  by (relation "measure length") auto

declare utf8_valid.simps [simp del]

definition from_utf8 :: "byte list \<Rightarrow> string option" where
  "from_utf8 bs = (if utf8_valid (of_bytes bs) then Some (of_bytes bs) else None)"

lemma utf8_valid_ascii: "\<forall>c \<in> set s. byte_of c < 128 \<Longrightarrow> utf8_valid s"
  by (induction s) (simp_all add: utf8_valid.simps)

lemma from_utf8_Some: "from_utf8 bs = Some s \<Longrightarrow> bs = as_bytes s"
  by (auto simp: from_utf8_def split: if_splits)

section \<open>Integers as text\<close>

definition digit_val :: "char \<Rightarrow> nat" where
  "digit_val c = byte_of c - 48"

definition parse_digits :: "string \<Rightarrow> nat option" where
  "parse_digits s =
     (if s \<noteq> [] \<and> list_all is_ascii_digit s
      then Some (foldl (\<lambda>n c. 10 * n + digit_val c) 0 s) else None)"

definition i64_ok :: "int \<Rightarrow> bool" where
  "i64_ok n \<longleftrightarrow> - 9223372036854775808 \<le> n \<and> n \<le> 9223372036854775807"

text \<open>\<^verbatim>\<open>str::parse::<i64>\<close>: an optional sign, at least one digit, no overflow.\<close>

definition parse_i64 :: "string \<Rightarrow> int option" where
  "parse_i64 s =
     (let (neg, ds) =
        (case s of
           c # r \<Rightarrow> if c = CHR ''-'' then (True, r) else if c = CHR ''+'' then (False, r)
                    else (False, s)
         | [] \<Rightarrow> (False, []))
      in case parse_digits ds of
           None \<Rightarrow> None
         | Some n \<Rightarrow> let v = (if neg then - int n else int n) in if i64_ok v then Some v else None)"

fun show_nat :: "nat \<Rightarrow> string" where
  "show_nat n = (if n < 10 then [char_of (48 + n)] else show_nat (n div 10) @ [char_of (48 + n mod 10)])"

declare show_nat.simps [simp del]

definition show_int :: "int \<Rightarrow> string" where
  "show_int i = (if i < 0 then CHR ''-'' # show_nat (nat (- i)) else show_nat (nat i))"

text \<open>\<^verbatim>\<open>i64::checked_mul\<close>, and \<^verbatim>\<open>u64\<close> arithmetic that saturates.\<close>

definition checked_mul_i64 :: "int \<Rightarrow> int \<Rightarrow> int option" where
  "checked_mul_i64 a b = (if i64_ok (a * b) then Some (a * b) else None)"

lemma parse_i64_range: "parse_i64 s = Some n \<Longrightarrow> i64_ok n"
  by (auto simp: parse_i64_def Let_def split: option.splits prod.splits if_splits)

end
