(* ===== verification/Automerge.thy ===== *)
theory Automerge
  imports RustStd "HOL-Library.AList"
begin

text \<open>
  The interface of the third-party crate \<^verbatim>\<open>automerge\<close> as the code uses it: a record of the
  operations of \<^verbatim>\<open>AutoCommit\<close> (the parameter of every document operation of the model), the
  JSON-like tree a document shows, the laws of the operations the code relies on as two
  locales, and an in-memory document store that satisfies them.
\<close>

section \<open>Values and operations\<close>

text \<open>\<^verbatim>\<open>ChangeHash\<close> is 32 bytes; \<^verbatim>\<open>Change\<close> is read through its hash, time stamp and parents.\<close>

type_synonym change_hash = "byte list"

record change =
  ch_hash :: change_hash
  ch_time :: int
  ch_deps :: "change_hash list"

datatype scalar =
    SStr string
  | SInt int
  | SUint "64 word"
  | SBytes "byte list"
  | SNull
  | SOther

datatype obj_type = OMap | OText | OList

datatype am_value = VObject obj_type | VScalar scalar

text \<open>
  \<open>'d\<close> is the document handle, \<open>'o\<close> the object ids, \<open>'y\<close> the state of a sync session. A
  method on \<^verbatim>\<open>&mut self\<close> returns the document it leaves; a failed one leaves it unchanged.
\<close>

record ('d, 'o, 'y) automerge =
  am_new :: "'d"
  am_root :: "'o"
  am_set_actor :: "'d \<Rightarrow> byte list option \<Rightarrow> 'd"
  am_get :: "'d \<Rightarrow> 'o \<Rightarrow> string \<Rightarrow> (am_value \<times> 'o) option result"
  am_keys :: "'d \<Rightarrow> 'o \<Rightarrow> string list"
  am_text :: "'d \<Rightarrow> 'o \<Rightarrow> string result"
  am_put :: "'d \<Rightarrow> 'o \<Rightarrow> string \<Rightarrow> scalar \<Rightarrow> 'd result"
  am_put_object :: "'d \<Rightarrow> 'o \<Rightarrow> string \<Rightarrow> obj_type \<Rightarrow> ('d \<times> 'o) result"
  am_delete :: "'d \<Rightarrow> 'o \<Rightarrow> string \<Rightarrow> 'd result"
  am_splice_text :: "'d \<Rightarrow> 'o \<Rightarrow> nat \<Rightarrow> int \<Rightarrow> string \<Rightarrow> 'd result"
  am_commit_with :: "'d \<Rightarrow> int \<Rightarrow> 'd"
  am_get_heads :: "'d \<Rightarrow> change_hash list \<times> 'd"
  am_get_changes :: "'d \<Rightarrow> change list \<times> 'd"
  am_fork :: "'d \<Rightarrow> 'd \<times> 'd"
  am_fork_at :: "'d \<Rightarrow> change_hash list \<Rightarrow> ('d \<times> 'd) result"
  am_load :: "byte list \<Rightarrow> 'd result"
  am_save :: "'d \<Rightarrow> byte list \<times> 'd"
  am_save_incremental :: "'d \<Rightarrow> byte list \<times> 'd"
  am_merge :: "'d \<Rightarrow> 'd \<Rightarrow> ('d \<times> 'd) result"
  am_sync_new :: "'y"
  am_generate_sync :: "'d \<Rightarrow> 'y \<Rightarrow> byte list option \<times> 'd \<times> 'y"
  am_decode_sync :: "byte list \<Rightarrow> byte list result"
  am_receive_sync :: "'d \<Rightarrow> 'y \<Rightarrow> byte list \<Rightarrow> ('d \<times> 'y) result"

section \<open>The document as a tree\<close>

datatype node =
    Leaf scalar
  | Text string
  | Branch "string \<Rightarrow> node option"
  | OtherObj

fun value_of :: "node \<Rightarrow> am_value" where
  "value_of (Leaf v) = VScalar v"
| "value_of (Text _) = VObject OText"
| "value_of (Branch _) = VObject OMap"
| "value_of OtherObj = VObject OList"

fun node_at :: "node \<Rightarrow> string list \<Rightarrow> node option" where
  "node_at n [] = Some n"
| "node_at (Branch m) (k # ks) = (case m k of None \<Rightarrow> None | Some n \<Rightarrow> node_at n ks)"
| "node_at _ (_ # _) = None"

text \<open>Change the node at a path; a path that leads nowhere changes nothing.\<close>

fun modify :: "string list \<Rightarrow> (node \<Rightarrow> node) \<Rightarrow> node \<Rightarrow> node" where
  "modify [] f n = f n"
| "modify (k # ks) f (Branch m) = Branch (m(k := map_option (modify ks f) (m k)))"
| "modify (_ # _) f n = n"

fun set_key :: "string \<Rightarrow> node option \<Rightarrow> node \<Rightarrow> node" where
  "set_key k x (Branch m) = Branch (m(k := x))"
| "set_key k x n = n"

text \<open>\<^verbatim>\<open>splice_text(pos, del, s)\<close> counts Unicode scalar values.\<close>

fun splice :: "nat \<Rightarrow> int \<Rightarrow> string \<Rightarrow> node \<Rightarrow> node" where
  "splice pos del s (Text t) =
     Text (concat (take pos (chars t)) @ s @ concat (drop (pos + nat del) (chars t)))"
| "splice pos del s n = n"

fun empty_obj :: "obj_type \<Rightarrow> node" where
  "empty_obj OMap = Branch Map.empty"
| "empty_obj OText = Text []"
| "empty_obj OList = OtherObj"

lemma node_at_append:
  "node_at n (ks @ ls) = (case node_at n ks of None \<Rightarrow> None | Some m \<Rightarrow> node_at m ls)"
  by (induction n ks rule: node_at.induct) (auto split: option.splits)

lemma node_at_modify: "node_at (modify ks f n) ks = map_option f (node_at n ks)"
  by (induction ks f n rule: modify.induct) (auto split: option.splits)

lemma modify_comp: "modify ks f (modify ks g n) = modify ks (\<lambda>x. f (g x)) n"
proof (induction ks g n rule: modify.induct)
  case (2 k ks g m)
  then show ?case by (cases "m k") auto
qed auto

lemma modify_cong_at:
  "(\<And>x. node_at n ks = Some x \<Longrightarrow> f x = g x) \<Longrightarrow> modify ks f n = modify ks g n"
proof (induction ks g n rule: modify.induct)
  case (2 k ks g m)
  then show ?case by (cases "m k") auto
qed auto

lemma modify_id: "node_at n ks = Some x \<Longrightarrow> f x = x \<Longrightarrow> modify ks f n = n"
proof (induction ks f n rule: modify.induct)
  case (2 k ks f m)
  then show ?case by (cases "m k") auto
qed auto

lemma splice_replace: "splice 0 (int (length (chars t))) s (Text t) = Text s"
  by simp

lemma splice_insert_empty: "splice 0 0 s (Text []) = Text s"
  by simp

section \<open>The laws\<close>

text \<open>
  \<open>tree d\<close> is what the document shows and \<open>oid d path\<close> the id of the object at a path. A
  mutation at a path changes the tree there and only there, and keeps the id of every object
  that is not at or below the key it wrote.
\<close>

locale automerge_doc =
  fixes am :: "('d, 'o, 'y) automerge"
    and tree :: "'d \<Rightarrow> node"
    and oid :: "'d \<Rightarrow> string list \<Rightarrow> 'o"
  assumes root_id: "oid d [] = am_root am"
    and get_law: "node_at (tree d) p = Some (Branch m) \<Longrightarrow>
      am_get am d (oid d p) k = Ok (map_option (\<lambda>n. (value_of n, oid d (p @ [k]))) (m k))"
    and keys_law: "node_at (tree d) p = Some (Branch m) \<Longrightarrow>
      distinct (am_keys am d (oid d p)) \<and> set (am_keys am d (oid d p)) = dom m"
    and text_law: "node_at (tree d) p = Some (Text s) \<Longrightarrow> am_text am d (oid d p) = Ok s"
    and put_law: "node_at (tree d) p = Some (Branch m) \<Longrightarrow>
      \<exists>d'. am_put am d (oid d p) k v = Ok d' \<and>
           tree d' = modify p (set_key k (Some (Leaf v))) (tree d) \<and>
           (\<forall>q. \<not> prefix (p @ [k]) q \<longrightarrow> oid d' q = oid d q)"
    and put_object_law: "node_at (tree d) p = Some (Branch m) \<Longrightarrow>
      \<exists>d'. am_put_object am d (oid d p) k ty = Ok (d', oid d' (p @ [k])) \<and>
           tree d' = modify p (set_key k (Some (empty_obj ty))) (tree d) \<and>
           (\<forall>q. \<not> prefix (p @ [k]) q \<longrightarrow> oid d' q = oid d q)"
    and delete_law: "node_at (tree d) p = Some (Branch m) \<Longrightarrow>
      \<exists>d'. am_delete am d (oid d p) k = Ok d' \<and>
           tree d' = modify p (set_key k None) (tree d) \<and>
           (\<forall>q. \<not> prefix (p @ [k]) q \<longrightarrow> oid d' q = oid d q)"
    and splice_law: "node_at (tree d) p = Some (Text s) \<Longrightarrow> pos \<le> length (chars s) \<Longrightarrow>
      0 \<le> del \<Longrightarrow> pos + nat del \<le> length (chars s) \<Longrightarrow>
      \<exists>d'. am_splice_text am d (oid d p) pos del t = Ok d' \<and>
           tree d' = modify p (splice pos del t) (tree d) \<and> oid d' = oid d"
    and commit_law: "tree (am_commit_with am d time) = tree d \<and>
      oid (am_commit_with am d time) = oid d"

text \<open>
  History: \<open>known d hs t\<close> says that the heads \<open>hs\<close> name a past state of \<open>d\<close> that showed \<open>t\<close>.
  What is known stays known, the current heads name the current state, and forking at known
  heads gives a document in that state.
\<close>

locale automerge_history = automerge_doc am tree oid
  for am :: "('d, 'o, 'y) automerge" and tree :: "'d \<Rightarrow> node"
    and oid :: "'d \<Rightarrow> string list \<Rightarrow> 'o" +
  fixes known :: "'d \<Rightarrow> change_hash list \<Rightarrow> node \<Rightarrow> bool"
  assumes new_law: "tree (am_new am) = Branch Map.empty"
    and actor_law: "tree (am_set_actor am d a) = tree d \<and>
      (\<forall>hs t. known d hs t \<longrightarrow> known (am_set_actor am d a) hs t)"
    and heads_law: "am_get_heads am d = (hs, d') \<Longrightarrow>
      tree d' = tree d \<and> oid d' = oid d \<and> known d' hs (tree d) \<and>
      (\<forall>gs t. known d gs t \<longrightarrow> known d' gs t)"
    and known_put: "am_put am d x k v = Ok d' \<Longrightarrow> known d hs t \<Longrightarrow> known d' hs t"
    and known_put_object: "am_put_object am d x k ty = Ok (d', y) \<Longrightarrow> known d hs t \<Longrightarrow> known d' hs t"
    and known_delete: "am_delete am d x k = Ok d' \<Longrightarrow> known d hs t \<Longrightarrow> known d' hs t"
    and known_splice: "am_splice_text am d x pos del s = Ok d' \<Longrightarrow> known d hs t \<Longrightarrow> known d' hs t"
    and known_commit: "known d hs t \<Longrightarrow> known (am_commit_with am d time) hs t"
    and fork_at_law: "known d hs t \<Longrightarrow>
      \<exists>p d'. am_fork_at am d hs = Ok (p, d') \<and> tree p = t \<and> tree d' = tree d \<and>
             oid d' = oid d \<and> (\<forall>gs u. known d gs u \<longrightarrow> known d' gs u)"

end
