(* ===== verification/Crypto.thy ===== *)
theory Crypto
  imports RustStd
begin

text \<open>
  The third-party crates the code hashes, encodes and signs with: \<^verbatim>\<open>sha2\<close>, \<^verbatim>\<open>hex\<close>, \<^verbatim>\<open>base64\<close>
  (padded and unpadded standard alphabet) and \<^verbatim>\<open>ed25519-dalek\<close>, as a record of operations. The
  laws the code relies on are the locales below.
\<close>

record crypto =
  sha256 :: "byte list \<Rightarrow> byte list"
  hex_encode :: "byte list \<Rightarrow> string"
  b64_encode :: "byte list \<Rightarrow> string"
  b64_decode :: "string \<Rightarrow> byte list option"
  b64np_encode :: "byte list \<Rightarrow> string"
  b64np_decode :: "string \<Rightarrow> byte list option"
  ed_public :: "byte list \<Rightarrow> byte list"
  ed_sign :: "byte list \<Rightarrow> byte list \<Rightarrow> byte list"
  ed_verify :: "byte list \<Rightarrow> byte list \<Rightarrow> byte list \<Rightarrow> bool"

text \<open>
  Base64: decoding inverts encoding, and the encoded text of a non-empty buffer is non-empty
  and printable ASCII without a backtick.
\<close>

definition b64_char :: "char \<Rightarrow> bool" where
  "b64_char c \<longleftrightarrow> is_ascii_alphabetic c \<or> is_ascii_digit c \<or> c = CHR ''+'' \<or> c = CHR ''/'' \<or> c = CHR ''=''"

lemma b64_char_plain: "b64_char c \<Longrightarrow> plain_char c"
  by (auto simp: b64_char_def plain_char_def is_ascii_alphabetic_def is_ascii_digit_def byte_of_def)

locale base64_codec =
  fixes c :: crypto
  assumes b64_inverse: "b64_decode c (b64_encode c bs) = Some bs"
    and b64_chars: "\<forall>x \<in> set (b64_encode c bs). b64_char x"
    and b64_ne: "bs \<noteq> [] \<Longrightarrow> b64_encode c bs \<noteq> []"
    and b64np_inverse: "b64np_decode c (b64np_encode c bs) = Some bs"
    and b64np_chars: "\<forall>x \<in> set (b64np_encode c bs). b64_char x"
    and b64np_ne: "bs \<noteq> [] \<Longrightarrow> b64np_encode c bs \<noteq> []"
begin

lemma b64_plain: "\<forall>x \<in> set (b64_encode c bs). plain_char x"
  using b64_chars b64_char_plain by blast

lemma b64np_plain: "\<forall>x \<in> set (b64np_encode c bs). plain_char x"
  using b64np_chars b64_char_plain by blast

end

text \<open>Ed25519: key and signature lengths, and verification of an honest signature.\<close>

locale ed25519 =
  fixes c :: crypto
  assumes public_length: "length (ed_public c seed) = 32"
    and sign_length: "length (ed_sign c seed msg) = 64"
    and sign_verify: "ed_verify c (ed_public c seed) msg (ed_sign c seed msg)"

text \<open>SHA-256 gives 32 bytes; \<^verbatim>\<open>hex\<close> is injective and gives two letters or digits for each byte.\<close>

locale sha_hex =
  fixes c :: crypto
  assumes sha_length: "length (sha256 c bs) = 32"
    and hex_inject: "hex_encode c xs = hex_encode c ys \<Longrightarrow> xs = ys"
    and hex_length: "length (hex_encode c xs) = 2 * length xs"
    and hex_chars: "\<forall>x \<in> set (hex_encode c xs). is_ascii_alphabetic x \<or> is_ascii_digit x"

locale crypto_laws = base64_codec c + ed25519 c + sha_hex c for c :: crypto

section \<open>\<^verbatim>\<open>doc/mod.rs\<close>: \<^verbatim>\<open>content_hash\<close>\<close>

definition content_hash :: "crypto \<Rightarrow> byte list \<Rightarrow> string" where
  "content_hash c bs = hex_encode c (sha256 c bs)"

section \<open>A concrete instance\<close>

text \<open>
  RFC 4648 base64 with the standard alphabet, lower-case hex, and a digest and a signature
  scheme that are cheap to evaluate: the digest of a buffer is its length and a running sum,
  the public key of a seed is the seed cut to 32 bytes, and a signature repeats the key and
  the digest of the message.
\<close>

definition b64_digit :: "nat \<Rightarrow> char" where
  "b64_digit n =
     (if n < 26 then char_of (65 + n)
      else if n < 52 then char_of (71 + n)
      else if n < 62 then char_of (n - 4)
      else if n = 62 then CHR ''+'' else CHR ''/'')"

definition b64_index :: "char \<Rightarrow> nat option" where
  "b64_index ch =
     (let n = byte_of ch in
      if 65 \<le> n \<and> n \<le> 90 then Some (n - 65)
      else if 97 \<le> n \<and> n \<le> 122 then Some (n - 71)
      else if 48 \<le> n \<and> n \<le> 57 then Some (n + 4)
      else if n = 43 then Some 62 else if n = 47 then Some 63 else None)"

fun rfc_encode :: "bool \<Rightarrow> byte list \<Rightarrow> string" where
  "rfc_encode pad [] = []"
| "rfc_encode pad [a] =
     b64_digit (unat a div 4) # b64_digit (unat a mod 4 * 16) # (if pad then ''=='' else [])"
| "rfc_encode pad [a, b] =
     b64_digit (unat a div 4) # b64_digit (unat a mod 4 * 16 + unat b div 16) #
     b64_digit (unat b mod 16 * 4) # (if pad then ''='' else [])"
| "rfc_encode pad (a # b # d # r) =
     b64_digit (unat a div 4) # b64_digit (unat a mod 4 * 16 + unat b div 16) #
     b64_digit (unat b mod 16 * 4 + unat d div 64) # b64_digit (unat d mod 64) # rfc_encode pad r"

fun rfc_decode_np :: "string \<Rightarrow> byte list option" where
  "rfc_decode_np [] = Some []"
| "rfc_decode_np [_] = None"
| "rfc_decode_np [w, x] =
     (case (b64_index w, b64_index x) of
        (Some i, Some j) \<Rightarrow> if j mod 16 = 0 then Some [of_nat (i * 4 + j div 16)] else None
      | _ \<Rightarrow> None)"
| "rfc_decode_np [w, x, y] =
     (case (b64_index w, b64_index x, b64_index y) of
        (Some i, Some j, Some k) \<Rightarrow>
          if k mod 4 = 0
          then Some [of_nat (i * 4 + j div 16), of_nat (j mod 16 * 16 + k div 4)] else None
      | _ \<Rightarrow> None)"
| "rfc_decode_np (w # x # y # z # r) =
     (case (b64_index w, b64_index x, b64_index y, b64_index z, rfc_decode_np r) of
        (Some i, Some j, Some k, Some l, Some bs) \<Rightarrow>
          Some (of_nat (i * 4 + j div 16) # of_nat (j mod 16 * 16 + k div 4) #
                of_nat (k mod 4 * 64 + l) # bs)
      | _ \<Rightarrow> None)"

definition rfc_unpad :: "string \<Rightarrow> string" where
  "rfc_unpad s = rev (dropWhile (\<lambda>ch. ch = CHR ''='') (rev s))"

definition rfc_decode :: "string \<Rightarrow> byte list option" where
  "rfc_decode s =
     (if length s mod 4 = 0 \<and> length s - length (rfc_unpad s) \<le> 2
      then rfc_decode_np (rfc_unpad s) else None)"

lemma b64_digit_cases:
  assumes "n < 64"
  shows "b64_index (b64_digit n) = Some n" "b64_char (b64_digit n)" "b64_digit n \<noteq> CHR ''=''"
proof -
  have *: "byte_of (b64_digit n) =
      (if n < 26 then 65 + n else if n < 52 then 71 + n else if n < 62 then n - 4
       else if n = 62 then 43 else 47)"
    using assms by (simp add: b64_digit_def byte_of_def)
  show "b64_index (b64_digit n) = Some n"
    using assms unfolding b64_index_def Let_def * by auto
  show "b64_char (b64_digit n)"
    using assms
    unfolding b64_char_def is_ascii_alphabetic_def is_ascii_digit_def *
    by (auto simp: b64_digit_def)
  show "b64_digit n \<noteq> CHR ''=''"
  proof
    assume "b64_digit n = CHR ''=''"
    then have "byte_of (b64_digit n) = 61" by (simp add: byte_of_def)
    with * assms show False by (auto split: if_splits)
  qed
qed

lemma unat_byte: "unat (a :: byte) < 256"
  using unsigned_less [of a, where ?'a = nat] by simp

lemma b64_parts:
  fixes a b d :: byte
  shows "unat a div 4 < 64" "unat a mod 4 * 16 < 64" "unat a mod 4 * 16 + unat b div 16 < 64"
    "unat b mod 16 * 4 < 64" "unat b mod 16 * 4 + unat d div 64 < 64" "unat d mod 64 < 64"
  using unat_byte [of a] unat_byte [of b] unat_byte [of d]
  by (simp_all add: less_mult_imp_div_less)

lemma b64_join:
  fixes a b d :: byte
  shows "of_nat (unat a div 4 * 4 + unat a mod 4 * 16 div 16) = a"
    "of_nat (unat a div 4 * 4 + (unat a mod 4 * 16 + unat b div 16) div 16) = a"
    "of_nat ((unat a mod 4 * 16 + unat b div 16) mod 16 * 16 + unat b mod 16 * 4 div 4) = b"
    "of_nat ((unat a mod 4 * 16 + unat b div 16) mod 16 * 16 +
       (unat b mod 16 * 4 + unat d div 64) div 4) = b"
    "of_nat ((unat b mod 16 * 4 + unat d div 64) mod 4 * 64 + unat d mod 64) = d"
proof -
  have b16: "unat b div 16 < 16" and d64: "unat d div 64 < 4"
    using unat_byte [of b] unat_byte [of d] by (simp_all add: less_mult_imp_div_less)
  have 1: "unat a div 4 * 4 + unat a mod 4 * 16 div 16 = unat a"
    and 2: "unat a div 4 * 4 + (unat a mod 4 * 16 + unat b div 16) div 16 = unat a"
    and 3: "(unat a mod 4 * 16 + unat b div 16) mod 16 * 16 + unat b mod 16 * 4 div 4 = unat b"
    and 4: "(unat a mod 4 * 16 + unat b div 16) mod 16 * 16 +
       (unat b mod 16 * 4 + unat d div 64) div 4 = unat b"
    and 5: "(unat b mod 16 * 4 + unat d div 64) mod 4 * 64 + unat d mod 64 = unat d"
    using b16 d64 by simp_all
  show "of_nat (unat a div 4 * 4 + unat a mod 4 * 16 div 16) = a"
    "of_nat (unat a div 4 * 4 + (unat a mod 4 * 16 + unat b div 16) div 16) = a"
    "of_nat ((unat a mod 4 * 16 + unat b div 16) mod 16 * 16 + unat b mod 16 * 4 div 4) = b"
    "of_nat ((unat a mod 4 * 16 + unat b div 16) mod 16 * 16 +
       (unat b mod 16 * 4 + unat d div 64) div 4) = b"
    "of_nat ((unat b mod 16 * 4 + unat d div 64) mod 4 * 64 + unat d mod 64) = d"
    unfolding 1 2 3 4 5 by simp_all
qed

lemma b64_fit:
  fixes a b d :: byte
  shows "unat b mod 16 * 4 mod 4 = 0" "unat a mod 4 * 16 mod 16 = 0"
  by simp_all

lemma rfc_np_inverse: "rfc_decode_np (rfc_encode False bs) = Some bs"
proof (induction "False" bs rule: rfc_encode.induct)
  case (2 a)
  show ?case
    by (simp only: rfc_encode.simps rfc_decode_np.simps if_False b64_digit_cases b64_parts
        option.case prod.case b64_fit b64_join if_True refl)
next
  case (3 a b)
  show ?case
    by (simp only: rfc_encode.simps rfc_decode_np.simps if_False b64_digit_cases b64_parts
        option.case prod.case b64_fit b64_join if_True refl)
next
  case (4 a b d r)
  then show ?case
    by (simp only: rfc_encode.simps rfc_decode_np.simps b64_digit_cases b64_parts
        option.case prod.case b64_join)
qed simp

lemma b64_eq_char: "b64_char (CHR ''='')"
  by (simp add: b64_char_def)

lemma rfc_chars: "\<forall>x \<in> set (rfc_encode pad bs). b64_char x"
  by (induction pad bs rule: rfc_encode.induct)
     (simp_all add: b64_digit_cases(2) b64_parts b64_eq_char)

lemma rfc_np_no_pad: "\<forall>x \<in> set (rfc_encode False bs). x \<noteq> CHR ''=''"
  by (induction "False" bs rule: rfc_encode.induct)
     (simp_all add: b64_digit_cases(3) b64_parts)

lemma rfc_pad:
  "rfc_encode True bs =
     rfc_encode False bs @ replicate (if length bs mod 3 = 0 then 0 else 3 - length bs mod 3) (CHR ''='')"
proof (induction "True" bs rule: rfc_encode.induct)
  case (4 a b d r)
  have "length (a # b # d # r) mod 3 = length r mod 3" by (simp add: numeral_3_eq_3 [symmetric] mod_add_self2 [of "length r" 3, unfolded numeral_3_eq_3])
  with 4 show ?case by simp
qed (simp_all add: numeral_2_eq_2)

lemma rfc_length: "length (rfc_encode True bs) mod 4 = 0"
proof (induction "True" bs rule: rfc_encode.induct)
  case (4 a b d r)
  then show ?case by (simp add: mod_Suc)
qed simp_all

lemma rfc_inverse: "rfc_decode (rfc_encode True bs) = Some bs"
proof -
  let ?n = "if length bs mod 3 = 0 then 0 else 3 - length bs mod 3"
  have "rfc_unpad (rfc_encode True bs) = rfc_encode False bs"
  proof -
    have rep: "dropWhile (\<lambda>ch. ch = CHR ''='') (replicate n (CHR ''='') @ ys) =
        dropWhile (\<lambda>ch. ch = CHR ''='') ys" for n ys
      by (induction n) simp_all
    have "dropWhile (\<lambda>ch. ch = CHR ''='') (rev (rfc_encode False bs)) = rev (rfc_encode False bs)"
      using rfc_np_no_pad [of bs] by (cases "rev (rfc_encode False bs)") (auto simp: rev_eq_Cons_iff)
    then show ?thesis by (simp add: rfc_unpad_def rfc_pad rep)
  qed
  moreover have "length (rfc_encode True bs) - length (rfc_encode False bs) \<le> 2"
  proof -
    have "k \<noteq> 0 \<Longrightarrow> 3 - k \<le> 2" for k :: nat by arith
    then show ?thesis by (simp add: rfc_pad)
  qed
  ultimately show ?thesis
    using rfc_length [of bs] by (simp add: rfc_decode_def rfc_np_inverse)
qed

definition hex_digit :: "nat \<Rightarrow> char" where
  "hex_digit n = (if n < 10 then char_of (48 + n) else char_of (87 + n))"

definition lower_hex :: "byte list \<Rightarrow> string" where
  "lower_hex bs = concat (map (\<lambda>b. [hex_digit (unat b div 16), hex_digit (unat b mod 16)]) bs)"

lemma hex_digit_inject:
  assumes "m < 16" "n < 16" "hex_digit m = hex_digit n"
  shows "m = n"
proof -
  have b: "byte_of (hex_digit k) = (if k < 10 then 48 + k else 87 + k)" if "k < 16" for k
    using that by (simp add: hex_digit_def byte_of_def)
  have "(if m < 10 then 48 + m else 87 + m) = (if n < 10 then 48 + n else 87 + n)"
    using b [OF assms(1)] b [OF assms(2)] assms(3) by simp
  then show ?thesis by (cases "m < 10"; cases "n < 10") simp_all
qed

lemma lower_hex_inject: "lower_hex xs = lower_hex ys \<Longrightarrow> xs = ys"
proof (induction xs arbitrary: ys)
  case Nil
  then show ?case by (cases ys) (simp_all add: lower_hex_def)
next
  case (Cons x xs)
  then obtain y zs where ys: "ys = y # zs" by (cases ys) (simp_all add: lower_hex_def)
  with Cons.prems have h: "hex_digit (unat x div 16) = hex_digit (unat y div 16)"
    "hex_digit (unat x mod 16) = hex_digit (unat y mod 16)" "lower_hex xs = lower_hex zs"
    by (simp_all add: lower_hex_def)
  have "unat x div 16 = unat y div 16"
    by (rule hex_digit_inject) (use h unat_byte [of x] unat_byte [of y] in \<open>simp_all add: less_mult_imp_div_less\<close>)
  moreover have "unat x mod 16 = unat y mod 16"
    by (rule hex_digit_inject) (use h in simp_all)
  ultimately have "unat x = unat y" by (metis div_mult_mod_eq)
  then have "x = y" by (simp add: word_unat_eq_iff)
  with Cons.IH h(3) ys show ?case by simp
qed

lemma lower_hex_length: "length (lower_hex bs) = 2 * length bs"
  by (induction bs) (simp_all add: lower_hex_def)

lemma hex_digit_char: "n < 16 \<Longrightarrow> is_ascii_alphabetic (hex_digit n) \<or> is_ascii_digit (hex_digit n)"
  by (auto simp: hex_digit_def is_ascii_alphabetic_def is_ascii_digit_def byte_of_def)

lemma lower_hex_chars: "\<forall>x \<in> set (lower_hex bs). is_ascii_alphabetic x \<or> is_ascii_digit x"
proof -
  have "is_ascii_alphabetic (hex_digit (unat b div 16)) \<or> is_ascii_digit (hex_digit (unat b div 16))"
    "is_ascii_alphabetic (hex_digit (unat b mod 16)) \<or> is_ascii_digit (hex_digit (unat b mod 16))" for b :: byte
    by (rule hex_digit_char, use unat_byte [of b] in \<open>simp add: less_mult_imp_div_less\<close>)+
  then show ?thesis by (auto simp: lower_hex_def)
qed

definition fit :: "nat \<Rightarrow> byte list \<Rightarrow> byte list" where
  "fit n bs = take n (bs @ replicate n 0)"

lemma length_fit [simp]: "length (fit n bs) = n"
  by (simp add: fit_def)

lemma fit_id: "length bs = n \<Longrightarrow> fit n bs = bs"
  by (simp add: fit_def)

definition toy_digest :: "byte list \<Rightarrow> byte list" where
  "toy_digest bs = fit 32 (u32_be (length bs) @ [foldl (+) 0 bs] @ bs)"

definition example_crypto :: crypto where
  "example_crypto = \<lparr>
     sha256 = toy_digest,
     hex_encode = lower_hex,
     b64_encode = rfc_encode True,
     b64_decode = rfc_decode,
     b64np_encode = rfc_encode False,
     b64np_decode = rfc_decode_np,
     ed_public = fit 32,
     ed_sign = (\<lambda>seed msg. fit 32 seed @ toy_digest msg),
     ed_verify = (\<lambda>pk msg sig. sig = fit 32 pk @ toy_digest msg)\<rparr>"

lemma rfc_encode_ne: "bs \<noteq> [] \<Longrightarrow> rfc_encode pad bs \<noteq> []"
  by (cases "(pad, bs)" rule: rfc_encode.cases) simp_all

interpretation ex: crypto_laws example_crypto
  by unfold_locales
    (simp_all add: example_crypto_def rfc_inverse rfc_np_inverse rfc_chars rfc_encode_ne
      toy_digest_def fit_id lower_hex_inject lower_hex_length lower_hex_chars del: rfc_encode.simps)

end
