(* ===== verification/Doc.thy ===== *)
theory Doc
  imports Automerge Crypto
begin

text \<open>
  \<^verbatim>\<open>crates/agentsync-core/src/doc/mod.rs\<close>: the document of a vault, its schema, the
  accessors every document operation is written with, and merge and sync. The second half
  relates the accessors to the tree a document shows (\<^theory_text>\<open>Automerge\<close>): reads return what the
  tree holds, and \<open>edited\<close> says that a run of writes changed one object of it.
\<close>

section \<open>Data\<close>

definition SCHEMA_VERSION :: int where
  "SCHEMA_VERSION = 1"

datatype file_kind = KText | KAttachment

fun kind_as_str :: "file_kind \<Rightarrow> string" where
  "kind_as_str KText = ''text''"
| "kind_as_str KAttachment = ''attachment''"

definition kind_parse :: "string \<Rightarrow> file_kind result" where
  "kind_parse s =
     (if s = ''text'' then Ok KText
      else if s = ''attachment'' then Ok KAttachment
      else Err (Other (''unknown file kind: '' @ s)))"

record file_meta =
  fm_id :: string
  fm_path :: string
  fm_kind :: file_kind
  fm_size :: int
  fm_created_at :: int
  fm_updated_at :: int
  fm_deleted_at :: "int option"
  fm_binary_hash :: "string option"

record directory_meta =
  dm_id :: string
  dm_path :: string
  dm_created_at :: int
  dm_deleted_at :: "int option"

record label =
  lb_name :: string
  lb_heads :: "change_hash list"
  lb_created_at :: int

text \<open>
  What the operations read from outside: the n-th reading of the wall clock and the n-th
  random UUID.
\<close>

record host =
  host_time :: "nat \<Rightarrow> int"
  host_tick :: nat
  host_ids :: "nat \<Rightarrow> string"
  host_drawn :: nat

record 'd doc =
  inner :: 'd
  host :: host

section \<open>Clock and ids\<close>

definition now_ms :: "('d doc, int) action" where
  "now_ms s = (Ok (host_time (host s) (host_tick (host s))),
               s\<lparr>host := (host s)\<lparr>host_tick := Suc (host_tick (host s))\<rparr>\<rparr>)"

definition new_id :: "('d doc, string) action" where
  "new_id s = (Ok (host_ids (host s) (host_drawn (host s))),
               s\<lparr>host := (host s)\<lparr>host_drawn := Suc (host_drawn (host s))\<rparr>\<rparr>)"

section \<open>Calls of the document library\<close>

definition am_read :: "('d \<Rightarrow> 'a result) \<Rightarrow> ('d doc, 'a) action" where
  "am_read f = (\<lambda>s. (f (inner s), s))"

definition am_write :: "('d \<Rightarrow> 'd result) \<Rightarrow> ('d doc, unit) action" where
  "am_write f = (\<lambda>s. case f (inner s) of Inl e \<Rightarrow> (Inl e, s) | Inr d \<Rightarrow> (Inr (), s\<lparr>inner := d\<rparr>))"

definition am_create :: "('d \<Rightarrow> ('d \<times> 'o) result) \<Rightarrow> ('d doc, 'o) action" where
  "am_create f = (\<lambda>s. case f (inner s) of Inl e \<Rightarrow> (Inl e, s)
                                        | Inr (d, x) \<Rightarrow> (Inr x, s\<lparr>inner := d\<rparr>))"

definition get :: "('d, 'o, 'y) automerge \<Rightarrow> 'o \<Rightarrow> string \<Rightarrow> ('d doc, (am_value \<times> 'o) option) action" where
  "get am ob k = am_read (\<lambda>d. am_get am d ob k)"

definition put :: "('d, 'o, 'y) automerge \<Rightarrow> 'o \<Rightarrow> string \<Rightarrow> scalar \<Rightarrow> ('d doc, unit) action" where
  "put am ob k v = am_write (\<lambda>d. am_put am d ob k v)"

text \<open>Consecutive \<^verbatim>\<open>put\<close>s on one object.\<close>

definition puts :: "('d, 'o, 'y) automerge \<Rightarrow> 'o \<Rightarrow> (string \<times> scalar) list \<Rightarrow> ('d doc, unit) action" where
  "puts am ob kvs = foreach kvs (\<lambda>(k, v). put am ob k v)"

definition put_object :: "('d, 'o, 'y) automerge \<Rightarrow> 'o \<Rightarrow> string \<Rightarrow> obj_type \<Rightarrow> ('d doc, 'o) action" where
  "put_object am ob k ty = am_create (\<lambda>d. am_put_object am d ob k ty)"

definition delete_key :: "('d, 'o, 'y) automerge \<Rightarrow> 'o \<Rightarrow> string \<Rightarrow> ('d doc, unit) action" where
  "delete_key am ob k = am_write (\<lambda>d. am_delete am d ob k)"

definition splice_text ::
    "('d, 'o, 'y) automerge \<Rightarrow> 'o \<Rightarrow> nat \<Rightarrow> int \<Rightarrow> string \<Rightarrow> ('d doc, unit) action" where
  "splice_text am ob pos del t = am_write (\<lambda>d. am_splice_text am d ob pos del t)"

definition get_heads :: "('d, 'o, 'y) automerge \<Rightarrow> ('d doc, change_hash list) action" where
  "get_heads am s = (case am_get_heads am (inner s) of (hs, d) \<Rightarrow> (Ok hs, s\<lparr>inner := d\<rparr>))"

definition commit_now :: "('d, 'o, 'y) automerge \<Rightarrow> ('d doc, unit) action" where
  "commit_now am =
     andthen now_ms (\<lambda>now s. (Ok (), s\<lparr>inner := am_commit_with am (inner s) now\<rparr>))"

section \<open>Typed reads\<close>

text \<open>
  The messages of the type errors stop before the third-party \<^verbatim>\<open>Debug\<close> rendering of the
  offending value.
\<close>

definition get_str :: "('d, 'o, 'y) automerge \<Rightarrow> 'o \<Rightarrow> string \<Rightarrow> ('d doc, string option) action" where
  "get_str am ob k = andthen (get am ob k) (\<lambda>v. case v of
       Some (VScalar (SStr s), _) \<Rightarrow> ret (Some s)
     | Some (VScalar SNull, _) \<Rightarrow> ret None
     | Some (VScalar _, _) \<Rightarrow> fail (Other (''expected string at '' @ k))
     | _ \<Rightarrow> ret None)"

definition get_int :: "('d, 'o, 'y) automerge \<Rightarrow> 'o \<Rightarrow> string \<Rightarrow> ('d doc, int option) action" where
  "get_int am ob k = andthen (get am ob k) (\<lambda>v. case v of
       Some (VScalar (SInt i), _) \<Rightarrow> ret (Some i)
     | Some (VScalar (SUint w), _) \<Rightarrow> ret (Some (sint w))
     | Some (VScalar SNull, _) \<Rightarrow> ret None
     | Some (VScalar _, _) \<Rightarrow> fail (Other (''expected int at '' @ k))
     | _ \<Rightarrow> ret None)"

definition get_text :: "('d, 'o, 'y) automerge \<Rightarrow> 'o \<Rightarrow> string \<Rightarrow> ('d doc, ('o \<times> string) option) action" where
  "get_text am ob k = andthen (get am ob k) (\<lambda>v. case v of
       Some (VObject OText, x) \<Rightarrow> andthen (am_read (\<lambda>d. am_text am d x)) (\<lambda>t. ret (Some (x, t)))
     | _ \<Rightarrow> ret None)"

definition get_object :: "('d, 'o, 'y) automerge \<Rightarrow> 'o \<Rightarrow> string \<Rightarrow> ('d doc, 'o option) action" where
  "get_object am ob k = andthen (get am ob k) (\<lambda>v. case v of
       Some (VObject _, x) \<Rightarrow> ret (Some x)
     | _ \<Rightarrow> ret None)"

definition map_keys :: "('d, 'o, 'y) automerge \<Rightarrow> 'o \<Rightarrow> ('d doc, string list) action" where
  "map_keys am ob = am_read (\<lambda>d. Ok (am_keys am d ob))"

section \<open>The schema\<close>

definition map_obj :: "('d, 'o, 'y) automerge \<Rightarrow> string \<Rightarrow> ('d doc, 'o) action" where
  "map_obj am key = andthen (get am (am_root am) key) (\<lambda>v. case v of
       Some (VObject _, x) \<Rightarrow> ret x
     | _ \<Rightarrow> fail (Other (''schema missing root.'' @ key)))"

definition files_obj :: "('d, 'o, 'y) automerge \<Rightarrow> ('d doc, 'o) action" where
  "files_obj am = map_obj am ''files''"

definition directories_obj :: "('d, 'o, 'y) automerge \<Rightarrow> ('d doc, 'o) action" where
  "directories_obj am = map_obj am ''directories''"

definition labels_obj :: "('d, 'o, 'y) automerge \<Rightarrow> ('d doc, 'o) action" where
  "labels_obj am = map_obj am ''labels''"

definition genesis_actor :: "crypto \<Rightarrow> string \<Rightarrow> byte list" where
  "genesis_actor c vault_id =
     sha256 c (as_bytes ''agentsync-genesis-actor-v1'' @ as_bytes vault_id)"

definition doc_new ::
    "('d, 'o, 'y) automerge \<Rightarrow> crypto \<Rightarrow> host \<Rightarrow> string \<Rightarrow> unit result \<times> 'd doc" where
  "doc_new am c h vault_id =
     andthen (puts am (am_root am)
         [(''schema_version'', SInt SCHEMA_VERSION), (''vault_id'', SStr vault_id)]) (\<lambda>_.
     andthen (put_object am (am_root am) ''directories'' OMap) (\<lambda>_.
     andthen (put_object am (am_root am) ''files'' OMap) (\<lambda>_.
     andthen (put_object am (am_root am) ''labels'' OMap) (\<lambda>_ s.
       (Ok (), s\<lparr>inner := am_set_actor am (am_commit_with am (inner s) 0) None\<rparr>)))))
     \<lparr>inner = am_set_actor am (am_new am) (Some (genesis_actor c vault_id)), host = h\<rparr>"

definition doc_load :: "('d, 'o, 'y) automerge \<Rightarrow> host \<Rightarrow> byte list \<Rightarrow> 'd doc result" where
  "doc_load am h bs = bind_result (am_load am bs) (\<lambda>d. Ok \<lparr>inner = d, host = h\<rparr>)"

definition doc_save :: "('d, 'o, 'y) automerge \<Rightarrow> 'd doc \<Rightarrow> byte list \<times> 'd doc" where
  "doc_save am s = (case am_save am (inner s) of (bs, d) \<Rightarrow> (bs, s\<lparr>inner := d\<rparr>))"

definition doc_save_incremental :: "('d, 'o, 'y) automerge \<Rightarrow> 'd doc \<Rightarrow> byte list \<times> 'd doc" where
  "doc_save_incremental am s =
     (case am_save_incremental am (inner s) of (bs, d) \<Rightarrow> (bs, s\<lparr>inner := d\<rparr>))"

definition doc_fork :: "('d, 'o, 'y) automerge \<Rightarrow> 'd doc \<Rightarrow> 'd doc \<times> 'd doc" where
  "doc_fork am s = (case am_fork am (inner s) of (p, d) \<Rightarrow> (s\<lparr>inner := p\<rparr>, s\<lparr>inner := d\<rparr>))"

definition doc_vault_id :: "('d, 'o, 'y) automerge \<Rightarrow> ('d doc, string) action" where
  "doc_vault_id am = andthen (get am (am_root am) ''vault_id'') (\<lambda>v. case v of
       Some (VScalar (SStr s), _) \<Rightarrow> ret s
     | Some (VScalar _, _) \<Rightarrow> fail (Other ''vault_id is not a string'')
     | _ \<Rightarrow> fail (Other ''vault_id missing''))"

definition doc_heads :: "('d, 'o, 'y) automerge \<Rightarrow> ('d doc, change_hash list) action" where
  "doc_heads am = get_heads am"

definition doc_merge ::
    "('d, 'o, 'y) automerge \<Rightarrow> 'd doc \<Rightarrow> 'd doc \<Rightarrow> bool result \<times> 'd doc \<times> 'd doc" where
  "doc_merge am s other =
     (case am_get_heads am (inner s) of (before, d) \<Rightarrow>
        case am_merge am d (inner other) of
          Inl e \<Rightarrow> (Inl e, s\<lparr>inner := d\<rparr>, other)
        | Inr (d', o') \<Rightarrow>
            (case am_get_heads am d' of (after, d'') \<Rightarrow>
               (Ok (before \<noteq> after), s\<lparr>inner := d''\<rparr>, other\<lparr>inner := o'\<rparr>)))"

definition generate_sync_message ::
    "('d, 'o, 'y) automerge \<Rightarrow> 'd doc \<Rightarrow> 'y \<Rightarrow> byte list option \<times> 'd doc \<times> 'y" where
  "generate_sync_message am s y =
     (case am_generate_sync am (inner s) y of (m, d, y') \<Rightarrow> (m, s\<lparr>inner := d\<rparr>, y'))"

definition receive_sync_message ::
    "('d, 'o, 'y) automerge \<Rightarrow> 'd doc \<Rightarrow> 'y \<Rightarrow> byte list \<Rightarrow> bool result \<times> 'd doc \<times> 'y" where
  "receive_sync_message am s y msg =
     (case am_decode_sync am msg of
        Inl _ \<Rightarrow> (Err (Other ''decode sync msg''), s, y)
      | Inr parsed \<Rightarrow>
          (case am_get_heads am (inner s) of (before, d) \<Rightarrow>
             case am_receive_sync am d y parsed of
               Inl _ \<Rightarrow> (Err (Other ''receive sync msg''), s\<lparr>inner := d\<rparr>, y)
             | Inr (d', y') \<Rightarrow>
                 (case am_get_heads am d' of (after, d'') \<Rightarrow>
                    (Ok (before \<noteq> after), s\<lparr>inner := d''\<rparr>, y'))))"

end
