(* ===== verification/Paths.thy ===== *)
theory Paths
  imports RustStd
begin

text \<open>
  \<^verbatim>\<open>crates/agentsync-core/src/path.rs\<close>: normalisation of vault paths, parents, ancestors
  and the prefix test on paths. Unicode normalisation is the crate
  \<^verbatim>\<open>unicode-normalization\<close>: a parameter \<open>nfc\<close> of \<open>normalize\<close>, with the facts of Unicode's
  NFC the code relies on stated as the locale \<open>unicode_nfc\<close>.
\<close>

section \<open>Operations\<close>

definition unify_slash :: "string \<Rightarrow> string" where
  "unify_slash s = map (\<lambda>c. if c = CHR 0x5C then CHR ''/'' else c) s"

text \<open>The loop over the segments, with the vector \<open>parts\<close> it pushes onto.\<close>

fun keep_segments :: "string \<Rightarrow> string list \<Rightarrow> string list \<Rightarrow> string list result" where
  "keep_segments whole [] parts = Ok parts"
| "keep_segments whole (seg # rest) parts =
     (if seg = [] \<or> seg = ''.'' then keep_segments whole rest parts
      else if seg = ''..'' then Err (InvalidPath (''path traversal not allowed: '' @ whole))
      else if CHR 0x00 \<in> set seg then Err (InvalidPath ''nul byte in path'')
      else keep_segments whole rest (parts @ [seg]))"

definition normalize :: "(string \<Rightarrow> string) \<Rightarrow> string \<Rightarrow> string result" where
  "normalize nfc input =
     (if input = [] then Err (InvalidPath ''path is empty'')
      else let n = nfc (unify_slash input) in
        if starts_with n ''/'' then Err (InvalidPath (''path must be relative: '' @ n))
        else bind_result (keep_segments n (split_on (CHR ''/'') n) [])
          (\<lambda>parts. if parts = [] then Err (InvalidPath ''path resolves to empty'')
                   else Ok (join ''/'' parts)))"

definition parent :: "string \<Rightarrow> string" where
  "parent path = (case rfind (CHR ''/'') path of Some i \<Rightarrow> take i path | None \<Rightarrow> [])"

fun ancestors_loop :: "string list \<Rightarrow> string \<Rightarrow> string list" where
  "ancestors_loop [] acc = []"
| "ancestors_loop (seg # rest) acc =
     (let acc' = (if acc \<noteq> [] then acc @ ''/'' else acc) @ seg
      in acc' # ancestors_loop rest acc')"

definition ancestors :: "string \<Rightarrow> string list" where
  "ancestors path =
     (let parts = split_on (CHR ''/'') path
      in if length parts \<le> 1 then [] else ancestors_loop (butlast parts) [])"

definition under :: "string \<Rightarrow> string \<Rightarrow> bool" where
  "under pre child \<longleftrightarrow>
     pre = [] \<or> child = pre \<or>
     (starts_with child pre \<and> length pre < length child \<and> child ! length pre = CHR ''/'')"

section \<open>Well-formed paths\<close>

text \<open>
  What \<open>normalize\<close> promises: a non-empty list of segments joined by single slashes, none of
  them empty, a dot, two dots, or with a slash or a NUL inside.
\<close>

definition good_segment :: "string \<Rightarrow> bool" where
  "good_segment seg \<longleftrightarrow>
     seg \<noteq> [] \<and> seg \<noteq> ''.'' \<and> seg \<noteq> ''..'' \<and> CHR 0x00 \<notin> set seg \<and> CHR ''/'' \<notin> set seg"

definition good_path :: "string \<Rightarrow> bool" where
  "good_path p \<longleftrightarrow> list_all good_segment (split_on (CHR ''/'') p)"

lemma good_path_ne: "good_path p \<Longrightarrow> p \<noteq> []"
  by (auto simp: good_path_def good_segment_def)

lemma good_path_join:
  "ps \<noteq> [] \<Longrightarrow> list_all good_segment ps \<Longrightarrow> good_path (join ''/'' ps)"
  by (simp add: good_path_def split_on_join list_all_iff good_segment_def)

lemma good_path_segments:
  assumes "good_path p"
  obtains ps where "ps \<noteq> []" "list_all good_segment ps" "p = join ''/'' ps"
  using assms join_split_on [of "CHR ''/''" p] that [of "split_on (CHR ''/'') p"]
  by (simp add: good_path_def)

lemma keep_segments_Ok:
  "keep_segments w segs parts = Ok out \<Longrightarrow>
   out = parts @ filter (\<lambda>s. s \<noteq> [] \<and> s \<noteq> ''.'') segs \<and>
   (\<forall>s \<in> set segs. s \<noteq> ''..'' \<and> (s \<noteq> [] \<and> s \<noteq> ''.'' \<longrightarrow> CHR 0x00 \<notin> set s))"
proof (induction segs arbitrary: parts)
  case (Cons seg rest)
  show ?case
  proof (cases "seg = [] \<or> seg = ''.''")
    case True
    with Cons.prems have "keep_segments w rest parts = Ok out" by auto
    from Cons.IH [OF this] True show ?thesis by auto
  next
    case False
    then have eq: "keep_segments w (seg # rest) parts =
        (if seg = ''..'' then Err (InvalidPath (''path traversal not allowed: '' @ w))
         else if CHR 0x00 \<in> set seg then Err (InvalidPath ''nul byte in path'')
         else keep_segments w rest (parts @ [seg]))"
      by (simp only: keep_segments.simps if_False)
    have up: "seg \<noteq> ''..''" using Cons.prems eq by fastforce
    have nul: "CHR 0x00 \<notin> set seg" using Cons.prems eq up by fastforce
    have "keep_segments w rest (parts @ [seg]) = Ok out" using Cons.prems eq up nul by simp
    from Cons.IH [OF this] False up nul show ?thesis by simp
  qed
qed simp

lemma keep_segments_good:
  "list_all good_segment segs \<Longrightarrow> keep_segments w segs parts = Ok (parts @ segs)"
  by (induction w segs parts rule: keep_segments.induct) (auto simp: good_segment_def)

lemma normalize_segments:
  assumes "normalize nfc input = Ok q"
  obtains parts where "parts \<noteq> []" "list_all good_segment parts" "q = join ''/'' parts"
    "set parts \<subseteq> set (split_on (CHR ''/'') (nfc (unify_slash input)))"
proof -
  let ?n = "nfc (unify_slash input)"
  from assms obtain parts where
    k: "keep_segments ?n (split_on (CHR ''/'') ?n) [] = Ok parts" and
    ne: "parts \<noteq> []" and q: "q = join ''/'' parts"
    by (auto simp: normalize_def Let_def bind_result_eq_Inr split: if_splits)
  from keep_segments_Ok [OF k] split_on_pieces [of "CHR ''/''" ?n]
  have "list_all good_segment parts" "set parts \<subseteq> set (split_on (CHR ''/'') ?n)"
    by (auto simp: list_all_iff good_segment_def)
  with ne q that show thesis by blast
qed

lemma normalize_good: "normalize nfc input = Ok q \<Longrightarrow> good_path q"
  by (erule normalize_segments) (simp add: good_path_join)

section \<open>The NFC interface\<close>

text \<open>
  What the code relies on of Unicode normalisation form C: it is idempotent, the slash is a
  boundary no composition crosses, and it never produces a slash or a backslash.
\<close>

locale unicode_nfc =
  fixes nfc :: "string \<Rightarrow> string"
  assumes nfc_idem: "nfc (nfc s) = nfc s"
    and nfc_slash: "nfc (s @ ''/'' @ t) = nfc s @ ''/'' @ nfc t"
    and nfc_no_slash: "CHR ''/'' \<notin> set s \<Longrightarrow> CHR ''/'' \<notin> set (nfc s)"
    and nfc_no_backslash: "CHR 0x5C \<notin> set s \<Longrightarrow> CHR 0x5C \<notin> set (nfc s)"
begin

lemma nfc_join: "ps \<noteq> [] \<Longrightarrow> nfc (join ''/'' ps) = join ''/'' (map nfc ps)"
proof (induction ps rule: induct_list012)
  case (3 x y zs)
  have "nfc (join ''/'' (x # y # zs)) = nfc x @ ''/'' @ nfc (join ''/'' (y # zs))"
    using nfc_slash [of x "join ''/'' (y # zs)"] by simp
  with 3 show ?case by simp
qed simp_all

lemma split_on_nfc: "split_on (CHR ''/'') (nfc s) = map nfc (split_on (CHR ''/'') s)"
proof -
  let ?ps = "split_on (CHR ''/'') s"
  have "nfc s = join ''/'' (map nfc ?ps)"
    using nfc_join [of ?ps] by (simp add: join_split_on)
  moreover have "\<forall>p \<in> set (map nfc ?ps). CHR ''/'' \<notin> set p"
    using split_on_pieces [of "CHR ''/''" s] nfc_no_slash by auto
  ultimately show ?thesis by (simp add: split_on_join)
qed

lemma normalize_fixed:
  assumes "normalize nfc input = Ok q"
  shows "nfc (unify_slash q) = q"
proof -
  let ?u = "unify_slash input"
  from assms obtain parts where ps: "parts \<noteq> []" "q = join ''/'' parts"
    "set parts \<subseteq> set (split_on (CHR ''/'') (nfc ?u))"
    by (rule normalize_segments)
  have "CHR 0x5C \<notin> set ?u" by (auto simp: unify_slash_def)
  then have nb: "CHR 0x5C \<notin> set (nfc ?u)" by (rule nfc_no_backslash)
  have "CHR 0x5C \<notin> set q"
    using set_join_subset [of "''/''" parts] ps(2,3) split_on_subset nb by fastforce
  then have "unify_slash q = q"
    by (auto simp: unify_slash_def intro: map_idI)
  moreover have "map nfc parts = parts"
  proof (rule map_idI)
    fix p assume "p \<in> set parts"
    with ps(3) split_on_nfc have "p \<in> nfc ` set (split_on (CHR ''/'') ?u)" by auto
    then show "nfc p = p" by (auto simp: nfc_idem)
  qed
  ultimately show ?thesis using ps nfc_join by simp
qed

lemma normalize_again:
  assumes "normalize nfc input = Ok q"
  shows "normalize nfc q = Ok q"
proof -
  from assms have g: "good_path q" by (rule normalize_good)
  then obtain ps where ps: "ps \<noteq> []" "list_all good_segment ps" "q = join ''/'' ps"
    by (rule good_path_segments)
  then have sp: "split_on (CHR ''/'') q = ps"
    by (auto simp: split_on_join list_all_iff good_segment_def)
  have "\<not> starts_with q ''/''"
  proof
    assume "starts_with q ''/''"
    then have "hd (split_on (CHR ''/'') q) = []" by (auto simp: starts_with_iff)
    with sp ps show False by (cases ps) (auto simp: good_segment_def)
  qed
  with normalize_fixed [OF assms] good_path_ne [OF g] sp ps show ?thesis
    by (simp add: normalize_def keep_segments_good)
qed

end

text \<open>
  On ASCII text NFC is the identity, which is the instance the concrete examples use.
\<close>

definition ascii_nfc :: "string \<Rightarrow> string" where
  "ascii_nfc s = s"

interpretation ascii_nfc: unicode_nfc ascii_nfc
  by unfold_locales (auto simp: ascii_nfc_def)

section \<open>Ancestors and prefixes as segment lists\<close>

lemma split_on_append: "split_on c (x @ c # y) = split_on c x @ split_on c y"
proof (induction x)
  case (Cons a x)
  obtain z zs where "split_on c x = z # zs" by (cases "split_on c x") simp_all
  with Cons.IH show ?case by simp
qed simp

lemma ancestors_loop_segments:
  assumes "acc = join ''/'' pre" "list_all good_segment pre" "list_all good_segment segs"
  shows "ancestors_loop segs acc = map (\<lambda>k. join ''/'' (pre @ take k segs)) [1..<Suc (length segs)]"
  using assms
proof (induction segs arbitrary: acc pre)
  case (Cons seg rest)
  have acc': "(if acc \<noteq> [] then acc @ ''/'' else acc) @ seg = join ''/'' (pre @ [seg])"
  proof (cases "pre = []")
    case False
    with Cons.prems have "acc \<noteq> []" using good_path_ne [OF good_path_join] by simp
    with False Cons.prems(1) show ?thesis by (simp add: join_snoc)
  qed (use Cons.prems in simp)
  have IH: "ancestors_loop rest (join ''/'' (pre @ [seg])) =
      map (\<lambda>k. join ''/'' ((pre @ [seg]) @ take k rest)) [1..<Suc (length rest)]"
    using Cons.IH [OF refl, of "pre @ [seg]"] Cons.prems by simp
  have shift: "[1..<Suc (length (seg # rest))] = 1 # map Suc [1..<Suc (length rest)]"
    by (simp add: upt_conv_Cons map_Suc_upt del: upt_Suc)
  have "ancestors_loop (seg # rest) acc =
      join ''/'' (pre @ [seg]) # ancestors_loop rest (join ''/'' (pre @ [seg]))"
    by (simp only: ancestors_loop.simps Let_def acc')
  also have "\<dots> = map (\<lambda>k. join ''/'' (pre @ take k (seg # rest))) [1..<Suc (length (seg # rest))]"
    unfolding IH shift by (simp del: upt_Suc)
  finally show ?case .
qed simp

lemma ancestors_segments:
  assumes "ps \<noteq> []" "list_all good_segment ps"
  shows "ancestors (join ''/'' ps) = map (\<lambda>k. join ''/'' (take k ps)) [1..<length ps]"
proof -
  have sp: "split_on (CHR ''/'') (join ''/'' ps) = ps"
    using assms by (auto simp: split_on_join list_all_iff good_segment_def)
  have len: "Suc (length (butlast ps)) = length ps" using assms(1) by (cases ps) auto
  have good: "list_all good_segment (butlast ps)"
    using assms(2) by (auto simp: list_all_iff dest: in_set_butlastD)
  have "ancestors_loop (butlast ps) [] =
      map (\<lambda>k. join ''/'' (take k (butlast ps))) [1..<length ps]"
    using ancestors_loop_segments [of "[]" "[]" "butlast ps"] good unfolding len by simp
  also have "\<dots> = map (\<lambda>k. join ''/'' (take k ps)) [1..<length ps]"
    by (rule map_cong [OF refl]) (simp add: take_butlast)
  finally have "ancestors_loop (butlast ps) [] = map (\<lambda>k. join ''/'' (take k ps)) [1..<length ps]" .
  then show ?thesis by (simp add: ancestors_def sp)
qed

lemma under_segments:
  assumes "ps \<noteq> []" "list_all good_segment ps" "cs \<noteq> []" "list_all good_segment cs"
  shows "under (join ''/'' ps) (join ''/'' cs) \<longleftrightarrow> prefix ps cs"
proof -
  have spp: "split_on (CHR ''/'') (join ''/'' ps) = ps"
    and spc: "split_on (CHR ''/'') (join ''/'' cs) = cs"
    using assms by (auto simp: split_on_join list_all_iff good_segment_def)
  have ne: "join ''/'' ps \<noteq> []" using assms good_path_ne [OF good_path_join] by simp
  show ?thesis
  proof
    assume u: "under (join ''/'' ps) (join ''/'' cs)"
    show "prefix ps cs"
    proof (cases "join ''/'' cs = join ''/'' ps")
      case True
      then have "cs = ps" using spp spc by metis
      then show ?thesis by simp
    next
      case False
      with u ne obtain r where r: "join ''/'' cs = join ''/'' ps @ r" "r \<noteq> []" "hd r = CHR ''/''"
        by (auto simp: under_def starts_with_iff nth_append hd_conv_nth)
      then obtain r' where "join ''/'' cs = join ''/'' ps @ CHR ''/'' # r'" by (cases r) auto
      then have "cs = ps @ split_on (CHR ''/'') r'" using spp spc split_on_append by metis
      then show ?thesis by simp
    qed
  next
    assume "prefix ps cs"
    then obtain qs where qs: "cs = ps @ qs" by (auto simp: prefix_def)
    show "under (join ''/'' ps) (join ''/'' cs)"
    proof (cases "qs = []")
      case False
      with assms(1) qs have "join ''/'' cs = join ''/'' ps @ ''/'' @ join ''/'' qs"
        by (simp add: join_append)
      then show ?thesis by (simp add: under_def)
    qed (simp add: qs under_def)
  qed
qed

lemma under_refl [simp]: "under p p"
  by (simp add: under_def)

lemma ancestors_good: "good_path p \<Longrightarrow> a \<in> set (ancestors p) \<Longrightarrow> good_path a"
  by (erule good_path_segments)
     (auto simp: ancestors_segments list_all_iff intro!: good_path_join dest!: in_set_takeD)

end
