(* ===== verification/DocView.thy ===== *)
theory DocView
  imports Doc Paths
begin

text \<open>
  The abstract state of a vault document, the \<open>view\<close>: what its three maps hold. The readers
  below take a file entry or a directory entry of the view apart, \<open>entry_wf\<close> and \<open>dir_wf\<close> are
  the schema of such entries, and the lemmas of \<open>automerge_doc\<close> run the accessors of
  \<^theory_text>\<open>Doc\<close> on a document that shows a given tree.
\<close>

section \<open>Entries\<close>

definition str_of :: "(string \<rightharpoonup> node) \<Rightarrow> string \<Rightarrow> string option" where
  "str_of m k = (case m k of Some (Leaf (SStr s)) \<Rightarrow> Some s | _ \<Rightarrow> None)"

definition int_of :: "(string \<rightharpoonup> node) \<Rightarrow> string \<Rightarrow> int option" where
  "int_of m k = (case m k of Some (Leaf (SInt i)) \<Rightarrow> Some i
                           | Some (Leaf (SUint w)) \<Rightarrow> Some (sint w) | _ \<Rightarrow> None)"

definition text_of :: "(string \<rightharpoonup> node) \<Rightarrow> string \<Rightarrow> string option" where
  "text_of m k = (case m k of Some (Text t) \<Rightarrow> Some t | _ \<Rightarrow> None)"

text \<open>A read of these keys gives no type error.\<close>

definition str_ok :: "(string \<rightharpoonup> node) \<Rightarrow> string \<Rightarrow> bool" where
  "str_ok m k = (case m k of Some (Leaf (SStr _)) \<Rightarrow> True | Some (Leaf SNull) \<Rightarrow> True
                           | Some (Leaf _) \<Rightarrow> False | _ \<Rightarrow> True)"

definition int_ok :: "(string \<rightharpoonup> node) \<Rightarrow> string \<Rightarrow> bool" where
  "int_ok m k = (case m k of Some (Leaf (SInt _)) \<Rightarrow> True | Some (Leaf (SUint _)) \<Rightarrow> True
                           | Some (Leaf SNull) \<Rightarrow> True | Some (Leaf _) \<Rightarrow> False | _ \<Rightarrow> True)"

fun branch_of :: "node \<Rightarrow> string \<rightharpoonup> node" where
  "branch_of (Branch m) = m"
| "branch_of _ = Map.empty"

definition meta_of :: "node \<Rightarrow> string \<rightharpoonup> node" where
  "meta_of n = (case branch_of n ''meta'' of Some x \<Rightarrow> branch_of x | None \<Rightarrow> Map.empty)"

definition meta_wf :: "(string \<rightharpoonup> node) \<Rightarrow> bool" where
  "meta_wf m \<longleftrightarrow>
     str_of m ''path'' \<noteq> None \<and>
     (str_of m ''kind'' = Some ''text'' \<or> str_of m ''kind'' = Some ''attachment'') \<and>
     int_ok m ''size'' \<and> int_ok m ''created_at'' \<and> int_ok m ''updated_at'' \<and> int_ok m ''deleted_at''"

fun entry_wf :: "node \<Rightarrow> bool" where
  "entry_wf (Branch e) =
     (case e ''meta'' of Some (Branch m) \<Rightarrow> meta_wf m \<and> str_ok e ''binary_hash'' | _ \<Rightarrow> False)"
| "entry_wf _ = False"

fun dir_wf :: "node \<Rightarrow> bool" where
  "dir_wf (Branch m) \<longleftrightarrow> str_of m ''path'' \<noteq> None \<and> int_ok m ''created_at'' \<and> int_ok m ''deleted_at''"
| "dir_wf _ = False"

text \<open>The path of an entry that is not deleted.\<close>

definition live_path_in :: "(string \<rightharpoonup> node) \<Rightarrow> string option" where
  "live_path_in m = (if int_of m ''deleted_at'' = None then str_of m ''path'' else None)"

definition live_path :: "node \<Rightarrow> string option" where
  "live_path n = live_path_in (meta_of n)"

definition dir_live_path :: "node \<Rightarrow> string option" where
  "dir_live_path n = live_path_in (branch_of n)"

text \<open>What \<open>read_file_meta\<close> makes of an entry.\<close>

definition file_rec :: "string \<Rightarrow> node \<Rightarrow> file_meta" where
  "file_rec fid n =
     (let m = meta_of n; created = unwrap_or 0 (int_of m ''created_at'') in
      \<lparr>fm_id = fid,
       fm_path = unwrap_or [] (str_of m ''path''),
       fm_kind = (if str_of m ''kind'' = Some ''attachment'' then KAttachment else KText),
       fm_size = unwrap_or 0 (int_of m ''size''),
       fm_created_at = created,
       fm_updated_at = unwrap_or created (int_of m ''updated_at''),
       fm_deleted_at = int_of m ''deleted_at'',
       fm_binary_hash = str_of (branch_of n) ''binary_hash''\<rparr>)"

definition dir_rec :: "string \<Rightarrow> node \<Rightarrow> directory_meta" where
  "dir_rec did n =
     \<lparr>dm_id = did,
      dm_path = unwrap_or [] (str_of (branch_of n) ''path''),
      dm_created_at = unwrap_or 0 (int_of (branch_of n) ''created_at''),
      dm_deleted_at = int_of (branch_of n) ''deleted_at''\<rparr>"

text \<open>What a reader of a file gets.\<close>

datatype body = TextBody string | BlobBody string | NoBody

definition body_of :: "node \<Rightarrow> body" where
  "body_of n =
     (if str_of (meta_of n) ''kind'' = Some ''attachment'' \<and> str_of (branch_of n) ''binary_hash'' \<noteq> None
      then BlobBody (the (str_of (branch_of n) ''binary_hash''))
      else case text_of (branch_of n) ''content'' of Some t \<Rightarrow> TextBody t | None \<Rightarrow> NoBody)"

section \<open>The view\<close>

record view =
  v_files :: "string \<rightharpoonup> node"
  v_dirs :: "string \<rightharpoonup> node"
  v_labels :: "string \<rightharpoonup> node"
  v_rest :: "string \<rightharpoonup> node"

definition view_tree :: "view \<Rightarrow> node" where
  "view_tree v = Branch ((v_rest v)(''files'' \<mapsto> Branch (v_files v),
     ''directories'' \<mapsto> Branch (v_dirs v), ''labels'' \<mapsto> Branch (v_labels v)))"

definition displays :: "('d \<Rightarrow> node) \<Rightarrow> 'd doc \<Rightarrow> view \<Rightarrow> bool" where
  "displays tree s v \<longleftrightarrow> tree (inner s) = view_tree v"

text \<open>The live files of a vault: path, id and body; and its live directories.\<close>

definition live_files :: "view \<Rightarrow> (string \<times> string \<times> body) set" where
  "live_files v = {(p, fid, b). \<exists>n. v_files v fid = Some n \<and> live_path n = Some p \<and> b = body_of n}"

definition live_dirs :: "view \<Rightarrow> (string \<times> string) set" where
  "live_dirs v = {(p, did). \<exists>n. v_dirs v did = Some n \<and> dir_live_path n = Some p}"

text \<open>
  The invariant of a vault: every entry obeys the schema, no two live files and no two live
  directories have one path, live paths are normalised, and every ancestor of a live file or
  directory is a live directory (\<open>vault_ok\<close>, below).
\<close>

definition schema_ok :: "view \<Rightarrow> bool" where
  "schema_ok v \<longleftrightarrow>
     (\<forall>fid n. v_files v fid = Some n \<longrightarrow> entry_wf n) \<and> (\<forall>did n. v_dirs v did = Some n \<longrightarrow> dir_wf n)"

definition unique_paths :: "view \<Rightarrow> bool" where
  "unique_paths v \<longleftrightarrow>
     (\<forall>p i j b c. (p, i, b) \<in> live_files v \<and> (p, j, c) \<in> live_files v \<longrightarrow> i = j) \<and>
     (\<forall>p i j. (p, i) \<in> live_dirs v \<and> (p, j) \<in> live_dirs v \<longrightarrow> i = j)"

definition has_dir :: "view \<Rightarrow> string \<Rightarrow> bool" where
  "has_dir v p \<longleftrightarrow> (\<exists>did. (p, did) \<in> live_dirs v)"

definition has_file :: "view \<Rightarrow> string \<Rightarrow> bool" where
  "has_file v p \<longleftrightarrow> (\<exists>fid b. (p, fid, b) \<in> live_files v)"

definition placed :: "view \<Rightarrow> string \<Rightarrow> bool" where
  "placed v p \<longleftrightarrow> good_path p \<and> (\<forall>a \<in> set (ancestors p). has_dir v a)"

definition all_placed :: "view \<Rightarrow> bool" where
  "all_placed v \<longleftrightarrow> (\<forall>p. has_file v p \<or> has_dir v p \<longrightarrow> placed v p)"

definition vault_ok :: "view \<Rightarrow> bool" where
  "vault_ok v \<longleftrightarrow> schema_ok v \<and> unique_paths v \<and> all_placed v"

text \<open>The ids still to be drawn are new to the vault and differ from each other.\<close>

definition fresh_ids :: "'d doc \<Rightarrow> view \<Rightarrow> bool" where
  "fresh_ids s v \<longleftrightarrow> inj (host_ids (host s)) \<and>
     (\<forall>i \<ge> host_drawn (host s). v_files v (host_ids (host s) i) = None \<and>
                               v_dirs v (host_ids (host s) i) = None)"

section \<open>Changing one entry of the view\<close>

lemma live_files_iff:
  "(p, fid, b) \<in> live_files v \<longleftrightarrow> (\<exists>n. v_files v fid = Some n \<and> live_path n = Some p \<and> b = body_of n)"
  by (simp add: live_files_def)

lemma live_dirs_iff:
  "(p, did) \<in> live_dirs v \<longleftrightarrow> (\<exists>n. v_dirs v did = Some n \<and> dir_live_path n = Some p)"
  by (simp add: live_dirs_def)

lemma live_views [simp]:
  "live_files (v\<lparr>v_dirs := D\<rparr>) = live_files v" "live_dirs (v\<lparr>v_files := F\<rparr>) = live_dirs v"
  "live_files (v\<lparr>v_labels := L\<rparr>) = live_files v" "live_dirs (v\<lparr>v_labels := L\<rparr>) = live_dirs v"
  by (simp_all add: live_files_def live_dirs_def)

lemma has_views [simp]:
  "has_file (v\<lparr>v_dirs := D\<rparr>) = has_file v" "has_dir (v\<lparr>v_files := F\<rparr>) = has_dir v"
  "has_file (v\<lparr>v_labels := L\<rparr>) = has_file v" "has_dir (v\<lparr>v_labels := L\<rparr>) = has_dir v"
  by (simp_all add: has_file_def has_dir_def fun_eq_iff)

lemma vault_ok_labels [simp]: "vault_ok (v\<lparr>v_labels := L\<rparr>) = vault_ok v"
  by (simp add: vault_ok_def schema_ok_def unique_paths_def all_placed_def placed_def)

lemma live_files_set:
  "live_files (v\<lparr>v_files := (v_files v)(fid \<mapsto> n)\<rparr>) =
     {x \<in> live_files v. fst (snd x) \<noteq> fid} \<union> {(p, fid, body_of n) |p. live_path n = Some p}"
  by (auto simp: live_files_def split: if_splits)

lemma live_dirs_set:
  "live_dirs (v\<lparr>v_dirs := (v_dirs v)(did \<mapsto> n)\<rparr>) =
     {x \<in> live_dirs v. snd x \<noteq> did} \<union> {(p, did) |p. dir_live_path n = Some p}"
  by (auto simp: live_dirs_def split: if_splits)

lemma vault_ok_set_file:
  assumes ok: "vault_ok v" and wf: "entry_wf n"
    and new: "\<And>p. live_path n = Some p \<Longrightarrow> placed v p \<and> (\<forall>j b. (p, j, b) \<in> live_files v \<longrightarrow> j = fid)"
  shows "vault_ok (v\<lparr>v_files := (v_files v)(fid \<mapsto> n)\<rparr>)"
proof -
  let ?v = "v\<lparr>v_files := (v_files v)(fid \<mapsto> n)\<rparr>"
  have "schema_ok ?v" using ok wf by (auto simp: vault_ok_def schema_ok_def)
  moreover have "unique_paths ?v"
    using ok new unfolding vault_ok_def unique_paths_def live_files_set live_views by blast
  moreover have "placed ?v = placed v" by (simp add: placed_def fun_eq_iff)
  moreover have "has_file ?v p \<Longrightarrow> has_file v p \<or> live_path n = Some p" for p
    by (auto simp: has_file_def live_files_set)
  ultimately show ?thesis
    using ok new by (auto simp: vault_ok_def all_placed_def)
qed

section \<open>Steps between documents\<close>

definition later :: "'d doc \<Rightarrow> 'd doc \<Rightarrow> bool" where
  "later s t \<longleftrightarrow> host_ids (host t) = host_ids (host s) \<and> host_time (host t) = host_time (host s) \<and>
     host_drawn (host s) \<le> host_drawn (host t) \<and> host_tick (host s) \<le> host_tick (host t)"

definition edited ::
    "('d \<Rightarrow> node) \<Rightarrow> ('d \<Rightarrow> string list \<Rightarrow> 'o) \<Rightarrow> 'd doc \<Rightarrow> string list \<Rightarrow> node \<Rightarrow> 'd doc \<Rightarrow> bool" where
  "edited tree oid s p n t \<longleftrightarrow>
     node_at (tree (inner s)) p \<noteq> None \<and> tree (inner t) = modify p (\<lambda>_. n) (tree (inner s)) \<and>
     (\<forall>q. \<not> strict_prefix p q \<longrightarrow> oid (inner t) q = oid (inner s) q) \<and> later s t"

lemma later_refl [simp]: "later s s"
  by (simp add: later_def)

lemma later_trans: "later s t \<Longrightarrow> later t u \<Longrightarrow> later s u"
  by (auto simp: later_def)

lemma later_same_host [simp]: "later s (s\<lparr>inner := d\<rparr>)"
  by (simp add: later_def)

lemma edited_at: "edited tree oid s p n t \<Longrightarrow> node_at (tree (inner t)) p = Some n"
  by (auto simp: edited_def node_at_modify)

lemma edited_below:
  "edited tree oid s p (Branch m) t \<Longrightarrow> node_at (tree (inner t)) (p @ [k]) = m k"
  using edited_at [of tree oid s p "Branch m" t] by (simp add: node_at_append split: option.splits)

lemma edited_oid:
  "edited tree oid s p n t \<Longrightarrow> \<not> strict_prefix p q \<Longrightarrow> oid (inner t) q = oid (inner s) q"
  by (simp add: edited_def)

lemma edited_oid_self: "edited tree oid s p n t \<Longrightarrow> oid (inner t) p = oid (inner s) p"
  by (simp add: edited_def)

lemma edited_later: "edited tree oid s p n t \<Longrightarrow> later s t"
  by (simp add: edited_def)

lemma edited_refl:
  "node_at (tree (inner s)) p = Some n \<Longrightarrow> edited tree oid s p n s"
  by (simp add: edited_def modify_id [of "tree (inner s)" p n])

lemma edited_again:
  assumes "edited tree oid s p n t" "edited tree oid t p n' u"
  shows "edited tree oid s p n' u"
  using assms by (auto simp: edited_def modify_comp intro: later_trans)

lemma modify_snoc:
  assumes "node_at n p = Some (Branch m)" "m k \<noteq> None"
  shows "modify (p @ [k]) f n = modify p (\<lambda>_. Branch (m(k := map_option f (m k)))) n"
  using assms
proof (induction p arbitrary: n)
  case (Cons a p)
  then obtain M x where n: "n = Branch M" "M a = Some x" "node_at x p = Some (Branch m)"
    by (cases n) (auto split: option.splits)
  with Cons show ?case by simp
qed auto

lemma edited_child:
  assumes e: "edited tree oid s p (Branch m) t" and c: "edited tree oid t (p @ [k]) n u"
  shows "edited tree oid s p (Branch (m(k \<mapsto> n))) u"
proof -
  have at: "node_at (tree (inner t)) p = Some (Branch m)" by (rule edited_at [OF e])
  have k: "m k \<noteq> None" using c edited_below [OF e, of k] by (auto simp: edited_def)
  have "modify (p @ [k]) (\<lambda>_. n) (tree (inner t)) =
      modify p (\<lambda>_. Branch (m(k \<mapsto> n))) (tree (inner t))"
    using modify_snoc [OF at k] k by auto
  then have "tree (inner u) = modify p (\<lambda>_. Branch (m(k \<mapsto> n))) (tree (inner s))"
    using e c by (simp add: edited_def modify_comp)
  moreover have "oid (inner u) q = oid (inner s) q" if "\<not> strict_prefix p q" for q
  proof -
    have "\<not> strict_prefix (p @ [k]) q"
      using that by (metis prefix_order.le_less_trans prefixI strict_prefixE append_prefixD
          prefix_order.less_le strict_prefixI')
    with that e c show ?thesis by (simp add: edited_def)
  qed
  ultimately show ?thesis using e c later_trans by (auto simp: edited_def)
qed

lemma edited_host:
  assumes "edited tree oid s p n t" "inner t' = inner t" "later t t'"
  shows "edited tree oid s p n t'"
  using assms later_trans by (auto simp: edited_def)

lemma edited_host_left:
  assumes "edited tree oid s p n t" "inner s' = inner s" "later s' s"
  shows "edited tree oid s' p n t"
  using assms later_trans by (auto simp: edited_def)

section \<open>Running the accessors\<close>

fun puts_map :: "(string \<times> scalar) list \<Rightarrow> (string \<rightharpoonup> node) \<Rightarrow> string \<rightharpoonup> node" where
  "puts_map [] m = m"
| "puts_map ((k, x) # kvs) m = puts_map kvs (m(k \<mapsto> Leaf x))"

lemma strict_prefix_below: "\<not> strict_prefix p q \<Longrightarrow> \<not> prefix (p @ [k]) q"
  by (metis append_prefixD prefix_order.le_less_trans prefixI strict_prefixE strict_prefixI' prefix_order.less_le)

lemma now_run: "now_ms s = (Ok (host_time (host s) (host_tick (host s))),
    s\<lparr>host := (host s)\<lparr>host_tick := Suc (host_tick (host s))\<rparr>\<rparr>)"
  by (simp add: now_ms_def)

lemma now_obtain:
  obtains x t where "now_ms s = (Ok x, t)" "inner t = inner s" "later s t"
    "host_drawn (host t) = host_drawn (host s)"
  by (simp add: now_ms_def later_def)

lemma new_id_obtain:
  obtains t where "new_id s = (Ok (host_ids (host s) (host_drawn (host s))), t)"
    "inner t = inner s" "later s t" "host_drawn (host t) = Suc (host_drawn (host s))"
  by (simp add: new_id_def later_def)

lemma displays_node:
  assumes "displays tree s v"
  shows "node_at (tree (inner s)) [''files''] = Some (Branch (v_files v))"
    "node_at (tree (inner s)) [''directories''] = Some (Branch (v_dirs v))"
    "node_at (tree (inner s)) [''labels''] = Some (Branch (v_labels v))"
  using assms by (simp_all add: displays_def view_tree_def)

lemma displays_edited:
  assumes "displays tree s v"
  shows "edited tree oid s [''files''] (Branch F) t \<Longrightarrow> displays tree t (v\<lparr>v_files := F\<rparr>)"
    "edited tree oid s [''directories''] (Branch D) t \<Longrightarrow> displays tree t (v\<lparr>v_dirs := D\<rparr>)"
    "edited tree oid s [''labels''] (Branch L) t \<Longrightarrow> displays tree t (v\<lparr>v_labels := L\<rparr>)"
  using assms by (auto simp: displays_def view_tree_def edited_def fun_eq_iff)

lemma displays_same: "displays tree s v \<Longrightarrow> tree (inner t) = tree (inner s) \<Longrightarrow> displays tree t v"
  by (simp add: displays_def)

lemma fresh_later:
  "fresh_ids s v \<Longrightarrow> later s t \<Longrightarrow> fresh_ids t v"
  by (auto simp: fresh_ids_def later_def)

lemma fresh_next:
  assumes "fresh_ids s v"
  shows "v_files v (host_ids (host s) (host_drawn (host s))) = None"
    "v_dirs v (host_ids (host s) (host_drawn (host s))) = None"
  using assms by (simp_all add: fresh_ids_def)

lemma fresh_labels [simp]: "fresh_ids s (v\<lparr>v_labels := L\<rparr>) = fresh_ids s v"
  by (simp add: fresh_ids_def)

text \<open>An id leaves the pool when it is drawn, so an entry under it keeps the pool fresh.\<close>

lemma fresh_drawn:
  assumes "fresh_ids s v" "later s t" "host_drawn (host s) < host_drawn (host t)"
  shows "fresh_ids t (v\<lparr>v_files := (v_files v)(host_ids (host s) (host_drawn (host s)) \<mapsto> n)\<rparr>)"
    "fresh_ids t (v\<lparr>v_dirs := (v_dirs v)(host_ids (host s) (host_drawn (host s)) \<mapsto> n)\<rparr>)"
  using assms by (auto simp: fresh_ids_def later_def inj_eq)

lemma fresh_used:
  assumes "fresh_ids s v" "later s t"
  shows "v_files v fid \<noteq> None \<Longrightarrow> fresh_ids t (v\<lparr>v_files := (v_files v)(fid \<mapsto> n)\<rparr>)"
    "v_dirs v did \<noteq> None \<Longrightarrow> fresh_ids t (v\<lparr>v_dirs := (v_dirs v)(did \<mapsto> n)\<rparr>)"
  using assms by (auto simp: fresh_ids_def later_def)

context automerge_doc
begin

lemma map_obj_run:
  assumes "node_at (tree (inner s)) [key] = Some (Branch m)"
  shows "map_obj am key s = (Ok (oid (inner s) [key]), s)"
proof -
  from assms obtain r where r: "tree (inner s) = Branch r" "r key = Some (Branch m)"
    by (cases "tree (inner s)") (auto split: option.splits)
  then have "am_get am (inner s) (am_root am) key = Ok (Some (VObject OMap, oid (inner s) [key]))"
    using get_law [of "inner s" "[]" r key] by (simp add: root_id)
  then show ?thesis by (simp add: map_obj_def get_def am_read_def act_simps)
qed

lemma objs_run:
  assumes "displays tree s v"
  shows "files_obj am s = (Ok (oid (inner s) [''files'']), s)"
    "directories_obj am s = (Ok (oid (inner s) [''directories'']), s)"
    "labels_obj am s = (Ok (oid (inner s) [''labels'']), s)"
  using displays_node [OF assms]
  by (simp_all add: files_obj_def directories_obj_def labels_obj_def map_obj_run)

lemma get_run:
  assumes "node_at (tree (inner s)) p = Some (Branch m)"
  shows "get am (oid (inner s) p) k s =
    (Ok (map_option (\<lambda>n. (value_of n, oid (inner s) (p @ [k]))) (m k)), s)"
  using get_law [OF assms] by (simp add: get_def am_read_def)

lemma get_str_run:
  assumes "node_at (tree (inner s)) p = Some (Branch m)" "str_ok m k"
  shows "get_str am (oid (inner s) p) k s = (Ok (str_of m k), s)"
  using assms(2)
  by (auto simp: get_str_def act_simps get_run [OF assms(1)] str_ok_def str_of_def
      split: option.splits node.splits scalar.splits)

lemma get_int_run:
  assumes "node_at (tree (inner s)) p = Some (Branch m)" "int_ok m k"
  shows "get_int am (oid (inner s) p) k s = (Ok (int_of m k), s)"
  using assms(2)
  by (auto simp: get_int_def act_simps get_run [OF assms(1)] int_ok_def int_of_def
      split: option.splits node.splits scalar.splits)

lemma get_text_run:
  assumes "node_at (tree (inner s)) p = Some (Branch m)"
  shows "get_text am (oid (inner s) p) k s =
    (Ok (map_option (\<lambda>t. (oid (inner s) (p @ [k]), t)) (text_of m k)), s)"
proof (cases "m k")
  case None
  then show ?thesis by (simp add: get_text_def act_simps get_run [OF assms] text_of_def)
next
  case (Some n)
  then have "node_at (tree (inner s)) (p @ [k]) = Some n"
    using assms by (simp add: node_at_append)
  with Some show ?thesis
    by (cases n) (simp_all add: get_text_def act_simps get_run [OF assms] text_of_def am_read_def text_law)
qed

lemma get_object_Branch:
  assumes "node_at (tree (inner s)) p = Some (Branch m)" "m k = Some (Branch x)"
  shows "get_object am (oid (inner s) p) k s = (Ok (Some (oid (inner s) (p @ [k]))), s)"
  using assms(2) by (simp add: get_object_def act_simps get_run [OF assms(1)])

lemma get_object_None:
  assumes "node_at (tree (inner s)) p = Some (Branch m)" "m k = None"
  shows "get_object am (oid (inner s) p) k s = (Ok None, s)"
  using assms(2) by (simp add: get_object_def act_simps get_run [OF assms(1)])

lemma map_keys_run:
  assumes "node_at (tree (inner s)) p = Some (Branch m)"
  obtains ks where "map_keys am (oid (inner s) p) s = (Ok ks, s)" "distinct ks" "set ks = dom m"
  using keys_law [OF assms] by (simp add: map_keys_def am_read_def)

lemma put_run:
  assumes "node_at (tree (inner s)) p = Some (Branch m)"
  obtains t where "put am (oid (inner s) p) k v s = (Ok (), t)"
    "edited tree oid s p (Branch (m(k \<mapsto> Leaf v))) t" "host t = host s"
proof -
  from put_law [OF assms, of k v] obtain d where d:
    "am_put am (inner s) (oid (inner s) p) k v = Ok d"
    "tree d = modify p (set_key k (Some (Leaf v))) (tree (inner s))"
    "\<forall>q. \<not> prefix (p @ [k]) q \<longrightarrow> oid d q = oid (inner s) q" by blast
  have "tree d = modify p (\<lambda>_. Branch (m(k \<mapsto> Leaf v))) (tree (inner s))"
    unfolding d(2) by (rule modify_cong_at) (simp add: assms)
  then have "edited tree oid s p (Branch (m(k \<mapsto> Leaf v))) (s\<lparr>inner := d\<rparr>)"
    using d(3) assms strict_prefix_below [of p _ k] by (simp add: edited_def)
  with d(1) that show thesis by (simp add: put_def am_write_def)
qed

lemma puts_run:
  assumes "node_at (tree (inner s)) p = Some (Branch m)"
  shows "\<exists>t. puts am (oid (inner s) p) kvs s = (Ok (), t) \<and>
    edited tree oid s p (Branch (puts_map kvs m)) t \<and> host t = host s"
  using assms
proof (induction kvs arbitrary: s m)
  case Nil
  then show ?case by (simp add: puts_def act_simps edited_refl)
next
  case (Cons kv kvs)
  obtain k v where kv: "kv = (k, v)" by fastforce
  obtain t where t: "put am (oid (inner s) p) k v s = (Ok (), t)"
    "edited tree oid s p (Branch (m(k \<mapsto> Leaf v))) t" "host t = host s"
    using put_run [OF Cons.prems] by blast
  from Cons.IH [OF edited_at [OF t(2)]] obtain u where u:
    "puts am (oid (inner t) p) kvs t = (Ok (), u)"
    "edited tree oid t p (Branch (puts_map kvs (m(k \<mapsto> Leaf v)))) u" "host u = host t" by blast
  then show ?case
    using t edited_again [OF t(2) u(2)] edited_oid_self [OF t(2)]
    by (simp add: kv puts_def andthen_Inr)
qed

lemma put_object_run:
  assumes "node_at (tree (inner s)) p = Some (Branch m)"
  obtains t where "put_object am (oid (inner s) p) k ty s = (Ok (oid (inner t) (p @ [k])), t)"
    "edited tree oid s p (Branch (m(k \<mapsto> empty_obj ty))) t" "host t = host s"
proof -
  from put_object_law [OF assms, of k ty] obtain d where d:
    "am_put_object am (inner s) (oid (inner s) p) k ty = Ok (d, oid d (p @ [k]))"
    "tree d = modify p (set_key k (Some (empty_obj ty))) (tree (inner s))"
    "\<forall>q. \<not> prefix (p @ [k]) q \<longrightarrow> oid d q = oid (inner s) q" by blast
  have "tree d = modify p (\<lambda>_. Branch (m(k \<mapsto> empty_obj ty))) (tree (inner s))"
    unfolding d(2) by (rule modify_cong_at) (simp add: assms)
  then have "edited tree oid s p (Branch (m(k \<mapsto> empty_obj ty))) (s\<lparr>inner := d\<rparr>)"
    using d(3) assms strict_prefix_below [of p _ k] by (simp add: edited_def)
  with d(1) that show thesis by (simp add: put_object_def am_create_def)
qed

lemma delete_key_run:
  assumes "node_at (tree (inner s)) p = Some (Branch m)"
  obtains t where "delete_key am (oid (inner s) p) k s = (Ok (), t)"
    "edited tree oid s p (Branch (m(k := None))) t" "host t = host s"
proof -
  from delete_law [OF assms, of k] obtain d where d:
    "am_delete am (inner s) (oid (inner s) p) k = Ok d"
    "tree d = modify p (set_key k None) (tree (inner s))"
    "\<forall>q. \<not> prefix (p @ [k]) q \<longrightarrow> oid d q = oid (inner s) q" by blast
  have "tree d = modify p (\<lambda>_. Branch (m(k := None))) (tree (inner s))"
    unfolding d(2) by (rule modify_cong_at) (simp add: assms)
  then have "edited tree oid s p (Branch (m(k := None))) (s\<lparr>inner := d\<rparr>)"
    using d(3) assms strict_prefix_below [of p _ k] by (simp add: edited_def)
  with d(1) that show thesis by (simp add: delete_key_def am_write_def)
qed

text \<open>Replacing the whole of a text, and filling an empty one.\<close>

lemma splice_run:
  assumes "node_at (tree (inner s)) p = Some (Text u)"
    and "del = int (length (chars u)) \<or> del = 0 \<and> u = []"
  obtains t where "splice_text am (oid (inner s) p) 0 del w s = (Ok (), t)"
    "edited tree oid s p (Text w) t" "host t = host s"
proof -
  have none: "u = [] \<Longrightarrow> chars u = []" by simp
  have del: "0 \<le> del" "0 + nat del \<le> length (chars u)"
    using assms(2) by auto
  have whole: "splice 0 del w (Text u) = Text w"
  proof (cases "u = [] \<and> del = 0")
    case True
    then show ?thesis using none by simp
  next
    case False
    then have nd: "nat del = length (chars u)" using assms(2) by auto
    show ?thesis unfolding splice.simps nd add_0 by simp
  qed
  from splice_law [OF assms(1) _ del(1,2), of w] obtain d where d:
    "am_splice_text am (inner s) (oid (inner s) p) 0 del w = Ok d"
    "tree d = modify p (splice 0 del w) (tree (inner s))" "oid d = oid (inner s)" by auto
  have "tree d = modify p (\<lambda>_. Text w) (tree (inner s))"
    unfolding d(2) by (rule modify_cong_at) (simp add: assms(1) whole del: splice.simps)
  then have "edited tree oid s p (Text w) (s\<lparr>inner := d\<rparr>)"
    using d(3) assms(1) by (simp add: edited_def)
  with d(1) that show thesis by (simp add: splice_text_def am_write_def)
qed

lemma commit_run:
  obtains t where "commit_now am s = (Ok (), t)" "tree (inner t) = tree (inner s)"
    "oid (inner t) = oid (inner s)" "later s t" "host_drawn (host t) = host_drawn (host s)"
  using commit_law [of "inner s"]
  by (simp add: commit_now_def act_simps now_ms_def later_def)

end

end
