(* ===== verification/DocDirs.thy ===== *)
theory DocDirs
  imports DocView "HOL-Library.Char_ord" "HOL-Library.List_Lexorder"
begin

text \<open>
  \<^verbatim>\<open>crates/agentsync-core/src/doc/directories.rs\<close>, the operations the file operations are
  built on: finding, creating and listing directories, and the loop that creates the missing
  ancestors of a path. (Deletion and renaming of directories need the file operations and are
  in \<^theory_text>\<open>DocTrees\<close>.) The lemmas give the view after each operation.
\<close>

section \<open>Operations\<close>

definition find_directory_by_path_normalized ::
    "('d, 'o, 'y) automerge \<Rightarrow> string \<Rightarrow> ('d doc, string option) action" where
  "find_directory_by_path_normalized am path =
     andthen (directories_obj am) (\<lambda>dirs.
     andthen (map_keys am dirs) (\<lambda>keys.
     first_some keys (\<lambda>did.
       andthen (get_object am dirs did) (\<lambda>x. case x of
         None \<Rightarrow> ret None
       | Some meta \<Rightarrow>
           andthen (get_int am meta ''deleted_at'') (\<lambda>deleted.
             if deleted \<noteq> None then ret None
             else andthen (get_str am meta ''path'') (\<lambda>p.
               ret (if p = Some path then Some did else None)))))))"

definition find_directory_by_path ::
    "('d, 'o, 'y) automerge \<Rightarrow> (string \<Rightarrow> string) \<Rightarrow> string \<Rightarrow> ('d doc, string option) action" where
  "find_directory_by_path am nfc path =
     andthen (lift (normalize nfc path)) (find_directory_by_path_normalized am)"

text \<open>The body of the loop, and the loop.\<close>

definition ensure_directory :: "('d, 'o, 'y) automerge \<Rightarrow> int \<Rightarrow> string \<Rightarrow> ('d doc, unit) action" where
  "ensure_directory am now ancestor =
     andthen (find_directory_by_path_normalized am ancestor) (\<lambda>found.
       if found \<noteq> None then ret ()
       else
         andthen (directories_obj am) (\<lambda>dirs.
         andthen new_id (\<lambda>did.
         andthen (put_object am dirs did OMap) (\<lambda>meta.
         puts am meta [(''path'', SStr ancestor), (''created_at'', SInt now)]))))"

definition ensure_ancestor_directories ::
    "('d, 'o, 'y) automerge \<Rightarrow> string \<Rightarrow> ('d doc, unit) action" where
  "ensure_ancestor_directories am path =
     andthen now_ms (\<lambda>now. foreach (ancestors path) (ensure_directory am now))"

definition create_directory ::
    "('d, 'o, 'y) automerge \<Rightarrow> (string \<Rightarrow> string) \<Rightarrow> string \<Rightarrow> ('d doc, string) action" where
  "create_directory am nfc path0 =
     andthen (lift (normalize nfc path0)) (\<lambda>path.
     andthen (find_directory_by_path_normalized am path) (\<lambda>found. case found of
       Some d \<Rightarrow> ret d
     | None \<Rightarrow>
         andthen (directories_obj am) (\<lambda>dirs.
         andthen new_id (\<lambda>did.
         andthen (put_object am dirs did OMap) (\<lambda>meta.
         andthen (put am meta ''path'' (SStr path)) (\<lambda>_.
         andthen now_ms (\<lambda>now.
         andthen (put am meta ''created_at'' (SInt now)) (\<lambda>_.
         andthen (ensure_ancestor_directories am path) (\<lambda>_.
         andthen (commit_now am) (\<lambda>_.
         ret did))))))))))"

definition list_directories :: "('d, 'o, 'y) automerge \<Rightarrow> ('d doc, directory_meta list) action" where
  "list_directories am =
     andthen (directories_obj am) (\<lambda>dirs.
     andthen (map_keys am dirs) (\<lambda>keys.
     andthen (collect keys (\<lambda>did.
       andthen (get_object am dirs did) (\<lambda>x. case x of
         None \<Rightarrow> ret None
       | Some meta \<Rightarrow>
           andthen (get_str am meta ''path'') (\<lambda>p. case p of
             None \<Rightarrow> ret None
           | Some path \<Rightarrow>
               andthen (get_int am meta ''created_at'') (\<lambda>created.
               andthen (get_int am meta ''deleted_at'') (\<lambda>deleted.
                 ret (if deleted \<noteq> None then None
                      else Some \<lparr>dm_id = did, dm_path = path,
                                 dm_created_at = unwrap_or 0 created,
                                 dm_deleted_at = deleted\<rparr>))))))) (\<lambda>out.
     ret (sort_key dm_path out))))"

section \<open>Adding directories to a view\<close>

text \<open>What the loop over the ancestors does to the view.\<close>

definition new_dir :: "string \<Rightarrow> int \<Rightarrow> node" where
  "new_dir p now = Branch [''path'' \<mapsto> Leaf (SStr p), ''created_at'' \<mapsto> Leaf (SInt now)]"

definition dirs_ok :: "view \<Rightarrow> bool" where
  "dirs_ok v \<longleftrightarrow> (\<forall>did n. v_dirs v did = Some n \<longrightarrow> dir_wf n) \<and>
     (\<forall>p i j. (p, i) \<in> live_dirs v \<and> (p, j) \<in> live_dirs v \<longrightarrow> i = j)"

definition adds_dirs :: "view \<Rightarrow> string set \<Rightarrow> view \<Rightarrow> bool" where
  "adds_dirs v ps v' \<longleftrightarrow>
     (\<exists>D. v' = v\<lparr>v_dirs := D\<rparr>) \<and> live_dirs v \<subseteq> live_dirs v' \<and>
     (\<forall>p. has_dir v' p \<longleftrightarrow> has_dir v p \<or> p \<in> ps) \<and> dirs_ok v'"

lemma new_dir_facts [simp]:
  "dir_wf (new_dir p now)" "dir_live_path (new_dir p now) = Some p"
  by (simp_all add: new_dir_def str_of_def int_ok_def dir_live_path_def live_path_in_def int_of_def)

lemma vault_ok_dirs: "vault_ok v \<Longrightarrow> dirs_ok v"
  by (auto simp: vault_ok_def schema_ok_def unique_paths_def dirs_ok_def)

lemma adds_none: "dirs_ok v \<Longrightarrow> \<forall>p \<in> ps. has_dir v p \<Longrightarrow> adds_dirs v ps v"
  by (auto simp: adds_dirs_def intro: exI [of _ "v_dirs v"])

lemma adds_one:
  assumes "dirs_ok v" "v_dirs v did = None" "\<not> has_dir v p" "dir_wf n" "dir_live_path n = Some p"
  shows "adds_dirs v {p} (v\<lparr>v_dirs := (v_dirs v)(did \<mapsto> n)\<rparr>)"
proof -
  let ?v = "v\<lparr>v_dirs := (v_dirs v)(did \<mapsto> n)\<rparr>"
  have old: "(q, did) \<notin> live_dirs v" for q using assms(2) by (simp add: live_dirs_iff)
  have live: "live_dirs ?v = insert (p, did) (live_dirs v)"
    using old assms(5) unfolding live_dirs_set by force
  have "has_dir ?v q \<longleftrightarrow> has_dir v q \<or> q = p" for q
    unfolding has_dir_def live by auto
  moreover have "dirs_ok ?v"
    using assms unfolding dirs_ok_def live by (auto simp: has_dir_def)
  ultimately show ?thesis unfolding adds_dirs_def live by auto
qed

lemma adds_trans:
  assumes "adds_dirs v ps v'" "adds_dirs v' qs v''"
  shows "adds_dirs v (ps \<union> qs) v''"
  using assms by (fastforce simp: adds_dirs_def)

lemma adds_files:
  assumes "adds_dirs v ps v'"
  shows "live_files v' = live_files v" "has_file v' = has_file v" "v_files v' = v_files v"
    "v_labels v' = v_labels v" "v_rest v' = v_rest v"
  using assms by (auto simp: adds_dirs_def)

lemma ancestors_trans:
  assumes "good_path p" "a \<in> set (ancestors p)" "b \<in> set (ancestors a)"
  shows "b \<in> set (ancestors p)"
proof -
  from assms(1) obtain ps where ps: "ps \<noteq> []" "list_all good_segment ps" "p = join ''/'' ps"
    by (rule good_path_segments)
  with assms(2) obtain k where k: "1 \<le> k" "k < length ps" "a = join ''/'' (take k ps)"
    by (auto simp: ancestors_segments)
  then have "take k ps \<noteq> []" "list_all good_segment (take k ps)"
    using ps by (auto simp: list_all_iff dest: in_set_takeD)
  with k assms(3) obtain j where "1 \<le> j" "j < k" "b = join ''/'' (take j ps)"
    by (auto simp: ancestors_segments min_def)
  with k ps show ?thesis by (auto simp: ancestors_segments)
qed

lemma placed_adds:
  "adds_dirs v ps v' \<Longrightarrow> placed v p \<Longrightarrow> placed v' p"
  by (auto simp: adds_dirs_def placed_def)

lemma vault_ok_adds_set:
  assumes "vault_ok v" "adds_dirs v ps v'"
    and "\<And>a. a \<in> ps \<Longrightarrow> good_path a \<and> set (ancestors a) \<subseteq> ps"
  shows "vault_ok v'"
proof -
  have dirs: "has_dir v' q \<longleftrightarrow> has_dir v q \<or> q \<in> ps" for q
    using assms(2) by (simp add: adds_dirs_def)
  have "placed v' a" if "a \<in> ps" for a
    using assms(3) [OF that] dirs by (auto simp: placed_def)
  moreover have "placed v' q" if "has_file v q \<or> has_dir v q" for q
    using that assms(1) placed_adds [OF assms(2)] by (auto simp: vault_ok_def all_placed_def)
  ultimately have "all_placed v'"
    using dirs adds_files(2) [OF assms(2)] by (auto simp: all_placed_def)
  moreover have "schema_ok v'" "unique_paths v'"
    using assms(1,2) adds_files(1,3) [OF assms(2)]
    by (auto simp: vault_ok_def schema_ok_def unique_paths_def adds_dirs_def dirs_ok_def)
  ultimately show ?thesis by (simp add: vault_ok_def)
qed

text \<open>The ancestors of a good path, and the path itself, can be added to any vault.\<close>

lemma ancestors_closed:
  assumes "good_path p"
  shows "a \<in> set (ancestors p) \<Longrightarrow> good_path a \<and> set (ancestors a) \<subseteq> set (ancestors p)"
    "a \<in> insert p (set (ancestors p)) \<Longrightarrow>
       good_path a \<and> set (ancestors a) \<subseteq> insert p (set (ancestors p))"
  using assms ancestors_good [OF assms] ancestors_trans [OF assms] by blast+

lemmas vault_ok_adds = vault_ok_adds_set [OF _ _ ancestors_closed(1)]

lemma placed_after_adds:
  "adds_dirs v (set (ancestors p)) v' \<Longrightarrow> good_path p \<Longrightarrow> placed v' p"
  by (simp add: adds_dirs_def placed_def)

section \<open>Running the operations\<close>

lemma dir_wf_Branch:
  assumes "dir_wf n"
  obtains m where "n = Branch m" "str_ok m ''path''" "str_of m ''path'' \<noteq> None"
    "int_ok m ''created_at''" "int_ok m ''deleted_at''"
  using assms by (cases n) (auto simp: str_of_def str_ok_def split: option.splits node.splits scalar.splits)

context automerge_doc
begin

lemma below_run:
  assumes "node_at (tree (inner s)) p = Some (Branch m)" "m k = Some (Branch x)"
  shows "node_at (tree (inner s)) (p @ [k]) = Some (Branch x)"
  using assms by (simp add: node_at_append)

lemma find_dir_run:
  assumes "displays tree s v" "dirs_ok v"
  obtains r where "find_directory_by_path_normalized am p s = (Ok r, s)"
    "r = None \<longrightarrow> \<not> has_dir v p" "\<forall>did. r = Some did \<longrightarrow> (p, did) \<in> live_dirs v"
proof -
  note D = displays_node(2) [OF assms(1)]
  obtain ks where ks: "map_keys am (oid (inner s) [''directories'']) s = (Ok ks, s)"
    "distinct ks" "set ks = dom (v_dirs v)"
    by (rule map_keys_run [OF D])
  let ?P = "\<lambda>did. \<exists>n. v_dirs v did = Some n \<and> dir_live_path n = Some p"
  have body: "andthen (get_object am (oid (inner s) [''directories'']) did) (\<lambda>x. case x of
         None \<Rightarrow> ret None
       | Some meta \<Rightarrow>
           andthen (get_int am meta ''deleted_at'') (\<lambda>deleted.
             if deleted \<noteq> None then ret None
             else andthen (get_str am meta ''path'') (\<lambda>q.
               ret (if q = Some p then Some did else None)))) s = (Ok (if ?P did then Some did else None), s)"
    if "did \<in> set ks" for did
  proof -
    from that ks(3) obtain n where n: "v_dirs v did = Some n" by auto
    with assms(2) have "dir_wf n" by (auto simp: dirs_ok_def)
    then obtain m where m: "n = Branch m" "str_ok m ''path''" "int_ok m ''deleted_at''"
      by (rule dir_wf_Branch)
    have at: "node_at (tree (inner s)) ([''directories''] @ [did]) = Some (Branch m)"
      by (rule below_run [OF D]) (simp add: n m)
    show ?thesis
      using n m get_object_Branch [OF D, of did m] get_int_run [OF at m(3)] get_str_run [OF at m(2)]
      by (simp add: andthen_run ret_run dir_live_path_def live_path_in_def)
  qed
  have run: "find_directory_by_path_normalized am p s = (Ok (List.find ?P ks), s)"
    unfolding find_directory_by_path_normalized_def
    by (rule andthen_step, rule objs_run(2) [OF assms(1)], rule andthen_step, rule ks(1),
        rule first_some_find, rule body)
  show thesis
  proof (rule that [OF run])
    show "List.find ?P ks = None \<longrightarrow> \<not> has_dir v p"
      using ks(3) by (fastforce simp: has_dir_def live_dirs_iff find_None_iff)
    show "\<forall>did. List.find ?P ks = Some did \<longrightarrow> (p, did) \<in> live_dirs v"
      using find_Some_in [of ?P ks] by (simp add: live_dirs_iff)
  qed
qed

lemma edited_view_dirs:
  assumes "displays tree s v" "edited tree oid s [''directories''] (Branch (v_dirs v')) t"
    and "adds_dirs v ps v'"
  shows "displays tree t v'"
  using displays_edited(2) [OF assms(1,2)] assms(3) by (auto simp: adds_dirs_def)

text \<open>A new directory object, filled with the fields of an entry.\<close>

lemma new_directory_run:
  assumes "displays tree s v"
  obtains t u where
    "put_object am (oid (inner s) [''directories'']) did OMap s =
       (Ok (oid (inner t) [''directories'', did]), t)"
    "puts am (oid (inner t) [''directories'', did]) kvs t = (Ok (), u)"
    "edited tree oid s [''directories''] (Branch ((v_dirs v)(did \<mapsto> Branch (puts_map kvs Map.empty)))) u"
    "host u = host s" "oid (inner u) [''directories'', did] = oid (inner t) [''directories'', did]"
proof -
  note D = displays_node(2) [OF assms]
  obtain t where t: "put_object am (oid (inner s) [''directories'']) did OMap s =
      (Ok (oid (inner t) ([''directories''] @ [did])), t)"
    "edited tree oid s [''directories''] (Branch ((v_dirs v)(did \<mapsto> empty_obj OMap))) t"
    "host t = host s"
    by (rule put_object_run [OF D])
  have at: "node_at (tree (inner t)) ([''directories''] @ [did]) = Some (Branch Map.empty)"
    using edited_below [OF t(2), of did] by simp
  from puts_run [OF at, of kvs] obtain u where u:
    "puts am (oid (inner t) ([''directories''] @ [did])) kvs t = (Ok (), u)"
    "edited tree oid t ([''directories''] @ [did]) (Branch (puts_map kvs Map.empty)) u"
    "host u = host t" by blast
  from edited_child [OF t(2) u(2)] have "edited tree oid s [''directories'']
      (Branch ((v_dirs v)(did \<mapsto> Branch (puts_map kvs Map.empty)))) u" by simp
  with t u that edited_oid_self [OF u(2)] show thesis by simp
qed

lemma ensure_directory_run:
  assumes "displays tree s v" "dirs_ok v" "fresh_ids s v"
  obtains t v' where "ensure_directory am now a s = (Ok (), t)"
    "edited tree oid s [''directories''] (Branch (v_dirs v')) t" "adds_dirs v {a} v'" "fresh_ids t v'"
proof -
  obtain r where r: "find_directory_by_path_normalized am a s = (Ok r, s)"
    "r = None \<longrightarrow> \<not> has_dir v a" "\<forall>did. r = Some did \<longrightarrow> (a, did) \<in> live_dirs v"
    by (rule find_dir_run [OF assms(1,2), of a])
  show thesis
  proof (cases r)
    case (Some did)
    then have "has_dir v a" using r(3) by (auto simp: has_dir_def)
    then have "adds_dirs v {a} v" using adds_none [OF assms(2)] by simp
    moreover have "edited tree oid s [''directories''] (Branch (v_dirs v)) s"
      by (rule edited_refl [of tree, OF displays_node(2) [OF assms(1)]])
    moreover have "ensure_directory am now a s = (Ok (), s)"
      by (simp add: ensure_directory_def andthen_run r(1) Some ret_run)
    ultimately show thesis using that assms(3) by blast
  next
    case None
    let ?did = "host_ids (host s) (host_drawn (host s))"
    let ?kvs = "[(''path'', SStr a), (''created_at'', SInt now)]"
    let ?v = "v\<lparr>v_dirs := (v_dirs v)(?did \<mapsto> new_dir a now)\<rparr>"
    obtain s' where s': "new_id s = (Ok ?did, s')" "inner s' = inner s" "later s s'"
      "host_drawn (host s') = Suc (host_drawn (host s))"
      by (rule new_id_obtain)
    have d': "displays tree s' v" using assms(1) s'(2) by (simp add: displays_def)
    obtain t u where u:
      "put_object am (oid (inner s') [''directories'']) ?did OMap s' =
         (Ok (oid (inner t) [''directories'', ?did]), t)"
      "puts am (oid (inner t) [''directories'', ?did]) ?kvs t = (Ok (), u)"
      "edited tree oid s' [''directories'']
         (Branch ((v_dirs v)(?did \<mapsto> Branch (puts_map ?kvs Map.empty)))) u"
      "host u = host s'" "oid (inner u) [''directories'', ?did] = oid (inner t) [''directories'', ?did]"
      by (rule new_directory_run [OF d'])
    have "ensure_directory am now a s = (Ok (), u)"
      using u(1,2) by (simp add: ensure_directory_def andthen_run r(1) None objs_run [OF assms(1)] s'(1,2))
    moreover have "edited tree oid s [''directories''] (Branch (v_dirs ?v)) u"
      using edited_host_left [OF u(3) s'(2)[symmetric] s'(3)] by (simp add: new_dir_def)
    moreover have "adds_dirs v {a} ?v"
      using adds_one [OF assms(2) fresh_next(2) [OF assms(3)]] r(2) None by simp
    moreover have "fresh_ids u ?v"
      using fresh_drawn(2) [OF assms(3), of u] s'(3,4) u(4) by (simp add: later_def)
    ultimately show thesis by (rule that)
  qed
qed

lemma ensure_all_run:
  assumes "displays tree s v" "dirs_ok v" "fresh_ids s v"
  shows "\<exists>t v'. foreach as (ensure_directory am now) s = (Ok (), t) \<and>
    edited tree oid s [''directories''] (Branch (v_dirs v')) t \<and> adds_dirs v (set as) v' \<and> fresh_ids t v'"
  using assms
proof (induction as arbitrary: s v)
  case Nil
  then show ?case
    using edited_refl [of tree, OF displays_node(2) [OF Nil(1)]] adds_none by (auto simp: ret_run)
next
  case (Cons a as)
  obtain t v' where t: "ensure_directory am now a s = (Ok (), t)"
    "edited tree oid s [''directories''] (Branch (v_dirs v')) t" "adds_dirs v {a} v'" "fresh_ids t v'"
    by (rule ensure_directory_run [OF Cons.prems])
  have "displays tree t v'" by (rule edited_view_dirs [OF Cons.prems(1) t(2,3)])
  moreover have "dirs_ok v'" using t(3) by (simp add: adds_dirs_def)
  ultimately obtain u v'' where u: "foreach as (ensure_directory am now) t = (Ok (), u)"
    "edited tree oid t [''directories''] (Branch (v_dirs v'')) u" "adds_dirs v' (set as) v''"
    "fresh_ids u v''"
    using Cons.IH t(4) by blast
  have "adds_dirs v (set (a # as)) v''" using adds_trans [OF t(3) u(3)] by simp
  with t u edited_again [OF t(2) u(2)] show ?case by (auto simp: andthen_run)
qed

lemma ensure_ancestors_run:
  assumes "displays tree s v" "dirs_ok v" "fresh_ids s v"
  obtains t v' where "ensure_ancestor_directories am p s = (Ok (), t)"
    "edited tree oid s [''directories''] (Branch (v_dirs v')) t"
    "adds_dirs v (set (ancestors p)) v'" "fresh_ids t v'" "displays tree t v'"
proof -
  obtain x s' where s': "now_ms s = (Ok x, s')" "inner s' = inner s" "later s s'"
    "host_drawn (host s') = host_drawn (host s)"
    by (rule now_obtain)
  have "displays tree s' v" "fresh_ids s' v"
    using assms s' by (auto simp: displays_def fresh_later)
  from ensure_all_run [OF this(1) assms(2) this(2), of "ancestors p" x] obtain t v' where t:
    "foreach (ancestors p) (ensure_directory am x) s' = (Ok (), t)"
    "edited tree oid s' [''directories''] (Branch (v_dirs v')) t"
    "adds_dirs v (set (ancestors p)) v'" "fresh_ids t v'" by blast
  have e: "edited tree oid s [''directories''] (Branch (v_dirs v')) t"
    by (rule edited_host_left [OF t(2)]) (simp_all add: s')
  show thesis
    by (rule that [OF _ e t(3,4) edited_view_dirs [OF assms(1) e t(3)]])
      (simp add: ensure_ancestor_directories_def andthen_run s'(1) t(1))
qed

lemma create_directory_run:
  assumes "displays tree s v" "vault_ok v" "fresh_ids s v" "normalize nfc p = Ok q"
  obtains did t v' where "create_directory am nfc p s = (Ok did, t)" "displays tree t v'"
    "vault_ok v'" "fresh_ids t v'" "(q, did) \<in> live_dirs v'"
    "adds_dirs v (insert q (set (ancestors q))) v'"
proof -
  have good: "good_path q" by (rule normalize_good [OF assms(4)])
  note ok = vault_ok_dirs [OF assms(2)]
  obtain r where r: "find_directory_by_path_normalized am q s = (Ok r, s)"
    "r = None \<longrightarrow> \<not> has_dir v q" "\<forall>did. r = Some did \<longrightarrow> (q, did) \<in> live_dirs v"
    by (rule find_dir_run [OF assms(1) ok, of q])
  show thesis
  proof (cases r)
    case (Some did)
    then have live: "(q, did) \<in> live_dirs v" using r(3) by simp
    then have "has_dir v q" by (auto simp: has_dir_def)
    with assms(2) have "adds_dirs v (insert q (set (ancestors q))) v"
      by (intro adds_none [OF ok]) (auto simp: vault_ok_def all_placed_def placed_def)
    then show thesis
      using that [of did s v] assms live by (simp add: create_directory_def andthen_run lift_run r(1) Some ret_run)
  next
    case None
    let ?did = "host_ids (host s) (host_drawn (host s))"
    let ?p = "[''directories'', ?did]"
    let ?m = "[''path'' \<mapsto> Leaf (SStr q)]"
    obtain s' where s': "new_id s = (Ok ?did, s')" "inner s' = inner s" "later s s'"
      "host_drawn (host s') = Suc (host_drawn (host s))"
      by (rule new_id_obtain)
    have d': "displays tree s' v" using assms(1) s'(2) by (simp add: displays_def)
    obtain t u where u:
      "put_object am (oid (inner s') [''directories'']) ?did OMap s' = (Ok (oid (inner t) ?p), t)"
      "puts am (oid (inner t) ?p) [(''path'', SStr q)] t = (Ok (), u)"
      "edited tree oid s' [''directories'']
         (Branch ((v_dirs v)(?did \<mapsto> Branch (puts_map [(''path'', SStr q)] Map.empty)))) u"
      "host u = host s'" "oid (inner u) ?p = oid (inner t) ?p"
      by (rule new_directory_run [OF d'])
    have put1: "put am (oid (inner t) ?p) ''path'' (SStr q) t = (Ok (), u)"
      using u(2) by (auto simp: puts_def andthen_run ret_run split: prod.splits sum.splits)
    obtain x u' where u': "now_ms u = (Ok x, u')" "inner u' = inner u" "later u u'"
      "host_drawn (host u') = host_drawn (host u)"
      by (rule now_obtain)
    have at: "node_at (tree (inner u')) ([''directories''] @ [?did]) = Some (Branch ?m)"
      using edited_below [OF u(3), of ?did] u'(2) by simp
    obtain w where w: "put am (oid (inner u') ([''directories''] @ [?did])) ''created_at'' (SInt x) u' = (Ok (), w)"
      "edited tree oid u' ([''directories''] @ [?did]) (Branch (?m(''created_at'' \<mapsto> Leaf (SInt x)))) w"
      "host w = host u'"
      by (rule put_run [OF at])
    let ?v = "v\<lparr>v_dirs := (v_dirs v)(?did \<mapsto> new_dir q x)\<rparr>"
    have "edited tree oid s' [''directories''] (Branch (v_dirs ?v)) w"
      using edited_child [OF edited_host [OF u(3) u'(2,3)] w(2)] by (simp add: new_dir_def)
    then have e: "edited tree oid s [''directories''] (Branch (v_dirs ?v)) w"
      by (rule edited_host_left) (simp_all add: s')
    have add: "adds_dirs v {q} ?v"
      using adds_one [OF ok fresh_next(2) [OF assms(3)]] r(2) None by simp
    have fr: "fresh_ids w ?v"
      using fresh_drawn(2) [OF assms(3) edited_later [OF e]] s'(4) u(4) u'(4) w(3) by simp
    have dw: "displays tree w ?v" by (rule edited_view_dirs [OF assms(1) e add])
    have okw: "dirs_ok ?v" using add by (simp add: adds_dirs_def)
    obtain y v' where y: "ensure_ancestor_directories am q w = (Ok (), y)"
      "edited tree oid w [''directories''] (Branch (v_dirs v')) y"
      "adds_dirs ?v (set (ancestors q)) v'" "fresh_ids y v'" "displays tree y v'"
      by (rule ensure_ancestors_run [OF dw okw fr])
    obtain z where z: "commit_now am y = (Ok (), z)" "tree (inner z) = tree (inner y)"
      "oid (inner z) = oid (inner y)" "later y z" "host_drawn (host z) = host_drawn (host y)"
      by (rule commit_run)
    have all: "adds_dirs v (insert q (set (ancestors q))) v'"
      using adds_trans [OF add y(3)] by simp
    have "create_directory am nfc p s = (Ok ?did, z)"
      using u(1,5) put1 w(1)
      by (simp add: create_directory_def andthen_run lift_run assms(4) r(1) None objs_run [OF assms(1)]
          s'(1,2) u'(1,2) y(1) z(1) ret_run)
    moreover have "vault_ok v'"
      by (rule vault_ok_adds_set [OF assms(2) all ancestors_closed(2) [OF good]])
    moreover have "(q, ?did) \<in> live_dirs v'"
    proof -
      have "(q, ?did) \<in> live_dirs ?v" by (simp add: live_dirs_iff)
      then show ?thesis using y(3) by (auto simp: adds_dirs_def)
    qed
    ultimately show thesis
      using that displays_same [OF y(5) z(2)] fresh_later [OF y(4) z(4)] all by blast
  qed
qed

lemma list_directories_run:
  assumes "displays tree s v" "dirs_ok v"
  obtains out where "list_directories am s = (Ok out, s)" "sorted (map dm_path out)"
    "distinct (map dm_id out)"
    "set out = {dir_rec did n |did n. v_dirs v did = Some n \<and> dir_live_path n \<noteq> None}"
proof -
  note D = displays_node(2) [OF assms(1)]
  obtain ks where ks: "map_keys am (oid (inner s) [''directories'']) s = (Ok ks, s)"
    "distinct ks" "set ks = dom (v_dirs v)"
    by (rule map_keys_run [OF D])
  define g where "g did = (case v_dirs v did of
      Some n \<Rightarrow> if dir_live_path n \<noteq> None then Some (dir_rec did n) else None | None \<Rightarrow> None)" for did
  have body: "andthen (get_object am (oid (inner s) [''directories'']) did) (\<lambda>x. case x of
         None \<Rightarrow> ret None
       | Some meta \<Rightarrow>
           andthen (get_str am meta ''path'') (\<lambda>p. case p of
             None \<Rightarrow> ret None
           | Some path \<Rightarrow>
               andthen (get_int am meta ''created_at'') (\<lambda>created.
               andthen (get_int am meta ''deleted_at'') (\<lambda>deleted.
                 ret (if deleted \<noteq> None then None
                      else Some \<lparr>dm_id = did, dm_path = path,
                                 dm_created_at = unwrap_or 0 created,
                                 dm_deleted_at = deleted\<rparr>))))) s = (Ok (g did), s)"
    if "did \<in> set ks" for did
  proof -
    from that ks(3) obtain n where n: "v_dirs v did = Some n" by auto
    with assms(2) have "dir_wf n" by (auto simp: dirs_ok_def)
    then obtain m where m: "n = Branch m" "str_ok m ''path''" "str_of m ''path'' \<noteq> None"
      "int_ok m ''created_at''" "int_ok m ''deleted_at''"
      by (rule dir_wf_Branch)
    have at: "node_at (tree (inner s)) ([''directories''] @ [did]) = Some (Branch m)"
      by (rule below_run [OF D]) (simp add: n m)
    show ?thesis
      using n m(1,3) get_object_Branch [OF D, of did m] get_int_run [OF at m(4)] get_int_run [OF at m(5)]
        get_str_run [OF at m(2)]
      by (auto simp: g_def andthen_run ret_run dir_live_path_def live_path_in_def dir_rec_def)
  qed
  let ?out = "List.map_filter g ks"
  have run: "list_directories am s = (Ok (sort_key dm_path ?out), s)"
    unfolding list_directories_def
    by (rule andthen_step, rule objs_run(2) [OF assms(1)], rule andthen_step, rule ks(1),
        rule andthen_step, rule collect_pure, rule body, assumption, simp add: ret_run)
  have gid: "g did = Some y \<Longrightarrow> dm_id y = did" for did y
    by (auto simp: g_def dir_rec_def split: option.splits if_splits)
  have "map dm_id ?out = filter (\<lambda>did. g did \<noteq> None) ks"
    by (induction ks) (auto simp: List.map_filter_simps gid split: option.splits)
  then have "distinct (map dm_id ?out)" using ks(2) by simp
  then have "distinct (map dm_id (sort_key dm_path ?out))"
    by (simp add: distinct_map)
  moreover have "set ?out = {dir_rec did n |did n. v_dirs v did = Some n \<and> dir_live_path n \<noteq> None}"
    using ks(3) by (force simp: set_map_filter g_def split: option.splits if_splits)
  ultimately show thesis using that [OF run] by simp
qed

end

end
