(* ===== verification/DocFiles.thy ===== *)
theory DocFiles
  imports DocDirs
begin

text \<open>
  \<^verbatim>\<open>crates/agentsync-core/src/doc/files.rs\<close>: lookup, reading, hashing, listing, writing,
  deleting and renaming of files. The lemmas run each operation on a document that shows a
  view and give the view it leaves, in terms of \<open>live_files\<close> and of the invariant
  \<open>vault_ok\<close>.
\<close>

section \<open>Reading\<close>

definition find_file_by_path_normalized ::
    "('d, 'o, 'y) automerge \<Rightarrow> string \<Rightarrow> ('d doc, string option) action" where
  "find_file_by_path_normalized am path =
     andthen (files_obj am) (\<lambda>files.
     andthen (map_keys am files) (\<lambda>keys.
     first_some keys (\<lambda>fid.
       andthen (get_object am files fid) (\<lambda>x. case x of
         None \<Rightarrow> ret None
       | Some entry \<Rightarrow>
           andthen (get_object am entry ''meta'') (\<lambda>y. case y of
             None \<Rightarrow> ret None
           | Some meta \<Rightarrow>
               andthen (get_int am meta ''deleted_at'') (\<lambda>deleted.
                 if deleted \<noteq> None then ret None
                 else andthen (get_str am meta ''path'') (\<lambda>p.
                   ret (if p = Some path then Some fid else None))))))))"

definition find_file_by_path ::
    "('d, 'o, 'y) automerge \<Rightarrow> (string \<Rightarrow> string) \<Rightarrow> string \<Rightarrow> ('d doc, string option) action" where
  "find_file_by_path am nfc path =
     andthen (lift (normalize nfc path)) (find_file_by_path_normalized am)"

definition file_exists ::
    "('d, 'o, 'y) automerge \<Rightarrow> (string \<Rightarrow> string) \<Rightarrow> string \<Rightarrow> 'd doc \<Rightarrow> bool \<times> 'd doc" where
  "file_exists am nfc path s =
     (case find_file_by_path am nfc path s of
        (r, t) \<Rightarrow> (Option.bind (ok_opt r) id \<noteq> None, t))"

definition read_file ::
    "('d, 'o, 'y) automerge \<Rightarrow> (string \<Rightarrow> string) \<Rightarrow> string \<Rightarrow> ('d doc, string) action" where
  "read_file am nfc path0 =
     andthen (lift (normalize nfc path0)) (\<lambda>path.
     andthen (find_file_by_path_normalized am path) (\<lambda>found.
     andthen (lift (ok_or (NotFound path) found)) (\<lambda>fid.
     andthen (files_obj am) (\<lambda>files.
     andthen (get_object am files fid) (\<lambda>x.
     andthen (lift (ok_or (Other (''file entry vanished: '' @ fid)) x)) (\<lambda>entry.
     andthen (get_text am entry ''content'') (\<lambda>text. case text of
       Some (_, t) \<Rightarrow> ret t
     | None \<Rightarrow> fail (Other (''file is not a text file: '' @ path)))))))))"

definition file_hash ::
    "('d, 'o, 'y) automerge \<Rightarrow> crypto \<Rightarrow> (string \<Rightarrow> string) \<Rightarrow> string \<Rightarrow> ('d doc, string) action" where
  "file_hash am c nfc path0 =
     andthen (lift (normalize nfc path0)) (\<lambda>path.
     andthen (find_file_by_path_normalized am path) (\<lambda>found.
     andthen (lift (ok_or (NotFound path) found)) (\<lambda>fid.
     andthen (files_obj am) (\<lambda>files.
     andthen (get_object am files fid) (\<lambda>x.
     andthen (lift (ok_or (Other (''file entry vanished: '' @ fid)) x)) (\<lambda>entry.
     andthen (get_object am entry ''meta'') (\<lambda>y.
     andthen (lift (ok_or (Other ''file meta missing'') y)) (\<lambda>meta.
     andthen (get_str am meta ''kind'') (\<lambda>kind_s.
     andthen (case kind_s of
         None \<Rightarrow> ret None
       | Some k \<Rightarrow> andthen (lift (kind_parse k)) (\<lambda>kind.
           if kind = KAttachment then get_str am entry ''binary_hash'' else ret None)) (\<lambda>h. case h of
       Some hash \<Rightarrow> ret hash
     | None \<Rightarrow>
         andthen (get_text am entry ''content'') (\<lambda>text. case text of
           Some (_, t) \<Rightarrow> ret (content_hash c (as_bytes t))
         | None \<Rightarrow> fail (Other (''cannot hash file: '' @ path)))))))))))))"

definition read_file_meta ::
    "('d, 'o, 'y) automerge \<Rightarrow> string \<Rightarrow> ('d doc, file_meta option) action" where
  "read_file_meta am fid =
     andthen (files_obj am) (\<lambda>files.
     andthen (get_object am files fid) (\<lambda>x. case x of
       None \<Rightarrow> ret None
     | Some entry \<Rightarrow>
         andthen (get_object am entry ''meta'') (\<lambda>y. case y of
           None \<Rightarrow> ret None
         | Some meta \<Rightarrow>
             andthen (get_str am meta ''path'') (\<lambda>p.
             andthen (lift (ok_or (Other (''file '' @ fid @ '' missing path'')) p)) (\<lambda>path.
             andthen (get_str am meta ''kind'') (\<lambda>k.
             andthen (lift (ok_or (Other (''file '' @ fid @ '' missing kind'')) k)) (\<lambda>kind_s.
             andthen (lift (kind_parse kind_s)) (\<lambda>kind.
             andthen (get_int am meta ''size'') (\<lambda>size.
             andthen (get_int am meta ''created_at'') (\<lambda>created.
             andthen (get_int am meta ''updated_at'') (\<lambda>updated.
             andthen (get_int am meta ''deleted_at'') (\<lambda>deleted.
             andthen (get_str am entry ''binary_hash'') (\<lambda>hash.
             ret (Some \<lparr>fm_id = fid, fm_path = path, fm_kind = kind, fm_size = unwrap_or 0 size,
                        fm_created_at = unwrap_or 0 created,
                        fm_updated_at = unwrap_or (unwrap_or 0 created) updated,
                        fm_deleted_at = deleted, fm_binary_hash = hash\<rparr>))))))))))))))"

definition list_files :: "('d, 'o, 'y) automerge \<Rightarrow> ('d doc, file_meta list) action" where
  "list_files am =
     andthen (files_obj am) (\<lambda>files.
     andthen (map_keys am files) (\<lambda>keys.
     andthen (collect keys (\<lambda>fid.
       andthen (read_file_meta am fid) (\<lambda>m. case m of
         None \<Rightarrow> ret None
       | Some meta \<Rightarrow> ret (if fm_deleted_at meta = None then Some meta else None)))) (\<lambda>out.
     ret (sort_key fm_path out))))"

definition list_file_paths :: "('d, 'o, 'y) automerge \<Rightarrow> ('d doc, string list) action" where
  "list_file_paths am = andthen (list_files am) (\<lambda>ms. ret (map fm_path ms))"

section \<open>Writing\<close>

text \<open>A new text object under an entry, and the replacement of a text that may be there.\<close>

definition new_content :: "('d, 'o, 'y) automerge \<Rightarrow> 'o \<Rightarrow> string \<Rightarrow> ('d doc, unit) action" where
  "new_content am entry content =
     andthen (put_object am entry ''content'' OText) (\<lambda>text_id.
       if content \<noteq> [] then splice_text am text_id 0 0 content else ret ())"

definition set_content :: "('d, 'o, 'y) automerge \<Rightarrow> 'o \<Rightarrow> string \<Rightarrow> ('d doc, unit) action" where
  "set_content am entry content =
     andthen (get_text am entry ''content'') (\<lambda>text. case text of
       Some (text_id, current) \<Rightarrow>
         if current \<noteq> content
         then splice_text am text_id 0 (int (length (chars current))) content
         else ret ()
     | None \<Rightarrow> new_content am entry content)"

definition write_text_file ::
    "('d, 'o, 'y) automerge \<Rightarrow> (string \<Rightarrow> string) \<Rightarrow> string \<Rightarrow> string \<Rightarrow> ('d doc, string) action" where
  "write_text_file am nfc path0 content =
     andthen (lift (normalize nfc path0)) (\<lambda>path.
     andthen now_ms (\<lambda>now.
     andthen (find_file_by_path_normalized am path) (\<lambda>found. case found of
       Some fid \<Rightarrow>
         andthen (files_obj am) (\<lambda>files.
         andthen (get_object am files fid) (\<lambda>x.
         andthen (unwrap x) (\<lambda>entry.
         andthen (get_object am entry ''meta'') (\<lambda>y.
         andthen (unwrap y) (\<lambda>meta.
         andthen (set_content am entry content) (\<lambda>_.
         andthen (puts am meta
           [(''size'', SInt (int (length content))), (''updated_at'', SInt now),
            (''kind'', SStr (kind_as_str KText))]) (\<lambda>_.
         andthen (delete_key am meta ''deleted_at'') (\<lambda>_.
         andthen (commit_now am) (\<lambda>_.
         ret fid)))))))))
     | None \<Rightarrow>
         andthen (files_obj am) (\<lambda>files.
         andthen new_id (\<lambda>fid.
         andthen (put_object am files fid OMap) (\<lambda>entry.
         andthen (put_object am entry ''meta'' OMap) (\<lambda>meta.
         andthen (puts am meta
           [(''path'', SStr path), (''kind'', SStr (kind_as_str KText)),
            (''size'', SInt (int (length content))), (''created_at'', SInt now),
            (''updated_at'', SInt now)]) (\<lambda>_.
         andthen (new_content am entry content) (\<lambda>_.
         andthen (ensure_ancestor_directories am path) (\<lambda>_.
         andthen (commit_now am) (\<lambda>_.
         ret fid)))))))))))"

definition write_attachment ::
    "('d, 'o, 'y) automerge \<Rightarrow> (string \<Rightarrow> string) \<Rightarrow> string \<Rightarrow> string \<Rightarrow> int \<Rightarrow> ('d doc, string) action" where
  "write_attachment am nfc path0 hash sz =
     andthen (lift (normalize nfc path0)) (\<lambda>path.
     andthen now_ms (\<lambda>now.
     andthen (find_file_by_path_normalized am path) (\<lambda>found. case found of
       Some fid \<Rightarrow>
         andthen (files_obj am) (\<lambda>files.
         andthen (get_object am files fid) (\<lambda>x.
         andthen (unwrap x) (\<lambda>entry.
         andthen (get_object am entry ''meta'') (\<lambda>y.
         andthen (unwrap y) (\<lambda>meta.
         andthen (put am entry ''binary_hash'' (SStr hash)) (\<lambda>_.
         andthen (puts am meta
           [(''kind'', SStr (kind_as_str KAttachment)), (''size'', SInt sz),
            (''updated_at'', SInt now)]) (\<lambda>_.
         andthen (delete_key am meta ''deleted_at'') (\<lambda>_.
         andthen (commit_now am) (\<lambda>_.
         ret fid)))))))))
     | None \<Rightarrow>
         andthen (files_obj am) (\<lambda>files.
         andthen new_id (\<lambda>fid.
         andthen (put_object am files fid OMap) (\<lambda>entry.
         andthen (put_object am entry ''meta'' OMap) (\<lambda>meta.
         andthen (puts am meta
           [(''path'', SStr path), (''kind'', SStr (kind_as_str KAttachment)),
            (''size'', SInt sz), (''created_at'', SInt now), (''updated_at'', SInt now)]) (\<lambda>_.
         andthen (put am entry ''binary_hash'' (SStr hash)) (\<lambda>_.
         andthen (ensure_ancestor_directories am path) (\<lambda>_.
         andthen (commit_now am) (\<lambda>_.
         ret fid)))))))))))"

definition delete_file ::
    "('d, 'o, 'y) automerge \<Rightarrow> (string \<Rightarrow> string) \<Rightarrow> string \<Rightarrow> ('d doc, unit) action" where
  "delete_file am nfc path0 =
     andthen (lift (normalize nfc path0)) (\<lambda>path.
     andthen (find_file_by_path_normalized am path) (\<lambda>found.
     andthen (lift (ok_or (NotFound path) found)) (\<lambda>fid.
     andthen (files_obj am) (\<lambda>files.
     andthen (get_object am files fid) (\<lambda>x.
     andthen (unwrap x) (\<lambda>entry.
     andthen (get_object am entry ''meta'') (\<lambda>y.
     andthen (unwrap y) (\<lambda>meta.
     andthen now_ms (\<lambda>now.
     andthen (put am meta ''deleted_at'' (SInt now)) (\<lambda>_.
     commit_now am))))))))))"

definition rename_file ::
    "('d, 'o, 'y) automerge \<Rightarrow> (string \<Rightarrow> string) \<Rightarrow> string \<Rightarrow> string \<Rightarrow> ('d doc, unit) action" where
  "rename_file am nfc from0 to0 =
     andthen (lift (normalize nfc from0)) (\<lambda>from_p.
     andthen (lift (normalize nfc to0)) (\<lambda>to_p.
     if from_p = to_p then ret ()
     else
       andthen (find_file_by_path_normalized am from_p) (\<lambda>found.
       andthen (lift (ok_or (NotFound from_p) found)) (\<lambda>fid.
       andthen (find_file_by_path_normalized am to_p) (\<lambda>target.
       if target \<noteq> None then fail (AlreadyExists to_p)
       else
         andthen (files_obj am) (\<lambda>files.
         andthen (get_object am files fid) (\<lambda>x.
         andthen (unwrap x) (\<lambda>entry.
         andthen (get_object am entry ''meta'') (\<lambda>y.
         andthen (unwrap y) (\<lambda>meta.
         andthen (put am meta ''path'' (SStr to_p)) (\<lambda>_.
         andthen now_ms (\<lambda>now.
         andthen (put am meta ''updated_at'' (SInt now)) (\<lambda>_.
         andthen (ensure_ancestor_directories am to_p) (\<lambda>_.
         commit_now am))))))))))))))"

section \<open>Entries of a well-formed vault\<close>

lemma entry_wf_Branch:
  assumes "entry_wf n"
  obtains e m where "n = Branch e" "e ''meta'' = Some (Branch m)" "meta_of n = m" "meta_wf m"
    "str_ok e ''binary_hash''"
proof -
  from assms obtain e where e: "n = Branch e" by (cases n) auto
  with assms obtain m where "e ''meta'' = Some (Branch m)" "meta_wf m" "str_ok e ''binary_hash''"
    by (auto split: option.splits node.splits)
  with e that show thesis by (simp add: meta_of_def)
qed

lemma str_of_ok: "str_of m k = Some x \<Longrightarrow> str_ok m k"
  by (auto simp: str_of_def str_ok_def split: option.splits node.splits scalar.splits)

lemma meta_wf_reads:
  assumes "meta_wf m"
  shows "str_ok m ''path''" "str_ok m ''kind''" "int_ok m ''size''" "int_ok m ''created_at''"
    "int_ok m ''updated_at''" "int_ok m ''deleted_at''"
  using assms by (auto simp: meta_wf_def dest: str_of_ok)

lemma vault_ok_entry: "vault_ok v \<Longrightarrow> v_files v fid = Some n \<Longrightarrow> entry_wf n"
  by (auto simp: vault_ok_def schema_ok_def)

lemma vault_ok_unique:
  assumes "vault_ok v" "(p, i, b) \<in> live_files v" "(p, j, c) \<in> live_files v"
  shows "i = j \<and> b = c"
proof -
  have "i = j" using assms unfolding vault_ok_def unique_paths_def by blast
  with assms(2,3) show ?thesis by (auto simp: live_files_iff)
qed

lemma vault_ok_placed: "vault_ok v \<Longrightarrow> (p, i, b) \<in> live_files v \<Longrightarrow> placed v p"
  by (auto simp: vault_ok_def all_placed_def has_file_def)

definition entries_wf :: "view \<Rightarrow> bool" where
  "entries_wf v \<longleftrightarrow> (\<forall>fid n. v_files v fid = Some n \<longrightarrow> entry_wf n)"

lemma vault_ok_entries: "vault_ok v \<Longrightarrow> entries_wf v"
  by (simp add: vault_ok_def schema_ok_def entries_wf_def)

text \<open>Field reads after a write.\<close>

lemma field_upd [simp]:
  "str_of (m(k := x)) j =
     (if j = k then (case x of Some (Leaf (SStr s)) \<Rightarrow> Some s | _ \<Rightarrow> None) else str_of m j)"
  "int_of (m(k := x)) j =
     (if j = k then (case x of Some (Leaf (SInt i)) \<Rightarrow> Some i
                             | Some (Leaf (SUint w)) \<Rightarrow> Some (sint w) | _ \<Rightarrow> None) else int_of m j)"
  "text_of (m(k := x)) j =
     (if j = k then (case x of Some (Text t) \<Rightarrow> Some t | _ \<Rightarrow> None) else text_of m j)"
  by (simp_all add: str_of_def int_of_def text_of_def)

lemma field_ok_upd [simp]:
  "str_ok (m(k \<mapsto> Leaf (SStr s))) j = (j = k \<or> str_ok m j)"
  "int_ok (m(k \<mapsto> Leaf (SInt i))) j = (j = k \<or> int_ok m j)"
  "k \<noteq> j \<Longrightarrow> str_ok (m(k := x)) j = str_ok m j"
  "k \<noteq> j \<Longrightarrow> int_ok (m(k := x)) j = int_ok m j"
  "str_ok (m(k := None)) k" "int_ok (m(k := None)) k"
  "str_ok Map.empty k" "int_ok Map.empty k" "str_of Map.empty k = None" "int_of Map.empty k = None"
  by (simp_all add: str_ok_def int_ok_def str_of_def int_of_def)

lemma meta_of_upd [simp]:
  "meta_of (Branch (e(''meta'' \<mapsto> Branch m))) = m"
  "k \<noteq> ''meta'' \<Longrightarrow> meta_of (Branch (e(k := x))) = meta_of (Branch e)"
  by (simp_all add: meta_of_def)

lemma live_files_without:
  assumes "vault_ok v" "(q, fid, b) \<in> live_files v"
  shows "{x \<in> live_files v. fst (snd x) \<noteq> fid} = {x \<in> live_files v. fst x \<noteq> q}"
proof (rule Collect_cong)
  fix x :: "string \<times> string \<times> body"
  obtain p i c where x: "x = (p, i, c)" by (cases x)
  have "p = q" if "i = fid" "x \<in> live_files v"
    using that assms(2) by (auto simp: x live_files_iff)
  moreover have "i = fid" if "p = q" "x \<in> live_files v"
    using that vault_ok_unique [OF assms(1) _ assms(2)] by (auto simp: x)
  ultimately show "(x \<in> live_files v \<and> fst (snd x) \<noteq> fid) = (x \<in> live_files v \<and> fst x \<noteq> q)"
    by (auto simp: x)
qed

lemma live_files_absent:
  "v_files v fid = None \<Longrightarrow> {x \<in> live_files v. fst (snd x) \<noteq> fid} = live_files v"
  "\<not> has_file v q \<Longrightarrow> {x \<in> live_files v. fst x \<noteq> q} = live_files v"
  by (auto simp: live_files_def has_file_def)

text \<open>
  The abstract operation behind a write: the body \<open>b\<close> is put under the path \<open>q\<close> and the
  ancestors of \<open>q\<close> become directories; nothing else changes. \<open>sound\<close> is what every operation
  expects of a document and leaves behind.
\<close>

definition file_written :: "view \<Rightarrow> string \<Rightarrow> string \<Rightarrow> body \<Rightarrow> view \<Rightarrow> bool" where
  "file_written v q fid b v' \<longleftrightarrow>
     live_files v' = {x \<in> live_files v. fst x \<noteq> q} \<union> {(q, fid, b)} \<and>
     (\<forall>j c. (q, j, c) \<in> live_files v \<longrightarrow> j = fid) \<and>
     (\<forall>a. has_dir v' a \<longleftrightarrow> has_dir v a \<or> a \<in> set (ancestors q)) \<and>
     v_labels v' = v_labels v \<and> v_rest v' = v_rest v \<and>
     (\<forall>i. i \<noteq> fid \<longrightarrow> v_files v' i = v_files v i)"

definition sound :: "('d \<Rightarrow> node) \<Rightarrow> 'd doc \<Rightarrow> view \<Rightarrow> bool" where
  "sound tree s v \<longleftrightarrow> displays tree s v \<and> vault_ok v \<and> fresh_ids s v"

lemma soundD:
  assumes "sound tree s v"
  shows "displays tree s v" "vault_ok v" "fresh_ids s v"
  using assms by (simp_all add: sound_def)

lemma sound_same:
  "sound tree s v \<Longrightarrow> inner t = inner s \<Longrightarrow> later s t \<Longrightarrow> sound tree t v"
  by (auto simp: sound_def displays_def fresh_later)

section \<open>Running the reads\<close>

context automerge_doc
begin

text \<open>The objects of one file entry.\<close>

lemma entry_run:
  assumes "displays tree s v" "v_files v fid = Some n" "entry_wf n"
  obtains e m where "n = Branch e" "e ''meta'' = Some (Branch m)" "meta_of n = m" "meta_wf m"
    "str_ok e ''binary_hash''"
    "node_at (tree (inner s)) [''files'', fid] = Some (Branch e)"
    "node_at (tree (inner s)) [''files'', fid, ''meta''] = Some (Branch m)"
    "get_object am (oid (inner s) [''files'']) fid s = (Ok (Some (oid (inner s) [''files'', fid])), s)"
    "get_object am (oid (inner s) [''files'', fid]) ''meta'' s =
       (Ok (Some (oid (inner s) [''files'', fid, ''meta''])), s)"
proof -
  note F = displays_node(1) [OF assms(1)]
  obtain e m where em: "n = Branch e" "e ''meta'' = Some (Branch m)" "meta_of n = m" "meta_wf m"
    "str_ok e ''binary_hash''"
    by (rule entry_wf_Branch [OF assms(3)])
  have fe: "v_files v fid = Some (Branch e)" using assms(2) em(1) by simp
  have e: "node_at (tree (inner s)) [''files'', fid] = Some (Branch e)"
    using below_run [OF F fe] by simp
  have m: "node_at (tree (inner s)) [''files'', fid, ''meta''] = Some (Branch m)"
    using below_run [OF e em(2)] by simp
  show thesis
    using that [OF em e m] get_object_Branch [OF F fe] get_object_Branch [OF e em(2)] by simp
qed

lemma find_file_run:
  assumes "displays tree s v" "entries_wf v"
  obtains r where "find_file_by_path_normalized am p s = (Ok r, s)"
    "r = None \<longrightarrow> \<not> has_file v p"
    "\<forall>fid. r = Some fid \<longrightarrow> (\<exists>n. v_files v fid = Some n \<and> live_path n = Some p)"
proof -
  note F = displays_node(1) [OF assms(1)]
  obtain ks where ks: "map_keys am (oid (inner s) [''files'']) s = (Ok ks, s)"
    "distinct ks" "set ks = dom (v_files v)"
    by (rule map_keys_run [OF F])
  let ?P = "\<lambda>fid. \<exists>n. v_files v fid = Some n \<and> live_path n = Some p"
  have body: "andthen (get_object am (oid (inner s) [''files'']) fid) (\<lambda>x. case x of
         None \<Rightarrow> ret None
       | Some entry \<Rightarrow>
           andthen (get_object am entry ''meta'') (\<lambda>y. case y of
             None \<Rightarrow> ret None
           | Some meta \<Rightarrow>
               andthen (get_int am meta ''deleted_at'') (\<lambda>deleted.
                 if deleted \<noteq> None then ret None
                 else andthen (get_str am meta ''path'') (\<lambda>q.
                   ret (if q = Some p then Some fid else None))))) s =
      (Ok (if ?P fid then Some fid else None), s)"
    if "fid \<in> set ks" for fid
  proof -
    from that ks(3) obtain n where n: "v_files v fid = Some n" by auto
    with assms(2) have wf: "entry_wf n" by (simp add: entries_wf_def)
    obtain e m where em: "n = Branch e" "e ''meta'' = Some (Branch m)" "meta_of n = m" "meta_wf m"
      "str_ok e ''binary_hash''"
      "node_at (tree (inner s)) [''files'', fid] = Some (Branch e)"
      "node_at (tree (inner s)) [''files'', fid, ''meta''] = Some (Branch m)"
      "get_object am (oid (inner s) [''files'']) fid s = (Ok (Some (oid (inner s) [''files'', fid])), s)"
      "get_object am (oid (inner s) [''files'', fid]) ''meta'' s =
         (Ok (Some (oid (inner s) [''files'', fid, ''meta''])), s)"
      by (rule entry_run [OF assms(1) n wf])
    show ?thesis
      using n em(3,8,9) get_int_run [OF em(7) meta_wf_reads(6) [OF em(4)]]
        get_str_run [OF em(7) meta_wf_reads(1) [OF em(4)]]
      by (simp add: andthen_run ret_run live_path_def live_path_in_def)
  qed
  have run: "find_file_by_path_normalized am p s = (Ok (List.find ?P ks), s)"
    unfolding find_file_by_path_normalized_def
    by (rule andthen_step, rule objs_run(1) [OF assms(1)], rule andthen_step, rule ks(1),
        rule first_some_find, rule body)
  show thesis
  proof (rule that [OF run])
    show "List.find ?P ks = None \<longrightarrow> \<not> has_file v p"
      using ks(3) by (fastforce simp: has_file_def live_files_iff find_None_iff)
    show "\<forall>fid. List.find ?P ks = Some fid \<longrightarrow> (\<exists>n. v_files v fid = Some n \<and> live_path n = Some p)"
      using find_Some_in [of ?P ks] by simp
  qed
qed

text \<open>A live path is found under its id.\<close>

lemma find_live_run:
  assumes "displays tree s v" "vault_ok v" "(p, fid, b) \<in> live_files v"
  obtains n where "find_file_by_path_normalized am p s = (Ok (Some fid), s)"
    "v_files v fid = Some n" "live_path n = Some p" "b = body_of n" "entry_wf n"
proof -
  from assms(3) obtain n where n: "v_files v fid = Some n" "live_path n = Some p" "b = body_of n"
    by (auto simp: live_files_iff)
  obtain r where r: "find_file_by_path_normalized am p s = (Ok r, s)" "r = None \<longrightarrow> \<not> has_file v p"
    "\<forall>fid. r = Some fid \<longrightarrow> (\<exists>n. v_files v fid = Some n \<and> live_path n = Some p)"
    by (rule find_file_run [OF assms(1) vault_ok_entries [OF assms(2)], of p])
  have "has_file v p" using assms(3) by (auto simp: has_file_def)
  with r(2) obtain i where i: "r = Some i" by auto
  with r(3) obtain n' where "v_files v i = Some n'" "live_path n' = Some p" by auto
  then have "(p, i, body_of n') \<in> live_files v" by (auto simp: live_files_iff)
  then have "i = fid" using vault_ok_unique [OF assms(2) assms(3)] by auto
  with r(1) i n that vault_ok_entry [OF assms(2) n(1)] show thesis by simp
qed

lemma find_absent_run:
  assumes "displays tree s v" "vault_ok v" "\<not> has_file v p"
  shows "find_file_by_path_normalized am p s = (Ok None, s)"
proof -
  obtain r where r: "find_file_by_path_normalized am p s = (Ok r, s)" "r = None \<longrightarrow> \<not> has_file v p"
    "\<forall>fid. r = Some fid \<longrightarrow> (\<exists>n. v_files v fid = Some n \<and> live_path n = Some p)"
    by (rule find_file_run [OF assms(1) vault_ok_entries [OF assms(2)], of p])
  with assms(3) have "r = None" by (cases r) (auto simp: has_file_def live_files_iff)
  with r show ?thesis by simp
qed

lemma read_file_run:
  assumes "displays tree s v" "vault_ok v" "normalize nfc p = Ok q"
  shows "(q, fid, TextBody t) \<in> live_files v \<Longrightarrow> read_file am nfc p s = (Ok t, s)"
    "\<not> has_file v q \<Longrightarrow> read_file am nfc p s = (Err (NotFound q), s)"
proof -
  assume live: "(q, fid, TextBody t) \<in> live_files v"
  obtain n where n: "find_file_by_path_normalized am q s = (Ok (Some fid), s)"
    "v_files v fid = Some n" "live_path n = Some q" "TextBody t = body_of n" "entry_wf n"
    by (rule find_live_run [OF assms(1,2) live])
  obtain e m where em: "n = Branch e" "e ''meta'' = Some (Branch m)" "meta_of n = m" "meta_wf m"
    "str_ok e ''binary_hash''" "node_at (tree (inner s)) [''files'', fid] = Some (Branch e)"
    "node_at (tree (inner s)) [''files'', fid, ''meta''] = Some (Branch m)"
    "get_object am (oid (inner s) [''files'']) fid s = (Ok (Some (oid (inner s) [''files'', fid])), s)"
    "get_object am (oid (inner s) [''files'', fid]) ''meta'' s =
       (Ok (Some (oid (inner s) [''files'', fid, ''meta''])), s)"
    by (rule entry_run [OF assms(1) n(2,5)])
  have "text_of e ''content'' = Some t"
    using n(4) em(1) by (simp add: body_of_def split: if_splits option.splits)
  then show "read_file am nfc p s = (Ok t, s)"
    using get_text_run [OF em(6), of "''content''"]
    by (simp add: read_file_def andthen_run lift_run assms(3) n(1) objs_run [OF assms(1)] em(8) ret_run)
next
  assume "\<not> has_file v q"
  from find_absent_run [OF assms(1,2) this] show "read_file am nfc p s = (Err (NotFound q), s)"
    by (simp add: read_file_def andthen_run lift_run assms(3))
qed

lemma file_hash_run:
  assumes "displays tree s v" "vault_ok v" "normalize nfc p = Ok q" "(q, fid, b) \<in> live_files v"
  shows "file_hash am c nfc p s = ((case b of
      TextBody t \<Rightarrow> Ok (content_hash c (as_bytes t)) | BlobBody h \<Rightarrow> Ok h
    | NoBody \<Rightarrow> Err (Other (''cannot hash file: '' @ q))), s)"
proof -
  obtain n where n: "find_file_by_path_normalized am q s = (Ok (Some fid), s)"
    "v_files v fid = Some n" "live_path n = Some q" "b = body_of n" "entry_wf n"
    by (rule find_live_run [OF assms(1,2,4)])
  obtain e m where em: "n = Branch e" "e ''meta'' = Some (Branch m)" "meta_of n = m" "meta_wf m"
    "str_ok e ''binary_hash''" "node_at (tree (inner s)) [''files'', fid] = Some (Branch e)"
    "node_at (tree (inner s)) [''files'', fid, ''meta''] = Some (Branch m)"
    "get_object am (oid (inner s) [''files'']) fid s = (Ok (Some (oid (inner s) [''files'', fid])), s)"
    "get_object am (oid (inner s) [''files'', fid]) ''meta'' s =
       (Ok (Some (oid (inner s) [''files'', fid, ''meta''])), s)"
    by (rule entry_run [OF assms(1) n(2,5)])
  note runs = andthen_run lift_run assms(3) n(1) objs_run [OF assms(1)] em(8,9) ret_run fail_run
    get_text_run [OF em(6), of "''content''"] get_str_run [OF em(6,5)]
    get_str_run [OF em(7) meta_wf_reads(2) [OF em(4)]]
  have pre: "file_hash am c nfc p s =
      (case (if str_of m ''kind'' = Some ''attachment'' then str_of e ''binary_hash'' else None) of
         Some h \<Rightarrow> (Ok h, s)
       | None \<Rightarrow> (case text_of e ''content'' of
             Some t \<Rightarrow> (Ok (content_hash c (as_bytes t)), s)
           | None \<Rightarrow> (Err (Other (''cannot hash file: '' @ q)), s)))"
    using em(4) unfolding meta_wf_def
    by (elim conjE disjE) (simp_all add: file_hash_def runs kind_parse_def split: option.splits)
  show ?thesis
    unfolding pre n(4) body_of_def using em(1,3) by (auto split: option.splits)
qed

lemma read_file_meta_run:
  assumes "displays tree s v" "entries_wf v"
  shows "read_file_meta am fid s = (Ok (map_option (file_rec fid) (v_files v fid)), s)"
proof (cases "v_files v fid")
  case None
  then show ?thesis
    using get_object_None [OF displays_node(1) [OF assms(1)]]
    by (simp add: read_file_meta_def andthen_run objs_run [OF assms(1)] ret_run)
next
  case (Some n)
  with assms(2) have wf: "entry_wf n" by (simp add: entries_wf_def)
  obtain e m where em: "n = Branch e" "e ''meta'' = Some (Branch m)" "meta_of n = m" "meta_wf m"
    "str_ok e ''binary_hash''" "node_at (tree (inner s)) [''files'', fid] = Some (Branch e)"
    "node_at (tree (inner s)) [''files'', fid, ''meta''] = Some (Branch m)"
    "get_object am (oid (inner s) [''files'']) fid s = (Ok (Some (oid (inner s) [''files'', fid])), s)"
    "get_object am (oid (inner s) [''files'', fid]) ''meta'' s =
       (Ok (Some (oid (inner s) [''files'', fid, ''meta''])), s)"
    by (rule entry_run [OF assms(1) Some wf])
  note r = meta_wf_reads [OF em(4)]
  note runs = andthen_run lift_run objs_run [OF assms(1)] em(8,9) ret_run
    get_str_run [OF em(6,5)] get_str_run [OF em(7) r(1)] get_str_run [OF em(7) r(2)]
    get_int_run [OF em(7) r(3)] get_int_run [OF em(7) r(4)] get_int_run [OF em(7) r(5)]
    get_int_run [OF em(7) r(6)]
  from em(4) obtain p where p: "str_of m ''path'' = Some p" by (auto simp: meta_wf_def)
  have br: "branch_of n = e" using em(1) by simp
  show ?thesis
    using em(4) p unfolding meta_wf_def
    by (elim conjE disjE)
       (simp_all add: read_file_meta_def runs kind_parse_def Some file_rec_def Let_def em(3) br)
qed

lemma list_files_run:
  assumes "displays tree s v" "entries_wf v"
  obtains out where "list_files am s = (Ok out, s)" "sorted (map fm_path out)"
    "distinct (map fm_id out)"
    "set out = {file_rec fid n |fid n. v_files v fid = Some n \<and> live_path n \<noteq> None}"
proof -
  note F = displays_node(1) [OF assms(1)]
  obtain ks where ks: "map_keys am (oid (inner s) [''files'']) s = (Ok ks, s)"
    "distinct ks" "set ks = dom (v_files v)"
    by (rule map_keys_run [OF F])
  define g where "g fid = (case v_files v fid of
      Some n \<Rightarrow> if live_path n \<noteq> None then Some (file_rec fid n) else None | None \<Rightarrow> None)" for fid
  have body: "andthen (read_file_meta am fid) (\<lambda>m. case m of
         None \<Rightarrow> ret None
       | Some meta \<Rightarrow> ret (if fm_deleted_at meta = None then Some meta else None)) s = (Ok (g fid), s)"
    if "fid \<in> set ks" for fid
  proof -
    from that ks(3) obtain n where n: "v_files v fid = Some n" by auto
    with assms(2) have "meta_wf (meta_of n)" by (auto simp: entries_wf_def elim: entry_wf_Branch)
    then have "live_path n = None \<longleftrightarrow> int_of (meta_of n) ''deleted_at'' \<noteq> None"
      by (simp add: live_path_def live_path_in_def meta_wf_def)
    with n show ?thesis
      by (simp add: andthen_run read_file_meta_run [OF assms] ret_run g_def file_rec_def Let_def)
  qed
  let ?out = "List.map_filter g ks"
  have run: "list_files am s = (Ok (sort_key fm_path ?out), s)"
    unfolding list_files_def
    by (rule andthen_step, rule objs_run(1) [OF assms(1)], rule andthen_step, rule ks(1),
        rule andthen_step, rule collect_pure, rule body, assumption, simp add: ret_run)
  have gid: "g fid = Some y \<Longrightarrow> fm_id y = fid" for fid y
    by (auto simp: g_def file_rec_def Let_def split: option.splits if_splits)
  have "map fm_id ?out = filter (\<lambda>fid. g fid \<noteq> None) ks"
    by (induction ks) (auto simp: List.map_filter_simps gid split: option.splits)
  then have "distinct (map fm_id ?out)" using ks(2) by simp
  then have "distinct (map fm_id (sort_key fm_path ?out))"
    by (simp add: distinct_map)
  moreover have "set ?out = {file_rec fid n |fid n. v_files v fid = Some n \<and> live_path n \<noteq> None}"
    using ks(3) by (force simp: set_map_filter g_def split: option.splits if_splits)
  ultimately show thesis using that [OF run] by simp
qed

end

end
