(* ===== verification/DocWrites.thy ===== *)
theory DocWrites
  imports DocFiles
begin

text \<open>
  The writes of \<^verbatim>\<open>crates/agentsync-core/src/doc/files.rs\<close> run on a document that shows a view:
  each one implements the abstract \<open>file_written\<close> (or its counterpart for deletion and
  renaming) and keeps the document \<open>sound\<close>.
\<close>

text \<open>The abstract operations behind a deletion and a renaming.\<close>

definition file_deleted :: "view \<Rightarrow> string \<Rightarrow> view \<Rightarrow> bool" where
  "file_deleted v q v' \<longleftrightarrow>
     live_files v' = {x \<in> live_files v. fst x \<noteq> q} \<and> dom (v_files v') = dom (v_files v) \<and>
     (\<exists>F. v' = v\<lparr>v_files := F\<rparr>)"

definition file_renamed :: "view \<Rightarrow> string \<Rightarrow> string \<Rightarrow> view \<Rightarrow> bool" where
  "file_renamed v q r v' \<longleftrightarrow>
     live_files v' = {x \<in> live_files v. fst x \<noteq> q} \<union> {(r, fid, b) |fid b. (q, fid, b) \<in> live_files v} \<and>
     (\<forall>a. has_dir v' a \<longleftrightarrow> has_dir v a \<or> a \<in> set (ancestors r)) \<and>
     v_labels v' = v_labels v \<and> v_rest v' = v_rest v"

context automerge_doc
begin



lemma put_frame:
  assumes "node_at (tree (inner s)) p = Some (Branch m)" "put am (oid (inner s) p) k v s = (Ok (), t)"
    and "\<not> prefix (p @ [k]) q"
  shows "oid (inner t) q = oid (inner s) q"
  using put_law [OF assms(1), of k v] assms(2,3) by (auto simp: put_def am_write_def)

lemma put_object_frame:
  assumes "node_at (tree (inner s)) p = Some (Branch m)"
    and "put_object am (oid (inner s) p) k ty s = (Ok x, t)" "\<not> prefix (p @ [k]) q"
  shows "oid (inner t) q = oid (inner s) q"
  using put_object_law [OF assms(1), of k ty] assms(2,3) by (auto simp: put_object_def am_create_def)

lemma new_content_run:
  assumes at: "node_at (tree (inner s)) p = Some (Branch e)"
  obtains t where "new_content am (oid (inner s) p) w s = (Ok (), t)"
    "edited tree oid s p (Branch (e(''content'' \<mapsto> Text w))) t" "host t = host s"
    "\<forall>q. \<not> prefix (p @ [''content'']) q \<longrightarrow> oid (inner t) q = oid (inner s) q"
proof -
  obtain t where t: "put_object am (oid (inner s) p) ''content'' OText s =
      (Ok (oid (inner t) (p @ [''content''])), t)"
    "edited tree oid s p (Branch (e(''content'' \<mapsto> empty_obj OText))) t" "host t = host s"
    by (rule put_object_run [OF at])
  have frame: "\<forall>q. \<not> prefix (p @ [''content'']) q \<longrightarrow> oid (inner t) q = oid (inner s) q"
    using put_object_frame [OF at t(1)] by blast
  have c: "node_at (tree (inner t)) (p @ [''content'']) = Some (Text [])"
    using edited_below [OF t(2), of "''content''"] by simp
  show thesis
  proof (cases "w = []")
    case True
    with t frame that show thesis by (simp add: new_content_def andthen_run ret_run)
  next
    case False
    obtain u where u: "splice_text am (oid (inner t) (p @ [''content''])) 0 0 w t = (Ok (), u)"
      "edited tree oid t (p @ [''content'']) (Text w) u" "host u = host t"
      by (rule splice_run [OF c]) simp_all
    have "\<forall>q. \<not> prefix (p @ [''content'']) q \<longrightarrow> oid (inner u) q = oid (inner s) q"
      using frame edited_oid [OF u(2)] by (metis strict_prefixE prefixI)
    moreover have "edited tree oid s p (Branch (e(''content'' \<mapsto> Text w))) u"
      using edited_child [OF t(2) u(2)] by simp
    ultimately show thesis
      using that t(1,3) u(1,3) False by (simp add: new_content_def andthen_run)
  qed
qed

lemma set_content_run:
  assumes at: "node_at (tree (inner s)) p = Some (Branch e)"
  obtains t where "set_content am (oid (inner s) p) w s = (Ok (), t)"
    "edited tree oid s p (Branch (e(''content'' \<mapsto> Text w))) t" "host t = host s"
    "\<forall>q. \<not> prefix (p @ [''content'']) q \<longrightarrow> oid (inner t) q = oid (inner s) q"
proof (cases "text_of e ''content''")
  case None
  obtain t where "new_content am (oid (inner s) p) w s = (Ok (), t)"
    "edited tree oid s p (Branch (e(''content'' \<mapsto> Text w))) t" "host t = host s"
    "\<forall>q. \<not> prefix (p @ [''content'']) q \<longrightarrow> oid (inner t) q = oid (inner s) q"
    by (rule new_content_run [OF at])
  with None that show thesis
    by (simp add: set_content_def andthen_run get_text_run [OF at])
next
  case (Some u)
  then have e: "e ''content'' = Some (Text u)" by (auto simp: text_of_def split: option.splits node.splits)
  have c: "node_at (tree (inner s)) (p @ [''content'']) = Some (Text u)"
    using at e by (simp add: node_at_append)
  show thesis
  proof (cases "u = w")
    case True
    then have "e(''content'' \<mapsto> Text w) = e" using e by (simp add: fun_upd_idem)
    with True that [of s] at Some show thesis
      by (simp add: set_content_def andthen_run get_text_run [OF at] ret_run edited_refl)
  next
    case False
    obtain t where t: "splice_text am (oid (inner s) (p @ [''content''])) 0 (int (length (chars u))) w s = (Ok (), t)"
      "edited tree oid s (p @ [''content'']) (Text w) t" "host t = host s"
      by (rule splice_run [OF c disjI1 [OF refl]])
    have "\<forall>q. \<not> prefix (p @ [''content'']) q \<longrightarrow> oid (inner t) q = oid (inner s) q"
      using edited_oid [OF t(2)] by (metis strict_prefixE prefixI)
    moreover have "edited tree oid s p (Branch (e(''content'' \<mapsto> Text w))) t"
      by (rule edited_child [OF edited_refl [of tree, OF at] t(2)])
    ultimately show thesis
      using that t(1,3) False Some by (simp add: set_content_def andthen_run get_text_run [OF at])
  qed
qed

text \<open>An edit of the fields or of the body of one file, as an edit of the map of files.\<close>

lemma edited_entry:
  assumes "displays tree s v" "edited tree oid s [''files'', fid] n t"
  shows "edited tree oid s [''files''] (Branch ((v_files v)(fid \<mapsto> n))) t"
  using edited_child [OF edited_refl [of tree, OF displays_node(1) [OF assms(1)]], of oid fid n t] assms(2)
  by simp

lemma edited_meta:
  assumes "node_at (tree (inner s)) [''files'', fid] = Some (Branch e)"
    and "edited tree oid s [''files'', fid, ''meta''] n t"
  shows "edited tree oid s [''files'', fid] (Branch (e(''meta'' \<mapsto> n))) t"
  using edited_child [OF edited_refl [of tree, OF assms(1)], of oid "''meta''" n t] assms(2) by simp

text \<open>The end of every write that puts a file at a path: missing ancestors and the commit.\<close>

lemma place_run:
  assumes "displays tree s v" "vault_ok v"
    and e: "edited tree oid s [''files''] (Branch ((v_files v)(fid \<mapsto> n))) w"
    and fr: "fresh_ids w (v\<lparr>v_files := (v_files v)(fid \<mapsto> n)\<rparr>)"
    and wf: "entry_wf n" "live_path n = Some q" "good_path q" "\<forall>j b. (q, j, b) \<in> live_files v \<longrightarrow> j = fid"
  obtains y z v' where "ensure_ancestor_directories am q w = (Ok (), y)" "commit_now am y = (Ok (), z)"
    "displays tree z v'" "vault_ok v'" "fresh_ids z v'"
    "live_files v' = {x \<in> live_files v. fst (snd x) \<noteq> fid} \<union> {(q, fid, body_of n)}"
    "v_files v' = (v_files v)(fid \<mapsto> n)"
    "adds_dirs (v\<lparr>v_files := (v_files v)(fid \<mapsto> n)\<rparr>) (set (ancestors q)) v'"
proof -
  let ?F = "(v_files v)(fid \<mapsto> n)"
  have dw: "displays tree w (v\<lparr>v_files := ?F\<rparr>)" by (rule displays_edited(1) [OF assms(1) e])
  have okw: "dirs_ok (v\<lparr>v_files := ?F\<rparr>)"
    using vault_ok_dirs [OF assms(2)] by (simp add: dirs_ok_def)
  obtain y v' where y: "ensure_ancestor_directories am q w = (Ok (), y)"
    "edited tree oid w [''directories''] (Branch (v_dirs v')) y"
    "adds_dirs (v\<lparr>v_files := ?F\<rparr>) (set (ancestors q)) v'" "fresh_ids y v'" "displays tree y v'"
    by (rule ensure_ancestors_run [OF dw okw fr])
  obtain z where z: "commit_now am y = (Ok (), z)" "tree (inner z) = tree (inner y)"
    "oid (inner z) = oid (inner y)" "later y z" "host_drawn (host z) = host_drawn (host y)"
    by (rule commit_run)
  from y(3) obtain D where v': "v' = v\<lparr>v_files := ?F, v_dirs := D\<rparr>" by (auto simp: adds_dirs_def)
  let ?u = "v\<lparr>v_dirs := D\<rparr>"
  have add: "adds_dirs v (set (ancestors q)) ?u"
    using y(3) unfolding v'
    by (auto simp add: adds_dirs_def dirs_ok_def has_dir_def live_dirs_def intro: exI [of _ D])
  have "vault_ok (?u\<lparr>v_files := (v_files ?u)(fid \<mapsto> n)\<rparr>)"
  proof (rule vault_ok_set_file [OF vault_ok_adds [OF assms(2) add wf(3)] wf(1)])
    fix p assume "live_path n = Some p"
    then show "placed ?u p \<and> (\<forall>j b. (p, j, b) \<in> live_files ?u \<longrightarrow> j = fid)"
      using wf(2-4) placed_after_adds [OF add wf(3)] by simp
  qed
  moreover have "?u\<lparr>v_files := (v_files ?u)(fid \<mapsto> n)\<rparr> = v'" unfolding v' by (cases v) simp
  ultimately have "vault_ok v'" by simp
  moreover have "live_files v' = {x \<in> live_files v. fst (snd x) \<noteq> fid} \<union> {(q, fid, body_of n)}"
    using wf(2) adds_files(1) [OF y(3)] by (simp add: live_files_set)
  ultimately show thesis
    using that [OF y(1) z(1) displays_same [OF y(5) z(2)] _ fresh_later [OF y(4) z(4)] _ _ y(3)]
    by (simp add: v')
qed

text \<open>The end of every write to an existing file.\<close>

lemma update_run:
  assumes "displays tree s v" "vault_ok v" "fresh_ids s v" "v_files v fid = Some n"
    and e: "edited tree oid s [''files''] (Branch ((v_files v)(fid \<mapsto> n'))) w"
    and wf: "entry_wf n'" "\<forall>p. live_path n' = Some p \<longrightarrow> live_path n = Some p"
  obtains z where "commit_now am w = (Ok (), z)" "displays tree z (v\<lparr>v_files := (v_files v)(fid \<mapsto> n')\<rparr>)"
    "vault_ok (v\<lparr>v_files := (v_files v)(fid \<mapsto> n')\<rparr>)"
    "fresh_ids z (v\<lparr>v_files := (v_files v)(fid \<mapsto> n')\<rparr>)"
proof -
  let ?v = "v\<lparr>v_files := (v_files v)(fid \<mapsto> n')\<rparr>"
  obtain z where z: "commit_now am w = (Ok (), z)" "tree (inner z) = tree (inner w)"
    "oid (inner z) = oid (inner w)" "later w z" "host_drawn (host z) = host_drawn (host w)"
    by (rule commit_run)
  have dw: "displays tree w ?v" by (rule displays_edited(1) [OF assms(1) e])
  have "vault_ok ?v"
  proof (rule vault_ok_set_file [OF assms(2) wf(1)])
    fix p assume "live_path n' = Some p"
    with wf(2) assms(4) have "(p, fid, body_of n) \<in> live_files v" by (auto simp: live_files_iff)
    then show "placed v p \<and> (\<forall>j b. (p, j, b) \<in> live_files v \<longrightarrow> j = fid)"
      using vault_ok_placed [OF assms(2)] vault_ok_unique [OF assms(2)] by blast
  qed
  moreover have "fresh_ids z ?v"
    using fresh_used(1) [OF assms(3) later_trans [OF edited_later [OF e] z(4)]] assms(4) by simp
  ultimately show thesis using that z(1) displays_same [OF dw z(2)] by blast
qed

text \<open>A new entry with its metadata.\<close>

lemma new_file_run:
  assumes "displays tree s v"
  obtains t1 t2 t3 where
    "put_object am (oid (inner s) [''files'']) fid OMap s = (Ok (oid (inner t1) [''files'', fid]), t1)"
    "put_object am (oid (inner t1) [''files'', fid]) ''meta'' OMap t1 =
       (Ok (oid (inner t2) [''files'', fid, ''meta'']), t2)"
    "puts am (oid (inner t2) [''files'', fid, ''meta'']) kvs t2 = (Ok (), t3)"
    "edited tree oid s [''files'']
       (Branch ((v_files v)(fid \<mapsto> Branch [''meta'' \<mapsto> Branch (puts_map kvs Map.empty)]))) t3"
    "oid (inner t3) [''files'', fid] = oid (inner t1) [''files'', fid]" "host t3 = host s"
proof -
  obtain t1 where t1: "put_object am (oid (inner s) [''files'']) fid OMap s =
      (Ok (oid (inner t1) ([''files''] @ [fid])), t1)"
    "edited tree oid s [''files''] (Branch ((v_files v)(fid \<mapsto> empty_obj OMap))) t1" "host t1 = host s"
    by (rule put_object_run [OF displays_node(1) [OF assms]])
  have at1: "node_at (tree (inner t1)) ([''files''] @ [fid]) = Some (Branch Map.empty)"
    using edited_below [OF t1(2), of fid] by simp
  obtain t2 where t2: "put_object am (oid (inner t1) ([''files''] @ [fid])) ''meta'' OMap t1 =
      (Ok (oid (inner t2) (([''files''] @ [fid]) @ [''meta''])), t2)"
    "edited tree oid t1 ([''files''] @ [fid]) (Branch [''meta'' \<mapsto> empty_obj OMap]) t2" "host t2 = host t1"
    by (rule put_object_run [OF at1])
  have at2: "node_at (tree (inner t2)) (([''files''] @ [fid]) @ [''meta'']) = Some (Branch Map.empty)"
    using edited_below [OF t2(2), of "''meta''"] by simp
  from puts_run [OF at2, of kvs] obtain t3 where t3:
    "puts am (oid (inner t2) (([''files''] @ [fid]) @ [''meta''])) kvs t2 = (Ok (), t3)"
    "edited tree oid t2 (([''files''] @ [fid]) @ [''meta'']) (Branch (puts_map kvs Map.empty)) t3"
    "host t3 = host t2" by blast
  have "edited tree oid t1 ([''files''] @ [fid]) (Branch [''meta'' \<mapsto> Branch (puts_map kvs Map.empty)]) t3"
    using edited_child [OF t2(2) t3(2)] by simp
  from edited_child [OF t1(2) this]
  have "edited tree oid s [''files'']
      (Branch ((v_files v)(fid \<mapsto> Branch [''meta'' \<mapsto> Branch (puts_map kvs Map.empty)]))) t3" by simp
  moreover have "oid (inner t3) [''files'', fid] = oid (inner t1) [''files'', fid]"
    using edited_oid [OF t3(2), of "[''files'', fid]"] edited_oid_self [OF t2(2)]
    by (simp add: strict_prefix_def)
  ultimately show thesis using that t1 t2 t3 by simp
qed

lemma written_update:
  assumes "vault_ok v" "v_files v fid = Some n" "live_path n = Some q" "live_path n' = Some q"
  shows "file_written v q fid (body_of n') (v\<lparr>v_files := (v_files v)(fid \<mapsto> n')\<rparr>)"
proof -
  have live: "(q, fid, body_of n) \<in> live_files v" using assms(2,3) by (auto simp: live_files_iff)
  have "has_dir v a" if "a \<in> set (ancestors q)" for a
    using that vault_ok_placed [OF assms(1) live] by (simp add: placed_def)
  then show ?thesis
    using vault_ok_unique [OF assms(1) _ live] live_files_without [OF assms(1) live] assms(4)
    unfolding file_written_def live_files_set by auto
qed

lemma written_new:
  assumes "v_files v fid = None" "\<not> has_file v q"
    and "live_files v' = {x \<in> live_files v. fst (snd x) \<noteq> fid} \<union> {(q, fid, b)}"
    and "v_files v' = (v_files v)(fid \<mapsto> n)"
    and "adds_dirs (v\<lparr>v_files := (v_files v)(fid \<mapsto> n)\<rparr>) (set (ancestors q)) v'"
  shows "file_written v q fid b v'"
  using assms(2-4) live_files_absent(1) [OF assms(1)] live_files_absent(2) [OF assms(2)]
    adds_files [OF assms(5)] assms(5)
  by (auto simp: file_written_def has_file_def adds_dirs_def)

lemma write_text_existing:
  assumes "sound tree s v" "normalize nfc p = Ok q" "has_file v q"
  obtains fid t v' where "write_text_file am nfc p w s = (Ok fid, t)" "sound tree t v'"
    "file_written v q fid (TextBody w) v'"
proof -
  obtain x s1 where s1: "now_ms s = (Ok x, s1)" "inner s1 = inner s" "later s s1"
    "host_drawn (host s1) = host_drawn (host s)"
    by (rule now_obtain)
  note S = soundD [OF sound_same [OF assms(1) s1(2,3)]]
  from assms(3) obtain fid b where live: "(q, fid, b) \<in> live_files v" by (auto simp: has_file_def)
  obtain n where n: "find_file_by_path_normalized am q s1 = (Ok (Some fid), s1)"
    "v_files v fid = Some n" "live_path n = Some q" "b = body_of n" "entry_wf n"
    by (rule find_live_run [OF S(1,2) live])
  obtain e m where em: "n = Branch e" "e ''meta'' = Some (Branch m)" "meta_of n = m" "meta_wf m"
    "str_ok e ''binary_hash''" "node_at (tree (inner s1)) [''files'', fid] = Some (Branch e)"
    "node_at (tree (inner s1)) [''files'', fid, ''meta''] = Some (Branch m)"
    "get_object am (oid (inner s1) [''files'']) fid s1 = (Ok (Some (oid (inner s1) [''files'', fid])), s1)"
    "get_object am (oid (inner s1) [''files'', fid]) ''meta'' s1 =
       (Ok (Some (oid (inner s1) [''files'', fid, ''meta''])), s1)"
    by (rule entry_run [OF S(1) n(2,5)])
  obtain t1 where t1: "set_content am (oid (inner s1) [''files'', fid]) w s1 = (Ok (), t1)"
    "edited tree oid s1 [''files'', fid] (Branch (e(''content'' \<mapsto> Text w))) t1" "host t1 = host s1"
    "\<forall>r. \<not> prefix ([''files'', fid] @ [''content'']) r \<longrightarrow> oid (inner t1) r = oid (inner s1) r"
    by (rule set_content_run [OF em(6)])
  let ?e = "e(''content'' \<mapsto> Text w)" and ?p = "[''files'', fid, ''meta'']"
  let ?kvs = "[(''size'', SInt (int (length w))), (''updated_at'', SInt x), (''kind'', SStr (kind_as_str KText))]"
  have at1: "node_at (tree (inner t1)) ?p = Some (Branch m)"
    using edited_below [OF t1(2), of "''meta''"] em(2) by simp
  have o1: "oid (inner t1) ?p = oid (inner s1) ?p" using t1(4) by simp
  from puts_run [OF at1, of ?kvs] obtain t2 where t2:
    "puts am (oid (inner t1) ?p) ?kvs t1 = (Ok (), t2)"
    "edited tree oid t1 ?p (Branch (puts_map ?kvs m)) t2" "host t2 = host t1" by blast
  have o2: "oid (inner t2) ?p = oid (inner s1) ?p" using edited_oid_self [OF t2(2)] o1 by simp
  let ?m = "(puts_map ?kvs m)(''deleted_at'' := None)"
  obtain t3 where t3: "delete_key am (oid (inner t2) ?p) ''deleted_at'' t2 = (Ok (), t3)"
    "edited tree oid t2 ?p (Branch ?m) t3" "host t3 = host t2"
    by (rule delete_key_run [OF edited_at [OF t2(2)]])
  let ?n = "Branch (?e(''meta'' \<mapsto> Branch ?m))"
  have "edited tree oid t1 [''files'', fid] ?n t3"
    by (rule edited_meta [OF edited_at [OF t1(2)] edited_again [OF t2(2) t3(2)]])
  then have e3: "edited tree oid s1 [''files''] (Branch ((v_files v)(fid \<mapsto> ?n))) t3"
    by (rule edited_entry [OF S(1) edited_again [OF t1(2)]])
  have wf: "entry_wf ?n" using em(4,5) by (auto simp: meta_wf_def)
  have path: "live_path ?n = Some q"
    using n(3) em(3) by (simp add: live_path_def live_path_in_def split: if_splits)
  have keep: "\<forall>r. live_path ?n = Some r \<longrightarrow> live_path n = Some r" unfolding path n(3) by simp
  have body: "body_of ?n = TextBody w" by (simp add: body_of_def)
  obtain z where z: "commit_now am t3 = (Ok (), z)"
    "displays tree z (v\<lparr>v_files := (v_files v)(fid \<mapsto> ?n)\<rparr>)"
    "vault_ok (v\<lparr>v_files := (v_files v)(fid \<mapsto> ?n)\<rparr>)"
    "fresh_ids z (v\<lparr>v_files := (v_files v)(fid \<mapsto> ?n)\<rparr>)"
    by (rule update_run [OF S n(2) e3 wf keep])
  show thesis
  proof (rule that)
    show "write_text_file am nfc p w s = (Ok fid, z)"
      using t1(1) t2(1) t3(1) z(1) o1 o2
      by (simp add: write_text_file_def andthen_run lift_run assms(2) s1(1) n(1) objs_run [OF S(1)]
          em(8,9) unwrap_run ret_run)
    show "sound tree z (v\<lparr>v_files := (v_files v)(fid \<mapsto> ?n)\<rparr>)"
      using z(2-4) by (simp add: sound_def)
    show "file_written v q fid (TextBody w) (v\<lparr>v_files := (v_files v)(fid \<mapsto> ?n)\<rparr>)"
      using written_update [OF S(2) n(2,3) path] body by simp
  qed
qed

lemma write_text_new:
  assumes "sound tree s v" "normalize nfc p = Ok q" "\<not> has_file v q"
  obtains fid t v' where "write_text_file am nfc p w s = (Ok fid, t)" "sound tree t v'"
    "file_written v q fid (TextBody w) v'"
proof -
  obtain x s1 where s1: "now_ms s = (Ok x, s1)" "inner s1 = inner s" "later s s1"
    "host_drawn (host s1) = host_drawn (host s)"
    by (rule now_obtain)
  note S = soundD [OF sound_same [OF assms(1) s1(2,3)]]
  let ?fid = "host_ids (host s1) (host_drawn (host s1))"
  let ?kvs = "[(''path'', SStr q), (''kind'', SStr (kind_as_str KText)),
    (''size'', SInt (int (length w))), (''created_at'', SInt x), (''updated_at'', SInt x)]"
  obtain s2 where s2: "new_id s1 = (Ok ?fid, s2)" "inner s2 = inner s1" "later s1 s2"
    "host_drawn (host s2) = Suc (host_drawn (host s1))"
    by (rule new_id_obtain)
  have d2: "displays tree s2 v" using S(1) s2(2) by (simp add: displays_def)
  obtain t1 t2 t3 where t:
    "put_object am (oid (inner s2) [''files'']) ?fid OMap s2 = (Ok (oid (inner t1) [''files'', ?fid]), t1)"
    "put_object am (oid (inner t1) [''files'', ?fid]) ''meta'' OMap t1 =
       (Ok (oid (inner t2) [''files'', ?fid, ''meta'']), t2)"
    "puts am (oid (inner t2) [''files'', ?fid, ''meta'']) ?kvs t2 = (Ok (), t3)"
    "edited tree oid s2 [''files'']
       (Branch ((v_files v)(?fid \<mapsto> Branch [''meta'' \<mapsto> Branch (puts_map ?kvs Map.empty)]))) t3"
    "oid (inner t3) [''files'', ?fid] = oid (inner t1) [''files'', ?fid]" "host t3 = host s2"
    by (rule new_file_run [OF d2])
  have at3: "node_at (tree (inner t3)) ([''files''] @ [?fid]) =
      Some (Branch [''meta'' \<mapsto> Branch (puts_map ?kvs Map.empty)])"
    using edited_below [OF t(4), of ?fid] by simp
  obtain t4 where t4: "new_content am (oid (inner t3) ([''files''] @ [?fid])) w t3 = (Ok (), t4)"
    "edited tree oid t3 ([''files''] @ [?fid])
       (Branch ([''meta'' \<mapsto> Branch (puts_map ?kvs Map.empty)](''content'' \<mapsto> Text w))) t4"
    "host t4 = host t3"
    "\<forall>r. \<not> prefix (([''files''] @ [?fid]) @ [''content'']) r \<longrightarrow> oid (inner t4) r = oid (inner t3) r"
    by (rule new_content_run [OF at3])
  let ?n = "Branch ([''meta'' \<mapsto> Branch (puts_map ?kvs Map.empty)](''content'' \<mapsto> Text w))"
  have "edited tree oid s2 [''files''] (Branch ((v_files v)(?fid \<mapsto> ?n))) t4"
    using edited_child [OF t(4) t4(2)] by simp
  then have e: "edited tree oid s1 [''files''] (Branch ((v_files v)(?fid \<mapsto> ?n))) t4"
    by (rule edited_host_left) (simp_all add: s2)
  have fr: "fresh_ids t4 (v\<lparr>v_files := (v_files v)(?fid \<mapsto> ?n)\<rparr>)"
    by (rule fresh_drawn(1) [OF S(3) edited_later [OF e]]) (simp add: t4(3) t(6) s2(4))
  have wf: "entry_wf ?n" by (simp add: meta_wf_def)
  have path: "live_path ?n = Some q" by (simp add: live_path_def live_path_in_def)
  have body: "body_of ?n = TextBody w" by (simp add: body_of_def)
  have free: "\<forall>j b. (q, j, b) \<in> live_files v \<longrightarrow> j = ?fid"
    using assms(3) by (auto simp: has_file_def)
  obtain y z v' where z: "ensure_ancestor_directories am q t4 = (Ok (), y)" "commit_now am y = (Ok (), z)"
    "displays tree z v'" "vault_ok v'" "fresh_ids z v'"
    "live_files v' = {x \<in> live_files v. fst (snd x) \<noteq> ?fid} \<union> {(q, ?fid, body_of ?n)}"
    "v_files v' = (v_files v)(?fid \<mapsto> ?n)"
    "adds_dirs (v\<lparr>v_files := (v_files v)(?fid \<mapsto> ?n)\<rparr>) (set (ancestors q)) v'"
    by (rule place_run [OF S(1,2) e fr wf path normalize_good [OF assms(2)] free])
  show thesis
  proof (rule that)
    show "write_text_file am nfc p w s = (Ok ?fid, z)"
      using t(1-3,5) t4(1)
      by (simp add: write_text_file_def andthen_run lift_run assms(2) s1(1)
          find_absent_run [OF S(1,2) assms(3)] objs_run [OF S(1)] s2(1,2) z(1,2) ret_run)
    show "sound tree z v'" using z(3-5) by (simp add: sound_def)
    show "file_written v q ?fid (TextBody w) v'"
      using written_new [OF fresh_next(1) [OF S(3)] assms(3) z(6,7,8)] unfolding body .
  qed
qed

lemma write_text_run:
  assumes "sound tree s v" "normalize nfc p = Ok q"
  obtains fid t v' where "write_text_file am nfc p w s = (Ok fid, t)" "sound tree t v'"
    "file_written v q fid (TextBody w) v'"
  using write_text_existing [OF assms, of w thesis] write_text_new [OF assms, of w thesis] by blast

lemma write_attachment_existing:
  assumes "sound tree s v" "normalize nfc p = Ok q" "has_file v q"
  obtains fid t v' where "write_attachment am nfc p h sz s = (Ok fid, t)" "sound tree t v'"
    "file_written v q fid (BlobBody h) v'"
    "\<forall>n. v_files v fid = Some n \<longrightarrow>
       (\<exists>n'. v_files v' fid = Some n' \<and> text_of (branch_of n') ''content'' = text_of (branch_of n) ''content'')"
proof -
  obtain x s1 where s1: "now_ms s = (Ok x, s1)" "inner s1 = inner s" "later s s1"
    "host_drawn (host s1) = host_drawn (host s)"
    by (rule now_obtain)
  note S = soundD [OF sound_same [OF assms(1) s1(2,3)]]
  from assms(3) obtain fid b where live: "(q, fid, b) \<in> live_files v" by (auto simp: has_file_def)
  obtain n where n: "find_file_by_path_normalized am q s1 = (Ok (Some fid), s1)"
    "v_files v fid = Some n" "live_path n = Some q" "b = body_of n" "entry_wf n"
    by (rule find_live_run [OF S(1,2) live])
  obtain e m where em: "n = Branch e" "e ''meta'' = Some (Branch m)" "meta_of n = m" "meta_wf m"
    "str_ok e ''binary_hash''" "node_at (tree (inner s1)) [''files'', fid] = Some (Branch e)"
    "node_at (tree (inner s1)) [''files'', fid, ''meta''] = Some (Branch m)"
    "get_object am (oid (inner s1) [''files'']) fid s1 = (Ok (Some (oid (inner s1) [''files'', fid])), s1)"
    "get_object am (oid (inner s1) [''files'', fid]) ''meta'' s1 =
       (Ok (Some (oid (inner s1) [''files'', fid, ''meta''])), s1)"
    by (rule entry_run [OF S(1) n(2,5)])
  obtain t1 where t1: "put am (oid (inner s1) [''files'', fid]) ''binary_hash'' (SStr h) s1 = (Ok (), t1)"
    "edited tree oid s1 [''files'', fid] (Branch (e(''binary_hash'' \<mapsto> Leaf (SStr h)))) t1" "host t1 = host s1"
    by (rule put_run [OF em(6)])
  let ?e = "e(''binary_hash'' \<mapsto> Leaf (SStr h))" and ?p = "[''files'', fid, ''meta'']"
  let ?kvs = "[(''kind'', SStr (kind_as_str KAttachment)), (''size'', SInt sz), (''updated_at'', SInt x)]"
  have at1: "node_at (tree (inner t1)) ?p = Some (Branch m)"
    using edited_below [OF t1(2), of "''meta''"] em(2) by simp
  have o1: "oid (inner t1) ?p = oid (inner s1) ?p" by (rule put_frame [OF em(6) t1(1)]) simp
  from puts_run [OF at1, of ?kvs] obtain t2 where t2:
    "puts am (oid (inner t1) ?p) ?kvs t1 = (Ok (), t2)"
    "edited tree oid t1 ?p (Branch (puts_map ?kvs m)) t2" "host t2 = host t1" by blast
  have o2: "oid (inner t2) ?p = oid (inner s1) ?p" using edited_oid_self [OF t2(2)] o1 by simp
  let ?m = "(puts_map ?kvs m)(''deleted_at'' := None)"
  obtain t3 where t3: "delete_key am (oid (inner t2) ?p) ''deleted_at'' t2 = (Ok (), t3)"
    "edited tree oid t2 ?p (Branch ?m) t3" "host t3 = host t2"
    by (rule delete_key_run [OF edited_at [OF t2(2)]])
  let ?n = "Branch (?e(''meta'' \<mapsto> Branch ?m))"
  have "edited tree oid t1 [''files'', fid] ?n t3"
    by (rule edited_meta [OF edited_at [OF t1(2)] edited_again [OF t2(2) t3(2)]])
  then have e3: "edited tree oid s1 [''files''] (Branch ((v_files v)(fid \<mapsto> ?n))) t3"
    by (rule edited_entry [OF S(1) edited_again [OF t1(2)]])
  have wf: "entry_wf ?n" using em(4) by (auto simp: meta_wf_def)
  have path: "live_path ?n = Some q"
    using n(3) em(3) by (simp add: live_path_def live_path_in_def split: if_splits)
  have keep: "\<forall>r. live_path ?n = Some r \<longrightarrow> live_path n = Some r" unfolding path n(3) by simp
  have body: "body_of ?n = BlobBody h" by (simp add: body_of_def)
  obtain z where z: "commit_now am t3 = (Ok (), z)"
    "displays tree z (v\<lparr>v_files := (v_files v)(fid \<mapsto> ?n)\<rparr>)"
    "vault_ok (v\<lparr>v_files := (v_files v)(fid \<mapsto> ?n)\<rparr>)"
    "fresh_ids z (v\<lparr>v_files := (v_files v)(fid \<mapsto> ?n)\<rparr>)"
    by (rule update_run [OF S n(2) e3 wf keep])
  show thesis
  proof (rule that)
    show "write_attachment am nfc p h sz s = (Ok fid, z)"
      using t1(1) t2(1) t3(1) z(1) o1 o2
      by (simp add: write_attachment_def andthen_run lift_run assms(2) s1(1) n(1) objs_run [OF S(1)]
          em(8,9) unwrap_run ret_run)
    show "sound tree z (v\<lparr>v_files := (v_files v)(fid \<mapsto> ?n)\<rparr>)"
      using z(2-4) by (simp add: sound_def)
    show "file_written v q fid (BlobBody h) (v\<lparr>v_files := (v_files v)(fid \<mapsto> ?n)\<rparr>)"
      using written_update [OF S(2) n(2,3) path] body by simp
  qed (simp add: n(2) em(1))
qed

lemma write_attachment_new:
  assumes "sound tree s v" "normalize nfc p = Ok q" "\<not> has_file v q"
  obtains fid t v' where "write_attachment am nfc p h sz s = (Ok fid, t)" "sound tree t v'"
    "file_written v q fid (BlobBody h) v'"
proof -
  obtain x s1 where s1: "now_ms s = (Ok x, s1)" "inner s1 = inner s" "later s s1"
    "host_drawn (host s1) = host_drawn (host s)"
    by (rule now_obtain)
  note S = soundD [OF sound_same [OF assms(1) s1(2,3)]]
  let ?fid = "host_ids (host s1) (host_drawn (host s1))"
  let ?kvs = "[(''path'', SStr q), (''kind'', SStr (kind_as_str KAttachment)), (''size'', SInt sz),
    (''created_at'', SInt x), (''updated_at'', SInt x)]"
  obtain s2 where s2: "new_id s1 = (Ok ?fid, s2)" "inner s2 = inner s1" "later s1 s2"
    "host_drawn (host s2) = Suc (host_drawn (host s1))"
    by (rule new_id_obtain)
  have d2: "displays tree s2 v" using S(1) s2(2) by (simp add: displays_def)
  obtain t1 t2 t3 where t:
    "put_object am (oid (inner s2) [''files'']) ?fid OMap s2 = (Ok (oid (inner t1) [''files'', ?fid]), t1)"
    "put_object am (oid (inner t1) [''files'', ?fid]) ''meta'' OMap t1 =
       (Ok (oid (inner t2) [''files'', ?fid, ''meta'']), t2)"
    "puts am (oid (inner t2) [''files'', ?fid, ''meta'']) ?kvs t2 = (Ok (), t3)"
    "edited tree oid s2 [''files'']
       (Branch ((v_files v)(?fid \<mapsto> Branch [''meta'' \<mapsto> Branch (puts_map ?kvs Map.empty)]))) t3"
    "oid (inner t3) [''files'', ?fid] = oid (inner t1) [''files'', ?fid]" "host t3 = host s2"
    by (rule new_file_run [OF d2])
  have at3: "node_at (tree (inner t3)) ([''files''] @ [?fid]) =
      Some (Branch [''meta'' \<mapsto> Branch (puts_map ?kvs Map.empty)])"
    using edited_below [OF t(4), of ?fid] by simp
  let ?n = "Branch ([''meta'' \<mapsto> Branch (puts_map ?kvs Map.empty)](''binary_hash'' \<mapsto> Leaf (SStr h)))"
  obtain t4 where t4: "put am (oid (inner t3) ([''files''] @ [?fid])) ''binary_hash'' (SStr h) t3 = (Ok (), t4)"
    "edited tree oid t3 ([''files''] @ [?fid]) ?n t4" "host t4 = host t3"
    by (rule put_run [OF at3])
  have "edited tree oid s2 [''files''] (Branch ((v_files v)(?fid \<mapsto> ?n))) t4"
    using edited_child [OF t(4) t4(2)] by simp
  then have e: "edited tree oid s1 [''files''] (Branch ((v_files v)(?fid \<mapsto> ?n))) t4"
    by (rule edited_host_left) (simp_all add: s2)
  have fr: "fresh_ids t4 (v\<lparr>v_files := (v_files v)(?fid \<mapsto> ?n)\<rparr>)"
    by (rule fresh_drawn(1) [OF S(3) edited_later [OF e]]) (simp add: t4(3) t(6) s2(4))
  have wf: "entry_wf ?n" by (simp add: meta_wf_def)
  have path: "live_path ?n = Some q" by (simp add: live_path_def live_path_in_def)
  have body: "body_of ?n = BlobBody h" by (simp add: body_of_def)
  have free: "\<forall>j b. (q, j, b) \<in> live_files v \<longrightarrow> j = ?fid"
    using assms(3) by (auto simp: has_file_def)
  obtain y z v' where z: "ensure_ancestor_directories am q t4 = (Ok (), y)" "commit_now am y = (Ok (), z)"
    "displays tree z v'" "vault_ok v'" "fresh_ids z v'"
    "live_files v' = {x \<in> live_files v. fst (snd x) \<noteq> ?fid} \<union> {(q, ?fid, body_of ?n)}"
    "v_files v' = (v_files v)(?fid \<mapsto> ?n)"
    "adds_dirs (v\<lparr>v_files := (v_files v)(?fid \<mapsto> ?n)\<rparr>) (set (ancestors q)) v'"
    by (rule place_run [OF S(1,2) e fr wf path normalize_good [OF assms(2)] free])
  show thesis
  proof (rule that)
    show "write_attachment am nfc p h sz s = (Ok ?fid, z)"
      using t(1-3,5) t4(1)
      by (simp add: write_attachment_def andthen_run lift_run assms(2) s1(1)
          find_absent_run [OF S(1,2) assms(3)] objs_run [OF S(1)] s2(1,2) z(1,2) ret_run)
    show "sound tree z v'" using z(3-5) by (simp add: sound_def)
    show "file_written v q ?fid (BlobBody h) v'"
      using written_new [OF fresh_next(1) [OF S(3)] assms(3) z(6,7,8)] unfolding body .
  qed
qed

lemma write_attachment_run:
  assumes "sound tree s v" "normalize nfc p = Ok q"
  obtains fid t v' where "write_attachment am nfc p h sz s = (Ok fid, t)" "sound tree t v'"
    "file_written v q fid (BlobBody h) v'"
  using write_attachment_existing [OF assms, of h sz thesis] write_attachment_new [OF assms, of h sz thesis]
  by blast

lemma delete_file_run:
  assumes "sound tree s v" "normalize nfc p = Ok q" "has_file v q"
  obtains t v' where "delete_file am nfc p s = (Ok (), t)" "sound tree t v'" "file_deleted v q v'"
proof -
  note S = soundD [OF assms(1)]
  from assms(3) obtain fid b where live: "(q, fid, b) \<in> live_files v" by (auto simp: has_file_def)
  obtain n where n: "find_file_by_path_normalized am q s = (Ok (Some fid), s)"
    "v_files v fid = Some n" "live_path n = Some q" "b = body_of n" "entry_wf n"
    by (rule find_live_run [OF S(1,2) live])
  obtain e m where em: "n = Branch e" "e ''meta'' = Some (Branch m)" "meta_of n = m" "meta_wf m"
    "str_ok e ''binary_hash''" "node_at (tree (inner s)) [''files'', fid] = Some (Branch e)"
    "node_at (tree (inner s)) [''files'', fid, ''meta''] = Some (Branch m)"
    "get_object am (oid (inner s) [''files'']) fid s = (Ok (Some (oid (inner s) [''files'', fid])), s)"
    "get_object am (oid (inner s) [''files'', fid]) ''meta'' s =
       (Ok (Some (oid (inner s) [''files'', fid, ''meta''])), s)"
    by (rule entry_run [OF S(1) n(2,5)])
  obtain x s1 where s1: "now_ms s = (Ok x, s1)" "inner s1 = inner s" "later s s1"
    "host_drawn (host s1) = host_drawn (host s)"
    by (rule now_obtain)
  note S1 = soundD [OF sound_same [OF assms(1) s1(2,3)]]
  have at1: "node_at (tree (inner s1)) [''files'', fid, ''meta''] = Some (Branch m)" using em(7) s1(2) by simp
  obtain t where t: "put am (oid (inner s1) [''files'', fid, ''meta'']) ''deleted_at'' (SInt x) s1 = (Ok (), t)"
    "edited tree oid s1 [''files'', fid, ''meta''] (Branch (m(''deleted_at'' \<mapsto> Leaf (SInt x)))) t"
    "host t = host s1"
    by (rule put_run [OF at1])
  let ?n = "Branch (e(''meta'' \<mapsto> Branch (m(''deleted_at'' \<mapsto> Leaf (SInt x)))))"
  let ?v = "v\<lparr>v_files := (v_files v)(fid \<mapsto> ?n)\<rparr>"
  have "edited tree oid s1 [''files'', fid] ?n t"
    by (rule edited_meta [OF _ t(2)]) (simp add: em(6) s1(2))
  then have e: "edited tree oid s1 [''files''] (Branch ((v_files v)(fid \<mapsto> ?n))) t"
    by (rule edited_entry [OF S1(1)])
  have wf: "entry_wf ?n" using em(4,5) by (auto simp: meta_wf_def)
  have dead: "live_path ?n = None" by (simp add: live_path_def live_path_in_def)
  then have keep: "\<forall>r. live_path ?n = Some r \<longrightarrow> live_path n = Some r" by simp
  obtain z where z: "commit_now am t = (Ok (), z)" "displays tree z ?v" "vault_ok ?v" "fresh_ids z ?v"
    by (rule update_run [OF S1 n(2) e wf keep])
  show thesis
  proof (rule that)
    show "delete_file am nfc p s = (Ok (), z)"
      using t(1) z(1)
      by (simp add: delete_file_def andthen_run lift_run assms(2) n(1) objs_run [OF S(1)] em(8,9)
          unwrap_run s1(1,2))
    show "sound tree z ?v" using z(2-4) by (simp add: sound_def)
    have "live_files ?v = {x \<in> live_files v. fst x \<noteq> q}"
      unfolding live_files_set live_files_without [OF S(2) live, symmetric] using dead by simp
    moreover have "dom (v_files ?v) = dom (v_files v)" using n(2) by auto
    ultimately show "file_deleted v q ?v" unfolding file_deleted_def by blast
  qed
qed

lemma rename_file_run:
  assumes "sound tree s v" "normalize nfc p = Ok q" "normalize nfc p' = Ok r" "q \<noteq> r"
    and "has_file v q" "\<not> has_file v r"
  obtains t v' where "rename_file am nfc p p' s = (Ok (), t)" "sound tree t v'" "file_renamed v q r v'"
proof -
  note S = soundD [OF assms(1)]
  from assms(5) obtain fid b where live: "(q, fid, b) \<in> live_files v" by (auto simp: has_file_def)
  obtain n where n: "find_file_by_path_normalized am q s = (Ok (Some fid), s)"
    "v_files v fid = Some n" "live_path n = Some q" "b = body_of n" "entry_wf n"
    by (rule find_live_run [OF S(1,2) live])
  obtain e m where em: "n = Branch e" "e ''meta'' = Some (Branch m)" "meta_of n = m" "meta_wf m"
    "str_ok e ''binary_hash''" "node_at (tree (inner s)) [''files'', fid] = Some (Branch e)"
    "node_at (tree (inner s)) [''files'', fid, ''meta''] = Some (Branch m)"
    "get_object am (oid (inner s) [''files'']) fid s = (Ok (Some (oid (inner s) [''files'', fid])), s)"
    "get_object am (oid (inner s) [''files'', fid]) ''meta'' s =
       (Ok (Some (oid (inner s) [''files'', fid, ''meta''])), s)"
    by (rule entry_run [OF S(1) n(2,5)])
  let ?p = "[''files'', fid, ''meta'']" and ?m = "m(''path'' \<mapsto> Leaf (SStr r))"
  obtain t1 where t1: "put am (oid (inner s) ?p) ''path'' (SStr r) s = (Ok (), t1)"
    "edited tree oid s ?p (Branch ?m) t1" "host t1 = host s"
    by (rule put_run [OF em(7)])
  obtain x t2 where t2: "now_ms t1 = (Ok x, t2)" "inner t2 = inner t1" "later t1 t2"
    "host_drawn (host t2) = host_drawn (host t1)"
    by (rule now_obtain)
  have at2: "node_at (tree (inner t2)) ?p = Some (Branch ?m)" using edited_at [OF t1(2)] t2(2) by simp
  have o2: "oid (inner t2) ?p = oid (inner s) ?p" using edited_oid_self [OF t1(2)] t2(2) by simp
  obtain t3 where t3: "put am (oid (inner t2) ?p) ''updated_at'' (SInt x) t2 = (Ok (), t3)"
    "edited tree oid t2 ?p (Branch (?m(''updated_at'' \<mapsto> Leaf (SInt x)))) t3" "host t3 = host t2"
    by (rule put_run [OF at2])
  let ?n = "Branch (e(''meta'' \<mapsto> Branch (?m(''updated_at'' \<mapsto> Leaf (SInt x)))))"
  have "edited tree oid s [''files'', fid] ?n t3"
    by (rule edited_meta [OF em(6) edited_again [OF edited_host [OF t1(2) t2(2,3)] t3(2)]])
  then have e: "edited tree oid s [''files''] (Branch ((v_files v)(fid \<mapsto> ?n))) t3"
    by (rule edited_entry [OF S(1)])
  have fr: "fresh_ids t3 (v\<lparr>v_files := (v_files v)(fid \<mapsto> ?n)\<rparr>)"
    by (rule fresh_used(1) [OF S(3) edited_later [OF e]]) (simp add: n(2))
  have wf: "entry_wf ?n" using em(4,5) by (auto simp: meta_wf_def)
  have path: "live_path ?n = Some r"
    using n(3) em(3) by (simp add: live_path_def live_path_in_def split: if_splits)
  have body: "body_of ?n = b"
    using em(1,3) by (auto simp: n(4) body_of_def)
  have free: "\<forall>j c. (r, j, c) \<in> live_files v \<longrightarrow> j = fid"
    using assms(6) by (auto simp: has_file_def)
  obtain y z v' where z: "ensure_ancestor_directories am r t3 = (Ok (), y)" "commit_now am y = (Ok (), z)"
    "displays tree z v'" "vault_ok v'" "fresh_ids z v'"
    "live_files v' = {x \<in> live_files v. fst (snd x) \<noteq> fid} \<union> {(r, fid, body_of ?n)}"
    "v_files v' = (v_files v)(fid \<mapsto> ?n)"
    "adds_dirs (v\<lparr>v_files := (v_files v)(fid \<mapsto> ?n)\<rparr>) (set (ancestors r)) v'"
    by (rule place_run [OF S(1,2) e fr wf path normalize_good [OF assms(3)] free])
  show thesis
  proof (rule that)
    show "rename_file am nfc p p' s = (Ok (), z)"
      using t1(1) t3(1) z(1,2) assms(4)
      by (simp add: rename_file_def andthen_run lift_run assms(2,3) n(1) find_absent_run [OF S(1,2) assms(6)]
          objs_run [OF S(1)] em(8,9) unwrap_run t2(1) o2)
    show "sound tree z v'" using z(3-5) by (simp add: sound_def)
    have "{(r, i, c) |i c. (q, i, c) \<in> live_files v} = {(r, fid, b)}"
    proof -
      have "i = fid \<and> c = b" if "(q, i, c) \<in> live_files v" for i c
        using vault_ok_unique [OF S(2) that live] .
      with live show ?thesis by blast
    qed
    then have "live_files v' = {x \<in> live_files v. fst x \<noteq> q} \<union> {(r, i, c) |i c. (q, i, c) \<in> live_files v}"
      unfolding z(6) body live_files_without [OF S(2) live] by simp
    moreover have "has_dir v' a \<longleftrightarrow> has_dir v a \<or> a \<in> set (ancestors r)" for a
      using z(8) unfolding adds_dirs_def by simp
    moreover have "v_labels v' = v_labels v" "v_rest v' = v_rest v"
      using adds_files(4,5) [OF z(8)] by simp_all
    ultimately show "file_renamed v q r v'" unfolding file_renamed_def by blast
  qed
qed

lemma missing_file_run:
  assumes "sound tree s v" "normalize nfc p = Ok q" "\<not> has_file v q"
  shows "delete_file am nfc p s = (Err (NotFound q), s)"
    "normalize nfc p' = Ok r \<Longrightarrow> q \<noteq> r \<Longrightarrow> rename_file am nfc p p' s = (Err (NotFound q), s)"
  using find_absent_run [OF soundD(1,2) [OF assms(1)] assms(3)]
  by (simp_all add: delete_file_def rename_file_def andthen_run lift_run assms(2))

lemma rename_onto_run:
  assumes "sound tree s v" "normalize nfc p = Ok q" "normalize nfc p' = Ok r" "q \<noteq> r"
    and "has_file v q" "has_file v r"
  shows "rename_file am nfc p p' s = (Err (AlreadyExists r), s)"
proof -
  note S = soundD [OF assms(1)]
  from assms(5,6) obtain i b j c where live: "(q, i, b) \<in> live_files v" "(r, j, c) \<in> live_files v"
    by (auto simp: has_file_def)
  obtain n where n: "find_file_by_path_normalized am q s = (Ok (Some i), s)"
    "v_files v i = Some n" "live_path n = Some q" "b = body_of n" "entry_wf n"
    by (rule find_live_run [OF S(1,2) live(1)])
  obtain n' where n': "find_file_by_path_normalized am r s = (Ok (Some j), s)"
    "v_files v j = Some n'" "live_path n' = Some r" "c = body_of n'" "entry_wf n'"
    by (rule find_live_run [OF S(1,2) live(2)])
  show ?thesis
    using assms(4) by (simp add: rename_file_def andthen_run lift_run assms(2,3) n(1) n'(1) fail_run)
qed

end

end
