(* ===== verification/DocTrees.thy ===== *)
theory DocTrees
  imports DocWrites
begin

text \<open>
  \<^verbatim>\<open>crates/agentsync-core/src/doc/directories.rs\<close>: deletion and renaming of a directory with
  what is below it.
\<close>

section \<open>Deletion\<close>

text \<open>The live directories strictly below a path, with their ids.\<close>

definition child_directories ::
    "('d, 'o, 'y) automerge \<Rightarrow> string \<Rightarrow> 'o \<Rightarrow> string list \<Rightarrow> ('d doc, (string \<times> string) list) action" where
  "child_directories am path dirs dir_keys =
     collect dir_keys (\<lambda>did.
       andthen (get_object am dirs did) (\<lambda>x. case x of
         None \<Rightarrow> ret None
       | Some meta \<Rightarrow>
           andthen (get_int am meta ''deleted_at'') (\<lambda>deleted.
             if deleted \<noteq> None then ret None
             else andthen (get_str am meta ''path'') (\<lambda>q. case q of
               None \<Rightarrow> ret None
             | Some p \<Rightarrow> ret (if under path p \<and> p \<noteq> path then Some (did, p) else None)))))"

definition mark_directory :: "('d, 'o, 'y) automerge \<Rightarrow> 'o \<Rightarrow> int \<Rightarrow> string \<Rightarrow> ('d doc, unit) action" where
  "mark_directory am dirs now did =
     andthen (get_object am dirs did) (\<lambda>x. case x of
       Some meta \<Rightarrow> put am meta ''deleted_at'' (SInt now)
     | None \<Rightarrow> ret ())"

definition delete_directory ::
    "('d, 'o, 'y) automerge \<Rightarrow> (string \<Rightarrow> string) \<Rightarrow> string \<Rightarrow> bool \<Rightarrow> ('d doc, unit) action" where
  "delete_directory am nfc path0 recursive =
     andthen (lift (normalize nfc path0)) (\<lambda>path.
     andthen now_ms (\<lambda>now.
     andthen (list_files am) (\<lambda>fs.
     let child_files = filter (\<lambda>p. under path p \<and> p \<noteq> path) (map fm_path fs) in
     andthen (directories_obj am) (\<lambda>dirs.
     andthen (map_keys am dirs) (\<lambda>dir_keys.
     andthen (child_directories am path dirs dir_keys) (\<lambda>child_dirs.
     if child_files \<noteq> [] \<and> \<not> recursive
     then fail (Other (''directory not empty: '' @ path @ '' ('' @
            show_nat (length child_files) @ '' child files)''))
     else
       andthen
         (if recursive
          then andthen (foreach child_files (delete_file am nfc)) (\<lambda>_.
               andthen (directories_obj am) (\<lambda>dirs'.
               foreach child_dirs (\<lambda>(did, _). mark_directory am dirs' now did)))
          else ret ()) (\<lambda>_.
       andthen (find_directory_by_path_normalized am path) (\<lambda>found.
       andthen
         (case found of
            Some did \<Rightarrow> andthen (directories_obj am) (\<lambda>dirs'. mark_directory am dirs' now did)
          | None \<Rightarrow> ret ()) (\<lambda>_.
       commit_now am)))))))))"

section \<open>Renaming\<close>

text \<open>
  The path of an entry below the renamed directory: the new name and what followed the old
  one, \<^verbatim>\<open>format!("{}{}", to, &p[from.len()..])\<close>.
\<close>

definition moved :: "string \<Rightarrow> string \<Rightarrow> string \<Rightarrow> string" where
  "moved from_p to_p p = to_p @ drop (length from_p) p"

definition move_directory ::
    "('d, 'o, 'y) automerge \<Rightarrow> string \<Rightarrow> string \<Rightarrow> 'o \<Rightarrow> string \<Rightarrow> ('d doc, unit) action" where
  "move_directory am from_p to_p dirs did =
     andthen (get_object am dirs did) (\<lambda>x. case x of
       None \<Rightarrow> ret ()
     | Some meta \<Rightarrow>
         andthen (get_int am meta ''deleted_at'') (\<lambda>deleted.
           if deleted \<noteq> None then ret ()
           else andthen (get_str am meta ''path'') (\<lambda>q. case q of
             None \<Rightarrow> ret ()
           | Some p \<Rightarrow>
               if under from_p p \<and> p \<noteq> from_p
               then put am meta ''path'' (SStr (moved from_p to_p p)) else ret ())))"

definition move_file ::
    "('d, 'o, 'y) automerge \<Rightarrow> string \<Rightarrow> string \<Rightarrow> int \<Rightarrow> 'o \<Rightarrow> string \<Rightarrow> ('d doc, unit) action" where
  "move_file am from_p to_p now files fid =
     andthen (get_object am files fid) (\<lambda>x. case x of
       None \<Rightarrow> ret ()
     | Some entry \<Rightarrow>
         andthen (get_object am entry ''meta'') (\<lambda>y. case y of
           None \<Rightarrow> ret ()
         | Some meta \<Rightarrow>
             andthen (get_int am meta ''deleted_at'') (\<lambda>deleted.
               if deleted \<noteq> None then ret ()
               else andthen (get_str am meta ''path'') (\<lambda>q. case q of
                 None \<Rightarrow> ret ()
               | Some p \<Rightarrow>
                   if under from_p p
                   then puts am meta
                     [(''path'', SStr (if p = from_p then to_p else moved from_p to_p p)),
                      (''updated_at'', SInt now)]
                   else ret ()))))"

definition rename_directory ::
    "('d, 'o, 'y) automerge \<Rightarrow> (string \<Rightarrow> string) \<Rightarrow> string \<Rightarrow> string \<Rightarrow> ('d doc, unit) action" where
  "rename_directory am nfc from0 to0 =
     andthen (lift (normalize nfc from0)) (\<lambda>from_p.
     andthen (lift (normalize nfc to0)) (\<lambda>to_p.
     if from_p = to_p then ret ()
     else
       andthen now_ms (\<lambda>now.
       andthen (find_directory_by_path_normalized am from_p) (\<lambda>found.
       andthen
         (case found of
            Some did \<Rightarrow>
              andthen (directories_obj am) (\<lambda>dirs.
              andthen (get_object am dirs did) (\<lambda>x. case x of
                Some meta \<Rightarrow> put am meta ''path'' (SStr to_p)
              | None \<Rightarrow> ret ()))
          | None \<Rightarrow> ret ()) (\<lambda>_.
       andthen (directories_obj am) (\<lambda>dirs_obj.
       andthen (map_keys am dirs_obj) (\<lambda>dir_keys.
       andthen (foreach dir_keys (move_directory am from_p to_p dirs_obj)) (\<lambda>_.
       andthen (files_obj am) (\<lambda>fobj.
       andthen (map_keys am fobj) (\<lambda>file_keys.
       andthen (foreach file_keys (move_file am from_p to_p now fobj)) (\<lambda>_.
       andthen (ensure_ancestor_directories am to_p) (\<lambda>_.
       commit_now am))))))))))))"

section \<open>Running the deletion\<close>

text \<open>
  The paths of the vault are fixed points of \<open>normalize\<close>, which the deletion of a child needs:
  it normalises the stored path again.
\<close>

definition normal_paths :: "(string \<Rightarrow> string) \<Rightarrow> view \<Rightarrow> bool" where
  "normal_paths nfc v \<longleftrightarrow> (\<forall>p. has_file v p \<longrightarrow> normalize nfc p = Ok p)"

text \<open>Everything strictly below \<open>q\<close>, and the directory \<open>q\<close> itself, is gone.\<close>

definition tree_deleted :: "view \<Rightarrow> string \<Rightarrow> view \<Rightarrow> bool" where
  "tree_deleted v q v' \<longleftrightarrow>
     live_files v' = {x \<in> live_files v. \<not> (under q (fst x) \<and> fst x \<noteq> q)} \<and>
     live_dirs v' = {x \<in> live_dirs v. \<not> under q (fst x)} \<and>
     v_labels v' = v_labels v \<and> v_rest v' = v_rest v"

lemma under_ancestor:
  assumes "good_path q" "good_path p" "a \<in> set (ancestors p)" "under q a"
  shows "under q p"
proof -
  from assms(1) obtain qs where qs: "qs \<noteq> []" "list_all good_segment qs" "q = join ''/'' qs"
    by (rule good_path_segments)
  from assms(2) obtain ps where ps: "ps \<noteq> []" "list_all good_segment ps" "p = join ''/'' ps"
    by (rule good_path_segments)
  from assms(3) ps obtain k where k: "1 \<le> k" "k < length ps" "a = join ''/'' (take k ps)"
    by (auto simp: ancestors_segments)
  have t: "take k ps \<noteq> []" "list_all good_segment (take k ps)"
    using ps k by (auto simp: list_all_iff dest: in_set_takeD)
  have "prefix qs (take k ps)"
    using assms(4) under_segments [OF qs(1,2) t] qs(3) k(3) by simp
  then have "prefix qs ps" using take_is_prefix prefix_order.trans by blast
  then show ?thesis using under_segments [OF qs(1,2) ps(1,2)] qs(3) ps(3) by simp
qed

lemma ancestor_not_under:
  assumes "good_path p" "a \<in> set (ancestors p)"
  shows "\<not> under p a"
proof -
  from assms(1) obtain ps where ps: "ps \<noteq> []" "list_all good_segment ps" "p = join ''/'' ps"
    by (rule good_path_segments)
  with assms(2) obtain k where k: "1 \<le> k" "k < length ps" "a = join ''/'' (take k ps)"
    by (auto simp: ancestors_segments)
  have t: "take k ps \<noteq> []" "list_all good_segment (take k ps)"
    using ps k by (auto simp: list_all_iff dest: in_set_takeD)
  have "\<not> prefix ps (take k ps)" using k(2) prefix_length_le [of ps "take k ps"] by auto
  then show ?thesis using under_segments [OF ps(1,2) t] ps(3) k(3) by simp
qed

lemma vault_ok_deleted:
  assumes "vault_ok v" "tree_deleted v q v'" "good_path q" "dirs_ok v'" "entries_wf v'"
  shows "vault_ok v'"
proof -
  have files: "x \<in> live_files v' \<longleftrightarrow> x \<in> live_files v \<and> \<not> (under q (fst x) \<and> fst x \<noteq> q)"
    and dirs: "y \<in> live_dirs v' \<longleftrightarrow> y \<in> live_dirs v \<and> \<not> under q (fst y)" for x y
    using assms(2) by (auto simp: tree_deleted_def)
  have hd: "has_dir v' a \<longleftrightarrow> has_dir v a \<and> \<not> under q a" for a
    by (auto simp: has_dir_def dirs)
  have "placed v' p" if "has_file v' p \<or> has_dir v' p" for p
  proof -
    have p: "placed v p" "under q p \<longrightarrow> p = q"
      using that assms(1) by (auto simp: has_file_def has_dir_def files dirs vault_ok_def all_placed_def)
    have "\<not> under q a" if a: "a \<in> set (ancestors p)" for a
    proof
      assume u: "under q a"
      then have "p = q" using under_ancestor [OF assms(3) _ a u] p by (simp add: placed_def)
      with ancestor_not_under [OF assms(3)] a u show False by blast
    qed
    with p(1) show ?thesis by (simp add: placed_def hd)
  qed
  moreover have "unique_paths v'"
  proof -
    have "i = j" if "(p, i, b) \<in> live_files v'" "(p, j, c) \<in> live_files v'" for p i j b c
      using that assms(1) unfolding files vault_ok_def unique_paths_def by blast
    then show ?thesis using assms(4) unfolding unique_paths_def dirs_ok_def by blast
  qed
  ultimately show ?thesis
    using assms(4,5) by (simp add: vault_ok_def all_placed_def schema_ok_def dirs_ok_def entries_wf_def)
qed

lemma live_dirs_path: "(p, i) \<in> live_dirs v \<Longrightarrow> (q, i) \<in> live_dirs v \<Longrightarrow> p = q"
  by (auto simp: live_dirs_iff)

lemma live_dirs_unset:
  "dir_live_path n = None \<Longrightarrow>
   live_dirs (v\<lparr>v_dirs := (v_dirs v)(did \<mapsto> n)\<rparr>) = {x \<in> live_dirs v. snd x \<noteq> did}"
  by (simp add: live_dirs_set)

context automerge_doc
begin

lemma delete_files_run:
  assumes "sound tree s v" "distinct ps" "\<forall>p \<in> set ps. has_file v p \<and> normalize nfc p = Ok p"
  shows "\<exists>t v'. foreach ps (delete_file am nfc) s = (Ok (), t) \<and> sound tree t v' \<and>
    live_files v' = {x \<in> live_files v. fst x \<notin> set ps} \<and> (\<exists>F. v' = v\<lparr>v_files := F\<rparr>)"
  using assms
proof (induction ps arbitrary: s v)
  case Nil
  then show ?case by (auto simp: ret_run intro!: exI [of _ v] exI [of _ "v_files v"])
next
  case (Cons p ps)
  have "normalize nfc p = Ok p" "has_file v p" using Cons.prems(3) by auto
  from delete_file_run [OF Cons.prems(1) this] obtain t v1 where t:
    "delete_file am nfc p s = (Ok (), t)" "sound tree t v1" "file_deleted v p v1" by blast
  then have live: "live_files v1 = {x \<in> live_files v. fst x \<noteq> p}" by (simp add: file_deleted_def)
  have "\<forall>r \<in> set ps. has_file v1 r \<and> normalize nfc r = Ok r"
    using Cons.prems(2,3) unfolding has_file_def live by auto
  from Cons.IH [OF t(2) _ this] Cons.prems(2) obtain u v2 where u:
    "foreach ps (delete_file am nfc) t = (Ok (), u)" "sound tree u v2"
    "live_files v2 = {x \<in> live_files v1. fst x \<notin> set ps}" "\<exists>F. v2 = v1\<lparr>v_files := F\<rparr>" by auto
  from t(3) u(4) have "\<exists>F. v2 = v\<lparr>v_files := F\<rparr>" by (auto simp: file_deleted_def)
  with t(1) u(1-3) show ?case by (auto simp: andthen_run live)
qed

lemma child_directories_run:
  assumes "displays tree s v" "dirs_ok v" "set ks = dom (v_dirs v)"
  obtains cds where "child_directories am q (oid (inner s) [''directories'']) ks s = (Ok cds, s)"
    "set cds = {(did, p). (p, did) \<in> live_dirs v \<and> under q p \<and> p \<noteq> q}"
proof -
  note D = displays_node(2) [OF assms(1)]
  define g where "g did = (case Option.bind (v_dirs v did) dir_live_path of
      Some p \<Rightarrow> if under q p \<and> p \<noteq> q then Some (did, p) else None | None \<Rightarrow> None)" for did
  have body: "andthen (get_object am (oid (inner s) [''directories'']) did) (\<lambda>x. case x of
         None \<Rightarrow> ret None
       | Some meta \<Rightarrow>
           andthen (get_int am meta ''deleted_at'') (\<lambda>deleted.
             if deleted \<noteq> None then ret None
             else andthen (get_str am meta ''path'') (\<lambda>r. case r of
               None \<Rightarrow> ret None
             | Some p \<Rightarrow> ret (if under q p \<and> p \<noteq> q then Some (did, p) else None)))) s = (Ok (g did), s)"
    if "did \<in> set ks" for did
  proof -
    from that assms(3) obtain n where n: "v_dirs v did = Some n" by auto
    with assms(2) have "dir_wf n" by (auto simp: dirs_ok_def)
    then obtain m where m: "n = Branch m" "str_ok m ''path''" "str_of m ''path'' \<noteq> None"
      "int_ok m ''created_at''" "int_ok m ''deleted_at''"
      by (rule dir_wf_Branch)
    have at: "node_at (tree (inner s)) ([''directories''] @ [did]) = Some (Branch m)"
      by (rule below_run [OF D]) (simp add: n m)
    show ?thesis
      using n m(1,3) get_object_Branch [OF D, of did m] get_int_run [OF at m(5)] get_str_run [OF at m(2)]
      by (auto simp: g_def andthen_run ret_run dir_live_path_def live_path_in_def)
  qed
  have "child_directories am q (oid (inner s) [''directories'']) ks s = (Ok (List.map_filter g ks), s)"
    unfolding child_directories_def by (rule collect_pure, rule body)
  moreover have "set (List.map_filter g ks) = {(did, p). (p, did) \<in> live_dirs v \<and> under q p \<and> p \<noteq> q}"
  proof -
    have g: "g did = Some y \<longleftrightarrow> (\<exists>p. y = (did, p) \<and> (p, did) \<in> live_dirs v \<and> under q p \<and> p \<noteq> q)" for did y
      by (cases "v_dirs v did") (auto simp: g_def live_dirs_iff split: option.splits)
    have "did \<in> set ks" if "(p, did) \<in> live_dirs v" for p did
      using that assms(3) by (auto simp: live_dirs_iff)
    then show ?thesis unfolding set_map_filter g by blast
  qed
  ultimately show thesis by (rule that)
qed

lemma mark_directory_run:
  assumes "displays tree s v" "dirs_ok v" "fresh_ids s v" "v_dirs v did = Some n"
  obtains t D where "mark_directory am (oid (inner s) [''directories'']) now did s = (Ok (), t)"
    "displays tree t (v\<lparr>v_dirs := D\<rparr>)" "dirs_ok (v\<lparr>v_dirs := D\<rparr>)" "fresh_ids t (v\<lparr>v_dirs := D\<rparr>)"
    "live_dirs (v\<lparr>v_dirs := D\<rparr>) = {x \<in> live_dirs v. snd x \<noteq> did}" "dom D = dom (v_dirs v)"
    "oid (inner t) [''directories''] = oid (inner s) [''directories'']"
proof -
  note D = displays_node(2) [OF assms(1)]
  from assms(2,4) have "dir_wf n" by (auto simp: dirs_ok_def)
  then obtain m where m: "n = Branch m" "str_ok m ''path''" "str_of m ''path'' \<noteq> None"
    "int_ok m ''created_at''" "int_ok m ''deleted_at''"
    by (rule dir_wf_Branch)
  have nd: "v_dirs v did = Some (Branch m)" using assms(4) m(1) by simp
  have at: "node_at (tree (inner s)) ([''directories''] @ [did]) = Some (Branch m)"
    by (rule below_run [OF D nd])
  let ?n = "Branch (m(''deleted_at'' \<mapsto> Leaf (SInt now)))"
  let ?D = "(v_dirs v)(did \<mapsto> ?n)"
  obtain t where t: "put am (oid (inner s) ([''directories''] @ [did])) ''deleted_at'' (SInt now) s = (Ok (), t)"
    "edited tree oid s ([''directories''] @ [did]) ?n t" "host t = host s"
    by (rule put_run [OF at])
  have e: "edited tree oid s [''directories''] (Branch ?D) t"
    by (rule edited_child [OF edited_refl [of tree, OF D] t(2)])
  have dead: "dir_live_path ?n = None" "dir_wf ?n"
    using m(3,4) by (simp_all add: dir_live_path_def live_path_in_def)
  note live = live_dirs_unset [of ?n v did, OF dead(1)]
  show thesis
  proof (rule that [of t ?D])
    show "mark_directory am (oid (inner s) [''directories'']) now did s = (Ok (), t)"
      using t(1) get_object_Branch [OF D nd] by (simp add: mark_directory_def andthen_run)
    show "displays tree t (v\<lparr>v_dirs := ?D\<rparr>)" by (rule displays_edited(2) [OF assms(1) e])
    show "live_dirs (v\<lparr>v_dirs := ?D\<rparr>) = {x \<in> live_dirs v. snd x \<noteq> did}" by (rule live)
    show "dirs_ok (v\<lparr>v_dirs := ?D\<rparr>)" using assms(2) dead unfolding dirs_ok_def live by auto
    show "fresh_ids t (v\<lparr>v_dirs := ?D\<rparr>)"
      by (rule fresh_used(2) [OF assms(3) edited_later [OF e]]) (simp add: nd)
    show "dom ?D = dom (v_dirs v)" using nd by auto
    show "oid (inner t) [''directories''] = oid (inner s) [''directories'']"
      by (rule edited_oid_self [OF e])
  qed
qed

lemma mark_directories_run:
  assumes "displays tree s v" "dirs_ok v" "fresh_ids s v" "fst ` set cds \<subseteq> dom (v_dirs v)"
  shows "\<exists>t D. foreach cds (\<lambda>(did, _). mark_directory am (oid (inner s) [''directories'']) now did) s = (Ok (), t) \<and>
    displays tree t (v\<lparr>v_dirs := D\<rparr>) \<and> dirs_ok (v\<lparr>v_dirs := D\<rparr>) \<and> fresh_ids t (v\<lparr>v_dirs := D\<rparr>) \<and>
    live_dirs (v\<lparr>v_dirs := D\<rparr>) = {x \<in> live_dirs v. snd x \<notin> fst ` set cds} \<and> dom D = dom (v_dirs v)"
  using assms
proof (induction cds arbitrary: s v)
  case Nil
  then show ?case by (auto simp: ret_run intro!: exI [of _ "v_dirs v"])
next
  case (Cons cd cds)
  obtain did p where cd: "cd = (did, p)" by fastforce
  with Cons.prems(4) obtain n where "v_dirs v did = Some n" by auto
  from mark_directory_run [OF Cons.prems(1-3) this, of now] obtain t D where t:
    "mark_directory am (oid (inner s) [''directories'']) now did s = (Ok (), t)"
    "displays tree t (v\<lparr>v_dirs := D\<rparr>)" "dirs_ok (v\<lparr>v_dirs := D\<rparr>)" "fresh_ids t (v\<lparr>v_dirs := D\<rparr>)"
    "live_dirs (v\<lparr>v_dirs := D\<rparr>) = {x \<in> live_dirs v. snd x \<noteq> did}" "dom D = dom (v_dirs v)"
    "oid (inner t) [''directories''] = oid (inner s) [''directories'']" by blast
  have "fst ` set cds \<subseteq> dom (v_dirs (v\<lparr>v_dirs := D\<rparr>))" using Cons.prems(4) t(6) by simp
  from Cons.IH [OF t(2-4) this] obtain u E where u:
    "foreach cds (\<lambda>(did, _). mark_directory am (oid (inner t) [''directories'']) now did) t = (Ok (), u)"
    "displays tree u (v\<lparr>v_dirs := E\<rparr>)" "dirs_ok (v\<lparr>v_dirs := E\<rparr>)" "fresh_ids u (v\<lparr>v_dirs := E\<rparr>)"
    "live_dirs (v\<lparr>v_dirs := E\<rparr>) = {x \<in> live_dirs (v\<lparr>v_dirs := D\<rparr>). snd x \<notin> fst ` set cds}"
    "dom E = dom D" by auto
  have "live_dirs (v\<lparr>v_dirs := E\<rparr>) = {x \<in> live_dirs v. snd x \<notin> fst ` set (cd # cds)}"
    unfolding u(5) t(5) cd by auto
  moreover have "foreach (cd # cds) (\<lambda>(did, _). mark_directory am (oid (inner s) [''directories'']) now did) s = (Ok (), u)"
    using t(1,7) u(1) by (simp add: cd andthen_run)
  moreover have "dom E = dom (v_dirs v)" using t(6) u(6) by simp
  ultimately show ?case using u(2-4) by blast
qed

text \<open>The paths of the live files, as \<open>delete_directory\<close> lists them.\<close>

lemma list_paths_run:
  assumes "displays tree s v" "vault_ok v"
  obtains out where "list_files am s = (Ok out, s)" "distinct (map fm_path out)"
    "set (map fm_path out) = {p. has_file v p}"
proof -
  obtain out where out: "list_files am s = (Ok out, s)" "sorted (map fm_path out)" "distinct (map fm_id out)"
    "set out = {file_rec fid n |fid n. v_files v fid = Some n \<and> live_path n \<noteq> None}"
    by (rule list_files_run [OF assms(1) vault_ok_entries [OF assms(2)]])
  have path: "live_path n = Some (fm_path (file_rec fid n))" if "live_path n \<noteq> None" for fid n
    using that by (auto simp: live_path_def live_path_in_def file_rec_def Let_def split: if_splits)
  have "inj_on fm_path (set out)"
  proof (rule inj_onI)
    fix x y assume "x \<in> set out" "y \<in> set out" and eq: "fm_path x = fm_path y"
    then obtain i m j n where x: "x = file_rec i m" "v_files v i = Some m" "live_path m \<noteq> None"
      and y: "y = file_rec j n" "v_files v j = Some n" "live_path n \<noteq> None"
      using out(4) by auto
    have px: "live_path m = Some (fm_path x)" using path [OF x(3), of i] unfolding x(1) .
    have py: "live_path n = Some (fm_path x)" using path [OF y(3), of j] eq unfolding y(1) by simp
    have "(fm_path x, i, body_of m) \<in> live_files v" "(fm_path x, j, body_of n) \<in> live_files v"
      using x(2) y(2) px py by (auto simp: live_files_iff)
    then have "i = j" using vault_ok_unique [OF assms(2)] by blast
    then show "x = y" using x y by simp
  qed
  then have "distinct (map fm_path out)" using out(3) by (simp add: distinct_map)
  moreover have "set (map fm_path out) = {p. has_file v p}"
  proof (rule set_eqI)
    fix p
    have "p \<in> set (map fm_path out) \<longleftrightarrow>
        (\<exists>fid n. v_files v fid = Some n \<and> live_path n \<noteq> None \<and> p = fm_path (file_rec fid n))"
      using out(4) by auto
    also have "\<dots> \<longleftrightarrow> (\<exists>fid n. v_files v fid = Some n \<and> live_path n = Some p)"
      using path by (metis option.distinct(1) option.inject)
    finally show "p \<in> set (map fm_path out) \<longleftrightarrow> p \<in> {p. has_file v p}"
      by (auto simp: has_file_def live_files_iff)
  qed
  ultimately show thesis by (rule that [OF out(1)])
qed

lemma delete_self_run:
  assumes "displays tree s v" "dirs_ok v" "fresh_ids s v"
  obtains r t D where "find_directory_by_path_normalized am q s = (Ok r, s)"
    "(case r of Some did \<Rightarrow> andthen (directories_obj am) (\<lambda>dirs'. mark_directory am dirs' now did)
              | None \<Rightarrow> ret ()) s = (Ok (), t)"
    "displays tree t (v\<lparr>v_dirs := D\<rparr>)" "dirs_ok (v\<lparr>v_dirs := D\<rparr>)" "fresh_ids t (v\<lparr>v_dirs := D\<rparr>)"
    "live_dirs (v\<lparr>v_dirs := D\<rparr>) = {x \<in> live_dirs v. fst x \<noteq> q}"
proof -
  obtain r where r: "find_directory_by_path_normalized am q s = (Ok r, s)"
    "r = None \<longrightarrow> \<not> has_dir v q" "\<forall>did. r = Some did \<longrightarrow> (q, did) \<in> live_dirs v"
    by (rule find_dir_run [OF assms(1,2), of q])
  show thesis
  proof (cases r)
    case None
    with r(2) have "live_dirs v = {x \<in> live_dirs v. fst x \<noteq> q}" by (auto simp: has_dir_def)
    with None r(1) that [of r s "v_dirs v"] assms show thesis by (simp add: ret_run)
  next
    case (Some did)
    with r(3) have live: "(q, did) \<in> live_dirs v" by simp
    then obtain n where n: "v_dirs v did = Some n" "dir_live_path n = Some q" by (auto simp: live_dirs_iff)
    obtain t D where t:
      "mark_directory am (oid (inner s) [''directories'']) now did s = (Ok (), t)"
      "displays tree t (v\<lparr>v_dirs := D\<rparr>)" "dirs_ok (v\<lparr>v_dirs := D\<rparr>)" "fresh_ids t (v\<lparr>v_dirs := D\<rparr>)"
      "live_dirs (v\<lparr>v_dirs := D\<rparr>) = {x \<in> live_dirs v. snd x \<noteq> did}" "dom D = dom (v_dirs v)"
      "oid (inner t) [''directories''] = oid (inner s) [''directories'']"
      by (rule mark_directory_run [OF assms n(1), of now])
    have same: "snd x = did \<longleftrightarrow> fst x = q" if "x \<in> live_dirs v" for x :: "string \<times> string"
    proof -
      obtain p i where x: "x = (p, i)" by fastforce
      have "i = did" if "p = q"
        using \<open>x \<in> live_dirs v\<close> live assms(2) that x unfolding dirs_ok_def by blast
      moreover have "p = q" if "i = did"
        using live_dirs_path [of p did v q] \<open>x \<in> live_dirs v\<close> live that x by simp
      ultimately show ?thesis by (auto simp: x)
    qed
    have "live_dirs (v\<lparr>v_dirs := D\<rparr>) = {x \<in> live_dirs v. fst x \<noteq> q}"
      unfolding t(5) using same by blast
    with Some r(1) t(1-4) that show thesis
      by (simp add: andthen_run objs_run [OF assms(1)])
  qed
qed

lemma delete_directory_run:
  assumes "sound tree s v" "normal_paths nfc v" "normalize nfc p = Ok q"
  obtains t v' where "delete_directory am nfc p True s = (Ok (), t)" "sound tree t v'" "tree_deleted v q v'"
proof -
  obtain x s1 where s1: "now_ms s = (Ok x, s1)" "inner s1 = inner s" "later s s1"
    "host_drawn (host s1) = host_drawn (host s)"
    by (rule now_obtain)
  have sound1: "sound tree s1 v" by (rule sound_same [OF assms(1) s1(2,3)])
  note S = soundD [OF sound1]
  obtain out where out: "list_files am s1 = (Ok out, s1)" "distinct (map fm_path out)"
    "set (map fm_path out) = {p. has_file v p}"
    by (rule list_paths_run [OF S(1,2)])
  define cf where "cf = filter (\<lambda>p. under q p \<and> p \<noteq> q) (map fm_path out)"
  have cf: "distinct cf" "set cf = {p. has_file v p \<and> under q p \<and> p \<noteq> q}"
    using out(2,3) by (auto simp: cf_def distinct_map intro: inj_on_subset)
  obtain ks where ks: "map_keys am (oid (inner s1) [''directories'']) s1 = (Ok ks, s1)"
    "distinct ks" "set ks = dom (v_dirs v)"
    by (rule map_keys_run [OF displays_node(2) [OF S(1)]])
  obtain cds where cds: "child_directories am q (oid (inner s1) [''directories'']) ks s1 = (Ok cds, s1)"
    "set cds = {(did, p). (p, did) \<in> live_dirs v \<and> under q p \<and> p \<noteq> q}"
    by (rule child_directories_run [OF S(1) vault_ok_dirs [OF S(2)] ks(3)])
  have "\<forall>p \<in> set cf. has_file v p \<and> normalize nfc p = Ok p"
    using cf(2) assms(2) by (auto simp: normal_paths_def)
  from delete_files_run [OF sound1 cf(1) this] obtain t1 v1 F where t1:
    "foreach cf (delete_file am nfc) s1 = (Ok (), t1)" "sound tree t1 v1"
    "live_files v1 = {x \<in> live_files v. fst x \<notin> set cf}" "v1 = v\<lparr>v_files := F\<rparr>" by blast
  note S1 = soundD [OF t1(2)]
  have dirs1: "live_dirs v1 = live_dirs v" "v_dirs v1 = v_dirs v" by (simp_all add: t1(4))
  have sub: "fst ` set cds \<subseteq> dom (v_dirs v1)" by (auto simp: cds(2) dirs1(2) live_dirs_iff)
  from mark_directories_run [OF S1(1) vault_ok_dirs [OF S1(2)] S1(3) sub, of x] obtain t2 D2 where t2:
    "foreach cds (\<lambda>(did, _). mark_directory am (oid (inner t1) [''directories'']) x did) t1 = (Ok (), t2)"
    "displays tree t2 (v1\<lparr>v_dirs := D2\<rparr>)" "dirs_ok (v1\<lparr>v_dirs := D2\<rparr>)" "fresh_ids t2 (v1\<lparr>v_dirs := D2\<rparr>)"
    "live_dirs (v1\<lparr>v_dirs := D2\<rparr>) = {x \<in> live_dirs v1. snd x \<notin> fst ` set cds}" by blast
  obtain r t3 D3 where t3: "find_directory_by_path_normalized am q t2 = (Ok r, t2)"
    "(case r of Some did \<Rightarrow> andthen (directories_obj am) (\<lambda>dirs'. mark_directory am dirs' x did)
              | None \<Rightarrow> ret ()) t2 = (Ok (), t3)"
    "displays tree t3 (v1\<lparr>v_dirs := D2\<rparr>\<lparr>v_dirs := D3\<rparr>)" "dirs_ok (v1\<lparr>v_dirs := D2\<rparr>\<lparr>v_dirs := D3\<rparr>)"
    "fresh_ids t3 (v1\<lparr>v_dirs := D2\<rparr>\<lparr>v_dirs := D3\<rparr>)"
    "live_dirs (v1\<lparr>v_dirs := D2\<rparr>\<lparr>v_dirs := D3\<rparr>) = {x \<in> live_dirs (v1\<lparr>v_dirs := D2\<rparr>). fst x \<noteq> q}"
    by (rule delete_self_run [OF t2(2-4)])
  obtain z where z: "commit_now am t3 = (Ok (), z)" "tree (inner z) = tree (inner t3)"
    "oid (inner z) = oid (inner t3)" "later t3 z" "host_drawn (host z) = host_drawn (host t3)"
    by (rule commit_run)
  let ?v = "v1\<lparr>v_dirs := D3\<rparr>"
  have dead: "tree_deleted v q ?v"
  proof -
    have "fst x \<in> set cf \<longleftrightarrow> under q (fst x) \<and> fst x \<noteq> q" if "x \<in> live_files v" for x
      using that cf(2) by (cases x) (auto simp: has_file_def)
    then have files: "live_files ?v = {x \<in> live_files v. \<not> (under q (fst x) \<and> fst x \<noteq> q)}"
      using t1(3) by auto
    have below: "snd x \<in> fst ` set cds \<longleftrightarrow> under q (fst x) \<and> fst x \<noteq> q" if "x \<in> live_dirs v" for x
    proof -
      obtain r i where x: "x = (r, i)" by fastforce
      have "i \<in> fst ` set cds \<longleftrightarrow> (\<exists>r'. (r', i) \<in> live_dirs v \<and> under q r' \<and> r' \<noteq> q)"
        unfolding cds(2) by force
      also have "\<dots> \<longleftrightarrow> under q r \<and> r \<noteq> q"
      proof -
        have "(r, i) \<in> live_dirs v" using that x by simp
        then show ?thesis using live_dirs_path by blast
      qed
      finally show ?thesis by (simp add: x)
    qed
    have "live_dirs ?v = {x \<in> live_dirs v. snd x \<notin> fst ` set cds \<and> fst x \<noteq> q}"
      using t3(6) t2(5) dirs1(1) by auto
    also have "\<dots> = {x \<in> live_dirs v. \<not> under q (fst x)}"
      using below by (intro Collect_cong) (metis under_refl)
    finally have "live_dirs ?v = {x \<in> live_dirs v. \<not> under q (fst x)}" .
    with files show ?thesis by (simp add: tree_deleted_def t1(4))
  qed
  show thesis
  proof (rule that)
    show "delete_directory am nfc p True s = (Ok (), z)"
      using z(1) t3(2)
      by (simp add: delete_directory_def andthen_run lift_run assms(3) s1(1) out(1) objs_run [OF S(1)]
          ks(1) cds(1) cf_def [symmetric] t1(1) objs_run [OF S1(1)] t2(1) t3(1) Let_def)
    show "tree_deleted v q ?v" by (rule dead)
    have "dirs_ok ?v" using t3(4) by simp
    moreover have "entries_wf ?v" using vault_ok_entries [OF S1(2)] by (simp add: entries_wf_def)
    ultimately have "vault_ok ?v"
      by (rule vault_ok_deleted [OF soundD(2) [OF assms(1)] dead normalize_good [OF assms(3)]])
    moreover have "displays tree z ?v" using displays_same [OF t3(3) z(2)] by simp
    moreover have "fresh_ids z ?v" using fresh_later [OF t3(5) z(4)] by simp
    ultimately show "sound tree z ?v" by (simp add: sound_def)
  qed
qed

end

end
