(* ===== verification/DocHistory.thy ===== *)
theory DocHistory
  imports DocTrees
begin

text \<open>
  \<^verbatim>\<open>crates/agentsync-core/src/doc/history.rs\<close>: labels, restoring a past state, and the heads
  of the document at a point in time. Where the code iterates over a \<^verbatim>\<open>HashMap\<close> or a
  \<^verbatim>\<open>HashSet\<close>, the order of iteration is a parameter.
\<close>

section \<open>Encoding of heads\<close>

definition encode_heads :: "change_hash list \<Rightarrow> byte list" where
  "encode_heads heads = concat heads"

function chunks_exact :: "byte list \<Rightarrow> change_hash list" where
  "chunks_exact bs = (if length bs < 32 then [] else take 32 bs # chunks_exact (drop 32 bs))"
  by pat_completeness auto
termination by (relation "measure length") auto

declare chunks_exact.simps [simp del]

definition decode_heads :: "byte list \<Rightarrow> change_hash list result" where
  "decode_heads bs =
     (if length bs mod 32 \<noteq> 0
      then Err (Other (''encoded heads length not multiple of 32: '' @ show_nat (length bs)))
      else Ok (chunks_exact bs))"

definition b64_heads :: "crypto \<Rightarrow> change_hash list \<Rightarrow> string" where
  "b64_heads c heads = b64np_encode c (encode_heads heads)"

section \<open>Labels\<close>

definition create_label :: "('d, 'o, 'y) automerge \<Rightarrow> string \<Rightarrow> ('d doc, unit) action" where
  "create_label am label =
     andthen (labels_obj am) (\<lambda>labels.
     andthen (get_heads am) (\<lambda>heads.
     andthen (put_object am labels label OMap) (\<lambda>entry.
     andthen (put am entry ''heads'' (SBytes (encode_heads heads))) (\<lambda>_.
     andthen now_ms (\<lambda>now.
     andthen (put am entry ''created_at'' (SInt now)) (\<lambda>_.
     commit_now am))))))"

definition delete_label :: "('d, 'o, 'y) automerge \<Rightarrow> string \<Rightarrow> ('d doc, unit) action" where
  "delete_label am label =
     andthen (labels_obj am) (\<lambda>labels.
     andthen (delete_key am labels label) (\<lambda>_. commit_now am))"

definition read_label :: "('d, 'o, 'y) automerge \<Rightarrow> 'o \<Rightarrow> string \<Rightarrow> ('d doc, label option) action" where
  "read_label am labels name =
     andthen (get am labels name) (\<lambda>value. case value of
       Some (VObject _, x) \<Rightarrow>
         andthen (get am x ''heads'') (\<lambda>h. case h of
           Some (VScalar (SBytes bytes), _) \<Rightarrow>
             andthen (get_int am x ''created_at'') (\<lambda>created.
             andthen (lift (decode_heads bytes)) (\<lambda>heads.
             ret (Some \<lparr>lb_name = name, lb_heads = heads, lb_created_at = unwrap_or 0 created\<rparr>)))
         | _ \<Rightarrow> ret None)
     | Some (VScalar (SBytes bytes), _) \<Rightarrow>
         andthen (lift (decode_heads bytes)) (\<lambda>heads.
         ret (Some \<lparr>lb_name = name, lb_heads = heads, lb_created_at = 0\<rparr>))
     | _ \<Rightarrow> ret None)"

definition list_labels :: "('d, 'o, 'y) automerge \<Rightarrow> ('d doc, label list) action" where
  "list_labels am =
     andthen (labels_obj am) (\<lambda>labels.
     andthen (map_keys am labels) (\<lambda>names.
     andthen (collect names (read_label am labels)) (\<lambda>out.
     ret (sort_key lb_name out))))"

definition get_label_heads :: "('d, 'o, 'y) automerge \<Rightarrow> string \<Rightarrow> ('d doc, change_hash list) action" where
  "get_label_heads am label =
     andthen (list_labels am) (\<lambda>ls.
     lift (ok_or (NotFound (''label: '' @ label))
       (map_option lb_heads (List.find (\<lambda>l. lb_name l = label) ls))))"

section \<open>Restoring\<close>

definition read_file_id :: "('d, 'o, 'y) automerge \<Rightarrow> string \<Rightarrow> ('d doc, string option) action" where
  "read_file_id am fid =
     andthen (files_obj am) (\<lambda>files.
     andthen (get_object am files fid) (\<lambda>x. case x of
       None \<Rightarrow> ret None
     | Some entry \<Rightarrow>
         andthen (get_text am entry ''content'') (\<lambda>text. ret (map_option snd text))))"

text \<open>What is read of the past document: its live files, live directories and texts.\<close>

record snapshot =
  sn_files :: "(string \<times> file_meta) list"
  sn_dirs :: "(string \<times> directory_meta) list"
  sn_texts :: "(string \<times> string) list"

definition past_snapshot ::
    "('d, 'o, 'y) automerge \<Rightarrow> (string list \<Rightarrow> string list) \<Rightarrow> ('d doc, snapshot) action" where
  "past_snapshot am order =
     andthen (list_files am) (\<lambda>fs.
     andthen (list_directories am) (\<lambda>ds.
     let files = map (\<lambda>m. (fm_id m, m)) fs;
         past_ids = filter (\<lambda>fid. \<exists>m \<in> set fs. fm_id m = fid \<and> fm_kind m = KText) (order (map fst files)) in
     andthen (collect past_ids (\<lambda>fid.
       andthen (attempt (read_file_id am fid)) (\<lambda>r.
       ret (case r of Inr (Some t) \<Rightarrow> Some (fid, t) | _ \<Rightarrow> None)))) (\<lambda>texts.
     ret \<lparr>sn_files = files, sn_dirs = map (\<lambda>m. (dm_id m, m)) ds, sn_texts = texts\<rparr>)))"

text \<open>The four loops of \<^verbatim>\<open>restore_to_heads\<close>.\<close>

definition bury_file ::
    "('d, 'o, 'y) automerge \<Rightarrow> (string \<times> file_meta) list \<Rightarrow> int \<Rightarrow> string \<Rightarrow> ('d doc, unit) action" where
  "bury_file am past_files now fid =
     andthen (read_file_meta am fid) (\<lambda>m.
     let alive_now = (case m of Some x \<Rightarrow> fm_deleted_at x = None | None \<Rightarrow> False);
         alive_past = (case map_of past_files fid of Some x \<Rightarrow> fm_deleted_at x = None | None \<Rightarrow> False) in
     if alive_now \<and> \<not> alive_past
     then andthen (files_obj am) (\<lambda>files.
          andthen (get_object am files fid) (\<lambda>x. case x of
            None \<Rightarrow> ret ()
          | Some entry \<Rightarrow>
              andthen (get_object am entry ''meta'') (\<lambda>y. case y of
                None \<Rightarrow> ret ()
              | Some meta \<Rightarrow> put am meta ''deleted_at'' (SInt now))))
     else ret ())"

definition revive_file ::
    "('d, 'o, 'y) automerge \<Rightarrow> snapshot \<Rightarrow> int \<Rightarrow> string \<Rightarrow> ('d doc, unit) action" where
  "revive_file am sn now fid =
     (case map_of (sn_files sn) fid of None \<Rightarrow> ret () | Some past_meta \<Rightarrow>
      if fm_deleted_at past_meta \<noteq> None then ret ()
      else
        andthen (files_obj am) (\<lambda>files.
        andthen (get_object am files fid) (\<lambda>x.
        andthen (case x of Some e \<Rightarrow> ret e | None \<Rightarrow> put_object am files fid OMap) (\<lambda>entry.
        andthen (get_object am entry ''meta'') (\<lambda>y.
        andthen (case y of Some m \<Rightarrow> ret m | None \<Rightarrow> put_object am entry ''meta'' OMap) (\<lambda>meta.
        andthen (puts am meta
          [(''path'', SStr (fm_path past_meta)), (''kind'', SStr (kind_as_str (fm_kind past_meta))),
           (''size'', SInt (fm_size past_meta)), (''created_at'', SInt (fm_created_at past_meta)),
           (''updated_at'', SInt now)]) (\<lambda>_.
        andthen (delete_key am meta ''deleted_at'') (\<lambda>_.
        case fm_kind past_meta of
          KText \<Rightarrow> set_content am entry (unwrap_or [] (map_of (sn_texts sn) fid))
        | KAttachment \<Rightarrow> (case fm_binary_hash past_meta of
            Some h \<Rightarrow> put am entry ''binary_hash'' (SStr h)
          | None \<Rightarrow> ret ())))))))))"

definition bury_directory ::
    "('d, 'o, 'y) automerge \<Rightarrow> (string \<times> directory_meta) list \<Rightarrow> int \<Rightarrow> string \<Rightarrow> ('d doc, unit) action" where
  "bury_directory am past_dirs now did =
     andthen (directories_obj am) (\<lambda>dirs.
     andthen (get_object am dirs did) (\<lambda>x.
     andthen (case x of
         Some meta \<Rightarrow> andthen (get_int am meta ''deleted_at'') (\<lambda>d. ret (d = None))
       | None \<Rightarrow> ret False) (\<lambda>alive_now.
     let alive_past = (case map_of past_dirs did of Some m \<Rightarrow> dm_deleted_at m = None | None \<Rightarrow> False) in
     if alive_now \<and> \<not> alive_past
     then andthen (directories_obj am) (\<lambda>dirs'. mark_directory am dirs' now did)
     else ret ())))"

definition revive_directory ::
    "('d, 'o, 'y) automerge \<Rightarrow> (string \<times> directory_meta) list \<Rightarrow> string \<Rightarrow> ('d doc, unit) action" where
  "revive_directory am past_dirs did =
     (case map_of past_dirs did of None \<Rightarrow> ret () | Some past_meta \<Rightarrow>
      if dm_deleted_at past_meta \<noteq> None then ret ()
      else
        andthen (directories_obj am) (\<lambda>dirs.
        andthen (get_object am dirs did) (\<lambda>x.
        andthen (case x of Some m \<Rightarrow> ret m | None \<Rightarrow> put_object am dirs did OMap) (\<lambda>meta.
        andthen (puts am meta
          [(''path'', SStr (dm_path past_meta)), (''created_at'', SInt (dm_created_at past_meta))]) (\<lambda>_.
        delete_key am meta ''deleted_at'')))))"

definition apply_snapshot ::
    "('d, 'o, 'y) automerge \<Rightarrow> (string list \<Rightarrow> string list) \<Rightarrow> (string list \<Rightarrow> string list) \<Rightarrow>
     snapshot \<Rightarrow> ('d doc, unit) action" where
  "apply_snapshot am order dir_order sn =
     andthen now_ms (\<lambda>now.
     andthen (files_obj am) (\<lambda>cur_files.
     andthen (directories_obj am) (\<lambda>cur_dirs.
     andthen (map_keys am cur_files) (\<lambda>cur_file_ids.
     andthen (map_keys am cur_dirs) (\<lambda>cur_dir_ids.
     andthen (foreach cur_file_ids (bury_file am (sn_files sn) now)) (\<lambda>_.
     andthen (foreach (order (map fst (sn_files sn))) (revive_file am sn now)) (\<lambda>_.
     andthen (foreach cur_dir_ids (bury_directory am (sn_dirs sn) now)) (\<lambda>_.
     andthen (foreach (dir_order (map fst (sn_dirs sn))) (revive_directory am (sn_dirs sn))) (\<lambda>_.
     commit_now am)))))))))"

definition restore_to_heads ::
    "('d, 'o, 'y) automerge \<Rightarrow> (string list \<Rightarrow> string list) \<Rightarrow> (string list \<Rightarrow> string list) \<Rightarrow>
     change_hash list \<Rightarrow> ('d doc, unit) action" where
  "restore_to_heads am order dir_order heads s =
     (case am_fork_at am (inner s) heads of
        Inl _ \<Rightarrow> (Err (Other ''fork_at failed''), s)
      | Inr (p, d) \<Rightarrow>
          (case past_snapshot am order (s\<lparr>inner := p\<rparr>) of
             (Inl e, _) \<Rightarrow> (Inl e, s\<lparr>inner := d\<rparr>)
           | (Inr sn, _) \<Rightarrow> apply_snapshot am order dir_order sn (s\<lparr>inner := d\<rparr>)))"

section \<open>History\<close>

text \<open>The hashes of the changes up to a time, and those of them no such change depends on.\<close>

definition included_hashes :: "change list \<Rightarrow> int \<Rightarrow> change_hash list" where
  "included_hashes changes target =
     fold (\<lambda>c acc. if ch_time c \<le> target then List.insert (ch_hash c) acc else acc) changes []"

definition drop_deps :: "change list \<Rightarrow> change_hash list \<Rightarrow> change_hash list" where
  "drop_deps changes included =
     fold (\<lambda>c heads. if ch_hash c \<notin> set included then heads else fold removeAll (ch_deps c) heads)
       changes included"

definition heads_at_time ::
    "('d, 'o, 'y) automerge \<Rightarrow> (change_hash list \<Rightarrow> change_hash list) \<Rightarrow> int \<Rightarrow>
     ('d doc, change_hash list) action" where
  "heads_at_time am order target s =
     (case am_get_changes am (inner s) of
        (changes, d) \<Rightarrow>
          (Ok (order (drop_deps changes (included_hashes changes target))), s\<lparr>inner := d\<rparr>))"

definition restore_to_time ::
    "('d, 'o, 'y) automerge \<Rightarrow> (change_hash list \<Rightarrow> change_hash list) \<Rightarrow>
     (string list \<Rightarrow> string list) \<Rightarrow> (string list \<Rightarrow> string list) \<Rightarrow> int \<Rightarrow> ('d doc, unit) action" where
  "restore_to_time am head_order order dir_order target =
     andthen (heads_at_time am head_order target) (restore_to_heads am order dir_order)"

definition debug_changes ::
    "('d, 'o, 'y) automerge \<Rightarrow> ('d doc, (change_hash \<times> int \<times> change_hash list) list) action" where
  "debug_changes am s =
     (case am_get_changes am (inner s) of
        (changes, d) \<Rightarrow> (Ok (map (\<lambda>c. (ch_hash c, ch_time c, ch_deps c)) changes), s\<lparr>inner := d\<rparr>))"

section \<open>Heads as bytes\<close>

lemma chunks_exact_concat:
  "\<forall>h \<in> set hs. length h = 32 \<Longrightarrow> chunks_exact (concat hs) = hs"
  by (induction hs) (simp_all add: chunks_exact.simps)

lemma length_concat_hashes:
  "\<forall>h \<in> set hs. length h = 32 \<Longrightarrow> length (concat hs) = 32 * length hs"
  by (induction hs) simp_all

lemma decode_encode: "\<forall>h \<in> set hs. length h = 32 \<Longrightarrow> decode_heads (encode_heads hs) = Ok hs"
  by (simp add: decode_heads_def encode_heads_def chunks_exact_concat length_concat_hashes)

lemma chunks_exact_hashes: "h \<in> set (chunks_exact bs) \<Longrightarrow> length h = 32"
proof (induction bs rule: chunks_exact.induct)
  case (1 bs)
  then show ?case by (cases "length bs < 32") (auto simp: chunks_exact.simps [of bs])
qed

lemma concat_chunks_exact: "length bs mod 32 = 0 \<Longrightarrow> concat (chunks_exact bs) = bs"
proof (induction bs rule: chunks_exact.induct)
  case (1 bs)
  show ?case
  proof (cases "length bs < 32")
    case True
    with "1.prems" have "bs = []" by simp
    then show ?thesis by (simp add: chunks_exact.simps)
  next
    case False
    then have "length (drop 32 bs) mod 32 = 0" using "1.prems" by (simp add: mod_if)
    with 1 False show ?thesis by (simp add: chunks_exact.simps [of bs])
  qed
qed

section \<open>Heads at a time\<close>

lemma set_included: "set (included_hashes cs t) = {ch_hash c |c. c \<in> set cs \<and> ch_time c \<le> t}"
proof -
  have "set (fold (\<lambda>c acc. if ch_time c \<le> t then List.insert (ch_hash c) acc else acc) cs acc) =
      set acc \<union> {ch_hash c |c. c \<in> set cs \<and> ch_time c \<le> t}" for acc
    by (induction cs arbitrary: acc) auto
  then show ?thesis by (simp add: included_hashes_def)
qed

lemma distinct_included: "distinct (included_hashes cs t)"
proof -
  have "distinct acc \<Longrightarrow>
      distinct (fold (\<lambda>c acc. if ch_time c \<le> t then List.insert (ch_hash c) acc else acc) cs acc)" for acc
    by (induction cs arbitrary: acc) auto
  then show ?thesis by (simp add: included_hashes_def)
qed

lemma fold_removeAll: "set (fold removeAll ds hs) = set hs - set ds"
  by (induction ds arbitrary: hs) auto

lemma set_drop_deps:
  "set (drop_deps cs inc) = set inc - (\<Union>c \<in> {c \<in> set cs. ch_hash c \<in> set inc}. set (ch_deps c))"
proof -
  have "set (fold (\<lambda>c heads. if ch_hash c \<notin> set inc then heads else fold removeAll (ch_deps c) heads) cs hs) =
      set hs - (\<Union>c \<in> {c \<in> set cs. ch_hash c \<in> set inc}. set (ch_deps c))" for hs
    by (induction cs arbitrary: hs) (auto simp: fold_removeAll)
  then show ?thesis by (simp add: drop_deps_def)
qed

text \<open>
  A change history, as \<^verbatim>\<open>get_changes\<close> gives it: parents before children, one change per hash.
  \<open>reaches\<close> is the ancestry of a change.
\<close>

definition history :: "change list \<Rightarrow> bool" where
  "history cs \<longleftrightarrow> distinct (map ch_hash cs) \<and>
     (\<forall>i < length cs. set (ch_deps (cs ! i)) \<subseteq> ch_hash ` set (take i cs))"

inductive reaches :: "change list \<Rightarrow> change_hash \<Rightarrow> change_hash \<Rightarrow> bool" for cs where
  self: "reaches cs h h"
| dep: "reaches cs h (ch_hash c) \<Longrightarrow> c \<in> set cs \<Longrightarrow> d \<in> set (ch_deps c) \<Longrightarrow> reaches cs h d"

text \<open>Every included change is an ancestor of one of the heads, along included changes or not.\<close>

lemma included_reached:
  assumes "history cs" "h \<in> set (included_hashes cs t)"
  shows "\<exists>g \<in> set (drop_deps cs (included_hashes cs t)). reaches cs g h"
proof -
  let ?inc = "set (included_hashes cs t)"
  from assms(2) obtain i where i: "i < length cs" "h = ch_hash (cs ! i)"
    by (auto simp: set_included in_set_conv_nth)
  then show ?thesis using assms(2)
  proof (induction "length cs - i" arbitrary: i h rule: less_induct)
    case less
    show ?case
    proof (cases "\<exists>c \<in> set cs. ch_hash c \<in> ?inc \<and> h \<in> set (ch_deps c)")
      case False
      then have "h \<in> set (drop_deps cs (included_hashes cs t))"
        using less.prems(3) by (auto simp: set_drop_deps)
      then show ?thesis using self by blast
    next
      case True
      then obtain j where j: "j < length cs" "ch_hash (cs ! j) \<in> ?inc" "h \<in> set (ch_deps (cs ! j))"
        by (metis in_set_conv_nth)
      obtain k where k: "k < j" "h = ch_hash (cs ! k)"
      proof -
        have "set (ch_deps (cs ! j)) \<subseteq> ch_hash ` set (take j cs)"
          using assms(1) j(1) by (simp add: history_def)
        with j(3) obtain x where x: "x \<in> set (take j cs)" "h = ch_hash x" by blast
        then obtain k where "k < length (take j cs)" "take j cs ! k = x" by (auto simp: in_set_conv_nth)
        then show thesis using that x(2) j(1) by auto
      qed
      have "k = i"
      proof -
        have "map ch_hash cs ! k = map ch_hash cs ! i" using less.prems(1,2) k j(1) by simp
        with assms(1) less.prems(1) k(1) j(1) show ?thesis
          by (metis history_def length_map nth_eq_iff_index_eq order.strict_trans)
      qed
      then have "length cs - j < length cs - i" using k(1) j(1) by simp
      from less.hyps [OF this j(1) refl j(2)] obtain g where
        "g \<in> set (drop_deps cs (included_hashes cs t))" "reaches cs g (ch_hash (cs ! j))" by blast
      then show ?thesis using dep j(1,3) by (meson nth_mem)
    qed
  qed
qed

section \<open>Running the label operations\<close>

fun label_wf :: "node \<Rightarrow> bool" where
  "label_wf (Branch e) \<longleftrightarrow> int_ok e ''created_at'' \<and>
     (case e ''heads'' of Some (Leaf (SBytes b)) \<Rightarrow> length b mod 32 = 0 | _ \<Rightarrow> True)"
| "label_wf (Leaf (SBytes b)) \<longleftrightarrow> length b mod 32 = 0"
| "label_wf (Leaf _) \<longleftrightarrow> True"
| "label_wf _ \<longleftrightarrow> False"

fun label_of :: "string \<Rightarrow> node \<Rightarrow> label option" where
  "label_of name (Branch e) =
     (case e ''heads'' of
        Some (Leaf (SBytes b)) \<Rightarrow> Some \<lparr>lb_name = name, lb_heads = chunks_exact b,
                                     lb_created_at = unwrap_or 0 (int_of e ''created_at'')\<rparr>
      | _ \<Rightarrow> None)"
| "label_of name (Leaf (SBytes b)) =
     Some \<lparr>lb_name = name, lb_heads = chunks_exact b, lb_created_at = 0\<rparr>"
| "label_of name _ = None"

definition labels_wf :: "view \<Rightarrow> bool" where
  "labels_wf v \<longleftrightarrow> (\<forall>name n. v_labels v name = Some n \<longrightarrow> label_wf n)"

lemma label_of_name: "label_of name n = Some l \<Longrightarrow> lb_name l = name"
  by (cases "(name, n)" rule: label_of.cases) (auto split: option.splits node.splits scalar.splits)

context automerge_doc
begin

lemma read_label_run:
  assumes "displays tree s v" "v_labels v name = Some n" "label_wf n"
  shows "read_label am (oid (inner s) [''labels'']) name s = (Ok (label_of name n), s)"
proof -
  note L = displays_node(3) [OF assms(1)]
  show ?thesis
  proof (cases n)
    case (Branch e)
    have at: "node_at (tree (inner s)) [''labels'', name] = Some (Branch e)"
      using below_run [OF L, of name e] assms(2) Branch by simp
    have ok: "int_ok e ''created_at''" using assms(3) Branch by simp
    show ?thesis
      using assms(2,3) Branch
      by (auto simp: read_label_def andthen_run get_run [OF L] get_run [OF at] get_int_run [OF at ok]
          ret_run lift_run decode_heads_def split: option.splits node.splits scalar.splits)
  next
    case (Leaf x)
    then show ?thesis
      using assms(2,3) by (cases x) (simp_all add: read_label_def andthen_run get_run [OF L] ret_run
          lift_run decode_heads_def)
  qed (use assms(3) in simp_all)
qed

lemma get_label_run:
  assumes "displays tree s v" "labels_wf v"
  shows "v_labels v name = Some n \<Longrightarrow> label_of name n = Some l \<Longrightarrow>
      get_label_heads am name s = (Ok (lb_heads l), s)"
    "v_labels v name = None \<Longrightarrow> get_label_heads am name s = (Err (NotFound (''label: '' @ name)), s)"
proof -
  note L = displays_node(3) [OF assms(1)]
  obtain ks where ks: "map_keys am (oid (inner s) [''labels'']) s = (Ok ks, s)"
    "distinct ks" "set ks = dom (v_labels v)"
    by (rule map_keys_run [OF L])
  define g where "g k = Option.bind (v_labels v k) (label_of k)" for k
  have body: "read_label am (oid (inner s) [''labels'']) k s = (Ok (g k), s)" if "k \<in> set ks" for k
  proof -
    from that ks(3) obtain n where n: "v_labels v k = Some n" by auto
    with assms(2) have "label_wf n" by (simp add: labels_wf_def)
    with n show ?thesis by (simp add: read_label_run [OF assms(1)] g_def)
  qed
  let ?out = "sort_key lb_name (List.map_filter g ks)"
  have list: "list_labels am s = (Ok ?out, s)"
    unfolding list_labels_def
    by (rule andthen_step, rule objs_run(3) [OF assms(1)], rule andthen_step, rule ks(1),
        rule andthen_step, rule collect_pure, rule body, assumption, simp add: ret_run)
  have mem: "l \<in> set ?out \<longleftrightarrow> (\<exists>k. g k = Some l)" for l
  proof -
    have "k \<in> set ks" if "g k = Some l" for k
      using that ks(3) by (auto simp: g_def bind_eq_Some_conv)
    then show ?thesis by (auto simp: set_map_filter)
  qed
  have name: "lb_name l = k" if "g k = Some l" for k l
    using that label_of_name by (auto simp: g_def bind_eq_Some_conv)
  {
    assume "v_labels v name = Some n" "label_of name n = Some l"
    then have gl: "g name = Some l" by (simp add: g_def)
    have "List.find (\<lambda>l. lb_name l = name) ?out = Some l"
    proof (cases "List.find (\<lambda>l. lb_name l = name) ?out")
      case None
      with gl mem [of l] name [OF gl] show ?thesis by (auto simp: find_None_iff)
    next
      case (Some l')
      from find_Some_in [OF this] obtain k where k: "g k = Some l'" "lb_name l' = name"
        using mem [of l'] by auto
      with name [OF k(1)] gl Some show ?thesis by simp
    qed
    then show "get_label_heads am name s = (Ok (lb_heads l), s)"
      by (simp add: get_label_heads_def andthen_run list lift_run)
  }
  {
    assume none: "v_labels v name = None"
    have "List.find (\<lambda>l. lb_name l = name) ?out = None"
    proof (rule ccontr)
      assume "List.find (\<lambda>l. lb_name l = name) ?out \<noteq> None"
      then obtain l' where "List.find (\<lambda>l. lb_name l = name) ?out = Some l'" by auto
      from find_Some_in [OF this] obtain k where k: "g k = Some l'" "lb_name l' = name"
        using mem [of l'] by auto
      with name [OF k(1)] none show False by (simp add: g_def)
    qed
    then show "get_label_heads am name s = (Err (NotFound (''label: '' @ name)), s)"
      by (simp add: get_label_heads_def andthen_run list lift_run)
  }
qed

lemma delete_label_run:
  assumes "displays tree s v"
  obtains t where "delete_label am name s = (Ok (), t)"
    "displays tree t (v\<lparr>v_labels := (v_labels v)(name := None)\<rparr>)" "later s t"
proof -
  obtain t where t: "delete_key am (oid (inner s) [''labels'']) name s = (Ok (), t)"
    "edited tree oid s [''labels''] (Branch ((v_labels v)(name := None))) t" "host t = host s"
    by (rule delete_key_run [OF displays_node(3) [OF assms]])
  obtain z where z: "commit_now am t = (Ok (), z)" "tree (inner z) = tree (inner t)"
    "oid (inner z) = oid (inner t)" "later t z" "host_drawn (host z) = host_drawn (host t)"
    by (rule commit_run)
  show thesis
    by (rule that [OF _ displays_same [OF displays_edited(3) [OF assms t(2)] z(2)]
          later_trans [OF edited_later [OF t(2)] z(4)]])
      (simp add: delete_label_def andthen_run objs_run [OF assms] t(1) z(1))
qed

end

context automerge_history
begin

text \<open>The writes keep what is known of the past.\<close>

lemma known_runs:
  "put am x k w s = (r, t) \<Longrightarrow> known (inner s) hs n \<Longrightarrow> known (inner t) hs n"
  "put_object am x k ty s = (r', t) \<Longrightarrow> known (inner s) hs n \<Longrightarrow> known (inner t) hs n"
  "commit_now am s = (r, t) \<Longrightarrow> known (inner s) hs n \<Longrightarrow> known (inner t) hs n"
  by (auto simp: put_def am_write_def put_object_def am_create_def commit_now_def now_ms_def andthen_run
      known_commit dest: known_put known_put_object split: sum.splits prod.splits)

lemma create_label_run:
  assumes "displays tree s v" "am_get_heads am (inner s) = (hs, d)" "\<forall>h \<in> set hs. length h = 32"
  obtains t n l where "create_label am name s = (Ok (), t)"
    "displays tree t (v\<lparr>v_labels := (v_labels v)(name \<mapsto> n)\<rparr>)" "label_wf n"
    "label_of name n = Some l" "lb_heads l = hs" "later s t" "known (inner t) hs (view_tree v)"
proof -
  let ?s1 = "s\<lparr>inner := d\<rparr>"
  note H = heads_law [OF assms(2)]
  have g: "get_heads am s = (Ok hs, ?s1)" using assms(2) by (simp add: get_heads_def)
  have d1: "displays tree ?s1 v" using assms(1) H by (simp add: displays_def)
  have k1: "known (inner ?s1) hs (view_tree v)" using H assms(1) by (simp add: displays_def)
  note L = displays_node(3) [OF d1]
  obtain t1 where t1: "put_object am (oid (inner ?s1) [''labels'']) name OMap ?s1 =
      (Ok (oid (inner t1) ([''labels''] @ [name])), t1)"
    "edited tree oid ?s1 [''labels''] (Branch ((v_labels v)(name \<mapsto> empty_obj OMap))) t1" "host t1 = host ?s1"
    by (rule put_object_run [OF L])
  have at1: "node_at (tree (inner t1)) ([''labels''] @ [name]) = Some (Branch Map.empty)"
    using edited_below [OF t1(2), of name] by simp
  let ?p = "[''labels''] @ [name]" and ?m = "[''heads'' \<mapsto> Leaf (SBytes (encode_heads hs))]"
  obtain t2 where t2: "put am (oid (inner t1) ?p) ''heads'' (SBytes (encode_heads hs)) t1 = (Ok (), t2)"
    "edited tree oid t1 ?p (Branch ?m) t2" "host t2 = host t1"
    by (rule put_run [OF at1])
  obtain x t3 where t3: "now_ms t2 = (Ok x, t3)" "inner t3 = inner t2" "later t2 t3"
    "host_drawn (host t3) = host_drawn (host t2)"
    by (rule now_obtain)
  have at3: "node_at (tree (inner t3)) ?p = Some (Branch ?m)" using edited_at [OF t2(2)] t3(2) by simp
  have o3: "oid (inner t3) ?p = oid (inner t1) ?p" using edited_oid_self [OF t2(2)] t3(2) by simp
  let ?n = "Branch (?m(''created_at'' \<mapsto> Leaf (SInt x)))"
  obtain t4 where t4: "put am (oid (inner t3) ?p) ''created_at'' (SInt x) t3 = (Ok (), t4)"
    "edited tree oid t3 ?p ?n t4" "host t4 = host t3"
    by (rule put_run [OF at3])
  have "edited tree oid t1 ?p ?n t4" by (rule edited_again [OF edited_host [OF t2(2) t3(2,3)] t4(2)])
  from edited_child [OF t1(2) this]
  have e: "edited tree oid ?s1 [''labels''] (Branch ((v_labels v)(name \<mapsto> ?n))) t4" by simp
  obtain z where z: "commit_now am t4 = (Ok (), z)" "tree (inner z) = tree (inner t4)"
    "oid (inner z) = oid (inner t4)" "later t4 z" "host_drawn (host z) = host_drawn (host t4)"
    by (rule commit_run)
  have hs: "chunks_exact (encode_heads hs) = hs" "length (encode_heads hs) mod 32 = 0"
    using assms(3) by (simp_all add: encode_heads_def chunks_exact_concat length_concat_hashes)
  let ?l = "\<lparr>lb_name = name, lb_heads = hs, lb_created_at = x\<rparr>"
  show thesis
  proof (rule that [of z ?n ?l])
    show "create_label am name s = (Ok (), z)"
      using t1(1) t2(1) t4(1) z(1) o3 H
      by (simp add: create_label_def andthen_run objs_run [OF assms(1)] g t3(1))
    show "displays tree z (v\<lparr>v_labels := (v_labels v)(name \<mapsto> ?n)\<rparr>)"
      by (rule displays_same [OF displays_edited(3) [OF d1 e] z(2)])
    show "label_wf ?n" using hs by (simp add: int_ok_def)
    show "label_of name ?n = Some ?l" using hs by (simp add: int_of_def)
    have "later s ?s1" by simp
    then show "later s z" using later_trans edited_later [OF e] z(4) by blast
    show "known (inner z) hs (view_tree v)"
      using known_runs(3) [OF z(1)] known_runs(1) [OF t4(1)] t3(2) known_runs(1) [OF t2(1)]
        known_runs(2) [OF t1(1)] k1 by simp
  qed simp
qed

end

end
