(* ===== verification/DocRestore.thy ===== *)
theory DocRestore
  imports DocHistory
begin

text \<open>
  What \<open>restore_to_heads\<close> does: the live files, with their ids and bodies, and the live
  directories become those of the past state, and the document stays sound.
\<close>

section \<open>The snapshot of the past\<close>

text \<open>The body of a file agrees with its kind, as every write of the code leaves it.\<close>

definition bodies_ok :: "view \<Rightarrow> bool" where
  "bodies_ok v \<longleftrightarrow> (\<forall>fid n. v_files v fid = Some n \<and> live_path n \<noteq> None \<longrightarrow>
     (case body_of n of
        NoBody \<Rightarrow> False
      | BlobBody _ \<Rightarrow> True
      | TextBody _ \<Rightarrow> str_of (meta_of n) ''kind'' = Some ''text''))"

definition permutes :: "('a list \<Rightarrow> 'a list) \<Rightarrow> bool" where
  "permutes order \<longleftrightarrow> (\<forall>xs. set (order xs) = set xs \<and> (distinct xs \<longrightarrow> distinct (order xs)))"

definition snapshot_of :: "view \<Rightarrow> snapshot \<Rightarrow> bool" where
  "snapshot_of u sn \<longleftrightarrow>
     distinct (map fst (sn_files sn)) \<and> distinct (map fst (sn_dirs sn)) \<and>
     (\<forall>fid. map_of (sn_files sn) fid =
        (case v_files u fid of Some n \<Rightarrow> if live_path n \<noteq> None then Some (file_rec fid n) else None
                             | None \<Rightarrow> None)) \<and>
     (\<forall>did. map_of (sn_dirs sn) did =
        (case v_dirs u did of Some n \<Rightarrow> if dir_live_path n \<noteq> None then Some (dir_rec did n) else None
                            | None \<Rightarrow> None)) \<and>
     (\<forall>fid n t. v_files u fid = Some n \<and> live_path n \<noteq> None \<and> body_of n = TextBody t \<and>
        str_of (meta_of n) ''kind'' = Some ''text'' \<longrightarrow> map_of (sn_texts sn) fid = Some t)"

lemma live_deleted: "live_path n \<noteq> None \<Longrightarrow> fm_deleted_at (file_rec fid n) = None"
  by (auto simp: live_path_def live_path_in_def file_rec_def Let_def split: if_splits)

lemma dir_live_deleted: "dir_live_path n \<noteq> None \<Longrightarrow> dm_deleted_at (dir_rec did n) = None"
  by (auto simp: dir_live_path_def live_path_in_def dir_rec_def split: if_splits)

lemma map_of_keyed:
  assumes "distinct (map k xs)" "set xs = {f i n |i n. M i = Some n \<and> P n}" "\<And>i n. k (f i n) = i"
  shows "map_of (map (\<lambda>x. (k x, x)) xs) i =
    (case M i of Some n \<Rightarrow> if P n then Some (f i n) else None | None \<Rightarrow> None)"
proof -
  have d: "distinct (map fst (map (\<lambda>x. (k x, x)) xs))" using assms(1) by (simp add: comp_def)
  have mem: "map_of (map (\<lambda>x. (k x, x)) xs) i = Some y \<longleftrightarrow> k y = i \<and> y \<in> set xs" for y
    unfolding map_of_eq_Some_iff [OF d] by auto
  show ?thesis
  proof (cases "\<exists>n. M i = Some n \<and> P n")
    case True
    then obtain n where n: "M i = Some n" "P n" by blast
    then have "f i n \<in> set xs" using assms(2) by blast
    with assms(3) have "map_of (map (\<lambda>x. (k x, x)) xs) i = Some (f i n)" by (simp add: mem)
    with n show ?thesis by simp
  next
    case False
    have "map_of (map (\<lambda>x. (k x, x)) xs) i = None"
    proof (rule ccontr)
      assume "map_of (map (\<lambda>x. (k x, x)) xs) i \<noteq> None"
      then obtain y where "map_of (map (\<lambda>x. (k x, x)) xs) i = Some y" by blast
      then have "k y = i" "y \<in> set xs" by (simp_all add: mem)
      with assms(2,3) False show False by auto
    qed
    with False show ?thesis by (auto split: option.splits)
  qed
qed

context automerge_doc
begin

lemma read_file_id_run:
  assumes "displays tree s v" "v_files v fid = Some n" "entry_wf n"
  shows "read_file_id am fid s = (Ok (text_of (branch_of n) ''content''), s)"
proof -
  obtain e m where em: "n = Branch e" "e ''meta'' = Some (Branch m)" "meta_of n = m" "meta_wf m"
    "str_ok e ''binary_hash''" "node_at (tree (inner s)) [''files'', fid] = Some (Branch e)"
    "node_at (tree (inner s)) [''files'', fid, ''meta''] = Some (Branch m)"
    "get_object am (oid (inner s) [''files'']) fid s = (Ok (Some (oid (inner s) [''files'', fid])), s)"
    "get_object am (oid (inner s) [''files'', fid]) ''meta'' s =
       (Ok (Some (oid (inner s) [''files'', fid, ''meta''])), s)"
    by (rule entry_run [OF assms])
  show ?thesis
    by (simp add: read_file_id_def andthen_run objs_run [OF assms(1)] em(8) get_text_run [OF em(6)]
        ret_run em(1) option.map_comp comp_def option.map_ident)
qed

lemma past_snapshot_run:
  assumes "displays tree s u" "entries_wf u" "dirs_ok u" "permutes order"
  obtains sn where "past_snapshot am order s = (Ok sn, s)" "snapshot_of u sn"
proof -
  obtain fs where fs: "list_files am s = (Ok fs, s)" "sorted (map fm_path fs)" "distinct (map fm_id fs)"
    "set fs = {file_rec fid n |fid n. v_files u fid = Some n \<and> live_path n \<noteq> None}"
    by (rule list_files_run [OF assms(1,2)])
  obtain ds where ds: "list_directories am s = (Ok ds, s)" "sorted (map dm_path ds)" "distinct (map dm_id ds)"
    "set ds = {dir_rec did n |did n. v_dirs u did = Some n \<and> dir_live_path n \<noteq> None}"
    by (rule list_directories_run [OF assms(1,3)])
  let ?files = "map (\<lambda>m. (fm_id m, m)) fs"
  let ?ids = "filter (\<lambda>fid. \<exists>m \<in> set fs. fm_id m = fid \<and> fm_kind m = KText) (order (map fst ?files))"
  let ?h = "\<lambda>fid. Option.bind (v_files u fid) (\<lambda>n. text_of (branch_of n) ''content'')"
  have ids: "fid \<in> set ?ids \<longleftrightarrow>
      (\<exists>n. v_files u fid = Some n \<and> live_path n \<noteq> None \<and> fm_kind (file_rec fid n) = KText)" for fid
  proof -
    have idr: "fm_id (file_rec i n) = i" for i n by (simp add: file_rec_def Let_def)
    have "fid \<in> set ?ids \<longleftrightarrow> (\<exists>m \<in> set fs. fm_id m = fid \<and> fm_kind m = KText)"
      using assms(4) by (auto simp: permutes_def)
    then show ?thesis unfolding fs(4) using idr by auto
  qed
  have body: "andthen (attempt (read_file_id am fid)) (\<lambda>r.
      ret (case r of Inr (Some t) \<Rightarrow> Some (fid, t) | _ \<Rightarrow> None)) s = (Ok (map_option (Pair fid) (?h fid)), s)"
    if "fid \<in> set ?ids" for fid
  proof -
    from that ids obtain n where n: "v_files u fid = Some n" by blast
    with assms(2) have "entry_wf n" by (simp add: entries_wf_def)
    with n show ?thesis
      by (simp add: andthen_run attempt_run read_file_id_run [OF assms(1) n] ret_run split: option.splits)
  qed
  let ?texts = "List.map_filter (\<lambda>fid. map_option (Pair fid) (?h fid)) ?ids"
  have texts: "collect ?ids (\<lambda>fid. andthen (attempt (read_file_id am fid)) (\<lambda>r.
      ret (case r of Inr (Some t) \<Rightarrow> Some (fid, t) | _ \<Rightarrow> None))) s = (Ok ?texts, s)"
    by (rule collect_pure) (rule body)
  let ?sn = "\<lparr>sn_files = ?files, sn_dirs = map (\<lambda>m. (dm_id m, m)) ds, sn_texts = ?texts\<rparr>"
  have run: "past_snapshot am order s = (Ok ?sn, s)"
    using texts by (simp add: past_snapshot_def andthen_run fs(1) ds(1) ret_run Let_def)
  have "map_of ?texts fid = Some t"
    if "v_files u fid = Some n" "live_path n \<noteq> None" "body_of n = TextBody t"
      "str_of (meta_of n) ''kind'' = Some ''text''" for fid n t
  proof -
    have "fid \<in> set ?ids" unfolding ids using that by (auto simp: file_rec_def Let_def)
    moreover have "text_of (branch_of n) ''content'' = Some t"
      using that(3,4) by (auto simp: body_of_def split: if_splits option.splits)
    ultimately show ?thesis using that(1) by (simp only: map_of_tagged if_True) simp
  qed
  moreover have "map_of ?files fid =
      (case v_files u fid of Some n \<Rightarrow> if live_path n \<noteq> None then Some (file_rec fid n) else None
                           | None \<Rightarrow> None)" for fid
    by (rule map_of_keyed [OF fs(3,4)]) (simp add: file_rec_def Let_def)
  moreover have "map_of (map (\<lambda>m. (dm_id m, m)) ds) did =
      (case v_dirs u did of Some n \<Rightarrow> if dir_live_path n \<noteq> None then Some (dir_rec did n) else None
                          | None \<Rightarrow> None)" for did
    by (rule map_of_keyed [OF ds(3,4)]) (simp add: dir_rec_def)
  ultimately have "snapshot_of u ?sn"
    using fs(3) ds(3) by (simp add: snapshot_of_def comp_def)
  with run show thesis by (rule that)
qed

end

section \<open>The loops\<close>

text \<open>The states between the steps of the loops: the map of files is \<open>M\<close>.\<close>

definition files_state :: "('d \<Rightarrow> node) \<Rightarrow> view \<Rightarrow> 'd doc \<Rightarrow> 'd doc \<Rightarrow> (string \<rightharpoonup> node) \<Rightarrow> bool" where
  "files_state tree v s0 s M \<longleftrightarrow>
     displays tree s (v\<lparr>v_files := M\<rparr>) \<and> entries_wf (v\<lparr>v_files := M\<rparr>) \<and> later s0 s"

definition dirs_state :: "('d \<Rightarrow> node) \<Rightarrow> view \<Rightarrow> 'd doc \<Rightarrow> 'd doc \<Rightarrow> (string \<rightharpoonup> node) \<Rightarrow> bool" where
  "dirs_state tree v s0 s M \<longleftrightarrow>
     displays tree s (v\<lparr>v_dirs := M\<rparr>) \<and> (\<forall>did n. M did = Some n \<longrightarrow> dir_wf n) \<and> later s0 s"

text \<open>What a step does to one entry: buried if it was not alive in the past, or revived.\<close>

definition buried :: "(node \<Rightarrow> string option) \<Rightarrow> (string \<Rightarrow> bool) \<Rightarrow> string \<Rightarrow> node option \<Rightarrow> node option \<Rightarrow> bool" where
  "buried live alive i old new \<longleftrightarrow>
     (if (\<exists>n. old = Some n \<and> live n \<noteq> None) \<and> \<not> alive i
      then \<exists>n'. new = Some n' \<and> live n' = None else new = old)"

lemma files_state_edit:
  assumes "files_state tree v s0 s M" "edited tree oid s [''files''] (Branch (M(fid \<mapsto> n))) t" "entry_wf n"
  shows "files_state tree v s0 t (M(fid \<mapsto> n))"
  using assms displays_edited(1) [of tree s "v\<lparr>v_files := M\<rparr>", OF _ assms(2)] edited_later [OF assms(2)]
  by (auto simp: files_state_def entries_wf_def intro: later_trans)

lemma dirs_state_edit:
  assumes "dirs_state tree v s0 s M" "edited tree oid s [''directories''] (Branch (M(did \<mapsto> n))) t" "dir_wf n"
  shows "dirs_state tree v s0 t (M(did \<mapsto> n))"
  using assms displays_edited(2) [of tree s "v\<lparr>v_dirs := M\<rparr>", OF _ assms(2)] edited_later [OF assms(2)]
  by (auto simp: dirs_state_def intro: later_trans)

context automerge_doc
begin

lemma bury_file_run:
  assumes "files_state tree v s0 s M"
    and past: "\<And>fid. (case map_of past_files fid of Some x \<Rightarrow> fm_deleted_at x = None | None \<Rightarrow> False) = alive fid"
  shows "\<exists>t M'. bury_file am past_files now fid s = (Ok (), t) \<and> files_state tree v s0 t M' \<and>
    (\<forall>y. y \<noteq> fid \<longrightarrow> M' y = M y) \<and> buried live_path alive fid (M fid) (M' fid)"
proof -
  let ?v = "v\<lparr>v_files := M\<rparr>"
  have d: "displays tree s ?v" and wf: "entries_wf ?v" using assms(1) by (simp_all add: files_state_def)
  have rm: "read_file_meta am fid s = (Ok (map_option (file_rec fid) (M fid)), s)"
    using read_file_meta_run [OF d wf] by simp
  have now: "(case map_option (file_rec fid) (M fid) of Some x \<Rightarrow> fm_deleted_at x = None | None \<Rightarrow> False) \<longleftrightarrow>
      (\<exists>n. M fid = Some n \<and> live_path n \<noteq> None)"
  proof (cases "M fid")
    case (Some n)
    with wf have "meta_wf (meta_of n)" by (auto simp: entries_wf_def elim: entry_wf_Branch)
    with Some show ?thesis by (simp add: live_path_def live_path_in_def meta_wf_def file_rec_def Let_def)
  qed simp
  show ?thesis
  proof (cases "(\<exists>n. M fid = Some n \<and> live_path n \<noteq> None) \<and> \<not> alive fid")
    case False
    then have "bury_file am past_files now fid s = (Ok (), s)"
      by (simp only: bury_file_def andthen_run rm prod.case sum.case Let_def now past if_False ret_run)
    with assms(1) False show ?thesis by (auto simp: buried_def)
  next
    case True
    then obtain n where n: "M fid = Some n" by blast
    then have vn: "v_files ?v fid = Some n" and en: "entry_wf n" using wf by (auto simp: entries_wf_def)
    obtain e m where em: "n = Branch e" "e ''meta'' = Some (Branch m)" "meta_of n = m" "meta_wf m"
      "str_ok e ''binary_hash''" "node_at (tree (inner s)) [''files'', fid] = Some (Branch e)"
      "node_at (tree (inner s)) [''files'', fid, ''meta''] = Some (Branch m)"
      "get_object am (oid (inner s) [''files'']) fid s = (Ok (Some (oid (inner s) [''files'', fid])), s)"
      "get_object am (oid (inner s) [''files'', fid]) ''meta'' s =
         (Ok (Some (oid (inner s) [''files'', fid, ''meta''])), s)"
      by (rule entry_run [OF d vn en])
    let ?m = "m(''deleted_at'' \<mapsto> Leaf (SInt now))"
    let ?n = "Branch (e(''meta'' \<mapsto> Branch ?m))"
    obtain t where t: "put am (oid (inner s) [''files'', fid, ''meta'']) ''deleted_at'' (SInt now) s = (Ok (), t)"
      "edited tree oid s [''files'', fid, ''meta''] (Branch ?m) t" "host t = host s"
      by (rule put_run [OF em(7)])
    have e: "edited tree oid s [''files''] (Branch (M(fid \<mapsto> ?n))) t"
      using edited_entry [OF d edited_meta [OF em(6) t(2)]] by simp
    have dead: "live_path ?n = None" by (simp add: live_path_def live_path_in_def)
    have wf': "entry_wf ?n" using em(4,5) by (auto simp: meta_wf_def)
    have "bury_file am past_files now fid s = (Ok (), t)"
      using True now past [of fid]
      by (simp add: bury_file_def andthen_run rm Let_def objs_run [OF d] em(8,9) t(1))
    with True dead files_state_edit [OF assms(1) e wf'] show ?thesis
      by (auto simp: buried_def intro!: exI [of _ "M(fid \<mapsto> ?n)"])
  qed
qed

text \<open>The entry object and its metadata object, fetched or created.\<close>

lemma entry_objects_run:
  assumes "files_state tree v s0 s M"
  obtains t1 t2 e m x y where
    "get_object am (oid (inner s) [''files'']) fid s = (Ok x, s)"
    "(case x of Some z \<Rightarrow> ret z | None \<Rightarrow> put_object am (oid (inner s) [''files'']) fid OMap) s =
       (Ok (oid (inner t1) [''files'', fid]), t1)"
    "get_object am (oid (inner t1) [''files'', fid]) ''meta'' t1 = (Ok y, t1)"
    "(case y of Some z \<Rightarrow> ret z | None \<Rightarrow> put_object am (oid (inner t1) [''files'', fid]) ''meta'' OMap) t1 =
       (Ok (oid (inner t2) [''files'', fid, ''meta'']), t2)"
    "edited tree oid s [''files''] (Branch (M(fid \<mapsto> Branch e))) t2" "e ''meta'' = Some (Branch m)"
    "str_ok e ''binary_hash''" "oid (inner t2) [''files'', fid] = oid (inner t1) [''files'', fid]"
proof -
  let ?v = "v\<lparr>v_files := M\<rparr>"
  have d: "displays tree s ?v" and wf: "entries_wf ?v" using assms by (simp_all add: files_state_def)
  note F = displays_node(1) [OF d, simplified]
  show thesis
  proof (cases "M fid")
    case (Some n)
    then have vn: "v_files ?v fid = Some n" and en: "entry_wf n" using wf by (auto simp: entries_wf_def)
    obtain e m where em: "n = Branch e" "e ''meta'' = Some (Branch m)" "meta_of n = m" "meta_wf m"
      "str_ok e ''binary_hash''" "node_at (tree (inner s)) [''files'', fid] = Some (Branch e)"
      "node_at (tree (inner s)) [''files'', fid, ''meta''] = Some (Branch m)"
      "get_object am (oid (inner s) [''files'']) fid s = (Ok (Some (oid (inner s) [''files'', fid])), s)"
      "get_object am (oid (inner s) [''files'', fid]) ''meta'' s =
         (Ok (Some (oid (inner s) [''files'', fid, ''meta''])), s)"
      by (rule entry_run [OF d vn en])
    have "M(fid \<mapsto> Branch e) = M" using Some em(1) by (simp add: fun_upd_idem)
    then have "edited tree oid s [''files''] (Branch (M(fid \<mapsto> Branch e))) s"
      using edited_refl [of tree, OF F] by simp
    then show thesis
      using that [of "Some (oid (inner s) [''files'', fid])" s "Some (oid (inner s) [''files'', fid, ''meta''])" s e m]
        em by (simp add: ret_run)
  next
    case None
    obtain t1 where t1: "put_object am (oid (inner s) [''files'']) fid OMap s =
        (Ok (oid (inner t1) ([''files''] @ [fid])), t1)"
      "edited tree oid s [''files''] (Branch (M(fid \<mapsto> empty_obj OMap))) t1" "host t1 = host s"
      by (rule put_object_run [OF F])
    have at1: "node_at (tree (inner t1)) ([''files''] @ [fid]) = Some (Branch Map.empty)"
      using edited_below [OF t1(2), of fid] by simp
    obtain t2 where t2: "put_object am (oid (inner t1) ([''files''] @ [fid])) ''meta'' OMap t1 =
        (Ok (oid (inner t2) (([''files''] @ [fid]) @ [''meta''])), t2)"
      "edited tree oid t1 ([''files''] @ [fid]) (Branch [''meta'' \<mapsto> empty_obj OMap]) t2" "host t2 = host t1"
      by (rule put_object_run [OF at1])
    have o: "oid (inner t2) [''files'', fid] = oid (inner t1) [''files'', fid]"
      using edited_oid_self [OF t2(2)] by simp
    have g: "get_object am (oid (inner s) [''files'']) fid s = (Ok None, s)"
      by (rule get_object_None [OF F None])
    have g1: "get_object am (oid (inner t1) [''files'', fid]) ''meta'' t1 = (Ok None, t1)"
      using get_object_None [OF at1, of "''meta''"] by simp
    show thesis
      using that [OF g _ g1, of t2 "[''meta'' \<mapsto> empty_obj OMap]" Map.empty]
        t1(1) t2(1) edited_child [OF t1(2) t2(2)] o by simp
  qed
qed

lemma revive_file_run:
  assumes "files_state tree v s0 s M" "snapshot_of u sn" "bodies_ok u" "entries_wf u"
    and live: "v_files u fid = Some n0" "live_path n0 \<noteq> None"
  shows "\<exists>t M'. revive_file am sn now fid s = (Ok (), t) \<and> files_state tree v s0 t M' \<and>
    (\<forall>y. y \<noteq> fid \<longrightarrow> M' y = M y) \<and>
    (\<exists>n'. M' fid = Some n' \<and> live_path n' = live_path n0 \<and> body_of n' = body_of n0)"
proof -
  let ?r = "file_rec fid n0"
  have r: "map_of (sn_files sn) fid = Some ?r" using assms(2) live by (simp add: snapshot_of_def)
  have rlive: "fm_deleted_at ?r = None" by (rule live_deleted [OF live(2)])
  have rpath: "live_path n0 = Some (fm_path ?r)"
    using live(2) by (auto simp: live_path_def live_path_in_def file_rec_def Let_def split: if_splits)
  have d: "displays tree s (v\<lparr>v_files := M\<rparr>)" using assms(1) by (simp add: files_state_def)
  obtain t1 t2 e m x y where t:
    "get_object am (oid (inner s) [''files'']) fid s = (Ok x, s)"
    "(case x of Some z \<Rightarrow> ret z | None \<Rightarrow> put_object am (oid (inner s) [''files'']) fid OMap) s =
       (Ok (oid (inner t1) [''files'', fid]), t1)"
    "get_object am (oid (inner t1) [''files'', fid]) ''meta'' t1 = (Ok y, t1)"
    "(case y of Some z \<Rightarrow> ret z | None \<Rightarrow> put_object am (oid (inner t1) [''files'', fid]) ''meta'' OMap) t1 =
       (Ok (oid (inner t2) [''files'', fid, ''meta'']), t2)"
    "edited tree oid s [''files''] (Branch (M(fid \<mapsto> Branch e))) t2" "e ''meta'' = Some (Branch m)"
    "str_ok e ''binary_hash''" "oid (inner t2) [''files'', fid] = oid (inner t1) [''files'', fid]"
    by (rule entry_objects_run [OF assms(1), of fid])
  let ?p = "[''files'', fid, ''meta'']" and ?q = "[''files''] @ [fid]"
  let ?kvs = "[(''path'', SStr (fm_path ?r)), (''kind'', SStr (kind_as_str (fm_kind ?r))),
    (''size'', SInt (fm_size ?r)), (''created_at'', SInt (fm_created_at ?r)), (''updated_at'', SInt now)]"
  have at2: "node_at (tree (inner t2)) ?q = Some (Branch e)" using edited_below [OF t(5), of fid] by simp
  have at2m: "node_at (tree (inner t2)) ?p = Some (Branch m)" using below_run [OF at2 t(6)] by simp
  from puts_run [OF at2m, of ?kvs] obtain t3 where t3: "puts am (oid (inner t2) ?p) ?kvs t2 = (Ok (), t3)"
    "edited tree oid t2 ?p (Branch (puts_map ?kvs m)) t3" "host t3 = host t2" by blast
  let ?m = "(puts_map ?kvs m)(''deleted_at'' := None)" and ?e = "e(''meta'' \<mapsto> Branch ((puts_map ?kvs m)(''deleted_at'' := None)))"
  obtain t4 where t4: "delete_key am (oid (inner t3) ?p) ''deleted_at'' t3 = (Ok (), t4)"
    "edited tree oid t3 ?p (Branch ?m) t4" "host t4 = host t3"
    by (rule delete_key_run [OF edited_at [OF t3(2)]])
  have o3: "oid (inner t3) ?p = oid (inner t2) ?p" by (rule edited_oid_self [OF t3(2)])
  have e24: "edited tree oid t2 ?q (Branch ?e) t4"
    using edited_child [OF edited_refl [of tree, OF at2], of oid "''meta''"] edited_again [OF t3(2) t4(2)] by simp
  have at4: "node_at (tree (inner t4)) ?q = Some (Branch ?e)" by (rule edited_at [OF e24])
  have o4: "oid (inner t4) ?q = oid (inner t1) ?q" using edited_oid_self [OF e24] t(8) by simp
  have pre: "revive_file am sn now fid s =
      (case fm_kind ?r of
         KText \<Rightarrow> set_content am (oid (inner t1) [''files'', fid]) (unwrap_or [] (map_of (sn_texts sn) fid))
       | KAttachment \<Rightarrow> (case fm_binary_hash ?r of
           Some h \<Rightarrow> put am (oid (inner t1) [''files'', fid]) ''binary_hash'' (SStr h) | None \<Rightarrow> ret ())) t4"
    using t(2,4) t3(1) t4(1) o3
    by (simp add: revive_file_def r rlive andthen_run objs_run [OF d] t(1,3))
  have fits: "(case body_of n0 of NoBody \<Rightarrow> False | BlobBody _ \<Rightarrow> True
      | TextBody _ \<Rightarrow> str_of (meta_of n0) ''kind'' = Some ''text'')"
    using assms(3) live unfolding bodies_ok_def by blast
  have finish: ?thesis
    if run: "revive_file am sn now fid s = (Ok (), z)" and ez: "edited tree oid t4 ?q n' z" "entry_wf n'"
      and same: "live_path n' = Some (fm_path ?r)" "body_of n' = body_of n0" for z n'
  proof -
    have "edited tree oid s [''files''] (Branch (M(fid \<mapsto> n'))) z"
      using edited_child [OF t(5) edited_again [OF e24 ez(1)]] by simp
    from files_state_edit [OF assms(1) this ez(2)] run same rpath show ?thesis
      by (intro exI [of _ z] exI [of _ "M(fid \<mapsto> n')"]) simp
  qed
  show ?thesis
  proof (cases "body_of n0")
    case (TextBody w)
    with fits have k: "str_of (meta_of n0) ''kind'' = Some ''text''" by simp
    then have kind: "fm_kind ?r = KText" by (simp add: file_rec_def Let_def)
    have w: "map_of (sn_texts sn) fid = Some w"
      using assms(2) live TextBody k by (simp add: snapshot_of_def)
    obtain z where z: "set_content am (oid (inner t4) ?q) w t4 = (Ok (), z)"
      "edited tree oid t4 ?q (Branch (?e(''content'' \<mapsto> Text w))) z" "host z = host t4"
      "\<forall>r. \<not> prefix (?q @ [''content'']) r \<longrightarrow> oid (inner z) r = oid (inner t4) r"
      by (rule set_content_run [OF at4])
    have "revive_file am sn now fid s = (Ok (), z)"
      unfolding pre kind w using z(1) o4 by simp
    from this z(2) show ?thesis
    proof (rule finish)
      show "entry_wf (Branch (?e(''content'' \<mapsto> Text w)))" using t(7) kind by (simp add: meta_wf_def)
      show "live_path (Branch (?e(''content'' \<mapsto> Text w))) = Some (fm_path ?r)"
        by (simp add: live_path_def live_path_in_def)
      show "body_of (Branch (?e(''content'' \<mapsto> Text w))) = body_of n0"
        using kind by (simp add: body_of_def [of "Branch _"] TextBody)
    qed
  next
    case (BlobBody h)
    then have k: "str_of (meta_of n0) ''kind'' = Some ''attachment''"
      and hash: "str_of (branch_of n0) ''binary_hash'' = Some h"
      by (auto simp: body_of_def split: if_splits option.splits)
    then have kind: "fm_kind ?r = KAttachment" "fm_binary_hash ?r = Some h"
      by (simp_all add: file_rec_def Let_def)
    obtain z where z: "put am (oid (inner t4) ?q) ''binary_hash'' (SStr h) t4 = (Ok (), z)"
      "edited tree oid t4 ?q (Branch (?e(''binary_hash'' \<mapsto> Leaf (SStr h)))) z" "host z = host t4"
      by (rule put_run [OF at4])
    have "revive_file am sn now fid s = (Ok (), z)"
      unfolding pre kind using z(1) o4 by simp
    from this z(2) show ?thesis
    proof (rule finish)
      show "entry_wf (Branch (?e(''binary_hash'' \<mapsto> Leaf (SStr h))))" using kind by (simp add: meta_wf_def)
      show "live_path (Branch (?e(''binary_hash'' \<mapsto> Leaf (SStr h)))) = Some (fm_path ?r)"
        by (simp add: live_path_def live_path_in_def)
      show "body_of (Branch (?e(''binary_hash'' \<mapsto> Leaf (SStr h)))) = body_of n0"
        using kind by (simp add: body_of_def [of "Branch _"] BlobBody)
    qed
  qed (use fits in simp)
qed

lemma bury_directory_run:
  assumes "dirs_state tree v s0 s M"
    and past: "\<And>did. (case map_of past_dirs did of Some x \<Rightarrow> dm_deleted_at x = None | None \<Rightarrow> False) = alive did"
  shows "\<exists>t M'. bury_directory am past_dirs now did s = (Ok (), t) \<and> dirs_state tree v s0 t M' \<and>
    (\<forall>y. y \<noteq> did \<longrightarrow> M' y = M y) \<and> buried dir_live_path alive did (M did) (M' did)"
proof -
  let ?v = "v\<lparr>v_dirs := M\<rparr>"
  have d: "displays tree s ?v" and wf: "\<And>did n. M did = Some n \<Longrightarrow> dir_wf n"
    using assms(1) by (simp_all add: dirs_state_def)
  note D = displays_node(2) [OF d, simplified]
  show ?thesis
  proof (cases "M did")
    case None
    have "bury_directory am past_dirs now did s = (Ok (), s)"
      by (simp add: bury_directory_def andthen_run objs_run [OF d] get_object_None [OF D None] ret_run Let_def)
    with assms(1) None show ?thesis by (auto simp: buried_def)
  next
    case (Some n)
    from wf [OF Some] obtain m where m: "n = Branch m" "str_ok m ''path''" "str_of m ''path'' \<noteq> None"
      "int_ok m ''created_at''" "int_ok m ''deleted_at''"
      by (rule dir_wf_Branch)
    have nd: "M did = Some (Branch m)" using Some m(1) by simp
    have at: "node_at (tree (inner s)) ([''directories''] @ [did]) = Some (Branch m)"
      by (rule below_run [OF D nd])
    note g = get_object_Branch [OF D nd] get_int_run [OF at m(5)]
    have live: "int_of m ''deleted_at'' = None \<longleftrightarrow> dir_live_path n \<noteq> None"
      using m(1,3) by (auto simp: dir_live_path_def live_path_in_def)
    show ?thesis
    proof (cases "dir_live_path n \<noteq> None \<and> \<not> alive did")
      case False
      then have "bury_directory am past_dirs now did s = (Ok (), s)"
        using g by (auto simp: bury_directory_def andthen_run objs_run [OF d] ret_run Let_def past live)
      with assms(1) False Some show ?thesis by (auto simp: buried_def)
    next
      case True
      let ?n = "Branch (m(''deleted_at'' \<mapsto> Leaf (SInt now)))"
      obtain t where t: "put am (oid (inner s) ([''directories''] @ [did])) ''deleted_at'' (SInt now) s = (Ok (), t)"
        "edited tree oid s ([''directories''] @ [did]) ?n t" "host t = host s"
        by (rule put_run [OF at])
      have e: "edited tree oid s [''directories''] (Branch (M(did \<mapsto> ?n))) t"
        by (rule edited_child [OF edited_refl [of tree, OF D] t(2)])
      have wfn: "dir_wf ?n" "dir_live_path ?n = None"
        using m(3,4) by (simp_all add: dir_live_path_def live_path_in_def)
      have "bury_directory am past_dirs now did s = (Ok (), t)"
        using g t(1) True live
        by (simp add: bury_directory_def andthen_run objs_run [OF d] ret_run Let_def past mark_directory_def)
      with True Some wfn(2) dirs_state_edit [OF assms(1) e wfn(1)] show ?thesis
        by (auto simp: buried_def intro!: exI [of _ "M(did \<mapsto> ?n)"])
    qed
  qed
qed

lemma revive_directory_run:
  assumes "dirs_state tree v s0 s M" "snapshot_of u sn"
    and live: "v_dirs u did = Some n0" "dir_live_path n0 \<noteq> None"
  shows "\<exists>t M'. revive_directory am (sn_dirs sn) did s = (Ok (), t) \<and> dirs_state tree v s0 t M' \<and>
    (\<forall>y. y \<noteq> did \<longrightarrow> M' y = M y) \<and> (\<exists>n'. M' did = Some n' \<and> dir_live_path n' = dir_live_path n0)"
proof -
  let ?r = "dir_rec did n0"
  have r: "map_of (sn_dirs sn) did = Some ?r" using assms(2) live by (simp add: snapshot_of_def)
  have rlive: "dm_deleted_at ?r = None" by (rule dir_live_deleted [OF live(2)])
  have rpath: "dir_live_path n0 = Some (dm_path ?r)"
    using live(2) by (auto simp: dir_live_path_def live_path_in_def dir_rec_def split: if_splits)
  have d: "displays tree s (v\<lparr>v_dirs := M\<rparr>)" and wf: "\<And>did n. M did = Some n \<Longrightarrow> dir_wf n"
    using assms(1) by (simp_all add: dirs_state_def)
  note D = displays_node(2) [OF d, simplified]
  let ?q = "[''directories''] @ [did]"
  obtain x t1 m where t1: "get_object am (oid (inner s) [''directories'']) did s = (Ok x, s)"
    "(case x of Some z \<Rightarrow> ret z | None \<Rightarrow> put_object am (oid (inner s) [''directories'']) did OMap) s =
       (Ok (oid (inner t1) ?q), t1)"
    "edited tree oid s [''directories''] (Branch (M(did \<mapsto> Branch m))) t1"
  proof (cases "M did")
    case None
    obtain t1 where t1: "put_object am (oid (inner s) [''directories'']) did OMap s = (Ok (oid (inner t1) ?q), t1)"
      "edited tree oid s [''directories''] (Branch (M(did \<mapsto> empty_obj OMap))) t1" "host t1 = host s"
      by (rule put_object_run [OF D])
    with get_object_None [OF D None] that [of None t1 Map.empty] show thesis by simp
  next
    case (Some n)
    from wf [OF Some] obtain m where m: "n = Branch m" "str_ok m ''path''" "str_of m ''path'' \<noteq> None"
      "int_ok m ''created_at''" "int_ok m ''deleted_at''"
      by (rule dir_wf_Branch)
    have nd: "M did = Some (Branch m)" using Some m(1) by simp
    have "M(did \<mapsto> Branch m) = M" using nd by (simp add: fun_upd_idem)
    then have "edited tree oid s [''directories''] (Branch (M(did \<mapsto> Branch m))) s"
      using edited_refl [of tree, OF D] by simp
    with get_object_Branch [OF D nd] that show thesis by (simp add: ret_run)
  qed
  let ?kvs = "[(''path'', SStr (dm_path ?r)), (''created_at'', SInt (dm_created_at ?r))]"
  have at1: "node_at (tree (inner t1)) ?q = Some (Branch m)" using edited_below [OF t1(3), of did] by simp
  from puts_run [OF at1, of ?kvs] obtain t2 where t2: "puts am (oid (inner t1) ?q) ?kvs t1 = (Ok (), t2)"
    "edited tree oid t1 ?q (Branch (puts_map ?kvs m)) t2" "host t2 = host t1" by blast
  let ?n = "Branch ((puts_map ?kvs m)(''deleted_at'' := None))"
  obtain t3 where t3: "delete_key am (oid (inner t2) ?q) ''deleted_at'' t2 = (Ok (), t3)"
    "edited tree oid t2 ?q ?n t3" "host t3 = host t2"
    by (rule delete_key_run [OF edited_at [OF t2(2)]])
  have o2: "oid (inner t2) ?q = oid (inner t1) ?q" by (rule edited_oid_self [OF t2(2)])
  have "edited tree oid s [''directories''] (Branch (M(did \<mapsto> ?n))) t3"
    using edited_child [OF t1(3) edited_again [OF t2(2) t3(2)]] by simp
  then have st: "dirs_state tree v s0 t3 (M(did \<mapsto> ?n))"
    by (rule dirs_state_edit [OF assms(1)]) simp
  have "dir_live_path ?n = Some (dm_path ?r)" by (simp add: dir_live_path_def live_path_in_def)
  moreover have "revive_directory am (sn_dirs sn) did s = (Ok (), t3)"
    using t1(2) t2(1) t3(1) o2 by (simp add: revive_directory_def r rlive andthen_run objs_run [OF d] t1(1))
  ultimately show ?thesis using st rpath by (intro exI [of _ t3] exI [of _ "M(did \<mapsto> ?n)"]) simp
qed

end

section \<open>The whole restoration\<close>

text \<open>The live state is that of \<open>u\<close>; labels and the other keys of the document are kept.\<close>

definition restored :: "view \<Rightarrow> view \<Rightarrow> view \<Rightarrow> bool" where
  "restored v u v' \<longleftrightarrow> live_files v' = live_files u \<and> live_dirs v' = live_dirs u \<and>
     v_labels v' = v_labels v \<and> v_rest v' = v_rest v"

lemma same_live:
  assumes "live_files v' = live_files u" "live_dirs v' = live_dirs u"
  shows "unique_paths v' = unique_paths u" "all_placed v' = all_placed u"
proof -
  show "unique_paths v' = unique_paths u" using assms by (simp add: unique_paths_def)
  have "has_file v' = has_file u" "has_dir v' = has_dir u"
    using assms by (simp_all add: has_file_def has_dir_def fun_eq_iff)
  then show "all_placed v' = all_placed u" by (simp add: all_placed_def placed_def)
qed

text \<open>Burying what was not alive and reviving what was gives the live entries of the past.\<close>

lemma bury_revive:
  assumes bury: "\<forall>i \<in> ids. buried live alive i (M i) (M1 i)" "\<forall>i. i \<notin> ids \<longrightarrow> M1 i = M i" "ids = dom M"
    and alive: "\<And>i. alive i \<longleftrightarrow> (\<exists>n. U i = Some n \<and> live n \<noteq> None)"
    and revive: "\<forall>i. alive i \<longrightarrow> (\<exists>n'. M2 i = Some n' \<and> live n' = live (the (U i)) \<and> f n' = f (the (U i)))"
      "\<forall>i. \<not> alive i \<longrightarrow> M2 i = M1 i"
  shows "(\<exists>n. M2 i = Some n \<and> live n = Some p \<and> b = f n) \<longleftrightarrow> (\<exists>n. U i = Some n \<and> live n = Some p \<and> b = f n)"
proof (cases "alive i")
  case True
  with alive obtain n where n: "U i = Some n" "live n \<noteq> None" by blast
  from True revive(1) obtain n' where "M2 i = Some n'" "live n' = live n" "f n' = f n"
    using n(1) by auto
  with n show ?thesis by simp
next
  case False
  then have "M2 i = M1 i" using revive(2) by blast
  moreover have "live n = None" if "M1 i = Some n" for n
  proof (cases "i \<in> ids")
    case True
    with bury(1) False that show ?thesis by (auto simp: buried_def split: if_splits)
  next
    case nin: False
    with bury(2,3) that show ?thesis by (auto simp: domIff)
  qed
  moreover have "\<not> (\<exists>n. U i = Some n \<and> live n = Some p \<and> b = f n)" using False alive by auto
  ultimately show ?thesis by auto
qed

context automerge_doc
begin

lemma apply_snapshot_run:
  assumes "sound tree s v" "vault_ok u" "bodies_ok u" "fresh_ids s u" "snapshot_of u sn"
    and "permutes order" "permutes dir_order"
  obtains t v' where "apply_snapshot am order dir_order sn s = (Ok (), t)" "sound tree t v'" "restored v u v'"
proof -
  note snap = assms(5) [unfolded snapshot_of_def]
  obtain x s1 where s1: "now_ms s = (Ok x, s1)" "inner s1 = inner s" "later s s1"
    "host_drawn (host s1) = host_drawn (host s)"
    by (rule now_obtain)
  note S = soundD [OF sound_same [OF assms(1) s1(2,3)]]
  obtain fks where fks: "map_keys am (oid (inner s1) [''files'']) s1 = (Ok fks, s1)" "distinct fks"
    "set fks = dom (v_files v)"
    by (rule map_keys_run [OF displays_node(1) [OF S(1)]])
  obtain dks where dks: "map_keys am (oid (inner s1) [''directories'']) s1 = (Ok dks, s1)" "distinct dks"
    "set dks = dom (v_dirs v)"
    by (rule map_keys_run [OF displays_node(2) [OF S(1)]])
  define fa where "fa i \<longleftrightarrow> (\<exists>n. v_files u i = Some n \<and> live_path n \<noteq> None)" for i
  define da where "da i \<longleftrightarrow> (\<exists>n. v_dirs u i = Some n \<and> dir_live_path n \<noteq> None)" for i
  have fa: "(case map_of (sn_files sn) i of Some y \<Rightarrow> fm_deleted_at y = None | None \<Rightarrow> False) = fa i" for i
    using snap live_deleted by (auto simp: fa_def split: option.splits)
  have da: "(case map_of (sn_dirs sn) i of Some y \<Rightarrow> dm_deleted_at y = None | None \<Rightarrow> False) = da i" for i
    using snap dir_live_deleted by (auto simp: da_def split: option.splits)
  have f0: "files_state tree v s1 s1 (v_files v)"
    using S(1) vault_ok_entries [OF S(2)] by (simp add: files_state_def)
  from foreach_pointwise [of fks "files_state tree v s1" "bury_file am (sn_files sn) x" "buried live_path fa",
      OF bury_file_run [OF _ fa, where now = x and ?v = v and ?s0.0 = s1] f0 fks(2)]
  obtain t1 M1 where t1: "foreach fks (bury_file am (sn_files sn) x) s1 = (Ok (), t1)"
    "files_state tree v s1 t1 M1" "\<forall>i \<in> set fks. buried live_path fa i (v_files v i) (M1 i)"
    "\<forall>i. i \<notin> set fks \<longrightarrow> M1 i = v_files v i" by blast
  let ?fo = "order (map fst (sn_files sn))"
  have mem: "i \<in> set ?fo \<longleftrightarrow> fa i" for i
  proof -
    have "i \<in> set ?fo \<longleftrightarrow> map_of (sn_files sn) i \<noteq> None"
      using assms(6) by (simp add: permutes_def map_of_eq_None_iff)
    then show ?thesis using snap by (auto simp: fa_def split: option.splits)
  qed
  have fd: "distinct ?fo" using assms(6) snap by (simp add: permutes_def)
  let ?R = "\<lambda>i (old :: node option) new. \<exists>n'. new = Some n' \<and> live_path n' = live_path (the (v_files u i)) \<and>
      body_of n' = body_of (the (v_files u i))"
  have "\<exists>t M'. revive_file am sn x i s' = (Ok (), t) \<and> files_state tree v s1 t M' \<and>
      (\<forall>y. y \<noteq> i \<longrightarrow> M' y = M y) \<and> ?R i (M i) (M' i)"
    if "i \<in> set ?fo" "files_state tree v s1 s' M" for i s' M
  proof -
    from that(1) obtain n where n: "v_files u i = Some n" "live_path n \<noteq> None" by (auto simp: mem fa_def)
    from revive_file_run [OF that(2) assms(5,3) vault_ok_entries [OF assms(2)] n] n(1) show ?thesis by simp
  qed
  from foreach_pointwise [of ?fo "files_state tree v s1" "revive_file am sn x" ?R, OF this t1(2) fd]
  obtain t2 M2 where t2: "foreach ?fo (revive_file am sn x) t1 = (Ok (), t2)"
    "files_state tree v s1 t2 M2" "\<forall>i \<in> set ?fo. ?R i (M1 i) (M2 i)"
    "\<forall>i. i \<notin> set ?fo \<longrightarrow> M2 i = M1 i" by blast
  let ?w = "v\<lparr>v_files := M2\<rparr>"
  have d2: "displays tree t2 ?w" and wf2: "entries_wf ?w" and l2: "later s1 t2"
    using t2(2) by (simp_all add: files_state_def)
  have d0: "dirs_state tree ?w s1 t2 (v_dirs v)"
    using d2 l2 vault_ok_dirs [OF S(2)] by (simp add: dirs_state_def dirs_ok_def)
  from foreach_pointwise [of dks "dirs_state tree ?w s1" "bury_directory am (sn_dirs sn) x"
      "buried dir_live_path da",
      OF bury_directory_run [OF _ da, where now = x and ?v = ?w and ?s0.0 = s1] d0 dks(2)]
  obtain t3 N1 where t3: "foreach dks (bury_directory am (sn_dirs sn) x) t2 = (Ok (), t3)"
    "dirs_state tree ?w s1 t3 N1" "\<forall>i \<in> set dks. buried dir_live_path da i (v_dirs v i) (N1 i)"
    "\<forall>i. i \<notin> set dks \<longrightarrow> N1 i = v_dirs v i" by blast
  let ?do = "dir_order (map fst (sn_dirs sn))"
  have dmem: "i \<in> set ?do \<longleftrightarrow> da i" for i
  proof -
    have "i \<in> set ?do \<longleftrightarrow> map_of (sn_dirs sn) i \<noteq> None"
      using assms(7) by (simp add: permutes_def map_of_eq_None_iff)
    then show ?thesis using snap by (auto simp: da_def split: option.splits)
  qed
  have dd: "distinct ?do" using assms(7) snap by (simp add: permutes_def)
  let ?Q = "\<lambda>i (old :: node option) new. \<exists>n'. new = Some n' \<and> dir_live_path n' = dir_live_path (the (v_dirs u i))"
  have "\<exists>t M'. revive_directory am (sn_dirs sn) i s' = (Ok (), t) \<and> dirs_state tree ?w s1 t M' \<and>
      (\<forall>y. y \<noteq> i \<longrightarrow> M' y = M y) \<and> ?Q i (M i) (M' i)"
    if "i \<in> set ?do" "dirs_state tree ?w s1 s' M" for i s' M
  proof -
    from that(1) obtain n where n: "v_dirs u i = Some n" "dir_live_path n \<noteq> None" by (auto simp: dmem da_def)
    from revive_directory_run [OF that(2) assms(5) n] n(1) show ?thesis by simp
  qed
  from foreach_pointwise [of ?do "dirs_state tree ?w s1" "revive_directory am (sn_dirs sn)" ?Q, OF this t3(2) dd]
  obtain t4 N2 where t4: "foreach ?do (revive_directory am (sn_dirs sn)) t3 = (Ok (), t4)"
    "dirs_state tree ?w s1 t4 N2" "\<forall>i \<in> set ?do. ?Q i (N1 i) (N2 i)"
    "\<forall>i. i \<notin> set ?do \<longrightarrow> N2 i = N1 i" by blast
  obtain z where z: "commit_now am t4 = (Ok (), z)" "tree (inner z) = tree (inner t4)"
    "oid (inner z) = oid (inner t4)" "later t4 z" "host_drawn (host z) = host_drawn (host t4)"
    by (rule commit_run)
  let ?v = "v\<lparr>v_files := M2, v_dirs := N2\<rparr>"
  have files: "live_files ?v = live_files u"
  proof -
    have r: "\<forall>i. fa i \<longrightarrow> (\<exists>n'. M2 i = Some n' \<and> live_path n' = live_path (the (v_files u i)) \<and>
        body_of n' = body_of (the (v_files u i)))" "\<forall>i. \<not> fa i \<longrightarrow> M2 i = M1 i"
      using t2(3,4) mem by simp_all
    have "(p, i, b) \<in> live_files ?v \<longleftrightarrow> (p, i, b) \<in> live_files u" for p i b
      using bury_revive [OF t1(3,4) fks(3) fa_def r, of i p b] by (simp add: live_files_iff)
    then show ?thesis by auto
  qed
  have dirs: "live_dirs ?v = live_dirs u"
  proof -
    have r: "\<forall>i. da i \<longrightarrow> (\<exists>n'. N2 i = Some n' \<and> dir_live_path n' = dir_live_path (the (v_dirs u i)) \<and>
        () = ())" "\<forall>i. \<not> da i \<longrightarrow> N2 i = N1 i"
      using t4(3,4) dmem by simp_all
    have "(p, i) \<in> live_dirs ?v \<longleftrightarrow> (p, i) \<in> live_dirs u" for p i
      using bury_revive [OF t3(3,4) dks(3) da_def r, of i p "()"] by (simp add: live_dirs_iff)
    then show ?thesis by auto
  qed
  show thesis
  proof (rule that)
    show "apply_snapshot am order dir_order sn s = (Ok (), z)"
      by (simp add: apply_snapshot_def andthen_run s1(1) objs_run [OF S(1)] fks(1) dks(1) t1(1) t2(1) t3(1) t4(1) z(1))
    show "restored v u ?v" using files dirs by (simp add: restored_def)
    have d4: "displays tree t4 ?v" and wf4: "\<forall>did n. N2 did = Some n \<longrightarrow> dir_wf n" and l4: "later s1 t4"
      using t4(2) by (simp_all add: dirs_state_def)
    have "vault_ok ?v"
    proof -
      have "unique_paths ?v" "all_placed ?v"
        using assms(2) same_live [OF files dirs] by (simp_all add: vault_ok_def)
      moreover have "schema_ok ?v" using wf2 wf4 by (simp add: schema_ok_def entries_wf_def)
      ultimately show ?thesis by (simp add: vault_ok_def)
    qed
    moreover have "fresh_ids z ?v"
    proof -
      have l: "later s z" using later_trans [OF s1(3) later_trans [OF l4 z(4)]] .
      have new: "M2 i = None \<and> N2 i = None"
        if "v_files v i = None" "v_dirs v i = None" "v_files u i = None" "v_dirs u i = None" for i
      proof -
        have "i \<notin> set ?fo" "i \<notin> set ?do" using that by (simp_all add: mem dmem fa_def da_def)
        moreover have "i \<notin> set fks" "i \<notin> set dks" using that fks(3) dks(3) by auto
        ultimately show ?thesis using that t1(4) t2(4) t3(4) t4(4) by simp
      qed
      show ?thesis
        using soundD(3) [OF assms(1)] assms(4) l new by (auto simp: fresh_ids_def later_def)
    qed
    ultimately show "sound tree z ?v"
      using displays_same [OF d4 z(2)] by (simp add: sound_def)
  qed
qed

end

context automerge_history
begin

text \<open>Restoring to heads that name a past state.\<close>

lemma restore_run:
  assumes "sound tree s v" "known (inner s) hs (view_tree u)"
    and "vault_ok u" "bodies_ok u" "fresh_ids s u" "permutes order" "permutes dir_order"
  obtains t v' where "restore_to_heads am order dir_order hs s = (Ok (), t)" "sound tree t v'"
    "restored v u v'"
proof -
  from fork_at_law [OF assms(2)] obtain p d where fork: "am_fork_at am (inner s) hs = Ok (p, d)"
    "tree p = view_tree u" "tree d = tree (inner s)" by blast
  have past: "displays tree (s\<lparr>inner := p\<rparr>) u" using fork(2) by (simp add: displays_def)
  obtain sn where sn: "past_snapshot am order (s\<lparr>inner := p\<rparr>) = (Ok sn, s\<lparr>inner := p\<rparr>)" "snapshot_of u sn"
    by (rule past_snapshot_run [OF past vault_ok_entries [OF assms(3)] vault_ok_dirs [OF assms(3)] assms(6)])
  have s1: "sound tree (s\<lparr>inner := d\<rparr>) v" "fresh_ids (s\<lparr>inner := d\<rparr>) u"
    using assms(1,5) fork(3) by (simp_all add: sound_def displays_def fresh_ids_def)
  obtain t v' where t: "apply_snapshot am order dir_order sn (s\<lparr>inner := d\<rparr>) = (Ok (), t)"
    "sound tree t v'" "restored v u v'"
    by (rule apply_snapshot_run [OF s1(1) assms(3,4) s1(2) sn(2) assms(6,7)])
  have "restore_to_heads am order dir_order hs s = (Ok (), t)"
    using t(1) by (simp add: restore_to_heads_def fork(1) sn(1))
  from that [OF this t(2,3)] show thesis .
qed

end

end
