(* ===== verification/DocGenesis.thy ===== *)
theory DocGenesis
  imports DocWrites
begin

text \<open>
  The fresh document of \<^verbatim>\<open>Doc::new\<close> is a sound, empty vault that carries its id.
\<close>

definition genesis_view :: "string \<Rightarrow> view" where
  "genesis_view vault_id =
     \<lparr>v_files = Map.empty, v_dirs = Map.empty, v_labels = Map.empty,
      v_rest = [''schema_version'' \<mapsto> Leaf (SInt SCHEMA_VERSION), ''vault_id'' \<mapsto> Leaf (SStr vault_id)]\<rparr>"

lemma genesis_empty [simp]:
  "live_files (genesis_view i) = {}" "live_dirs (genesis_view i) = {}" "vault_ok (genesis_view i)"
  by (simp_all add: genesis_view_def live_files_def live_dirs_def vault_ok_def schema_ok_def
      unique_paths_def all_placed_def has_file_def has_dir_def)

context automerge_history
begin

lemma doc_new_run:
  assumes "inj (host_ids h)"
  obtains t where "doc_new am c h vault_id = (Ok (), t)" "sound tree t (genesis_view vault_id)" "host t = h"
proof -
  let ?s = "\<lparr>inner = am_set_actor am (am_new am) (Some (genesis_actor c vault_id)), host = h\<rparr>"
  let ?kvs = "[(''schema_version'', SInt SCHEMA_VERSION), (''vault_id'', SStr vault_id)]"
  have at: "node_at (tree (inner ?s)) [] = Some (Branch Map.empty)" by (simp add: actor_law new_law)
  have root: "am_root am = oid d []" for d by (simp add: root_id)
  from puts_run [OF at, of ?kvs] obtain t1 where t1: "puts am (am_root am) ?kvs ?s = (Ok (), t1)"
    "edited tree oid ?s [] (Branch (puts_map ?kvs Map.empty)) t1" "host t1 = h"
    by (auto simp: root_id)
  let ?m1 = "puts_map ?kvs Map.empty"
  obtain t2 where t2: "put_object am (oid (inner t1) []) ''directories'' OMap t1 =
      (Ok (oid (inner t2) ([] @ [''directories''])), t2)"
    "edited tree oid t1 [] (Branch (?m1(''directories'' \<mapsto> empty_obj OMap))) t2" "host t2 = host t1"
    by (rule put_object_run [OF edited_at [OF t1(2)]])
  obtain t3 where t3: "put_object am (oid (inner t2) []) ''files'' OMap t2 =
      (Ok (oid (inner t3) ([] @ [''files''])), t3)"
    "edited tree oid t2 [] (Branch (?m1(''directories'' \<mapsto> empty_obj OMap, ''files'' \<mapsto> empty_obj OMap))) t3"
    "host t3 = host t2"
    by (rule put_object_run [OF edited_at [OF t2(2)]])
  obtain t4 where t4: "put_object am (oid (inner t3) []) ''labels'' OMap t3 =
      (Ok (oid (inner t4) ([] @ [''labels''])), t4)"
    "edited tree oid t3 [] (Branch (?m1(''directories'' \<mapsto> empty_obj OMap, ''files'' \<mapsto> empty_obj OMap,
        ''labels'' \<mapsto> empty_obj OMap))) t4"
    "host t4 = host t3"
    by (rule put_object_run [OF edited_at [OF t3(2)]])
  let ?t = "t4\<lparr>inner := am_set_actor am (am_commit_with am (inner t4) 0) None\<rparr>"
  have "doc_new am c h vault_id = (Ok (), ?t)"
    using t1(1) t2(1) t3(1) t4(1) by (simp add: doc_new_def andthen_run root_id)
  moreover have "tree (inner ?t) = Branch (?m1(''directories'' \<mapsto> empty_obj OMap, ''files'' \<mapsto> empty_obj OMap,
        ''labels'' \<mapsto> empty_obj OMap))"
    using edited_at [OF t4(2)] actor_law commit_law by simp
  then have "displays tree ?t (genesis_view vault_id)"
    by (simp add: displays_def view_tree_def genesis_view_def fun_eq_iff)
  moreover have "fresh_ids ?t (genesis_view vault_id)"
    using assms t1(3) t2(3) t3(3) t4(3) by (simp add: fresh_ids_def genesis_view_def)
  ultimately show thesis
    using that [of ?t] t1(3) t2(3) t3(3) t4(3) by (simp add: sound_def)
qed

end

context automerge_doc
begin

lemma vault_id_run:
  assumes "displays tree s v" "v_rest v ''vault_id'' = Some (Leaf (SStr i))"
  shows "doc_vault_id am s = (Ok i, s)"
proof -
  let ?r = "(v_rest v)(''files'' \<mapsto> Branch (v_files v), ''directories'' \<mapsto> Branch (v_dirs v),
      ''labels'' \<mapsto> Branch (v_labels v))"
  have "node_at (tree (inner s)) [] = Some (Branch ?r)"
    using assms(1) by (simp add: displays_def view_tree_def)
  from get_run [OF this, of "''vault_id''"] assms(2) show ?thesis
    by (simp add: doc_vault_id_def andthen_run root_id ret_run)
qed

end

end
