(* ===== verification/Reference_Doc.thy ===== *)
theory Reference_Doc
  imports Automerge
begin

text \<open>
  An in-memory document that satisfies the laws of \<^theory_text>\<open>Automerge\<close>: a tree of
  association lists whose object ids are paths, with a log of the committed states. It is the
  instance on which the concrete examples of the development run.
\<close>

section \<open>The tree\<close>

datatype jnode =
    JLeaf scalar
  | JText string
  | JMap "(string \<times> jnode) list"
  | JOther

primrec show_node :: "jnode \<Rightarrow> node" where
  "show_node (JLeaf v) = Leaf v"
| "show_node (JText s) = Text s"
| "show_node (JMap al) = Branch (map_of (map (map_prod id show_node) al))"
| "show_node JOther = OtherObj"

fun jnode_at :: "jnode \<Rightarrow> string list \<Rightarrow> jnode option" where
  "jnode_at n [] = Some n"
| "jnode_at (JMap al) (k # ks) = (case map_of al k of None \<Rightarrow> None | Some n \<Rightarrow> jnode_at n ks)"
| "jnode_at _ (_ # _) = None"

fun jmodify :: "string list \<Rightarrow> (jnode \<Rightarrow> jnode) \<Rightarrow> jnode \<Rightarrow> jnode" where
  "jmodify [] f n = f n"
| "jmodify (k # ks) f (JMap al) =
     JMap (case map_of al k of None \<Rightarrow> al | Some n \<Rightarrow> AList.update k (jmodify ks f n) al)"
| "jmodify (_ # _) f n = n"

fun jset_key :: "string \<Rightarrow> jnode option \<Rightarrow> jnode \<Rightarrow> jnode" where
  "jset_key k (Some x) (JMap al) = JMap (AList.update k x al)"
| "jset_key k None (JMap al) = JMap (AList.delete k al)"
| "jset_key k _ n = n"

fun jsplice :: "nat \<Rightarrow> int \<Rightarrow> string \<Rightarrow> jnode \<Rightarrow> jnode" where
  "jsplice pos del s (JText t) =
     JText (concat (take pos (chars t)) @ s @ concat (drop (pos + nat del) (chars t)))"
| "jsplice pos del s n = n"

fun jempty :: "obj_type \<Rightarrow> jnode" where
  "jempty OMap = JMap []"
| "jempty OText = JText []"
| "jempty OList = JOther"

fun jvalue :: "jnode \<Rightarrow> am_value" where
  "jvalue (JLeaf v) = VScalar v"
| "jvalue (JText _) = VObject OText"
| "jvalue (JMap _) = VObject OMap"
| "jvalue JOther = VObject OList"

lemma jvalue_show: "value_of (show_node n) = jvalue n"
  by (cases n) simp_all

lemma map_of_show:
  "map_of (map (map_prod id show_node) al) k = map_option show_node (map_of al k)"
  by (induction al) auto

lemma show_jnode_at: "node_at (show_node n) ks = map_option show_node (jnode_at n ks)"
proof (induction n ks rule: jnode_at.induct)
  case (2 al k ks)
  then show ?case by (auto simp: map_of_show split: option.splits)
qed auto

lemma show_update:
  "map_of (map (map_prod id show_node) (AList.update k x al)) =
   (map_of (map (map_prod id show_node) al))(k \<mapsto> show_node x)"
  by (rule ext) (simp add: map_of_show update_conv')

lemma show_delete:
  "map_of (map (map_prod id show_node) (AList.delete k al)) =
   (map_of (map (map_prod id show_node) al))(k := None)"
  by (rule ext) (simp add: map_of_show delete_conv')

lemma show_jset_key: "show_node (jset_key k x n) = set_key k (map_option show_node x) (show_node n)"
  by (cases "(k, x, n)" rule: jset_key.cases) (simp_all add: show_update show_delete)

lemma show_jsplice: "show_node (jsplice pos del s n) = splice pos del s (show_node n)"
  by (cases n) simp_all

lemma show_jempty: "show_node (jempty ty) = empty_obj ty"
  by (cases ty) simp_all

lemma show_jmodify:
  assumes "\<And>x. show_node (f x) = g (show_node x)"
  shows "show_node (jmodify ks f n) = modify ks g (show_node n)"
  using assms
proof (induction ks f n rule: jmodify.induct)
  case (2 k ks f al)
  then show ?case
    by (cases "map_of al k") (auto simp: show_update map_of_show fun_upd_idem)
qed auto

lemma jnode_at_Branch:
  assumes "node_at (show_node n) p = Some (Branch m)"
  obtains al where "jnode_at n p = Some (JMap al)" "m = map_of (map (map_prod id show_node) al)"
proof -
  from assms obtain j where j: "jnode_at n p = Some j" "show_node j = Branch m"
    by (auto simp: show_jnode_at)
  then show thesis using that by (cases j) auto
qed

lemma jnode_at_Text:
  assumes "node_at (show_node n) p = Some (Text s)"
  shows "jnode_at n p = Some (JText s)"
proof -
  from assms obtain j where j: "jnode_at n p = Some j" "show_node j = Text s"
    by (auto simp: show_jnode_at)
  then show ?thesis by (cases j) auto
qed

section \<open>The store\<close>

record ref_doc =
  rd_tree :: jnode
  rd_log :: "(int \<times> jnode) list"

text \<open>The hash of the n-th commit: 32 bytes as long as \<open>n\<close> fits in 32 bits, always fresh.\<close>

definition nth_hash :: "nat \<Rightarrow> change_hash" where
  "nth_hash n = (if n < 4294967296 then replicate 28 0 @ u32_be n else replicate (33 + n) 0)"

lemma nth_hash_inject [simp]: "nth_hash i = nth_hash j \<longleftrightarrow> i = j"
proof
  assume eq: "nth_hash i = nth_hash j"
  then have len: "length (nth_hash i) = length (nth_hash j)" by simp
  show "i = j"
  proof (cases "i < 4294967296 \<and> j < 4294967296")
    case True
    with eq have "u32_be i = u32_be j" by (simp add: nth_hash_def)
    with True show ?thesis by (metis u32_of_be_u32_be)
  next
    case False
    with len show ?thesis by (simp add: nth_hash_def split: if_splits)
  qed
qed simp

lemma length_nth_hash: "n < 4294967296 \<Longrightarrow> length (nth_hash n) = 32"
  by (simp add: nth_hash_def)

definition log_state :: "(int \<times> jnode) list \<Rightarrow> change_hash list \<Rightarrow> jnode option" where
  "log_state log hs =
     (case hs of
        [] \<Rightarrow> Some (JMap [])
      | [h] \<Rightarrow> map_option (\<lambda>i. snd (log ! i)) (List.find (\<lambda>i. nth_hash i = h) [0..<length log])
      | _ \<Rightarrow> None)"

definition ref_head :: "ref_doc \<Rightarrow> change_hash list" where
  "ref_head d = (if rd_log d = [] then [] else [nth_hash (length (rd_log d) - 1)])"

definition ref_clean :: "ref_doc \<Rightarrow> bool" where
  "ref_clean d \<longleftrightarrow>
     rd_tree d = (if rd_log d = [] then JMap [] else snd (last (rd_log d)))"

definition ref_commit :: "ref_doc \<Rightarrow> int \<Rightarrow> ref_doc" where
  "ref_commit d time =
     (if ref_clean d then d else d\<lparr>rd_log := rd_log d @ [(time, rd_tree d)]\<rparr>)"

definition ref_set :: "ref_doc \<Rightarrow> string list \<Rightarrow> (jnode \<Rightarrow> jnode) \<Rightarrow> ref_doc" where
  "ref_set d p f = d\<lparr>rd_tree := jmodify p f (rd_tree d)\<rparr>"

definition ref_changes :: "(int \<times> jnode) list \<Rightarrow> change list" where
  "ref_changes log =
     map (\<lambda>i. \<lparr>ch_hash = nth_hash i, ch_time = fst (log ! i),
               ch_deps = (if i = 0 then [] else [nth_hash (i - 1)])\<rparr>) [0..<length log]"

definition bad_obj :: error where
  "bad_obj = Automerge ''invalid object id''"

definition ref_am :: "(ref_doc, string list, unit) automerge" where
  "ref_am = \<lparr>
     am_new = \<lparr>rd_tree = JMap [], rd_log = []\<rparr>,
     am_root = [],
     am_set_actor = (\<lambda>d _. d),
     am_get = (\<lambda>d p k. case jnode_at (rd_tree d) p of
        Some (JMap al) \<Rightarrow> Ok (map_option (\<lambda>n. (jvalue n, p @ [k])) (map_of al k))
      | _ \<Rightarrow> Err bad_obj),
     am_keys = (\<lambda>d p. case jnode_at (rd_tree d) p of
        Some (JMap al) \<Rightarrow> remdups (map fst al) | _ \<Rightarrow> []),
     am_text = (\<lambda>d p. case jnode_at (rd_tree d) p of
        Some (JText s) \<Rightarrow> Ok s | _ \<Rightarrow> Err bad_obj),
     am_put = (\<lambda>d p k v. case jnode_at (rd_tree d) p of
        Some (JMap al) \<Rightarrow> Ok (ref_set d p (jset_key k (Some (JLeaf v)))) | _ \<Rightarrow> Err bad_obj),
     am_put_object = (\<lambda>d p k ty. case jnode_at (rd_tree d) p of
        Some (JMap al) \<Rightarrow> Ok (ref_set d p (jset_key k (Some (jempty ty))), p @ [k])
      | _ \<Rightarrow> Err bad_obj),
     am_delete = (\<lambda>d p k. case jnode_at (rd_tree d) p of
        Some (JMap al) \<Rightarrow> Ok (ref_set d p (jset_key k None)) | _ \<Rightarrow> Err bad_obj),
     am_splice_text = (\<lambda>d p pos del s. case jnode_at (rd_tree d) p of
        Some (JText t) \<Rightarrow>
          (if pos \<le> length (chars t) \<and> 0 \<le> del \<and> pos + nat del \<le> length (chars t)
           then Ok (ref_set d p (jsplice pos del s)) else Err (Automerge ''index out of range''))
      | _ \<Rightarrow> Err bad_obj),
     am_commit_with = ref_commit,
     am_get_heads = (\<lambda>d. let d' = ref_commit d 0 in (ref_head d', d')),
     am_get_changes = (\<lambda>d. let d' = ref_commit d 0 in (ref_changes (rd_log d'), d')),
     am_fork = (\<lambda>d. let d' = ref_commit d 0 in (d', d')),
     am_fork_at = (\<lambda>d hs. case log_state (rd_log d) hs of
        Some n \<Rightarrow> Ok (\<lparr>rd_tree = n, rd_log = rd_log d\<rparr>, d)
      | None \<Rightarrow> Err (Automerge ''unknown heads'')),
     am_load = (\<lambda>_. Err (AutomergeLoad ''not serialised'')),
     am_save = (\<lambda>d. ([], d)),
     am_save_incremental = (\<lambda>d. ([], d)),
     am_merge = (\<lambda>d e. Ok (d, e)),
     am_sync_new = (),
     am_generate_sync = (\<lambda>d y. (None, d, y)),
     am_decode_sync = (\<lambda>bs. Ok bs),
     am_receive_sync = (\<lambda>d y bs. Ok (d, y))\<rparr>"

definition ref_tree :: "ref_doc \<Rightarrow> node" where
  "ref_tree d = show_node (rd_tree d)"

definition ref_oid :: "ref_doc \<Rightarrow> string list \<Rightarrow> string list" where
  "ref_oid d p = p"

definition ref_known :: "ref_doc \<Rightarrow> change_hash list \<Rightarrow> node \<Rightarrow> bool" where
  "ref_known d hs t \<longleftrightarrow> map_option show_node (log_state (rd_log d) hs) = Some t"

lemma log_state_hash:
  "i < length log \<Longrightarrow> log_state log [nth_hash i] = Some (snd (log ! i))"
proof -
  assume i: "i < length log"
  have "List.find (\<lambda>j. nth_hash j = nth_hash i) [0..<length log] = Some i"
    unfolding find_Some_iff using i by (intro exI [of _ i]) auto
  then show ?thesis by (simp add: log_state_def)
qed

lemma log_state_extend:
  assumes "log_state log hs = Some n"
  shows "log_state (log @ rest) hs = Some n"
proof -
  consider "hs = []" | h where "hs = [h]" | a b cs where "hs = a # b # cs"
    by (metis list.exhaust)
  then show ?thesis
  proof cases
    case 2
    with assms obtain i where "List.find (\<lambda>i. nth_hash i = h) [0..<length log] = Some i"
      and n: "n = snd (log ! i)" by (auto simp: log_state_def)
    then have "i < length log" "h = nth_hash i" by (auto simp: find_Some_iff)
    with n 2 log_state_hash [of i "log @ rest"] show ?thesis by (simp add: nth_append)
  qed (use assms in \<open>auto simp: log_state_def\<close>)
qed

lemma ref_known_commit: "ref_known d hs t \<Longrightarrow> ref_known (ref_commit d time) hs t"
  by (auto simp: ref_known_def ref_commit_def log_state_extend)

lemma ref_commit_tree [simp]: "rd_tree (ref_commit d time) = rd_tree d"
  by (simp add: ref_commit_def)

lemma ref_head_known: "log_state (rd_log (ref_commit d time)) (ref_head (ref_commit d time)) = Some (rd_tree d)"
proof (cases "rd_log (ref_commit d time) = []")
  case True
  then have "ref_clean d" "rd_log d = []" by (auto simp: ref_commit_def split: if_splits)
  then show ?thesis by (simp add: ref_commit_def ref_head_def ref_clean_def log_state_def)
next
  case False
  have "snd (last (rd_log (ref_commit d time))) = rd_tree d"
    using False by (auto simp: ref_commit_def ref_clean_def)
  moreover have "log_state (rd_log (ref_commit d time)) (ref_head (ref_commit d time)) =
      Some (snd (last (rd_log (ref_commit d time))))"
    using False by (simp add: ref_head_def log_state_hash last_conv_nth)
  ultimately show ?thesis by simp
qed

lemmas ref_am_sel = automerge.select_convs ref_am_def

interpretation ref: automerge_doc ref_am ref_tree ref_oid
proof
  fix d p m k
  assume "node_at (ref_tree d) p = Some (Branch m)"
  then obtain al where al: "jnode_at (rd_tree d) p = Some (JMap al)"
    and m: "m = map_of (map (map_prod id show_node) al)"
    unfolding ref_tree_def by (rule jnode_at_Branch)
  show "am_get ref_am d (ref_oid d p) k =
      Ok (map_option (\<lambda>n. (value_of n, ref_oid d (p @ [k]))) (m k))"
    using al by (simp add: ref_am_def ref_oid_def m map_of_show option.map_comp comp_def jvalue_show)
  show "distinct (am_keys ref_am d (ref_oid d p)) \<and> set (am_keys ref_am d (ref_oid d p)) = dom m"
    using al by (simp add: ref_am_def ref_oid_def m dom_map_of_conv_image_fst image_image)
  show "\<exists>d'. am_put ref_am d (ref_oid d p) k v = Ok d' \<and>
      ref_tree d' = modify p (set_key k (Some (Leaf v))) (ref_tree d) \<and>
      (\<forall>q. \<not> prefix (p @ [k]) q \<longrightarrow> ref_oid d' q = ref_oid d q)" for v
    using al by (simp add: ref_am_def ref_oid_def ref_set_def ref_tree_def show_jmodify show_jset_key)
  show "\<exists>d'. am_put_object ref_am d (ref_oid d p) k ty = Ok (d', ref_oid d' (p @ [k])) \<and>
      ref_tree d' = modify p (set_key k (Some (empty_obj ty))) (ref_tree d) \<and>
      (\<forall>q. \<not> prefix (p @ [k]) q \<longrightarrow> ref_oid d' q = ref_oid d q)" for ty
    using al by (simp add: ref_am_def ref_oid_def ref_set_def ref_tree_def show_jmodify
        show_jset_key show_jempty)
  show "\<exists>d'. am_delete ref_am d (ref_oid d p) k = Ok d' \<and>
      ref_tree d' = modify p (set_key k None) (ref_tree d) \<and>
      (\<forall>q. \<not> prefix (p @ [k]) q \<longrightarrow> ref_oid d' q = ref_oid d q)"
    using al by (simp add: ref_am_def ref_oid_def ref_set_def ref_tree_def show_jmodify show_jset_key)
next
  fix d p s
  assume "node_at (ref_tree d) p = Some (Text s)"
  then have j: "jnode_at (rd_tree d) p = Some (JText s)"
    unfolding ref_tree_def by (rule jnode_at_Text)
  then show "am_text ref_am d (ref_oid d p) = Ok s" by (simp add: ref_am_def ref_oid_def)
  fix pos :: nat and del :: int and t
  assume "pos \<le> length (chars s)" "0 \<le> del" "pos + nat del \<le> length (chars s)"
  then show "\<exists>d'. am_splice_text ref_am d (ref_oid d p) pos del t = Ok d' \<and>
      ref_tree d' = modify p (splice pos del t) (ref_tree d) \<and> ref_oid d' = ref_oid d"
    using j by (simp add: ref_am_def ref_oid_def ref_set_def ref_tree_def show_jmodify
        show_jsplice fun_eq_iff)
qed (simp_all add: ref_am_def ref_oid_def ref_tree_def fun_eq_iff)

interpretation ref: automerge_history ref_am ref_tree ref_oid ref_known
proof
  fix d hs d'
  assume "am_get_heads ref_am d = (hs, d')"
  then have eqs: "d' = ref_commit d 0" "hs = ref_head (ref_commit d 0)"
    by (auto simp: ref_am_def Let_def)
  show "ref_tree d' = ref_tree d \<and> ref_oid d' = ref_oid d \<and> ref_known d' hs (ref_tree d) \<and>
      (\<forall>gs t. ref_known d gs t \<longrightarrow> ref_known d' gs t)"
    using ref_head_known [of d 0] ref_known_commit
    by (auto simp: eqs ref_tree_def ref_oid_def fun_eq_iff ref_known_def)
next
  fix d hs t
  assume "ref_known d hs t"
  then obtain n where "log_state (rd_log d) hs = Some n" "show_node n = t"
    by (auto simp: ref_known_def)
  then show "\<exists>p d'. am_fork_at ref_am d hs = Ok (p, d') \<and> ref_tree p = t \<and> ref_tree d' = ref_tree d \<and>
      ref_oid d' = ref_oid d \<and> (\<forall>gs u. ref_known d gs u \<longrightarrow> ref_known d' gs u)"
    by (simp add: ref_am_def ref_tree_def)
next
  fix d hs t time
  assume "ref_known d hs t"
  then show "ref_known (am_commit_with ref_am d time) hs t"
    by (simp add: ref_am_def ref_known_commit)
qed (auto simp: ref_am_def ref_tree_def ref_set_def ref_known_def
      split: option.splits jnode.splits if_splits)

end
