(* ===== verification/Demo.thy ===== *)
theory Demo
  imports DocRestore DocGenesis Reference_Doc
begin

text \<open>
  A concrete vault document on the reference store: one text file \<^verbatim>\<open>a/b.txt\<close>, one attachment
  \<^verbatim>\<open>a/c.png\<close> and the directory \<^verbatim>\<open>a\<close>. The properties of the document operations are applied
  to it.
\<close>

definition demo_host :: host where
  "demo_host = \<lparr>host_time = (\<lambda>n. 1000 + int n), host_tick = 0,
                host_ids = (\<lambda>n. ''id'' @ replicate n (CHR ''x'')), host_drawn = 0\<rparr>"

definition demo_meta :: "string \<Rightarrow> string \<Rightarrow> int \<Rightarrow> jnode" where
  "demo_meta path kind sz =
     JMap [(''path'', JLeaf (SStr path)), (''kind'', JLeaf (SStr kind)), (''size'', JLeaf (SInt sz)),
           (''created_at'', JLeaf (SInt 10)), (''updated_at'', JLeaf (SInt 20))]"

definition demo_tree :: jnode where
  "demo_tree = JMap
     [(''schema_version'', JLeaf (SInt 1)), (''vault_id'', JLeaf (SStr ''v'')),
      (''directories'', JMap [(''d'', JMap [(''path'', JLeaf (SStr ''a'')), (''created_at'', JLeaf (SInt 5))])]),
      (''files'', JMap
        [(''f'', JMap [(''meta'', demo_meta ''a/b.txt'' ''text'' 2), (''content'', JText ''hi'')]),
         (''g'', JMap [(''meta'', demo_meta ''a/c.png'' ''attachment'' 7), (''binary_hash'', JLeaf (SStr ''h''))])]),
      (''labels'', JMap [])]"

definition demo :: "ref_doc doc" where
  "demo = \<lparr>inner = \<lparr>rd_tree = demo_tree, rd_log = []\<rparr>, host = demo_host\<rparr>"

definition demo_view :: view where
  "demo_view =
     \<lparr>v_files = [''f'' \<mapsto> show_node (JMap [(''meta'', demo_meta ''a/b.txt'' ''text'' 2), (''content'', JText ''hi'')]),
                 ''g'' \<mapsto> show_node (JMap [(''meta'', demo_meta ''a/c.png'' ''attachment'' 7), (''binary_hash'', JLeaf (SStr ''h''))])],
      v_dirs = [''d'' \<mapsto> show_node (JMap [(''path'', JLeaf (SStr ''a'')), (''created_at'', JLeaf (SInt 5))])],
      v_labels = Map.empty,
      v_rest = [''schema_version'' \<mapsto> Leaf (SInt 1), ''vault_id'' \<mapsto> Leaf (SStr ''v'')]\<rparr>"

lemma demo_displays: "displays ref_tree demo demo_view"
  by (simp add: displays_def demo_def ref_tree_def demo_tree_def view_tree_def demo_view_def fun_eq_iff)

lemma demo_file_entries [simp]:
  "live_path (show_node (JMap [(''meta'', demo_meta p k z), x])) = Some p"
  "meta_of (show_node (JMap [(''meta'', demo_meta p k z), x])) =
     branch_of (show_node (demo_meta p k z))"
  "str_of (branch_of (show_node (demo_meta p k z))) ''kind'' = Some k"
  by (simp_all add: live_path_def live_path_in_def meta_of_def demo_meta_def int_of_def str_of_def)

lemma demo_live_files:
  "live_files demo_view = {(''a/b.txt'', ''f'', TextBody ''hi''), (''a/c.png'', ''g'', BlobBody ''h'')}"
proof -
  have "body_of (show_node (JMap [(''meta'', demo_meta p ''text'' z), (''content'', JText t)])) = TextBody t"
    "body_of (show_node (JMap [(''meta'', demo_meta p ''attachment'' z), (''binary_hash'', JLeaf (SStr h))])) = BlobBody h"
    for p z t h
    by (simp_all add: body_of_def str_of_def text_of_def meta_of_def demo_meta_def)
  note b = this
  show ?thesis
    by (auto simp: live_files_def demo_view_def b simp del: show_node.simps split: if_splits)
qed

lemma demo_live_dirs: "live_dirs demo_view = {(''a'', ''d'')}"
  by (auto simp: live_dirs_def demo_view_def dir_live_path_def live_path_in_def int_of_def str_of_def split: if_splits)

lemma demo_has [simp]:
  "has_file demo_view p \<longleftrightarrow> p = ''a/b.txt'' \<or> p = ''a/c.png''"
  "has_dir demo_view p \<longleftrightarrow> p = ''a''"
  by (auto simp: has_file_def has_dir_def demo_live_files demo_live_dirs)

lemma demo_ancestors [simp]:
  "ancestors ''a'' = []" "ancestors ''a/b.txt'' = [''a'']" "ancestors ''a/c.png'' = [''a'']"
  "good_path ''a''" "good_path ''a/b.txt''" "good_path ''a/c.png''"
  by code_simp+

lemma demo_sound: "sound ref_tree demo demo_view"
proof -
  have "schema_ok demo_view"
    by (auto simp: schema_ok_def demo_view_def demo_meta_def meta_wf_def str_of_def int_ok_def str_ok_def
        split: if_splits)
  moreover have "unique_paths demo_view"
    by (auto simp: unique_paths_def demo_live_files demo_live_dirs)
  moreover have "all_placed demo_view"
    by (auto simp: all_placed_def placed_def)
  moreover have "inj (\<lambda>n. ''id'' @ replicate n (CHR ''x''))"
  proof (rule injI)
    fix m n assume "''id'' @ replicate m (CHR ''x'') = ''id'' @ replicate n (CHR ''x'')"
    then have "length (''id'' @ replicate m (CHR ''x'')) = length (''id'' @ replicate n (CHR ''x''))" by simp
    then show "m = n" by simp
  qed
  then have "fresh_ids demo demo_view"
    by (simp add: fresh_ids_def demo_def demo_host_def demo_view_def)
  ultimately show ?thesis
    using demo_displays by (simp add: sound_def vault_ok_def)
qed

text \<open>The same vault after everything was purged; its one commit is the state above.\<close>

definition purged_tree :: jnode where
  "purged_tree = JMap
     [(''schema_version'', JLeaf (SInt 1)), (''vault_id'', JLeaf (SStr ''v'')),
      (''directories'', JMap []), (''files'', JMap []), (''labels'', JMap [])]"

definition purged :: "ref_doc doc" where
  "purged = \<lparr>inner = \<lparr>rd_tree = purged_tree, rd_log = [(5, demo_tree)]\<rparr>, host = demo_host\<rparr>"

definition purged_view :: view where
  "purged_view = demo_view\<lparr>v_files := Map.empty, v_dirs := Map.empty\<rparr>"

lemma purged_sound: "sound ref_tree purged purged_view"
proof -
  have "displays ref_tree purged purged_view"
    by (simp add: displays_def purged_def ref_tree_def purged_tree_def view_tree_def purged_view_def
        demo_view_def fun_eq_iff)
  moreover have "fresh_ids purged purged_view"
    using demo_sound by (simp add: sound_def fresh_ids_def demo_def purged_def purged_view_def)
  moreover have "vault_ok purged_view"
    by (simp add: vault_ok_def schema_ok_def unique_paths_def all_placed_def purged_view_def has_file_def
        has_dir_def live_files_def live_dirs_def)
  ultimately show ?thesis by (simp add: sound_def)
qed

lemma purged_known: "ref_known (inner purged) [nth_hash 0] (view_tree demo_view)"
  using demo_displays
  by (simp add: ref_known_def log_state_hash purged_def displays_def demo_def ref_tree_def)

lemma two_changes:
  "ref_changes [(a, x), (b, y)] =
     [\<lparr>ch_hash = nth_hash 0, ch_time = a, ch_deps = []\<rparr>,
      \<lparr>ch_hash = nth_hash 1, ch_time = b, ch_deps = [nth_hash 0]\<rparr>]"
  by (simp add: ref_changes_def upt_rec)

lemma two_changes_history: "history (ref_changes [(a, x), (b, y)])"
  by (simp add: history_def two_changes nth_Cons' All_less_Suc)

lemma purged_changes:
  "am_get_changes ref_am (inner purged) =
     (ref_changes [(5, demo_tree), (0, purged_tree)], ref_commit (inner purged) 0)"
proof -
  have "purged_tree \<noteq> demo_tree" by (simp add: purged_tree_def demo_tree_def)
  then show ?thesis
    by (simp add: ref_am_def Let_def ref_commit_def ref_clean_def purged_def)
qed

lemma demo_bodies: "bodies_ok demo_view"
  by (auto simp: bodies_ok_def demo_view_def body_of_def str_of_def text_of_def meta_of_def demo_meta_def
      split: if_splits)

lemma permutes_id: "permutes id"
  by (simp add: permutes_def)

lemma demo_paths:
  "normalize ascii_nfc ''a/b.txt'' = Ok ''a/b.txt''" "normalize ascii_nfc ''./a//b.txt'' = Ok ''a/b.txt''"
  "normalize ascii_nfc ''a/c.png'' = Ok ''a/c.png''" "normalize ascii_nfc ''x/y/z.md'' = Ok ''x/y/z.md''"
  "normalize ascii_nfc ''a'' = Ok ''a''" "normalize ascii_nfc ''x/y'' = Ok ''x/y''"
  by code_simp+

end
