(* ===== verification/DocProperties.thy ===== *)
theory DocProperties
  imports Demo
begin

text \<open>
  The properties of the document operations: each of them refines an operation on the set of
  live files and live directories of the vault. The laws of the document library are the
  hypothesis \<open>automerge_doc\<close> or \<open>automerge_history\<close>, discharged in the witnesses by the
  reference store.
\<close>

section \<open>Paths\<close>



text \<open>
  \<open>ancestors\<close> of a normalised path are exactly its proper non-empty segment prefixes,
  shortest first, and \<open>under\<close> is the segment-wise prefix order.
\<close>

lemma path_order:
  assumes "ps \<noteq> []" "list_all good_segment ps" "cs \<noteq> []" "list_all good_segment cs"
  shows "ancestors (join ''/'' cs) = map (\<lambda>k. join ''/'' (take k cs)) [1..<length cs] \<and>
    (under (join ''/'' ps) (join ''/'' cs) \<longleftrightarrow> prefix ps cs)"
  using ancestors_segments [OF assms(3,4)] under_segments [OF assms] by blast

text \<open>
  C1. \<open>write_text_file\<close> on a valid path never fails on a sound vault: afterwards the path has
  exactly this text under one id (the old one when the file existed), every ancestor is a live
  directory, nothing else has changed, and the vault is sound again.
\<close>

theorem write_text_file_refines:
  assumes "automerge_doc am tree oid" "sound tree s v" "normalize nfc p = Ok q"
  shows "\<exists>fid t v'. write_text_file am nfc p w s = (Ok fid, t) \<and> sound tree t v' \<and>
    file_written v q fid (TextBody w) v'"
  using automerge_doc.write_text_run [OF assms, of w] by metis

theorem write_text_file_refines_witness:
  "\<exists>fid t v'. write_text_file ref_am ascii_nfc ''x/y/z.md'' ''text'' demo = (Ok fid, t) \<and>
    sound ref_tree t v' \<and> file_written demo_view ''x/y/z.md'' fid (TextBody ''text'') v'"
  by (rule write_text_file_refines [OF ref.automerge_doc_axioms demo_sound demo_paths(4)])

text \<open>
  C26. What is written can be read back, under any spelling of the path: \<open>read_file\<close> returns
  the text and \<open>file_hash\<close> its SHA-256.
\<close>

theorem write_then_read:
  assumes "automerge_doc am tree oid" "sound tree s v" "normalize nfc p = Ok q" "normalize nfc p' = Ok q"
    and "write_text_file am nfc p w s = (r, t)"
  shows "read_file am nfc p' t = (Ok w, t) \<and> file_hash am c nfc p' t = (Ok (content_hash c (as_bytes w)), t)"
proof -
  obtain fid t' v' where w: "write_text_file am nfc p w s = (Ok fid, t')" "sound tree t' v'"
    "file_written v q fid (TextBody w) v'"
    by (rule automerge_doc.write_text_run [OF assms(1-3)])
  then have t: "t' = t" "(q, fid, TextBody w) \<in> live_files v'"
    using assms(5) by (auto simp: file_written_def)
  note d = soundD [OF w(2), unfolded t(1)]
  show ?thesis
    using automerge_doc.read_file_run(1) [OF assms(1) d(1,2) assms(4) t(2)]
      automerge_doc.file_hash_run [OF assms(1) d(1,2) assms(4) t(2)] by simp
qed

theorem write_then_read_witness:
  "read_file ref_am ascii_nfc ''./a//b.txt'' (snd (write_text_file ref_am ascii_nfc ''a/b.txt'' ''new'' demo)) =
     (Ok ''new'', snd (write_text_file ref_am ascii_nfc ''a/b.txt'' ''new'' demo)) \<and>
   file_hash ref_am example_crypto ascii_nfc ''./a//b.txt'' (snd (write_text_file ref_am ascii_nfc ''a/b.txt'' ''new'' demo)) =
     (Ok (content_hash example_crypto (as_bytes ''new'')), snd (write_text_file ref_am ascii_nfc ''a/b.txt'' ''new'' demo))"
  by (rule write_then_read [OF ref.automerge_doc_axioms demo_sound demo_paths(1) demo_paths(2) prod.collapse [symmetric]])

text \<open>
  C28. \<open>write_attachment\<close> likewise makes the path refer to the blob. When the path was a text
  file, its old text stays in the document beside the blob hash.
\<close>

theorem write_attachment_refines:
  assumes "automerge_doc am tree oid" "sound tree s v" "normalize nfc p = Ok q"
  shows "\<exists>fid t v'. write_attachment am nfc p h sz s = (Ok fid, t) \<and> sound tree t v' \<and>
    file_written v q fid (BlobBody h) v' \<and>
    (\<forall>n. has_file v q \<and> v_files v fid = Some n \<longrightarrow>
       (\<exists>n'. v_files v' fid = Some n' \<and> text_of (branch_of n') ''content'' = text_of (branch_of n) ''content''))"
proof (cases "has_file v q")
  case True
  with automerge_doc.write_attachment_existing [OF assms True] show ?thesis by metis
next
  case False
  with automerge_doc.write_attachment_run [OF assms] show ?thesis by metis
qed

theorem write_attachment_refines_witness:
  "\<exists>t v' n'. write_attachment ref_am ascii_nfc ''a/b.txt'' ''h2'' 9 demo = (Ok ''f'', t) \<and> sound ref_tree t v' \<and>
    (''a/b.txt'', ''f'', BlobBody ''h2'') \<in> live_files v' \<and> v_files v' ''f'' = Some n' \<and>
    text_of (branch_of n') ''content'' = Some ''hi''"
proof -
  obtain fid t v' where w: "write_attachment ref_am ascii_nfc ''a/b.txt'' ''h2'' 9 demo = (Ok fid, t)" "sound ref_tree t v'"
    "file_written demo_view ''a/b.txt'' fid (BlobBody ''h2'') v'"
    and k: "\<forall>n. has_file demo_view ''a/b.txt'' \<and> v_files demo_view fid = Some n \<longrightarrow>
       (\<exists>n'. v_files v' fid = Some n' \<and> text_of (branch_of n') ''content'' = text_of (branch_of n) ''content'')"
    using write_attachment_refines [OF ref.automerge_doc_axioms demo_sound demo_paths(1), of "''h2''" 9] by blast
  have f: "fid = ''f''" using w(3) by (auto simp: file_written_def demo_live_files)
  have "text_of (branch_of (the (v_files demo_view ''f''))) ''content'' = Some ''hi''"
    "v_files demo_view ''f'' \<noteq> None"
    by (simp_all add: demo_view_def text_of_def)
  with k f obtain n' where "v_files v' ''f'' = Some n'" "text_of (branch_of n') ''content'' = Some ''hi''"
    by (auto simp: option.the_def)
  with w f show ?thesis by (auto simp: file_written_def)
qed

text \<open>
  C27. \<open>delete_file\<close> of a live path removes exactly that path from the live files; of any other
  path it reports \<^verbatim>\<open>NotFound\<close> and leaves the document as it was.
\<close>

theorem delete_file_refines:
  assumes "automerge_doc am tree oid" "sound tree s v" "normalize nfc p = Ok q"
  shows "(has_file v q \<longrightarrow> (\<exists>t v'. delete_file am nfc p s = (Ok (), t) \<and> sound tree t v' \<and> file_deleted v q v')) \<and>
    (\<not> has_file v q \<longrightarrow> delete_file am nfc p s = (Err (NotFound q), s))"
  using automerge_doc.delete_file_run [OF assms] automerge_doc.missing_file_run(1) [OF assms] by metis

theorem delete_file_refines_witness:
  "(\<exists>t v'. delete_file ref_am ascii_nfc ''a/b.txt'' demo = (Ok (), t) \<and>
      sound ref_tree t v' \<and> file_deleted demo_view ''a/b.txt'' v') \<and>
   delete_file ref_am ascii_nfc ''x/y/z.md'' demo = (Err (NotFound ''x/y/z.md''), demo)"
  using delete_file_refines [OF ref.automerge_doc_axioms demo_sound demo_paths(1)]
    delete_file_refines [OF ref.automerge_doc_axioms demo_sound demo_paths(4)] by simp

text \<open>
  C7. \<open>rename_file\<close> to a free path moves the file, keeping its id and content; onto a live
  path it reports \<^verbatim>\<open>AlreadyExists\<close>, of a missing file \<^verbatim>\<open>NotFound\<close>, and in both cases changes
  nothing.
\<close>

theorem rename_file_refines:
  assumes "automerge_doc am tree oid" "sound tree s v" "normalize nfc p = Ok q" "normalize nfc p' = Ok r" "q \<noteq> r"
  shows "if \<not> has_file v q then rename_file am nfc p p' s = (Err (NotFound q), s)
    else if has_file v r then rename_file am nfc p p' s = (Err (AlreadyExists r), s)
    else \<exists>t v'. rename_file am nfc p p' s = (Ok (), t) \<and> sound tree t v' \<and> file_renamed v q r v'"
  using automerge_doc.rename_file_run [OF assms] automerge_doc.missing_file_run(2) [OF assms(1-3) _ assms(4,5)]
    automerge_doc.rename_onto_run [OF assms] by (simp split: if_split) metis

theorem rename_file_refines_witness:
  "(\<exists>t v'. rename_file ref_am ascii_nfc ''a/b.txt'' ''x/y/z.md'' demo = (Ok (), t) \<and> sound ref_tree t v' \<and>
     file_renamed demo_view ''a/b.txt'' ''x/y/z.md'' v') \<and>
   rename_file ref_am ascii_nfc ''a/b.txt'' ''a/c.png'' demo = (Err (AlreadyExists ''a/c.png''), demo)"
  using rename_file_refines [OF ref.automerge_doc_axioms demo_sound demo_paths(1) demo_paths(4)]
    rename_file_refines [OF ref.automerge_doc_axioms demo_sound demo_paths(1) demo_paths(3)] by simp

text \<open>
  C30. \<open>list_files\<close> returns every live file once, with what the document records of it, sorted
  by path, and does not change the document.
\<close>

theorem list_files_complete:
  assumes "automerge_doc am tree oid" "sound tree s v"
  shows "\<exists>out. list_files am s = (Ok out, s) \<and> sorted (map fm_path out) \<and> distinct (map fm_path out) \<and>
    set out = {file_rec fid n |fid n. v_files v fid = Some n \<and> live_path n \<noteq> None} \<and>
    set (map fm_path out) = {p. has_file v p}"
proof -
  note d = soundD [OF assms(2)]
  obtain out where out: "list_files am s = (Ok out, s)" "sorted (map fm_path out)"
    "set out = {file_rec fid n |fid n. v_files v fid = Some n \<and> live_path n \<noteq> None}"
    by (rule automerge_doc.list_files_run [OF assms(1) d(1) vault_ok_entries [OF d(2)]])
  obtain out' where "list_files am s = (Ok out', s)" "distinct (map fm_path out')"
    "set (map fm_path out') = {p. has_file v p}"
    by (rule automerge_doc.list_paths_run [OF assms(1) d(1,2)])
  with out show ?thesis by auto
qed

theorem list_files_complete_witness:
  "\<exists>out. list_files ref_am demo = (Ok out, demo) \<and> sorted (map fm_path out) \<and> distinct (map fm_path out) \<and>
    set out = {file_rec fid n |fid n. v_files demo_view fid = Some n \<and> live_path n \<noteq> None} \<and>
    set (map fm_path out) = {p. has_file demo_view p}"
  by (rule list_files_complete [OF ref.automerge_doc_axioms demo_sound])

section \<open>Directories\<close>

text \<open>
  C29. \<open>create_directory\<close> makes the path and its ancestors live directories, returns the id the
  directory has, keeps every other directory and every file, and keeps the vault sound.
\<close>

theorem create_directory_refines:
  assumes "automerge_doc am tree oid" "sound tree s v" "normalize nfc p = Ok q"
  shows "\<exists>did t v'. create_directory am nfc p s = (Ok did, t) \<and> sound tree t v' \<and> (q, did) \<in> live_dirs v' \<and>
    adds_dirs v (insert q (set (ancestors q))) v'"
  using automerge_doc.create_directory_run [OF assms(1) soundD [OF assms(2)] assms(3)]
  unfolding sound_def by metis

theorem create_directory_refines_witness:
  "\<exists>did t v'. create_directory ref_am ascii_nfc ''x/y'' demo = (Ok did, t) \<and> sound ref_tree t v' \<and>
    (''x/y'', did) \<in> live_dirs v' \<and> adds_dirs demo_view (insert ''x/y'' (set (ancestors ''x/y''))) v'"
  by (rule create_directory_refines [OF ref.automerge_doc_axioms demo_sound demo_paths(6)])

text \<open>
  C8. A recursive \<open>delete_directory\<close> removes exactly the files below the directory and the
  directories at or below it, and keeps the vault sound.
\<close>

theorem delete_directory_refines:
  assumes "automerge_doc am tree oid" "sound tree s v" "normal_paths nfc v" "normalize nfc p = Ok q"
  shows "\<exists>t v'. delete_directory am nfc p True s = (Ok (), t) \<and> sound tree t v' \<and> tree_deleted v q v'"
  using automerge_doc.delete_directory_run [OF assms] by metis

theorem delete_directory_refines_witness:
  "\<exists>t v'. delete_directory ref_am ascii_nfc ''a'' True demo = (Ok (), t) \<and> sound ref_tree t v' \<and>
    tree_deleted demo_view ''a'' v'"
  by (rule delete_directory_refines [OF ref.automerge_doc_axioms demo_sound _ demo_paths(5)])
    (auto simp: normal_paths_def demo_paths)

section \<open>Genesis and history\<close>

text \<open>
  \<open>doc_new\<close> gives a sound, empty vault with the id it was given.
\<close>

lemma doc_new_sound:
  assumes "automerge_history am tree oid known" "inj (host_ids h)"
  shows "\<exists>t. doc_new am c h vault_id = (Ok (), t) \<and> sound tree t (genesis_view vault_id) \<and>
    doc_vault_id am t = (Ok vault_id, t)"
proof -
  obtain t where t: "doc_new am c h vault_id = (Ok (), t)" "sound tree t (genesis_view vault_id)"
    by (rule automerge_history.doc_new_run [OF assms])
  have "doc_vault_id am t = (Ok vault_id, t)"
    by (rule automerge_doc.vault_id_run [OF automerge_history.axioms(1) [OF assms(1)] soundD(1) [OF t(2)]])
      (simp add: genesis_view_def)
  with t show ?thesis by blast
qed

text \<open>
  C32. \<open>create_label\<close> records the current heads: \<open>get_label_heads\<close> returns them, and the
  document knows them as a state that shows what it showed when the label was made.
\<close>

theorem label_records_heads:
  assumes "automerge_history am tree oid known" "displays tree s v" "labels_wf v"
    and "am_get_heads am (inner s) = (hs, d)" "\<forall>h \<in> set hs. length h = 32"
  shows "\<exists>t. create_label am name s = (Ok (), t) \<and> get_label_heads am name t = (Ok hs, t) \<and>
    known (inner t) hs (view_tree v)"
proof -
  obtain t n l where t: "create_label am name s = (Ok (), t)"
    "displays tree t (v\<lparr>v_labels := (v_labels v)(name \<mapsto> n)\<rparr>)" "label_wf n"
    "label_of name n = Some l" "lb_heads l = hs" "known (inner t) hs (view_tree v)"
    by (rule automerge_history.create_label_run [OF assms(1,2,4,5)])
  have "labels_wf (v\<lparr>v_labels := (v_labels v)(name \<mapsto> n)\<rparr>)"
    using assms(3) t(3) by (auto simp: labels_wf_def)
  from automerge_doc.get_label_run(1) [OF automerge_history.axioms(1) [OF assms(1)] t(2) this _ t(4)] t
  show ?thesis by simp
qed

theorem label_records_heads_witness:
  "\<exists>t. create_label ref_am ''v1'' demo = (Ok (), t) \<and> get_label_heads ref_am ''v1'' t = (Ok [nth_hash 0], t) \<and>
    ref_known (inner t) [nth_hash 0] (view_tree demo_view)"
proof (rule label_records_heads [OF ref.automerge_history_axioms demo_displays])
  show "am_get_heads ref_am (inner demo) = ([nth_hash 0], ref_commit (inner demo) 0)"
    by (simp add: ref_am_def ref_commit_def ref_clean_def ref_head_def demo_def demo_tree_def Let_def)
qed (simp_all add: labels_wf_def demo_view_def length_nth_hash)

text \<open>
  C2. \<open>restore_to_heads\<close> brings back the live files (path, id and content) and the live
  directories of the state the heads name, keeps the labels, and keeps the vault sound.
\<close>

theorem restore_refines:
  assumes "automerge_history am tree oid known" "sound tree s v" "known (inner s) hs (view_tree u)"
    and "vault_ok u" "bodies_ok u" "fresh_ids s u" "permutes order" "permutes dir_order"
  shows "\<exists>t v'. restore_to_heads am order dir_order hs s = (Ok (), t) \<and> sound tree t v' \<and> restored v u v'"
  using automerge_history.restore_run [OF assms] by metis


theorem restore_refines_witness:
  "\<exists>t v'. restore_to_heads ref_am id id [nth_hash 0] purged = (Ok (), t) \<and> sound ref_tree t v' \<and>
    restored purged_view demo_view v'"
proof (rule restore_refines [OF ref.automerge_history_axioms purged_sound purged_known])
  show "fresh_ids purged demo_view"
    using demo_sound by (simp add: sound_def fresh_ids_def demo_def purged_def)
qed (use demo_sound demo_bodies permutes_id in \<open>simp_all add: sound_def\<close>)

text \<open>
  C31. The heads of \<open>heads_at_time\<close> are recorded changes no later than the target, none of them a
  parent of an included change; and every change made by then is reached from them along the
  parents, so no edit made by the target time is lost.
\<close>

theorem heads_at_time_cover:
  assumes "am_get_changes am (inner s) = (cs, d)" "history cs" "permutes order"
  shows "\<exists>hs. heads_at_time am order target s = (Ok hs, s\<lparr>inner := d\<rparr>) \<and>
    set hs \<subseteq> {ch_hash c |c. c \<in> set cs \<and> ch_time c \<le> target} \<and>
    (\<forall>c \<in> set cs. ch_time c \<le> target \<longrightarrow>
       set (ch_deps c) \<inter> set hs = {} \<and> (\<exists>h \<in> set hs. reaches cs h (ch_hash c)))"
proof (intro exI conjI)
  let ?inc = "included_hashes cs target" and ?hs = "order (drop_deps cs (included_hashes cs target))"
  show "heads_at_time am order target s = (Ok ?hs, s\<lparr>inner := d\<rparr>)"
    by (simp add: heads_at_time_def assms(1))
  have hs: "set ?hs = set (drop_deps cs ?inc)" using assms(3) by (simp add: permutes_def)
  then show "set ?hs \<subseteq> {ch_hash c |c. c \<in> set cs \<and> ch_time c \<le> target}"
    by (auto simp: set_drop_deps set_included)
  show "\<forall>c \<in> set cs. ch_time c \<le> target \<longrightarrow>
      set (ch_deps c) \<inter> set ?hs = {} \<and> (\<exists>h \<in> set ?hs. reaches cs h (ch_hash c))"
    using included_reached [OF assms(2), of _ target] unfolding hs
    by (auto simp: set_drop_deps set_included)
qed

theorem heads_at_time_cover_witness:
  "\<exists>hs h. heads_at_time ref_am id 7 purged = (Ok hs, purged\<lparr>inner := ref_commit (inner purged) 0\<rparr>) \<and>
    h \<in> set hs \<and> reaches (ref_changes [(5, demo_tree), (0, purged_tree)]) h (nth_hash 0)"
proof -
  have "\<exists>hs. heads_at_time ref_am id 7 purged = (Ok hs, purged\<lparr>inner := ref_commit (inner purged) 0\<rparr>) \<and>
    set hs \<subseteq> {ch_hash c |c. c \<in> set (ref_changes [(5, demo_tree), (0, purged_tree)]) \<and> ch_time c \<le> 7} \<and>
    (\<forall>c \<in> set (ref_changes [(5, demo_tree), (0, purged_tree)]). ch_time c \<le> 7 \<longrightarrow> set (ch_deps c) \<inter> set hs = {} \<and>
       (\<exists>h \<in> set hs. reaches (ref_changes [(5, demo_tree), (0, purged_tree)]) h (ch_hash c)))"
    by (rule heads_at_time_cover [OF purged_changes two_changes_history permutes_id])
  then show ?thesis unfolding two_changes by auto
qed

text \<open>
  The byte form of heads that labels store round-trips: decoding inverts encoding, and a
  buffer that decodes is the encoding of its 32-byte hashes; any other length is an error.
\<close>

lemma heads_codec:
  assumes "\<forall>h \<in> set hs. length h = 32"
  shows "decode_heads (encode_heads hs) = Ok hs \<and>
    (case decode_heads bs of Inr gs \<Rightarrow> encode_heads gs = bs \<and> (\<forall>g \<in> set gs. length g = 32)
                           | Inl _ \<Rightarrow> length bs mod 32 \<noteq> 0)"
  using decode_encode [OF assms] concat_chunks_exact [of bs] chunks_exact_hashes [of _ bs]
  by (simp add: decode_heads_def encode_heads_def)

end
