(* ===== verification/Disk.thy ===== *)
theory Disk
  imports RustStd
begin

text \<open>
  The part of \<^verbatim>\<open>std::fs\<close>, \<^verbatim>\<open>tokio::fs\<close> and \<^verbatim>\<open>std::path\<close> the code uses, as operations on an
  explicit file tree. A path is its list of components from the root. Every system call may
  fail: \<open>d_fault n\<close> says that the n-th one does, and a failing write may leave the first
  \<open>d_cut n\<close> bytes behind, so a theorem over all faults covers a crash between two calls too.
\<close>

section \<open>Paths\<close>

type_synonym fpath = "string list"

text \<open>
  \<^verbatim>\<open>Path::join\<close> with what the system makes of the result: an absolute argument replaces the
  base, empty and dot components are skipped, and two dots go up.
\<close>

fun resolve :: "fpath \<Rightarrow> string list \<Rightarrow> fpath" where
  "resolve acc [] = acc"
| "resolve acc (c # cs) =
     (if c = [] \<or> c = ''.'' then resolve acc cs
      else if c = ''..'' then resolve (butlast acc) cs
      else resolve (acc @ [c]) cs)"

definition path_join :: "fpath \<Rightarrow> string \<Rightarrow> fpath" where
  "path_join base s =
     resolve (if starts_with s ''/'' then [] else base) (split_on (CHR ''/'') s)"

definition plain_component :: "string \<Rightarrow> bool" where
  "plain_component s \<longleftrightarrow> s \<noteq> [] \<and> s \<noteq> ''.'' \<and> s \<noteq> ''..'' \<and> CHR ''/'' \<notin> set s"

lemma path_join_plain: "plain_component s \<Longrightarrow> path_join base s = base @ [s]"
  by (cases s) (auto simp: plain_component_def path_join_def starts_with_def split_on_clean)

text \<open>\<^verbatim>\<open>Path::display\<close> of an absolute path.\<close>

definition show_path :: "fpath \<Rightarrow> string" where
  "show_path p = ''/'' @ join ''/'' p"

section \<open>The file tree\<close>

datatype file_node = DFile "byte list" nat | DDir

record disk =
  d_nodes :: "fpath \<rightharpoonup> file_node"
  d_calls :: nat
  d_fault :: "nat \<Rightarrow> bool"
  d_cut :: "nat \<Rightarrow> nat"

definition io_not_found :: error where
  "io_not_found = Io ''not found''"

definition io_fault :: error where
  "io_fault = Io ''input/output error''"

definition io_other :: error where
  "io_other = Io ''not a file or directory of the right kind''"

definition is_dir :: "disk \<Rightarrow> fpath \<Rightarrow> bool" where
  "is_dir d p \<longleftrightarrow> p = [] \<or> d_nodes d p = Some DDir"

definition file_at :: "disk \<Rightarrow> fpath \<Rightarrow> byte list option" where
  "file_at d p = (case d_nodes d p of Some (DFile bs _) \<Rightarrow> Some bs | _ \<Rightarrow> None)"

definition tick :: "disk \<Rightarrow> disk" where
  "tick d = d\<lparr>d_calls := Suc (d_calls d)\<rparr>"

abbreviation faulty :: "disk \<Rightarrow> bool" where
  "faulty d \<equiv> d_fault d (d_calls d)"

definition set_node :: "fpath \<Rightarrow> file_node option \<Rightarrow> disk \<Rightarrow> disk" where
  "set_node p n d = d\<lparr>d_nodes := (d_nodes d)(p := n)\<rparr>"

text \<open>A file can be created or truncated at \<open>p\<close>.\<close>

definition can_open :: "disk \<Rightarrow> fpath \<Rightarrow> bool" where
  "can_open d p \<longleftrightarrow> p \<noteq> [] \<and> is_dir d (butlast p) \<and> d_nodes d p \<noteq> Some DDir"

text \<open>An existing file keeps its permissions.\<close>

definition mode_for :: "disk \<Rightarrow> fpath \<Rightarrow> nat \<Rightarrow> nat" where
  "mode_for d p mode = (case d_nodes d p of Some (DFile _ m) \<Rightarrow> m | _ \<Rightarrow> mode)"

section \<open>System calls\<close>

definition fs_read :: "fpath \<Rightarrow> (disk, byte list) action" where
  "fs_read p d =
     (if faulty d then (Err io_fault, tick d)
      else case d_nodes d p of
        Some (DFile bs _) \<Rightarrow> (Ok bs, tick d)
      | Some DDir \<Rightarrow> (Err io_other, tick d)
      | None \<Rightarrow> (Err (if p = [] then io_other else io_not_found), tick d))"

text \<open>Create or truncate with the given mode, then write.\<close>

definition fs_write_mode :: "fpath \<Rightarrow> byte list \<Rightarrow> nat \<Rightarrow> (disk, unit) action" where
  "fs_write_mode p bs mode d =
     (if \<not> can_open d p
      then (Err (if d_nodes d p = Some DDir then io_other else io_not_found), tick d)
      else if faulty d
      then (Err io_fault,
            tick (set_node p (Some (DFile (take (d_cut d (d_calls d)) bs) (mode_for d p mode))) d))
      else (Ok (), tick (set_node p (Some (DFile bs (mode_for d p mode))) d)))"

definition fs_write :: "fpath \<Rightarrow> byte list \<Rightarrow> (disk, unit) action" where
  "fs_write p bs = fs_write_mode p bs 420"

definition fs_rename :: "fpath \<Rightarrow> fpath \<Rightarrow> (disk, unit) action" where
  "fs_rename a b d =
     (if faulty d then (Err io_fault, tick d)
      else case d_nodes d a of
        Some (DFile bs m) \<Rightarrow>
          if can_open d b
          then (Ok (), tick (set_node b (Some (DFile bs m)) (if a = b then d else set_node a None d)))
          else (Err io_other, tick d)
      | _ \<Rightarrow> (Err io_not_found, tick d))"

definition fs_remove_file :: "fpath \<Rightarrow> (disk, unit) action" where
  "fs_remove_file p d =
     (if faulty d then (Err io_fault, tick d)
      else case d_nodes d p of
        Some (DFile _ _) \<Rightarrow> (Ok (), tick (set_node p None d))
      | Some DDir \<Rightarrow> (Err io_other, tick d)
      | None \<Rightarrow> (Err io_not_found, tick d))"

definition fs_remove_dir :: "fpath \<Rightarrow> (disk, unit) action" where
  "fs_remove_dir p d =
     (if faulty d then (Err io_fault, tick d)
      else case d_nodes d p of
        Some DDir \<Rightarrow>
          if (\<exists>c. d_nodes d (p @ [c]) \<noteq> None) then (Err io_other, tick d)
          else (Ok (), tick (set_node p None d))
      | Some _ \<Rightarrow> (Err io_other, tick d)
      | None \<Rightarrow> (Err io_not_found, tick d))"

definition fs_create_dir_all :: "fpath \<Rightarrow> (disk, unit) action" where
  "fs_create_dir_all p d =
     (if faulty d then (Err io_fault, tick d)
      else if \<exists>k \<in> set [1..<Suc (length p)]. file_at d (take k p) \<noteq> None then (Err io_other, tick d)
      else (Ok (), tick (d\<lparr>d_nodes := (\<lambda>q. if q \<noteq> [] \<and> prefix q p then Some DDir else d_nodes d q)\<rparr>)))"

text \<open>\<^verbatim>\<open>fs::metadata(p).is_ok()\<close> and \<^verbatim>\<open>Path::exists\<close>.\<close>

definition fs_exists :: "fpath \<Rightarrow> (disk, bool) action" where
  "fs_exists p d = (Ok (\<not> faulty d \<and> (p = [] \<or> d_nodes d p \<noteq> None)), tick d)"

section \<open>Facts\<close>

lemma tick_sel [simp]:
  "d_nodes (tick d) = d_nodes d" "d_fault (tick d) = d_fault d" "d_cut (tick d) = d_cut d"
  "d_calls (tick d) = Suc (d_calls d)"
  by (simp_all add: tick_def)

lemma set_node_sel [simp]:
  "d_nodes (set_node p n d) = (d_nodes d)(p := n)" "d_fault (set_node p n d) = d_fault d"
  "d_cut (set_node p n d) = d_cut d" "d_calls (set_node p n d) = d_calls d"
  by (simp_all add: set_node_def)

lemma file_at_tick [simp]: "file_at (tick d) p = file_at d p"
  by (simp add: file_at_def)

lemma file_at_set [simp]:
  "file_at (set_node p n d) q = (if q = p then (case n of Some (DFile bs _) \<Rightarrow> Some bs | _ \<Rightarrow> None)
     else file_at d q)"
  by (simp add: file_at_def)

lemma read_keeps: "fs_read p d = (r, e) \<Longrightarrow> d_nodes e = d_nodes d"
  by (auto simp: fs_read_def split: if_splits option.splits file_node.splits)

lemma exists_keeps: "fs_exists p d = (r, e) \<Longrightarrow> d_nodes e = d_nodes d"
  by (auto simp: fs_exists_def)

text \<open>A write, failed or not, touches one path, and leaves a prefix of the bytes there.\<close>

lemma write_frame: "fs_write p bs d = (r, e) \<Longrightarrow> q \<noteq> p \<Longrightarrow> d_nodes e q = d_nodes d q"
  by (auto simp: fs_write_def fs_write_mode_def split: if_splits)

lemma write_Ok: "fs_write p bs d = (Ok u, e) \<Longrightarrow> file_at e p = Some bs"
  by (auto simp: fs_write_def fs_write_mode_def split: if_splits)

lemma write_mode_frame: "fs_write_mode p bs m d = (r, e) \<Longrightarrow> q \<noteq> p \<Longrightarrow> d_nodes e q = d_nodes d q"
  by (auto simp: fs_write_mode_def split: if_splits)

lemma write_mode_Ok: "fs_write_mode p bs m d = (Ok u, e) \<Longrightarrow> file_at e p = Some bs"
  by (auto simp: fs_write_mode_def split: if_splits)

text \<open>A rename is all or nothing.\<close>

lemma rename_Err: "fs_rename a b d = (Err x, e) \<Longrightarrow> d_nodes e = d_nodes d"
  by (auto simp: fs_rename_def split: if_splits option.splits file_node.splits)

lemma rename_Ok:
  assumes "fs_rename a b d = (Ok u, e)" "a \<noteq> b"
  shows "file_at e b = file_at d a" "file_at d a \<noteq> None" "d_nodes e a = None"
    "q \<noteq> a \<Longrightarrow> q \<noteq> b \<Longrightarrow> d_nodes e q = d_nodes d q"
  using assms by (auto simp: fs_rename_def file_at_def split: if_splits option.splits file_node.splits)

text \<open>Creating directories never changes a file.\<close>

lemma create_dir_all_files:
  assumes "fs_create_dir_all p d = (r, e)"
  shows "file_at e q = file_at d q"
proof (cases "q \<noteq> [] \<and> prefix q p")
  case False
  with assms show ?thesis by (auto simp: fs_create_dir_all_def file_at_def split: if_splits)
next
  case True
  then obtain k where k: "k \<in> set [1..<Suc (length p)]" "q = take k p"
    by (auto simp: prefix_def intro!: that [of "length q"] simp del: upt_Suc) (cases q, auto)
  show ?thesis
  proof (cases "r")
    case (Inl x)
    with assms show ?thesis by (auto simp: fs_create_dir_all_def split: if_splits)
  next
    case (Inr x)
    with assms k have "file_at d q = None" by (auto simp: fs_create_dir_all_def split: if_splits)
    moreover have "file_at e q = None"
      using assms Inr True by (auto simp: fs_create_dir_all_def file_at_def split: if_splits)
    ultimately show ?thesis by simp
  qed
qed

lemma create_dir_all_Ok:
  "fs_create_dir_all p d = (Ok u, e) \<Longrightarrow> is_dir e p"
  by (auto simp: fs_create_dir_all_def is_dir_def split: if_splits)

end
