(* ===== verification/Identity.thy ===== *)
theory Identity
  imports Crypto Disk
begin

text \<open>
  \<^verbatim>\<open>crates/agentsync-core/src/identity.rs\<close>: device identities and public keys, their text and
  wire encodings, the identity file, and the client side of the ssh-agent protocol. The agent
  is a parameter: what it answers to each request message.
\<close>

section \<open>Identities\<close>

definition PUBKEY_LEN :: nat where "PUBKEY_LEN = 32"
definition SIGNATURE_LEN :: nat where "SIGNATURE_LEN = 64"
definition SECRET_KEY_LENGTH :: nat where "SECRET_KEY_LENGTH = 32"
definition SSH_KEY_TYPE :: string where "SSH_KEY_TYPE = ''ssh-ed25519''"

text \<open>\<^verbatim>\<open>Pubkey([u8; 32])\<close>.\<close>

type_synonym pubkey = "byte list"

datatype identity = FileId "byte list" pubkey | AgentId fpath pubkey

definition identity_from_seed :: "crypto \<Rightarrow> byte list \<Rightarrow> identity" where
  "identity_from_seed c seed = FileId seed (ed_public c seed)"

definition identity_from_agent :: "fpath \<Rightarrow> pubkey \<Rightarrow> identity" where
  "identity_from_agent socket pk = AgentId socket pk"

fun identity_pubkey :: "identity \<Rightarrow> pubkey" where
  "identity_pubkey (FileId _ pk) = pk"
| "identity_pubkey (AgentId _ pk) = pk"

fun identity_seed :: "identity \<Rightarrow> byte list result" where
  "identity_seed (FileId seed _) = Ok seed"
| "identity_seed (AgentId _ _) = Err (Auth ''agent-backed identity has no exportable seed'')"

section \<open>Public keys on the wire and as text\<close>

definition pubkey_from_bytes :: "byte list \<Rightarrow> pubkey result" where
  "pubkey_from_bytes bs =
     (if length bs \<noteq> PUBKEY_LEN
      then Err (Auth (''pubkey wrong length: got '' @ show_nat (length bs) @ '' bytes, want '' @
             show_nat PUBKEY_LEN))
      else Ok bs)"

definition encode_ssh_wire :: "pubkey \<Rightarrow> byte list" where
  "encode_ssh_wire pk =
     u32_be (length SSH_KEY_TYPE) @ as_bytes SSH_KEY_TYPE @ u32_be PUBKEY_LEN @ pk"

text \<open>A length-prefixed string at the cursor, and the cursor behind it.\<close>

definition read_ssh_string :: "byte list \<Rightarrow> nat \<Rightarrow> (byte list \<times> nat) result" where
  "read_ssh_string buf cursor =
     (if length buf < cursor + 4 then Err (Auth ''truncated ssh wire string length'')
      else let len = u32_of_be (take 4 (drop cursor buf)); cur = cursor + 4 in
        if length buf < cur + len then Err (Auth ''truncated ssh wire string body'')
        else Ok (take len (drop cur buf), cur + len))"

definition decode_ssh_wire :: "byte list \<Rightarrow> pubkey result" where
  "decode_ssh_wire wire =
     bind_result (read_ssh_string wire 0) (\<lambda>(kind, cur).
     if kind \<noteq> as_bytes SSH_KEY_TYPE then Err (Auth ''ssh pubkey type tag mismatch'')
     else bind_result (read_ssh_string wire cur) (\<lambda>(body, _).
       if length body \<noteq> PUBKEY_LEN
       then Err (Auth (''ssh pubkey body wrong length: got '' @ show_nat (length body) @ '', want '' @
              show_nat PUBKEY_LEN))
       else Ok body))"

definition to_ssh_string :: "crypto \<Rightarrow> pubkey \<Rightarrow> string" where
  "to_ssh_string c pk = SSH_KEY_TYPE @ '' '' @ b64_encode c (encode_ssh_wire pk)"

definition from_ssh_string :: "crypto \<Rightarrow> string \<Rightarrow> pubkey result" where
  "from_ssh_string c s =
     (case split_whitespace (trim s) of
        [] \<Rightarrow> Err (Auth ''empty ssh pubkey string'')
      | kind # rest \<Rightarrow>
          if kind \<noteq> SSH_KEY_TYPE then Err (Auth ''unsupported pubkey type'')
          else (case rest of
            [] \<Rightarrow> Err (Auth ''missing base64 portion of ssh pubkey'')
          | b64 # _ \<Rightarrow>
              (case b64_decode c b64 of
                 None \<Rightarrow> Err (Auth ''ssh pubkey base64'')
               | Some wire \<Rightarrow> decode_ssh_wire wire)))"

definition fingerprint_sha256 :: "crypto \<Rightarrow> pubkey \<Rightarrow> string" where
  "fingerprint_sha256 c pk = ''SHA256:'' @ b64np_encode c (sha256 c (encode_ssh_wire pk))"

text \<open>Keys that are no curve points verify nothing, which is part of \<open>ed_verify\<close>.\<close>

definition pubkey_verify :: "crypto \<Rightarrow> pubkey \<Rightarrow> byte list \<Rightarrow> byte list \<Rightarrow> bool" where
  "pubkey_verify c pk msg sig \<longleftrightarrow> length sig = SIGNATURE_LEN \<and> ed_verify c pk msg sig"

section \<open>The identity file\<close>

definition identity_body :: "crypto \<Rightarrow> byte list \<Rightarrow> string" where
  "identity_body c seed = ''agentsync-identity-v1 '' @ b64np_encode c seed @ [CHR 0x0A]"

text \<open>\<^verbatim>\<open>Path::extension\<close> and \<^verbatim>\<open>Path::with_extension\<close> on a file name.\<close>

definition name_extension :: "string \<Rightarrow> string option" where
  "name_extension name =
     (case rfind (CHR ''.'') name of Some (Suc i) \<Rightarrow> Some (drop (Suc (Suc i)) name) | _ \<Rightarrow> None)"

definition name_stem :: "string \<Rightarrow> string" where
  "name_stem name = (case rfind (CHR ''.'') name of Some (Suc i) \<Rightarrow> take (Suc i) name | _ \<Rightarrow> name)"

definition with_extension :: "fpath \<Rightarrow> string \<Rightarrow> fpath" where
  "with_extension p ext = butlast p @ [name_stem (last p) @ ''.'' @ ext]"

definition pubkey_sidecar :: "fpath \<Rightarrow> fpath" where
  "pubkey_sidecar secret_path =
     (case name_extension (last secret_path) of
        Some e \<Rightarrow> with_extension secret_path (e @ ''.pub'')
      | None \<Rightarrow> with_extension secret_path ''pub'')"

definition write_with_mode :: "fpath \<Rightarrow> byte list \<Rightarrow> nat \<Rightarrow> (disk, unit) action" where
  "write_with_mode p bs mode =
     andthen (if p \<noteq> [] then fs_create_dir_all (butlast p) else ret ()) (\<lambda>_. fs_write_mode p bs mode)"

definition save_to_file :: "crypto \<Rightarrow> identity \<Rightarrow> fpath \<Rightarrow> (disk, unit) action" where
  "save_to_file c i p =
     andthen (lift (identity_seed i)) (\<lambda>seed.
     andthen (write_with_mode p (as_bytes (identity_body c seed)) 384) (\<lambda>_.
     fs_write (pubkey_sidecar p) (as_bytes (to_ssh_string c (identity_pubkey i) @ [CHR 0x0A]))))"

definition parse_identity :: "crypto \<Rightarrow> fpath \<Rightarrow> byte list \<Rightarrow> identity result" where
  "parse_identity c p bs =
     bind_result (ok_or InvalidUtf8 (from_utf8 bs)) (\<lambda>s.
     bind_result (ok_or (Auth (''empty identity file at '' @ show_path p))
       (case lines s of [] \<Rightarrow> None | l # _ \<Rightarrow> Some l)) (\<lambda>line.
     bind_result (ok_or (Auth (''identity file at '' @ show_path p @
         '' is not in agentsync-identity-v1 format''))
       (strip_prefix ''agentsync-identity-v1 '' line)) (\<lambda>rest.
     bind_result (ok_or (Auth ''identity file base64 decode'') (b64np_decode c (trim rest))) (\<lambda>seed.
     if length seed \<noteq> SECRET_KEY_LENGTH
     then Err (Auth (''identity seed wrong length: got '' @ show_nat (length seed) @ '' bytes, want '' @
            show_nat SECRET_KEY_LENGTH))
     else Ok (identity_from_seed c seed)))))"

definition load_from_file :: "crypto \<Rightarrow> fpath \<Rightarrow> (disk, identity) action" where
  "load_from_file c p = andthen (fs_read p) (\<lambda>bs. lift (parse_identity c p bs))"

section \<open>The ssh-agent protocol\<close>

definition SSH_AGENTC_REQUEST_IDENTITIES :: byte where "SSH_AGENTC_REQUEST_IDENTITIES = 11"
definition SSH_AGENT_IDENTITIES_ANSWER :: byte where "SSH_AGENT_IDENTITIES_ANSWER = 12"
definition SSH_AGENTC_SIGN_REQUEST :: byte where "SSH_AGENTC_SIGN_REQUEST = 13"
definition SSH_AGENT_SIGN_RESPONSE :: byte where "SSH_AGENT_SIGN_RESPONSE = 14"
definition SSH_AGENT_FAILURE :: byte where "SSH_AGENT_FAILURE = 5"

text \<open>
  The socket: what the agent at a path sends back for a request, \<open>None\<close> when the connection,
  the write or the read fails. \<open>read_message\<close> takes the length prefix off the answer.
\<close>

type_synonym agent = "fpath \<Rightarrow> byte list \<Rightarrow> byte list option"

definition read_message :: "byte list option \<Rightarrow> byte list result" where
  "read_message answer =
     (case answer of None \<Rightarrow> Err (Auth ''ssh-agent read len'')
      | Some bs \<Rightarrow>
          if length bs < 4 then Err (Auth ''ssh-agent read len'')
          else let len = u32_of_be (take 4 bs) in
            if length bs < 4 + len then Err (Auth ''ssh-agent read body'')
            else Ok (take len (drop 4 bs)))"

definition write_string :: "byte list \<Rightarrow> byte list \<Rightarrow> byte list" where
  "write_string out s = out @ u32_be (length s) @ s"

text \<open>The loop over the announced keys; only the ed25519 ones are kept.\<close>

fun read_identities :: "byte list \<Rightarrow> nat \<Rightarrow> nat \<Rightarrow> pubkey list \<Rightarrow> pubkey list result" where
  "read_identities resp 0 cursor keys = Ok keys"
| "read_identities resp (Suc n) cursor keys =
     bind_result (read_ssh_string resp cursor) (\<lambda>(blob, cur).
     bind_result (read_ssh_string resp cur) (\<lambda>(_, cur').
       read_identities resp n cur'
         (case decode_ssh_wire blob of Inr raw \<Rightarrow> keys @ [raw] | Inl _ \<Rightarrow> keys)))"

definition agent_list_identities :: "agent \<Rightarrow> fpath \<Rightarrow> pubkey list result" where
  "agent_list_identities agent socket =
     bind_result (read_message (agent socket (u32_be 1 @ [SSH_AGENTC_REQUEST_IDENTITIES]))) (\<lambda>resp.
     if resp = [] \<or> hd resp \<noteq> SSH_AGENT_IDENTITIES_ANSWER
     then Err (Auth ''ssh-agent did not return identities'')
     else if length resp < 5 then Err (Auth ''ssh-agent identities response truncated'')
     else read_identities resp (u32_of_be (take 4 (drop 1 resp))) 5 [])"

definition sign_request :: "pubkey \<Rightarrow> byte list \<Rightarrow> byte list" where
  "sign_request pk msg =
     (let payload = write_string (write_string [SSH_AGENTC_SIGN_REQUEST] (encode_ssh_wire pk)) msg @ u32_be 0
      in u32_be (length payload) @ payload)"

definition parse_sign_response :: "byte list \<Rightarrow> byte list result" where
  "parse_sign_response resp =
     (if resp = [] then Err (Auth ''ssh-agent empty response'')
      else if hd resp = SSH_AGENT_SIGN_RESPONSE then
        bind_result (read_ssh_string resp 1) (\<lambda>(sig_blob, _).
        bind_result (read_ssh_string sig_blob 0) (\<lambda>(kind, cur).
        if kind \<noteq> as_bytes SSH_KEY_TYPE then Err (Auth ''ssh-agent returned unexpected key type'')
        else bind_result (read_ssh_string sig_blob cur) (\<lambda>(sig_bytes, _).
          if length sig_bytes \<noteq> SIGNATURE_LEN
          then Err (Auth (''ssh-agent returned signature of wrong length: '' @ show_nat (length sig_bytes)))
          else Ok sig_bytes)))
      else if hd resp = SSH_AGENT_FAILURE
      then Err (Auth ''ssh-agent refused to sign (user cancelled, key locked, or wrong key)'')
      else Err (Auth (''ssh-agent returned unexpected response type '' @ show_nat (unat (hd resp)))))"

definition agent_sign :: "agent \<Rightarrow> crypto \<Rightarrow> fpath \<Rightarrow> pubkey \<Rightarrow> byte list \<Rightarrow> byte list result" where
  "agent_sign agent c socket pk msg =
     bind_result (agent_list_identities agent socket) (\<lambda>identities.
     if pk \<notin> set identities
     then Err (Auth (''ssh-agent at '' @ show_path socket @ '' has no key matching '' @ fingerprint_sha256 c pk))
     else bind_result (read_message (agent socket (sign_request pk msg))) parse_sign_response)"

definition identity_sign :: "agent \<Rightarrow> crypto \<Rightarrow> identity \<Rightarrow> byte list \<Rightarrow> byte list result" where
  "identity_sign agent c i msg =
     (case i of
        FileId seed _ \<Rightarrow> Ok (ed_sign c seed msg)
      | AgentId socket pk \<Rightarrow> agent_sign agent c socket pk msg)"

section \<open>Encodings\<close>

lemma read_ssh_string_here:
  assumes "length s < 4294967296"
  shows "read_ssh_string (p @ u32_be (length s) @ s @ r) (length p) = Ok (s, length p + 4 + length s)"
  using assms by (simp add: read_ssh_string_def u32_of_be_u32_be)

lemma decode_encode_wire:
  assumes "length pk = 32"
  shows "decode_ssh_wire (encode_ssh_wire pk) = Ok pk"
proof -
  let ?k = "as_bytes SSH_KEY_TYPE"
  have k: "length ?k = 11" by (simp add: SSH_KEY_TYPE_def)
  have 1: "read_ssh_string (encode_ssh_wire pk) 0 = Ok (?k, 15)"
    using read_ssh_string_here [of ?k "[]" "u32_be PUBKEY_LEN @ pk"] k
    by (simp add: encode_ssh_wire_def)
  have 2: "read_ssh_string (encode_ssh_wire pk) 15 = Ok (pk, 51)"
    using read_ssh_string_here [of pk "u32_be (length SSH_KEY_TYPE) @ ?k" "[]"] k assms
    by (simp add: encode_ssh_wire_def PUBKEY_LEN_def)
  show ?thesis by (simp add: decode_ssh_wire_def 1 2 assms PUBKEY_LEN_def)
qed

lemma decode_wire_length: "decode_ssh_wire w = Ok pk \<Longrightarrow> length pk = 32"
  by (auto simp: decode_ssh_wire_def bind_result_eq_Inr PUBKEY_LEN_def split: if_splits prod.splits)

lemma encode_wire_ne: "encode_ssh_wire pk \<noteq> []"
proof -
  have "0 < length (encode_ssh_wire pk)" by (simp add: encode_ssh_wire_def)
  then show ?thesis by (metis length_greater_0_conv)
qed

lemma ssh_key_type_plain: "\<forall>x \<in> set SSH_KEY_TYPE. plain_char x"
  by (simp add: SSH_KEY_TYPE_def plain_char_def byte_of_def)

lemma split_whitespace_plain:
  "\<forall>x \<in> set a. plain_char x \<Longrightarrow> a \<noteq> [] \<Longrightarrow> split_whitespace a = [a]"
  by (simp add: split_whitespace_def split_ws.simps [of a] split_ws_once_plain)

lemma split_whitespace_cons:
  "\<forall>x \<in> set a. plain_char x \<Longrightarrow> a \<noteq> [] \<Longrightarrow>
   split_whitespace (a @ CHR 0x20 # r) = a # split_whitespace r"
  by (simp add: split_whitespace_def split_ws.simps [of "a @ CHR 0x20 # r"] split_ws_once_sep)

lemma trim_plain_ends:
  assumes "s \<noteq> []" "plain_char (hd s)" "plain_char (last s)"
  shows "trim s = s"
proof (rule trim_id)
  show "ws_len s = 0" using assms(1,2) by (cases s) simp_all
  show "ws_end_len s = 0" using assms(1,3) by (cases s rule: rev_cases) simp_all
qed

context base64_codec
begin

lemma from_to_ssh_string:
  assumes "length pk = 32"
  shows "from_ssh_string c (to_ssh_string c pk) = Ok pk"
proof -
  let ?b = "b64_encode c (encode_ssh_wire pk)"
  have b: "\<forall>x \<in> set ?b. plain_char x" "?b \<noteq> []" using b64_plain b64_ne [OF encode_wire_ne] by auto
  have t: "trim (to_ssh_string c pk) = to_ssh_string c pk"
    by (rule trim_plain_ends)
      (use b ssh_key_type_plain in \<open>auto simp: to_ssh_string_def SSH_KEY_TYPE_def\<close>)
  have "split_whitespace (to_ssh_string c pk) = [SSH_KEY_TYPE, ?b]"
    using split_whitespace_cons [OF ssh_key_type_plain, of ?b] split_whitespace_plain [OF b]
    by (simp add: to_ssh_string_def SSH_KEY_TYPE_def)
  then show ?thesis
    by (simp add: from_ssh_string_def t b64_inverse decode_encode_wire [OF assms])
qed

lemma identity_body_line:
  "lines (identity_body c seed) = [''agentsync-identity-v1 '' @ b64np_encode c seed]"
proof -
  have "CHR 0x0A \<notin> set (''agentsync-identity-v1 '' @ b64np_encode c seed)"
    using b64np_plain [of seed] by (auto simp: plain_char_def byte_of_def)
  moreover have "strip_cr (''agentsync-identity-v1 '' @ b64np_encode c seed) =
      ''agentsync-identity-v1 '' @ b64np_encode c seed"
    using b64np_plain [of seed]
    by (cases "b64np_encode c seed" rule: rev_cases) (auto simp: strip_cr_def plain_char_def byte_of_def)
  ultimately show ?thesis
    using lines_cons [of "''agentsync-identity-v1 '' @ b64np_encode c seed" "[]"]
    by (simp add: identity_body_def)
qed

lemma parse_identity_body:
  assumes "length seed = 32"
  shows "parse_identity c p (as_bytes (identity_body c seed)) = Ok (identity_from_seed c seed)"
proof -
  have np: "\<forall>x \<in> set (b64np_encode c seed). plain_char x" "b64np_encode c seed \<noteq> []"
  proof -
    show "\<forall>x \<in> set (b64np_encode c seed). plain_char x" by (rule b64np_plain)
    have "seed \<noteq> []" using assms by auto
    then show "b64np_encode c seed \<noteq> []" by (rule b64np_ne)
  qed
  have "\<forall>x \<in> set (identity_body c seed). byte_of x < 128"
    using np(1) by (auto simp: identity_body_def plain_char_def byte_of_def)
  then have u: "from_utf8 (as_bytes (identity_body c seed)) = Some (identity_body c seed)"
    by (simp add: from_utf8_def utf8_valid_ascii)
  have t: "trim (b64np_encode c seed) = b64np_encode c seed"
    by (rule trim_plain_ends) (use np in auto)
  show ?thesis
    by (simp only: parse_identity_def u identity_body_line t b64np_inverse assms SECRET_KEY_LENGTH_def
        ok_or.simps bind_result_simps list.case strip_prefix_append not_True_eq_False if_False simp_thms)
qed

end

section \<open>Saving and loading\<close>

lemma rfind_Some: "rfind c s = Some i \<Longrightarrow> i < length s \<and> s ! i = c"
  by (induction s arbitrary: i) (auto split: option.splits if_splits)

lemma pubkey_sidecar_name:
  "p \<noteq> [] \<Longrightarrow> pubkey_sidecar p = butlast p @ [last p @ ''.pub'']"
proof -
  let ?n = "last p"
  have "take (Suc i) ?n @ ''.'' @ drop (Suc (Suc i)) ?n = ?n" if "rfind (CHR ''.'') ?n = Some (Suc i)" for i
    using rfind_Some [OF that] id_take_nth_drop [of "Suc i" ?n] by simp
  then show ?thesis
    by (auto simp: pubkey_sidecar_def name_extension_def with_extension_def name_stem_def
        split: option.splits nat.splits)
qed

lemma save_to_file_Ok:
  assumes "save_to_file c (FileId seed pk) p d = (Ok (), e)" "p \<noteq> []"
  shows "file_at e p = Some (as_bytes (identity_body c seed))"
    "file_at e (pubkey_sidecar p) = Some (as_bytes (to_ssh_string c pk @ [CHR 0x0A]))"
proof -
  from assms obtain d1 d2 where w: "fs_write_mode p (as_bytes (identity_body c seed)) 384 d1 = (Ok (), d2)"
    "fs_write (pubkey_sidecar p) (as_bytes (to_ssh_string c pk @ [CHR 0x0A])) d2 = (Ok (), e)"
    by (auto simp: save_to_file_def write_with_mode_def andthen_eq_Inr lift_run)
  have ne: "pubkey_sidecar p \<noteq> p"
  proof
    assume "pubkey_sidecar p = p"
    then have "last p @ ''.pub'' = last p" using pubkey_sidecar_name [OF assms(2)] assms(2) by (metis last_snoc)
    then show False by simp
  qed
  have "d_nodes e p = d_nodes d2 p" using write_frame [OF w(2)] ne by metis
  then show "file_at e p = Some (as_bytes (identity_body c seed))"
    using write_mode_Ok [OF w(1)] by (simp add: file_at_def)
  show "file_at e (pubkey_sidecar p) = Some (as_bytes (to_ssh_string c pk @ [CHR 0x0A]))"
    by (rule write_Ok [OF w(2)])
qed

lemma save_agent_fails:
  "save_to_file c (AgentId socket pk) p d =
     (Err (Auth ''agent-backed identity has no exportable seed''), d)"
  by (simp add: save_to_file_def andthen_run lift_run)

section \<open>Signing through an agent\<close>

text \<open>The answers of an agent that holds the keys \<open>pks\<close> and signs with \<open>sign\<close>.\<close>

definition framed :: "byte list \<Rightarrow> byte list" where
  "framed payload = u32_be (length payload) @ payload"

definition sign_answer :: "byte list \<Rightarrow> byte list" where
  "sign_answer sig = framed (write_string [SSH_AGENT_SIGN_RESPONSE]
     (write_string (write_string [] (as_bytes SSH_KEY_TYPE)) sig))"

fun key_blobs :: "(pubkey \<times> byte list) list \<Rightarrow> byte list" where
  "key_blobs [] = []"
| "key_blobs ((pk, comment) # ks) =
     u32_be (length (encode_ssh_wire pk)) @ encode_ssh_wire pk @ u32_be (length comment) @ comment @ key_blobs ks"

definition identities_answer :: "(pubkey \<times> byte list) list \<Rightarrow> byte list" where
  "identities_answer ks = framed ([SSH_AGENT_IDENTITIES_ANSWER] @ u32_be (length ks) @ key_blobs ks)"

lemma read_framed: "length p < 4294967296 \<Longrightarrow> read_message (Some (framed p)) = Ok p"
  by (simp add: read_message_def framed_def u32_of_be_u32_be)

lemma length_encode_wire: "length pk = 32 \<Longrightarrow> length (encode_ssh_wire pk) = 51"
  by (simp add: encode_ssh_wire_def SSH_KEY_TYPE_def)

lemma read_identities_blobs:
  assumes "\<forall>(pk, comment) \<in> set ks. length pk = 32 \<and> length comment < 4294967296"
  shows "read_identities (pre @ key_blobs ks @ post) (length ks) (length pre) keys = Ok (keys @ map fst ks)"
  using assms
proof (induction ks arbitrary: pre keys)
  case (Cons k ks)
  obtain pk comment where k: "k = (pk, comment)" by fastforce
  with Cons.prems have l: "length pk = 32" "length comment < 4294967296" by auto
  let ?w = "encode_ssh_wire pk"
  let ?pre = "pre @ u32_be (length ?w) @ ?w"
  have 1: "read_ssh_string (pre @ key_blobs (k # ks) @ post) (length pre) = Ok (?w, length ?pre)"
    using read_ssh_string_here [of ?w pre "u32_be (length comment) @ comment @ key_blobs ks @ post"]
      length_encode_wire [OF l(1)] by (simp add: k)
  let ?pre2 = "?pre @ u32_be (length comment) @ comment"
  have 2: "read_ssh_string (pre @ key_blobs (k # ks) @ post) (length ?pre) = Ok (comment, length ?pre2)"
    using read_ssh_string_here [OF l(2), of ?pre "key_blobs ks @ post"] by (simp add: k)
  have 3: "read_identities (pre @ key_blobs (k # ks) @ post) (length ks) (length ?pre2) (keys @ [pk]) =
      Ok ((keys @ [pk]) @ map fst ks)"
    using Cons.IH [of ?pre2 "keys @ [pk]"] Cons.prems by (simp add: k)
  have "read_identities (pre @ key_blobs (k # ks) @ post) (Suc (length ks)) (length pre) keys =
      Ok ((keys @ [pk]) @ map fst ks)"
    unfolding read_identities.simps 1 bind_result_simps prod.case 2 decode_encode_wire [OF l(1)] sum.case
    by (rule 3)
  then show ?case by (simp add: k)
qed simp

lemma agent_lists:
  assumes "agent socket (u32_be 1 @ [SSH_AGENTC_REQUEST_IDENTITIES]) = Some (identities_answer ks)"
    and "\<forall>(pk, comment) \<in> set ks. length pk = 32 \<and> length comment < 4294967296"
    and "length ([SSH_AGENT_IDENTITIES_ANSWER] @ u32_be (length ks) @ key_blobs ks) < 4294967296"
    and "length ks < 4294967296"
  shows "agent_list_identities agent socket = Ok (map fst ks)"
proof -
  let ?p = "[SSH_AGENT_IDENTITIES_ANSWER] @ u32_be (length ks) @ key_blobs ks"
  have "read_identities ?p (length ks) 5 [] = Ok (map fst ks)"
    using read_identities_blobs [OF assms(2), of "[SSH_AGENT_IDENTITIES_ANSWER] @ u32_be (length ks)" "[]" "[]"]
    by simp
  moreover have "u32_of_be (take 4 (drop 1 ?p)) = length ks"
    using assms(4) by (simp add: u32_of_be_u32_be)
  ultimately show ?thesis
    unfolding agent_list_identities_def assms(1) identities_answer_def read_framed [OF assms(3)]
    by simp
qed

lemma parse_sign_answer:
  assumes "length sig = 64"
  shows "bind_result (read_message (Some (sign_answer sig))) parse_sign_response = Ok sig"
proof -
  let ?k = "as_bytes SSH_KEY_TYPE"
  let ?blob = "u32_be (length ?k) @ ?k @ u32_be (length sig) @ sig"
  have k: "length ?k = 11" by (simp add: SSH_KEY_TYPE_def)
  have "read_message (Some (sign_answer sig)) = Ok ([SSH_AGENT_SIGN_RESPONSE] @ u32_be (length ?blob) @ ?blob)"
    using read_framed [of "[SSH_AGENT_SIGN_RESPONSE] @ u32_be (length ?blob) @ ?blob"] assms k
    by (simp add: sign_answer_def write_string_def)
  moreover have "read_ssh_string ([SSH_AGENT_SIGN_RESPONSE] @ u32_be (length ?blob) @ ?blob) 1 =
      Ok (?blob, 5 + length ?blob)"
    using read_ssh_string_here [of ?blob "[SSH_AGENT_SIGN_RESPONSE]" "[]"] assms k by simp
  moreover have "read_ssh_string ?blob 0 = Ok (?k, 15)"
    using read_ssh_string_here [of ?k "[]" "u32_be (length sig) @ sig"] k by simp
  moreover have "read_ssh_string ?blob 15 = Ok (sig, 19 + length sig)"
    using read_ssh_string_here [of sig "u32_be (length ?k) @ ?k" "[]"] k assms by simp
  ultimately show ?thesis
    using assms by (simp add: parse_sign_response_def SIGNATURE_LEN_def)
qed

lemma sign_length:
  assumes "identity_sign agent c i msg = Ok sig" "ed25519 c"
  shows "length sig = 64"
proof (cases i)
  case (FileId seed pk)
  with assms show ?thesis by (auto simp: identity_sign_def ed25519.sign_length)
next
  case (AgentId socket pk)
  with assms(1) show ?thesis
    by (auto simp: identity_sign_def agent_sign_def bind_result_eq_Inr parse_sign_response_def
        SIGNATURE_LEN_def split: if_splits prod.splits)
qed

end
