(* ===== verification/AuthorizedKeys.thy ===== *)
theory AuthorizedKeys
  imports Identity
begin

text \<open>
  \<^verbatim>\<open>crates/agentsync-core/src/peers_md.rs\<close>: the \<^verbatim>\<open>authorized_keys\<close> file of a vault, read line
  by line and rendered, with the legacy markdown form.
\<close>

section \<open>Parsing\<close>

record authorized_peer =
  ap_pubkey :: pubkey
  ap_label :: string

definition em_dash_sep :: string where
  "em_dash_sep = [CHR '' '', CHR 0xE2, CHR 0x80, CHR 0x94, CHR '' '']"

definition en_dash_sep :: string where
  "en_dash_sep = [CHR '' '', CHR 0xE2, CHR 0x80, CHR 0x93, CHR '' '']"

fun split_at_separators :: "string list \<Rightarrow> string \<Rightarrow> string \<times> string" where
  "split_at_separators [] s = (s, [])"
| "split_at_separators (sep # seps) s =
     (case find_sub sep s of
        Some idx \<Rightarrow> (take idx s, trim (drop (length sep) (drop idx s)))
      | None \<Rightarrow> split_at_separators seps s)"

definition split_key_and_label :: "string \<Rightarrow> string \<times> string" where
  "split_key_and_label s = split_at_separators [em_dash_sep, en_dash_sep, '' -- '', '' - ''] s"

definition strip_list_marker :: "string \<Rightarrow> string option" where
  "strip_list_marker line =
     (case strip_prefix ''- '' line of Some r \<Rightarrow> Some r | None \<Rightarrow> strip_prefix ''* '' line)"

definition parse_legacy :: "crypto \<Rightarrow> string \<Rightarrow> authorized_peer option" where
  "parse_legacy c body =
     (let (key_part, label) = split_key_and_label body;
          key_text = trim (trim_matches_char (CHR 0x60) (trim key_part)) in
      case from_ssh_string c key_text of
        Inl _ \<Rightarrow> None
      | Inr pk \<Rightarrow> Some \<lparr>ap_pubkey = pk, ap_label = label\<rparr>)"

definition parse_line :: "crypto \<Rightarrow> string \<Rightarrow> authorized_peer option" where
  "parse_line c raw =
     (let trimmed = trim_start raw in
      if trimmed = [] then None
      else if starts_with trimmed ''#'' then None
      else let body = unwrap_or trimmed (strip_list_marker trimmed) in
        if starts_with body [CHR 0x60] then parse_legacy c body
        else case splitn_ws 3 body of
          kind # blob # rest \<Rightarrow>
            (case from_ssh_string c (kind @ '' '' @ blob) of
               Inl _ \<Rightarrow> None
             | Inr pk \<Rightarrow> Some \<lparr>ap_pubkey = pk,
                                 ap_label = (case rest of [] \<Rightarrow> [] | l # _ \<Rightarrow> trim l)\<rparr>)
        | _ \<Rightarrow> None)"

definition parse_authorized_keys :: "crypto \<Rightarrow> string \<Rightarrow> authorized_peer list" where
  "parse_authorized_keys c content = List.map_filter (parse_line c) (lines content)"

section \<open>Rendering\<close>

definition header_lines :: "string list" where
  "header_lines =
     [''# agentsync authorized_keys'',
      ''#'',
      ''# One ssh-ed25519 public key per line. Lines starting with '' @ [CHR 0x27] @ ''#'' @ [CHR 0x27] @ '' are'',
      ''# comments. Paste '' @ [CHR 0x60] @ ''agentsync key show'' @ [CHR 0x60] @ '' output from any device you'',
      ''# want to authorize.'',
      '''']"

definition render_peer :: "crypto \<Rightarrow> authorized_peer \<Rightarrow> string" where
  "render_peer c p =
     (if ap_label p = [] then to_ssh_string c (ap_pubkey p)
      else to_ssh_string c (ap_pubkey p) @ '' '' @ ap_label p)"

definition render_authorized_keys :: "crypto \<Rightarrow> authorized_peer list \<Rightarrow> string" where
  "render_authorized_keys c peers =
     concat (map (\<lambda>l. l @ [CHR 0x0A]) (header_lines @ map (render_peer c) peers))"

section \<open>What is rendered is parsed back\<close>

text \<open>A label survives when it is on one line and has no white space at its ends.\<close>

definition label_ok :: "string \<Rightarrow> bool" where
  "label_ok l \<longleftrightarrow> trim l = l \<and> CHR 0x0A \<notin> set l"

definition peer_ok :: "authorized_peer \<Rightarrow> bool" where
  "peer_ok p \<longleftrightarrow> length (ap_pubkey p) = 32 \<and> label_ok (ap_label p)"

lemma lines_concat:
  assumes "\<forall>l \<in> set ls. CHR 0x0A \<notin> set l"
  shows "lines (concat (map (\<lambda>l. l @ [CHR 0x0A]) ls)) = map strip_cr ls"
  using assms by (induction ls) (simp_all add: lines_cons)

lemma trim_last_not_cr:
  assumes "trim l = l" "l \<noteq> []"
  shows "byte_of (last l) \<noteq> 13"
proof
  assume cr: "byte_of (last l) = 13"
  have "ws_end_len l = 0" using trim_end_clean [of "trim_start l"] assms(1) by (simp add: trim_def)
  moreover have "ws_len (drop (length l - 1) l) = 1"
  proof -
    have "drop (length l - 1) l = [last l]"
      using assms(2) by (cases l rule: rev_cases) simp_all
    then show ?thesis using cr by (simp add: ascii_ws_def)
  qed
  moreover have "1 \<le> length l" using assms(2) by (cases l) simp_all
  ultimately show False by (simp add: ws_end_len_def)
qed

lemma splitn_ws_plain:
  assumes "\<forall>x \<in> set a. plain_char x" "\<forall>x \<in> set b. plain_char x"
  shows "splitn_ws 3 (a @ CHR 0x20 # b) = [a, b]"
    "splitn_ws 3 (a @ CHR 0x20 # b @ CHR 0x20 # r) = [a, b, r]"
  using split_ws_once_sep [OF assms(1)] split_ws_once_sep [OF assms(2)] split_ws_once_plain [OF assms(2)]
  by (simp_all add: numeral_3_eq_3)

context base64_codec
begin

lemma ssh_string_shape:
  "to_ssh_string c pk = CHR ''s'' # tl SSH_KEY_TYPE @ CHR 0x20 # b64_encode c (encode_ssh_wire pk)"
  by (simp add: to_ssh_string_def SSH_KEY_TYPE_def)

lemma parse_render_peer:
  assumes "peer_ok p"
  shows "parse_line c (render_peer c p) = Some p"
proof -
  let ?b = "b64_encode c (encode_ssh_wire (ap_pubkey p))"
  have k: "length (ap_pubkey p) = 32" and l: "trim (ap_label p) = ap_label p"
    using assms by (simp_all add: peer_ok_def label_ok_def)
  have split: "splitn_ws 3 (render_peer c p) =
      (if ap_label p = [] then [SSH_KEY_TYPE, ?b] else [SSH_KEY_TYPE, ?b, ap_label p])"
    using splitn_ws_plain [OF ssh_key_type_plain b64_plain, of "encode_ssh_wire (ap_pubkey p)"]
    by (simp add: render_peer_def to_ssh_string_def)
  obtain r where r: "render_peer c p = CHR ''s'' # r"
    by (cases "ap_label p = []") (simp_all add: render_peer_def ssh_string_shape)
  have t: "trim_start (render_peer c p) = render_peer c p"
    unfolding r by (rule trim_start_id) (simp add: plain_char_def byte_of_def)
  have h: "\<not> starts_with (render_peer c p) ''#''" "\<not> starts_with (render_peer c p) [CHR 0x60]"
    "strip_list_marker (render_peer c p) = None" "render_peer c p \<noteq> []"
    unfolding r by (simp_all add: starts_with_def strip_list_marker_def strip_prefix_def)
  have s: "from_ssh_string c (SSH_KEY_TYPE @ '' '' @ ?b) = Ok (ap_pubkey p)"
    using from_to_ssh_string [OF k] by (simp add: to_ssh_string_def)
  show ?thesis
  proof (cases "ap_label p = []")
    case True
    then have sp: "splitn_ws 3 (render_peer c p) = [SSH_KEY_TYPE, ?b]" using split by simp
    show ?thesis
      unfolding parse_line_def Let_def t h(3) unwrap_or.simps sp
      using h(1,2,4) s True by simp
  next
    case False
    then have sp: "splitn_ws 3 (render_peer c p) = [SSH_KEY_TYPE, ?b, ap_label p]" using split by simp
    show ?thesis
      unfolding parse_line_def Let_def t h(3) unwrap_or.simps sp
      using h(1,2,4) s l by simp
  qed
qed

lemma render_peer_line:
  assumes "peer_ok p"
  shows "CHR 0x0A \<notin> set (render_peer c p)" "strip_cr (render_peer c p) = render_peer c p"
proof -
  have pl: "\<forall>x \<in> set (b64_encode c (encode_ssh_wire (ap_pubkey p))). plain_char x"
    and ne: "b64_encode c (encode_ssh_wire (ap_pubkey p)) \<noteq> []"
    using b64_plain b64_ne [OF encode_wire_ne] by auto
  have nl: "\<not> plain_char (CHR 0x0A)" by (simp add: plain_char_def byte_of_def)
  then show "CHR 0x0A \<notin> set (render_peer c p)"
    using pl assms by (auto simp: render_peer_def to_ssh_string_def SSH_KEY_TYPE_def peer_ok_def label_ok_def)
  have "byte_of (last (render_peer c p)) \<noteq> 13"
  proof (cases "ap_label p = []")
    case True
    have "plain_char (last (b64_encode c (encode_ssh_wire (ap_pubkey p))))" using pl ne by simp
    with True ne show ?thesis by (auto simp: render_peer_def to_ssh_string_def plain_char_def)
  next
    case False
    with assms trim_last_not_cr [of "ap_label p"] show ?thesis
      by (simp add: render_peer_def peer_ok_def label_ok_def)
  qed
  then show "strip_cr (render_peer c p) = render_peer c p" by (simp add: strip_cr_def)
qed

lemma header_skipped:
  "l \<in> set header_lines \<Longrightarrow> CHR 0x0A \<notin> set l \<and> strip_cr l = l \<and> parse_line c l = None"
proof -
  assume "l \<in> set header_lines"
  then have "l = [] \<or> (\<exists>r. l = CHR ''#'' # r \<and> CHR 0x0A \<notin> set r \<and> strip_cr l = l)"
    by (auto simp: header_lines_def strip_cr_def byte_of_def)
  then show ?thesis
  proof
    assume "\<exists>r. l = CHR ''#'' # r \<and> CHR 0x0A \<notin> set r \<and> strip_cr l = l"
    then obtain r where r: "l = CHR ''#'' # r" "CHR 0x0A \<notin> set r" "strip_cr l = l" by blast
    have "trim_start l = l"
      unfolding r(1) by (rule trim_start_id) (simp add: plain_char_def byte_of_def)
    with r show ?thesis by (simp add: parse_line_def starts_with_def)
  qed (simp add: parse_line_def strip_cr_def)
qed

lemma parse_render:
  assumes "\<forall>p \<in> set peers. peer_ok p"
  shows "parse_authorized_keys c (render_authorized_keys c peers) = peers"
proof -
  let ?ls = "header_lines @ map (render_peer c) peers"
  have nl: "\<forall>l \<in> set ?ls. CHR 0x0A \<notin> set l" and cr: "map strip_cr ?ls = ?ls"
    using header_skipped render_peer_line assms by (auto intro!: map_idI)
  have head: "List.map_filter (parse_line c) header_lines = []"
    using header_skipped by (auto simp: List.map_filter_def filter_empty_conv)
  have "List.map_filter (parse_line c) (map (render_peer c) peers) = peers"
    using assms by (induction peers) (simp_all add: List.map_filter_simps parse_render_peer)
  then show ?thesis
    unfolding parse_authorized_keys_def render_authorized_keys_def lines_concat [OF nl] cr
    using head by (simp add: List.map_filter_def)
qed

end

text \<open>A parsed key always has 32 bytes.\<close>

lemma from_ssh_string_length: "from_ssh_string c s = Ok pk \<Longrightarrow> length pk = 32"
  by (auto simp: from_ssh_string_def decode_wire_length split: list.splits if_splits option.splits)

lemma parse_legacy_key: "parse_legacy c body = Some p \<Longrightarrow> length (ap_pubkey p) = 32"
  by (auto simp: parse_legacy_def Let_def from_ssh_string_length split: sum.splits prod.splits)

lemma parse_line_key:
  assumes "parse_line c l = Some p"
  shows "length (ap_pubkey p) = 32"
proof -
  let ?body = "unwrap_or (trim_start l) (strip_list_marker (trim_start l))"
  show ?thesis
  proof (cases "starts_with ?body [CHR 0x60]")
    case True
    with assms show ?thesis by (auto simp: parse_line_def Let_def parse_legacy_key split: if_splits)
  next
    case False
    with assms obtain kind blob rest where
      "splitn_ws 3 ?body = kind # blob # rest"
      "(case from_ssh_string c (kind @ '' '' @ blob) of Inl _ \<Rightarrow> None
        | Inr pk \<Rightarrow> Some \<lparr>ap_pubkey = pk, ap_label = (case rest of [] \<Rightarrow> [] | l # _ \<Rightarrow> trim l)\<rparr>) = Some p"
      by (cases "splitn_ws 3 ?body"; cases "tl (splitn_ws 3 ?body)")
         (simp_all add: parse_line_def Let_def split: if_splits)
    then show ?thesis by (cases "from_ssh_string c (kind @ '' '' @ blob)") (auto simp: from_ssh_string_length)
  qed
qed

lemma parsed_key_length:
  "p \<in> set (parse_authorized_keys c content) \<Longrightarrow> length (ap_pubkey p) = 32"
  by (auto simp: parse_authorized_keys_def set_map_filter parse_line_key)

end
