(* ===== verification/IdentityProperties.thy ===== *)
theory IdentityProperties
  imports AuthorizedKeys
begin

text \<open>
  The properties of identities, their file and text forms, signing through an ssh-agent, and the
  \<^verbatim>\<open>authorized_keys\<close> file.
\<close>

text \<open>
  A public key survives its two encodings: decoding the SSH wire form, and parsing the
  \<^verbatim>\<open>ssh-ed25519 AAAA...\<close> text, give the key back.
\<close>

lemma pubkey_round_trips:
  assumes "base64_codec c" "length pk = 32"
  shows "decode_ssh_wire (encode_ssh_wire pk) = Ok pk \<and> from_ssh_string c (to_ssh_string c pk) = Ok pk"
  using decode_encode_wire [OF assms(2)] base64_codec.from_to_ssh_string [OF assms] by simp

text \<open>Every key any parser of the module accepts has 32 bytes.\<close>

lemma parsed_keys_have_32_bytes:
  "(decode_ssh_wire w = Ok pk \<longrightarrow> length pk = 32) \<and> (from_ssh_string c s = Ok pk' \<longrightarrow> length pk' = 32) \<and>
   (\<forall>p \<in> set (parse_authorized_keys c content). length (ap_pubkey p) = 32)"
  using decode_wire_length from_ssh_string_length parsed_key_length by blast

text \<open>
  C34. An identity that \<open>save_to_file\<close> reports as saved is the one \<open>load_from_file\<close> loads from
  that disk, unless the read itself fails; an agent-backed identity is never written.
\<close>

theorem identity_file_round_trip:
  assumes "base64_codec c" "length seed = 32" "p \<noteq> []"
    and "save_to_file c i p d = (r, e)"
  shows "(i = identity_from_seed c seed \<and> r = Ok () \<and> \<not> faulty e \<longrightarrow> fst (load_from_file c p e) = Ok i) \<and>
    (\<forall>socket pk. i = AgentId socket pk \<longrightarrow> \<not> is_ok r \<and> e = d)"
proof (intro conjI impI allI)
  assume i: "i = identity_from_seed c seed \<and> r = Ok () \<and> \<not> faulty e"
  then have "save_to_file c (FileId seed (ed_public c seed)) p d = (Ok (), e)"
    using assms(4) by (simp add: identity_from_seed_def)
  from save_to_file_Ok(1) [OF this assms(3)]
  have "fst (fs_read p e) = Ok (as_bytes (identity_body c seed))"
    using i by (auto simp: fs_read_def file_at_def split: option.splits file_node.splits)
  then obtain f where "fs_read p e = (Ok (as_bytes (identity_body c seed)), f)" by (metis prod.collapse)
  then show "fst (load_from_file c p e) = Ok i"
    using base64_codec.parse_identity_body [OF assms(1,2), of p] i
    by (simp add: load_from_file_def andthen_run lift_run)
next
  fix socket pk
  assume "i = AgentId socket pk"
  then show "\<not> is_ok r" "e = d" using assms(4) by (auto simp: save_agent_fails)
qed

theorem identity_file_round_trip_witness:
  "let d = \<lparr>d_nodes = Map.empty, d_calls = 0, d_fault = (\<lambda>_. False), d_cut = (\<lambda>_. 0)\<rparr>;
       i = identity_from_seed example_crypto (replicate 32 9);
       s = save_to_file example_crypto i [''home'', ''id''] d in
   fst (load_from_file example_crypto [''home'', ''id''] (snd s)) = Ok i"
proof -
  let ?d = "\<lparr>d_nodes = Map.empty, d_calls = 0, d_fault = (\<lambda>_. False), d_cut = (\<lambda>_. 0)\<rparr>"
  let ?i = "identity_from_seed example_crypto (replicate 32 9)"
  let ?s = "save_to_file example_crypto ?i [''home'', ''id''] ?d"
  have sc: "pubkey_sidecar [''home'', ''id''] = [''home'', ''id.pub'']"
    by (simp add: pubkey_sidecar_name)
  have "fst ?s = Ok () \<and> \<not> faulty (snd ?s)"
    by (simp add: save_to_file_def identity_from_seed_def andthen_run lift_run write_with_mode_def
        fs_create_dir_all_def fs_write_def fs_write_mode_def can_open_def is_dir_def sc tick_def set_node_def
        file_at_def prefix_def Cons_eq_append_conv)
  with identity_file_round_trip [OF ex.base64_codec_axioms _ _ prod.collapse [of ?s, symmetric],
      of "replicate 32 9"]
  show ?thesis by (simp add: Let_def)
qed



text \<open>
  C33. Parsing what \<open>render_authorized_keys\<close> renders gives back the same keys and labels in the
  same order, for 32-byte keys and trimmed one-line labels.
\<close>

theorem authorized_keys_round_trip:
  assumes "base64_codec c" "\<forall>p \<in> set peers. peer_ok p"
  shows "parse_authorized_keys c (render_authorized_keys c peers) = peers"
  by (rule base64_codec.parse_render [OF assms])

theorem authorized_keys_round_trip_witness:
  "parse_authorized_keys example_crypto (render_authorized_keys example_crypto
     [\<lparr>ap_pubkey = replicate 32 7, ap_label = ''creator''\<rparr>, \<lparr>ap_pubkey = replicate 32 8, ap_label = ''''\<rparr>]) =
   [\<lparr>ap_pubkey = replicate 32 7, ap_label = ''creator''\<rparr>, \<lparr>ap_pubkey = replicate 32 8, ap_label = ''''\<rparr>]"
  by (rule authorized_keys_round_trip [OF ex.base64_codec_axioms])
    (auto simp: peer_ok_def label_ok_def intro: trim_plain_ends, code_simp+)

end
