(* ===== verification/SyncIgnore.thy ===== *)
theory SyncIgnore
  imports Disk "HOL-Library.Sublist"
begin

text \<open>
  \<^verbatim>\<open>crates/agentsync-core/src/fs/sync_ignore.rs\<close>: the \<^verbatim>\<open>.syncignore\<close> files under a directory and
  what they exclude. The crates \<^verbatim>\<open>ignore\<close> and \<^verbatim>\<open>walkdir\<close> are parameters: \<open>gitignore\<close> parses and
  evaluates one file, and a walk lists a directory tree.
\<close>

section \<open>Parameters\<close>

datatype verdict = Ignore | Whitelist | NoVerdict

text \<open>\<open>gi_build dir content\<close> is None when a line of the file cannot be parsed.\<close>

record 'g gitignore =
  gi_build :: "fpath \<Rightarrow> byte list \<Rightarrow> 'g option"
  gi_matched :: "'g \<Rightarrow> fpath \<Rightarrow> bool \<Rightarrow> verdict"

type_synonym walk = "(fpath \<rightharpoonup> file_node) \<Rightarrow> fpath \<Rightarrow> fpath list"

definition node_at_path :: "(fpath \<rightharpoonup> file_node) \<Rightarrow> fpath \<Rightarrow> file_node option" where
  "node_at_path nodes p = (if p = [] then Some DDir else nodes p)"

text \<open>The entries of a tree: reached from the root through directories.\<close>

definition in_tree :: "(fpath \<rightharpoonup> file_node) \<Rightarrow> fpath \<Rightarrow> fpath \<Rightarrow> bool" where
  "in_tree nodes root p \<longleftrightarrow> prefix root p \<and> node_at_path nodes p \<noteq> None \<and>
     (\<forall>q. prefix root q \<and> strict_prefix q p \<longrightarrow> node_at_path nodes q = Some DDir)"

text \<open>A walk of a finite tree yields each entry once, a directory before what is in it.\<close>

definition walks :: "walk \<Rightarrow> bool" where
  "walks wk \<longleftrightarrow> (\<forall>nodes root. finite (dom nodes) \<longrightarrow>
     distinct (wk nodes root) \<and> set (wk nodes root) = {p. in_tree nodes root p} \<and>
     (\<forall>i j. i < j \<and> j < length (wk nodes root) \<longrightarrow> \<not> strict_prefix (wk nodes root ! j) (wk nodes root ! i)))"

section \<open>Operations\<close>

definition SYNC_IGNORE_FILENAME :: string where
  "SYNC_IGNORE_FILENAME = ''.syncignore''"

record 'g dir_matcher =
  mt_dir :: fpath
  mt_depth :: nat
  mt_matcher :: 'g

record 'g sync_ignore_set =
  si_vault_root :: fpath
  si_matchers :: "'g dir_matcher list"

definition is_skipped_dir :: "fpath \<Rightarrow> fpath \<Rightarrow> bool" where
  "is_skipped_dir path vault_root \<longleftrightarrow>
     path \<noteq> vault_root \<and> path \<noteq> [] \<and> last path \<in> {''.git'', ''.agentsync'', ''node_modules''}"

text \<open>\<^verbatim>\<open>filter_entry\<close> leaves out an entry and does not descend into it.\<close>

definition kept_entry :: "fpath \<Rightarrow> fpath \<Rightarrow> bool" where
  "kept_entry vault_root p \<longleftrightarrow>
     (\<forall>k \<in> set [length vault_root..<Suc (length p)]. \<not> is_skipped_dir (take k p) vault_root)"

definition dir_matcher_of :: "'g gitignore \<Rightarrow> fpath \<Rightarrow> fpath \<Rightarrow> (disk, 'g dir_matcher option) action" where
  "dir_matcher_of gi vault_root p d =
     (let dir = butlast p in
      case fs_read p d of
        (Inl _, e) \<Rightarrow> (Ok None, e)
      | (Inr bs, e) \<Rightarrow> (Ok (map_option (\<lambda>m. \<lparr>mt_dir = dir, mt_depth = length dir - length vault_root,
           mt_matcher = m\<rparr>) (gi_build gi dir bs)), e))"

definition sync_ignore_from :: "'g gitignore \<Rightarrow> walk \<Rightarrow> fpath \<Rightarrow> (disk, 'g sync_ignore_set) action" where
  "sync_ignore_from gi wk vault_root d =
     (if \<not> is_dir d vault_root then (Ok \<lparr>si_vault_root = vault_root, si_matchers = []\<rparr>, d)
      else
        let files = filter (\<lambda>p. file_at d p \<noteq> None \<and> p \<noteq> [] \<and> last p = SYNC_IGNORE_FILENAME)
                      (filter (kept_entry vault_root) (wk (d_nodes d) vault_root)) in
        andthen (collect files (dir_matcher_of gi vault_root)) (\<lambda>ms.
        ret \<lparr>si_vault_root = vault_root, si_matchers = sort_key mt_depth ms\<rparr>) d)"

fun apply_matchers :: "'g gitignore \<Rightarrow> fpath \<Rightarrow> bool \<Rightarrow> 'g dir_matcher list \<Rightarrow> bool \<Rightarrow> bool" where
  "apply_matchers gi path is_directory [] ignored = ignored"
| "apply_matchers gi path is_directory (m # ms) ignored =
     apply_matchers gi path is_directory ms
       (if \<not> prefix (mt_dir m) path then ignored
        else case gi_matched gi (mt_matcher m) path is_directory of
            Ignore \<Rightarrow> True | Whitelist \<Rightarrow> False | NoVerdict \<Rightarrow> ignored)"

definition sync_ignored :: "'g gitignore \<Rightarrow> 'g sync_ignore_set \<Rightarrow> string \<Rightarrow> bool \<Rightarrow> bool" where
  "sync_ignored gi sis vault_relative is_directory \<longleftrightarrow>
     si_matchers sis \<noteq> [] \<and>
     apply_matchers gi (path_join (si_vault_root sis) vault_relative) is_directory (si_matchers sis) False"

section \<open>The deepest verdict decides\<close>

definition deciding :: "'g gitignore \<Rightarrow> fpath \<Rightarrow> bool \<Rightarrow> 'g dir_matcher \<Rightarrow> bool" where
  "deciding gi path is_directory m \<longleftrightarrow> prefix (mt_dir m) path \<and> gi_matched gi (mt_matcher m) path is_directory \<noteq> NoVerdict"

lemma apply_matchers_last:
  "apply_matchers gi path isd ms b =
     (let ds = filter (deciding gi path isd) ms in
      if ds = [] then b else gi_matched gi (mt_matcher (last ds)) path isd = Ignore)"
proof (induction ms arbitrary: b)
  case (Cons m ms)
  show ?case
  proof (cases "deciding gi path isd m")
    case True
    then show ?thesis
      using Cons.IH by (cases "gi_matched gi (mt_matcher m) path isd") (simp_all add: deciding_def Let_def)
  next
    case False
    then show ?thesis
      using Cons.IH
      by (cases "gi_matched gi (mt_matcher m) path isd"; cases "prefix (mt_dir m) path") (simp_all add: deciding_def)
  qed
qed simp

lemma sorted_le_last: "sorted (map f xs) \<Longrightarrow> x \<in> set xs \<Longrightarrow> f x \<le> f (last xs)"
  by (induction xs) auto

text \<open>
  The verdict is that of the deepest deciding file: none is deeper, and files on one path at one
  depth are the same file.
\<close>

lemma deepest_verdict:
  assumes "sorted (map mt_depth (si_matchers sis))"
    and "sync_ignored gi sis p isd"
  obtains m where "m \<in> set (si_matchers sis)"
    "deciding gi (path_join (si_vault_root sis) p) isd m"
    "gi_matched gi (mt_matcher m) (path_join (si_vault_root sis) p) isd = Ignore"
    "\<forall>m' \<in> set (si_matchers sis). deciding gi (path_join (si_vault_root sis) p) isd m' \<longrightarrow>
       mt_depth m' \<le> mt_depth m"
proof -
  let ?a = "path_join (si_vault_root sis) p"
  let ?ds = "filter (deciding gi ?a isd) (si_matchers sis)"
  from assms(2) have a: "apply_matchers gi ?a isd (si_matchers sis) False" by (simp add: sync_ignored_def)
  then have ne: "?ds \<noteq> []" by (auto simp: apply_matchers_last)
  have "sorted (map mt_depth ?ds)" by (rule sorted_filter [OF assms(1)])
  then have deep: "x \<in> set ?ds \<Longrightarrow> mt_depth x \<le> mt_depth (last ?ds)" for x
    by (rule sorted_le_last)
  moreover have "last ?ds \<in> set ?ds" using ne by (rule last_in_set)
  moreover have "gi_matched gi (mt_matcher (last ?ds)) ?a isd = Ignore"
    using a ne by (auto simp: apply_matchers_last)
  ultimately show thesis using that [of "last ?ds"] deep by simp
qed

lemma sync_ignore_sorted:
  assumes "sync_ignore_from gi wk root d = (Ok sis, e)"
  shows "si_vault_root sis = root" "sorted (map mt_depth (si_matchers sis))"
  using assms by (auto simp: sync_ignore_from_def Let_def andthen_eq_Inr ret_run split: if_splits)

text \<open>Loading the matchers reads, and reads only: no file changes, and it never fails.\<close>

lemma collect_matchers:
  "\<exists>ms e. collect ps (dir_matcher_of gi root) d = (Ok ms, e) \<and> d_nodes e = d_nodes d"
proof (induction ps arbitrary: d)
  case (Cons p ps)
  obtain r d1 where 1: "fs_read p d = (r, d1)" by fastforce
  then obtain x where x: "dir_matcher_of gi root p d = (Ok x, d1)"
    by (cases r) (auto simp: dir_matcher_of_def Let_def)
  from Cons.IH [of d1] obtain ms e where "collect ps (dir_matcher_of gi root) d1 = (Ok ms, e)"
    "d_nodes e = d_nodes d1" by blast
  with x read_keeps [OF 1] show ?case by (auto simp: act_simps)
qed (auto simp: act_simps)

lemma sync_ignore_total:
  "\<exists>sis e. sync_ignore_from gi wk root d = (Ok sis, e) \<and> d_nodes e = d_nodes d"
proof -
  let ?files = "filter (\<lambda>p. file_at d p \<noteq> None \<and> p \<noteq> [] \<and> last p = SYNC_IGNORE_FILENAME)
     (filter (kept_entry root) (wk (d_nodes d) root))"
  obtain ms e where "collect ?files (dir_matcher_of gi root) d = (Ok ms, e)" "d_nodes e = d_nodes d"
    using collect_matchers by blast
  then show ?thesis by (auto simp: sync_ignore_from_def Let_def act_simps)
qed

end
