(* ===== verification/Glob.thy ===== *)
theory Glob
  imports RustStd
begin

text \<open>
  \<^verbatim>\<open>glob_match\<close> of \<^verbatim>\<open>crates/agentsync-core/src/fs/binding.rs\<close>: the matcher with one backtracking
  point, and its equivalence with the declarative meaning of a pattern.
\<close>

section \<open>The matcher\<close>

definition star :: char where "star = CHR ''*''"

definition double_star :: "string \<Rightarrow> nat \<Rightarrow> bool" where
  "double_star pat p \<longleftrightarrow> p + 1 < length pat \<and> pat ! p = star \<and> pat ! (p + 1) = star"

text \<open>Where the pattern goes on after the star, or the two stars and the slash, at \<open>p\<close>.\<close>

definition after_star :: "string \<Rightarrow> nat \<Rightarrow> nat" where
  "after_star pat p =
     (if double_star pat p
      then (if p + 2 < length pat \<and> pat ! (p + 2) = CHR ''/'' then p + 3 else p + 2)
      else p + 1)"

text \<open>
  The loop: \<open>pi\<close> and \<open>si\<close> are the positions in the pattern and the string, \<open>back\<close> the last star
  passed with the position in the string its match ends at so far. The result is the position in
  the pattern at the end of the string, or None when the loop returns false.
\<close>

function glob_loop :: "string \<Rightarrow> string \<Rightarrow> nat \<Rightarrow> nat \<Rightarrow> nat option \<Rightarrow> nat \<Rightarrow> nat option" where
  "glob_loop pat s pi si star_pi star_si =
     (if si < length s then
        (if pi < length pat \<and> pat ! pi = star
         then glob_loop pat s (after_star pat pi) si (Some pi) si
         else if pi < length pat \<and> pat ! pi = s ! si
         then glob_loop pat s (pi + 1) (si + 1) star_pi star_si
         else case star_pi of
             Some p \<Rightarrow> glob_loop pat s (after_star pat p) (star_si + 1) star_pi (star_si + 1)
           | None \<Rightarrow> None)
      else Some pi)"
  by pat_completeness auto
termination
  by (relation "measures [\<lambda>(pat, s, pi, si, b, k). length s - min k si,
        \<lambda>(pat, s, pi, si, b, k). (length s - si) + (length pat - pi)]")
     (auto simp: after_star_def double_star_def min_def)

declare glob_loop.simps [simp del]

definition glob_match :: "string \<Rightarrow> string \<Rightarrow> bool" where
  "glob_match pat s =
     (case glob_loop pat s 0 0 None 0 of
        None \<Rightarrow> False
      | Some pi \<Rightarrow> dropWhile (\<lambda>c. c = star) (drop pi pat) = [])"

definition glob_match_any :: "string list \<Rightarrow> string \<Rightarrow> bool" where
  "glob_match_any patterns s = list_ex (\<lambda>p. glob_match p s) patterns"

section \<open>What a pattern means\<close>

datatype token = Any | Lit char

text \<open>A star, two stars, or two stars and a slash stand for any string.\<close>

fun tokens :: "string \<Rightarrow> token list" where
  "tokens [] = []"
| "tokens (c # cs) =
     (if c \<noteq> star then Lit c # tokens cs
      else case cs of
          [] \<Rightarrow> [Any]
        | d # ds \<Rightarrow>
            if d \<noteq> star then Any # tokens cs
            else case ds of
                [] \<Rightarrow> [Any]
              | e # es \<Rightarrow> if e = CHR ''/'' then Any # tokens es else Any # tokens ds)"

inductive wild :: "token list \<Rightarrow> string \<Rightarrow> bool" where
  empty: "wild [] []"
| lit: "wild ts s \<Longrightarrow> wild (Lit c # ts) (c # s)"
| skip: "wild ts s \<Longrightarrow> wild (Any # ts) s"
| more: "wild (Any # ts) s \<Longrightarrow> wild (Any # ts) (c # s)"

inductive_cases wild_NilE: "wild [] s"
inductive_cases wild_LitE: "wild (Lit c # ts) s"
inductive_cases wild_AnyE: "wild (Any # ts) s"

lemma wild_simps [simp]:
  "wild [] s \<longleftrightarrow> s = []"
  "wild (Lit c # ts) [] \<longleftrightarrow> False"
  "wild (Lit c # ts) (d # s) \<longleftrightarrow> c = d \<and> wild ts s"
  by (auto intro: wild.intros elim: wild_NilE wild_LitE)

lemma wild_Any: "wild (Any # ts) s \<longleftrightarrow> (\<exists>k \<le> length s. wild ts (drop k s))"
proof
  assume "wild (Any # ts) s"
  then show "\<exists>k \<le> length s. wild ts (drop k s)"
  proof (induction "Any # ts" s rule: wild.induct)
    case (skip s)
    then show ?case by (intro exI [of _ 0]) simp
  next
    case (more s c)
    then obtain k where "k \<le> length s" "wild ts (drop k s)" by blast
    then show ?case by (intro exI [of _ "Suc k"]) simp
  qed
next
  have "wild (Any # ts) (xs @ ys)" if "wild ts ys" for xs ys
    using that by (induction xs) (auto intro: wild.intros)
  then show "\<exists>k \<le> length s. wild ts (drop k s) \<Longrightarrow> wild (Any # ts) s"
    by (metis append_take_drop_id)
qed

lemma wild_lits:
  "wild (map Lit xs @ ts) s \<longleftrightarrow> (\<exists>r. s = xs @ r \<and> wild ts r)"
proof (induction xs arbitrary: s)
  case (Cons x xs)
  then show ?case by (cases s) auto
qed simp

section \<open>The matcher decides the meaning\<close>

text \<open>
  The loop compares the slash of \<^verbatim>\<open>**/\<close> literally once the string is used up, so a pattern may
  not end in \<^verbatim>\<open>**/\<close> and stars only.
\<close>

definition ends_open :: "string \<Rightarrow> bool" where
  "ends_open pat \<longleftrightarrow> (\<forall>p < length pat. double_star pat p \<and> after_star pat p = p + 3 \<longrightarrow>
     (\<exists>q \<ge> p + 3. q < length pat \<and> pat ! q \<noteq> star \<and> pat ! q \<noteq> CHR ''/''))"

lemma tokens_at:
  assumes "p < length pat"
  shows "tokens (drop p pat) =
    (if pat ! p = star then Any # tokens (drop (after_star pat p) pat)
     else Lit (pat ! p) # tokens (drop (p + 1) pat))"
proof -
  have d: "drop p pat = pat ! p # drop (p + 1) pat" using assms by (simp add: Cons_nth_drop_Suc)
  show ?thesis
  proof (cases "p + 1 < length pat")
    case False
    then have "drop (p + 1) pat = []" by simp
    with d False show ?thesis by (simp add: after_star_def double_star_def)
  next
    case True
    then have d1: "drop (p + 1) pat = pat ! (p + 1) # drop (p + 2) pat"
      by (metis Cons_nth_drop_Suc Suc_eq_plus1 add_2_eq_Suc')
    show ?thesis
    proof (cases "p + 2 < length pat")
      case False
      then have "drop (p + 2) pat = []" by simp
      with d d1 True False show ?thesis by (simp add: after_star_def double_star_def)
    next
      case t2: True
      then have "drop (p + 2) pat = pat ! (p + 2) # drop (p + 3) pat"
        by (metis Cons_nth_drop_Suc add_Suc_right eval_nat_numeral(3))
      with d d1 True t2 show ?thesis by (simp add: after_star_def double_star_def)
    qed
  qed
qed

lemma after_star_bounds:
  "p < length pat \<Longrightarrow> p < after_star pat p \<and> after_star pat p \<le> length pat"
  by (auto simp: after_star_def double_star_def)

text \<open>At the end of the string: only stars may be left.\<close>

lemma wild_nil_iff: "wild ts [] \<longleftrightarrow> (\<forall>t \<in> set ts. t = Any)"
proof (induction ts)
  case (Cons t ts)
  then show ?case by (cases t) (auto simp: wild_Any)
qed simp

lemma after_star_gap:
  "p < q \<Longrightarrow> q < after_star pat p \<Longrightarrow> q < length pat \<Longrightarrow> pat ! q = star \<or> (pat ! q = CHR ''/'' \<and> after_star pat p = p + 3)"
  by (auto simp: after_star_def double_star_def numeral_3_eq_3 numeral_2_eq_2 less_Suc_eq split: if_splits)

lemma tokens_stars:
  "\<forall>q. p \<le> q \<and> q < length pat \<longrightarrow> pat ! q = star \<Longrightarrow> t \<in> set (tokens (drop p pat)) \<Longrightarrow> t = Any"
proof (induction "length pat - p" arbitrary: p rule: less_induct)
  case less
  show ?case
  proof (cases "p < length pat")
    case True
    with less.prems(1) have "pat ! p = star" by blast
    with less.prems(2) tokens_at [OF True] consider "t = Any" | "t \<in> set (tokens (drop (after_star pat p) pat))"
      by auto
    then show ?thesis
    proof cases
      case 2
      show ?thesis
        by (rule less.hyps [OF _ _ 2]) (use less.prems(1) after_star_bounds [OF True] in auto)
    qed
  qed (use less.prems(2) in simp)
qed

lemma tokens_lit:
  "p \<le> r \<Longrightarrow> r < length pat \<Longrightarrow> pat ! r \<noteq> star \<Longrightarrow> pat ! r \<noteq> CHR ''/'' \<Longrightarrow> Lit (pat ! r) \<in> set (tokens (drop p pat))"
proof (induction "length pat - p" arbitrary: p rule: less_induct)
  case less
  then have p: "p < length pat" by simp
  show ?case
  proof (cases "pat ! p = star")
    case True
    then have "p \<noteq> r" using less.prems(3) by auto
    with less.prems after_star_gap [of p r pat] have "after_star pat p \<le> r" by (metis le_neq_implies_less not_le)
    then have "Lit (pat ! r) \<in> set (tokens (drop (after_star pat p) pat))"
      using less.prems after_star_bounds [OF p] by (intro less.hyps) auto
    with True tokens_at [OF p] show ?thesis by simp
  next
    case False
    show ?thesis
    proof (cases "p = r")
      case False
      then have "Lit (pat ! r) \<in> set (tokens (drop (p + 1) pat))"
        using less.prems by (intro less.hyps) auto
      with \<open>pat ! p \<noteq> star\<close> tokens_at [OF p] show ?thesis by simp
    qed (use False tokens_at [OF p] in simp)
  qed
qed

lemma only_slash_after_stars:
  "p \<le> r \<Longrightarrow> r < length pat \<Longrightarrow> pat ! r \<noteq> star \<Longrightarrow> \<forall>t \<in> set (tokens (drop p pat)). t = Any \<Longrightarrow>
   \<exists>q \<ge> p. q < length pat \<and> double_star pat q \<and> after_star pat q = q + 3 \<and>
     (\<forall>t \<in> set (tokens (drop (q + 3) pat)). t = Any)"
proof (induction "length pat - p" arbitrary: p rule: less_induct)
  case less
  then have p: "p < length pat" by simp
  with less.prems(4) tokens_at [OF p] have st: "pat ! p = star"
    "\<forall>t \<in> set (tokens (drop (after_star pat p) pat)). t = Any" by (auto split: if_splits)
  show ?case
  proof (cases "after_star pat p = p + 3")
    case True
    then have "double_star pat p" by (auto simp: after_star_def split: if_splits)
    with True p st(2) show ?thesis by auto
  next
    case False
    have "p \<noteq> r" using less.prems(3) st(1) by auto
    with less.prems after_star_gap [of p r pat] False have "after_star pat p \<le> r"
      by (metis le_neq_implies_less not_le)
    moreover have "length pat - after_star pat p < length pat - p" using after_star_bounds [OF p] p by linarith
    ultimately obtain q where
      "q \<ge> after_star pat p" "q < length pat" "double_star pat q" "after_star pat q = q + 3"
      "\<forall>t \<in> set (tokens (drop (q + 3) pat)). t = Any"
      using less.hyps [of "after_star pat p"] less.prems(2,3) st(2) by blast
    with after_star_bounds [OF p] show ?thesis by (meson le_trans less_imp_le)
  qed
qed

lemma at_end:
  assumes "ends_open pat"
  shows "dropWhile (\<lambda>c. c = star) (drop p pat) = [] \<longleftrightarrow> wild (tokens (drop p pat)) []"
proof
  assume "dropWhile (\<lambda>c. c = star) (drop p pat) = []"
  then have "\<forall>c \<in> set (drop p pat). c = star" by simp
  then have "pat ! q = star" if "p \<le> q" "q < length pat" for q
    using that nth_mem [of "q - p" "drop p pat"] by simp
  then show "wild (tokens (drop p pat)) []"
    using tokens_stars [of p pat] by (auto simp: wild_nil_iff)
next
  assume w: "wild (tokens (drop p pat)) []"
  show "dropWhile (\<lambda>c. c = star) (drop p pat) = []"
  proof (rule ccontr)
    assume "dropWhile (\<lambda>c. c = star) (drop p pat) \<noteq> []"
    then obtain c where "c \<in> set (drop p pat)" "c \<noteq> star" by auto
    then obtain k where "k < length (drop p pat)" "drop p pat ! k \<noteq> star" by (metis in_set_conv_nth)
    then have "p \<le> p + k" "p + k < length pat" "pat ! (p + k) \<noteq> star" by simp_all
    from only_slash_after_stars [OF this] w obtain q where q: "q < length pat" "double_star pat q"
      "after_star pat q = q + 3" "\<forall>t \<in> set (tokens (drop (q + 3) pat)). t = Any"
      by (auto simp: wild_nil_iff)
    with assms obtain r where r: "r \<ge> q + 3" "r < length pat" "pat ! r \<noteq> star" "pat ! r \<noteq> CHR ''/''"
      unfolding ends_open_def by blast
    from tokens_lit [OF r] q(4) show False by auto
  qed
qed

text \<open>
  The characters between the last star and the position in the pattern have just been matched:
  \<open>pat\<close> from the star on is these characters and what is left.
\<close>

definition matched_since :: "string \<Rightarrow> string \<Rightarrow> nat \<Rightarrow> nat \<Rightarrow> nat \<Rightarrow> nat \<Rightarrow> bool" where
  "matched_since pat s p pi si k \<longleftrightarrow> k \<le> si \<and> si \<le> length s \<and>
     tokens (drop (after_star pat p) pat) = map Lit (take (si - k) (drop k s)) @ tokens (drop pi pat)"

lemma wild_Any_mono:
  assumes "wild (Any # ts) (drop b s)" "a \<le> b"
  shows "wild (Any # ts) (drop a s)"
proof -
  from assms(1) obtain k where "wild ts (drop k (drop b s))" by (auto simp: wild_Any)
  then have w: "wild ts (drop (min (k + b) (length s)) s)" by (cases "k + b \<le> length s") (auto simp: min_def)
  show ?thesis
  proof (cases "a \<le> length s")
    case True
    with assms(2) w have "wild ts (drop (min (k + b) (length s) - a) (drop a s))" by simp
    moreover have "min (k + b) (length s) - a \<le> length (drop a s)" by simp
    ultimately show ?thesis unfolding wild_Any by blast
  next
    case False
    with assms show ?thesis by simp
  qed
qed

lemma wild_Any_later: "wild (Any # ts) (drop a s) \<longleftrightarrow>
    wild ts (drop a s) \<or> (\<exists>j. a < j \<and> j \<le> length s \<and> wild ts (drop j s))"
proof
  assume "wild (Any # ts) (drop a s)"
  then obtain k where k: "k \<le> length (drop a s)" "wild ts (drop (k + a) s)" by (auto simp: wild_Any)
  show "wild ts (drop a s) \<or> (\<exists>j. a < j \<and> j \<le> length s \<and> wild ts (drop j s))"
  proof (cases "k = 0")
    case False
    with k have "a < k + a \<and> k + a \<le> length s" by auto
    with k(2) show ?thesis by blast
  qed (use k in simp)
next
  assume "wild ts (drop a s) \<or> (\<exists>j. a < j \<and> j \<le> length s \<and> wild ts (drop j s))"
  then consider "wild ts (drop a s)" | j where "a < j" "wild ts (drop j s)" by blast
  then show "wild (Any # ts) (drop a s)"
  proof cases
    case 2
    then show ?thesis using wild_Any_mono [OF wild.skip [OF 2(2)], of a] by simp
  qed (rule wild.skip)
qed

definition accepts :: "string \<Rightarrow> nat option \<Rightarrow> bool" where
  "accepts pat r = (case r of None \<Rightarrow> False | Some pi \<Rightarrow> dropWhile (\<lambda>c. c = star) (drop pi pat) = [])"

definition later_match :: "string \<Rightarrow> string \<Rightarrow> nat option \<Rightarrow> nat \<Rightarrow> bool" where
  "later_match pat s b k \<longleftrightarrow> (\<exists>p j. b = Some p \<and> k < j \<and> j \<le> length s \<and>
     wild (tokens (drop (after_star pat p) pat)) (drop j s))"

lemma loop_spec:
  assumes "ends_open pat" "si \<le> length s"
    and "\<And>p. b = Some p \<Longrightarrow> matched_since pat s p pi si k"
  shows "accepts pat (glob_loop pat s pi si b k) \<longleftrightarrow>
    wild (tokens (drop pi pat)) (drop si s) \<or> later_match pat s b k"
  using assms
proof (induction pat s pi si b k rule: glob_loop.induct)
  case (1 pat s pi si b k)
  show ?case
  proof (cases "si < length s")
    case False
    then have si: "si = length s" using "1.prems"(2) by simp
    have "\<not> later_match pat s b k"
    proof
      assume "later_match pat s b k"
      then obtain p j where j: "b = Some p" "k < j" "j \<le> length s"
        "wild (tokens (drop (after_star pat p) pat)) (drop j s)" by (auto simp: later_match_def)
      with "1.prems"(3) obtain r where "drop j s = take (si - k) (drop k s) @ r"
        by (auto simp: matched_since_def wild_lits)
      then have "length (drop j s) = length (take (si - k) (drop k s)) + length r" by simp
      with j(2,3) si show False by simp
    qed
    with si show ?thesis
      using at_end [OF "1.prems"(1)] by (simp add: glob_loop.simps [of pat s pi] accepts_def)
  next
    case si: True
    show ?thesis
    proof (cases "pi < length pat \<and> pat ! pi = star")
      case st: True
      have m: "matched_since pat s pi (after_star pat pi) si si"
        using si by (simp add: matched_since_def)
      have "accepts pat (glob_loop pat s (after_star pat pi) si (Some pi) si) \<longleftrightarrow>
          wild (tokens (drop (after_star pat pi) pat)) (drop si s) \<or> later_match pat s (Some pi) si"
        using "1.IH"(1) [OF si st "1.prems"(1,2)] m by auto
      also have "\<dots> \<longleftrightarrow> wild (tokens (drop pi pat)) (drop si s)"
        using st tokens_at [of pi pat] by (simp add: wild_Any_later later_match_def)
      finally have a: "accepts pat (glob_loop pat s pi si b k) \<longleftrightarrow> wild (tokens (drop pi pat)) (drop si s)"
        using si st by (simp add: glob_loop.simps [of pat s pi])
      have "wild (tokens (drop pi pat)) (drop si s)" if "later_match pat s b k"
      proof -
        from that obtain p j where j: "b = Some p" "k < j" "j \<le> length s"
          "wild (tokens (drop (after_star pat p) pat)) (drop j s)" by (auto simp: later_match_def)
        with "1.prems"(3) obtain r where r: "drop j s = take (si - k) (drop k s) @ r" "k \<le> si"
          "wild (tokens (drop pi pat)) r" by (auto simp: matched_since_def wild_lits)
        have "r = drop (j + (si - k)) s"
          using arg_cong [OF r(1), of "drop (si - k)"] si r(2) by (simp add: add.commute)
        with r(3) st tokens_at [of pi pat] j(2) r(2) show ?thesis
          by (auto intro: wild_Any_mono [where b = "j + (si - k)"])
      qed
      with a show ?thesis by blast
    next
      case nst: False
      show ?thesis
      proof (cases "pi < length pat \<and> pat ! pi = s ! si")
        case lit: True
        have t: "tokens (drop pi pat) = Lit (s ! si) # tokens (drop (pi + 1) pat)"
          using lit nst tokens_at [of pi pat] by auto
        have ds: "drop si s = s ! si # drop (si + 1) s" using si by (simp add: Cons_nth_drop_Suc)
        have "matched_since pat s p (pi + 1) (si + 1) k" if "b = Some p" for p
        proof -
          from "1.prems"(3) [OF that] have "k \<le> si" by (simp add: matched_since_def)
          moreover from this have "take (si + 1 - k) (drop k s) = take (si - k) (drop k s) @ [s ! si]"
            using si by (simp add: Suc_diff_le take_Suc_conv_app_nth)
          ultimately show ?thesis
            using "1.prems"(3) [OF that] si t by (simp add: matched_since_def)
        qed
        then have "accepts pat (glob_loop pat s (pi + 1) (si + 1) b k) \<longleftrightarrow>
            wild (tokens (drop (pi + 1) pat)) (drop (si + 1) s) \<or> later_match pat s b k"
          using "1.IH"(2) [OF si nst lit "1.prems"(1)] si by auto
        with si nst lit t ds show ?thesis by (simp add: glob_loop.simps [of pat s pi])
      next
        case mis: False
        have ds: "drop si s = s ! si # drop (si + 1) s" using si by (simp add: Cons_nth_drop_Suc)
        have no: "\<not> wild (tokens (drop pi pat)) (drop si s)"
          unfolding ds using nst mis tokens_at [of pi pat] by (cases "pi < length pat") auto
        have step: "glob_loop pat s pi si b k =
            (case b of Some p \<Rightarrow> glob_loop pat s (after_star pat p) (k + 1) b (k + 1) | None \<Rightarrow> None)"
          using glob_loop.simps [of pat s pi si b k] by (simp only: si nst mis if_True if_False)
        show ?thesis
        proof (cases b)
          case None
          with step no show ?thesis by (simp add: accepts_def later_match_def)
        next
          case (Some p)
          with "1.prems"(3) have k: "k \<le> si" by (simp add: matched_since_def)
          with si have k': "k + 1 \<le> length s" by simp
          have "matched_since pat s p (after_star pat p) (k + 1) (k + 1)"
            using k' by (simp add: matched_since_def)
          then have "accepts pat (glob_loop pat s (after_star pat p) (k + 1) b (k + 1)) \<longleftrightarrow>
              wild (tokens (drop (after_star pat p) pat)) (drop (k + 1) s) \<or> later_match pat s b (k + 1)"
            using "1.IH"(3) [OF si nst mis Some "1.prems"(1) k'] Some by auto
          also have "\<dots> \<longleftrightarrow> later_match pat s b k"
          proof -
            have "(k < j) = (j = k + 1 \<or> k + 1 < j)" for j by linarith
            with Some k' show ?thesis unfolding later_match_def by auto
          qed
          finally show ?thesis
            using step no Some by simp
        qed
      qed
    qed
  qed
qed

lemma glob_match_wild: "ends_open pat \<Longrightarrow> glob_match pat s \<longleftrightarrow> wild (tokens pat) s"
  using loop_spec [of pat 0 s None 0 0] by (simp add: glob_match_def accepts_def later_match_def)

end
