(* ===== verification/Suppression.thy ===== *)
theory Suppression
  imports Prelude "HOL-Library.Multiset"
begin

text \<open>
  \<^verbatim>\<open>crates/agentsync-core/src/fs/suppression.rs\<close>: the set of writes the program made itself, by
  which the watcher recognises its own echo. Instants are milliseconds of the monotonic clock.
\<close>

section \<open>Operations\<close>

definition TTL :: nat where "TTL = 5000"

type_synonym dirty_set = "string \<rightharpoonup> (string \<times> nat) list"

definition dirty_new :: dirty_set where
  "dirty_new = Map.empty"

definition dirty_gc :: "nat \<Rightarrow> dirty_set \<Rightarrow> dirty_set" where
  "dirty_gc now m = (\<lambda>p. case m p of None \<Rightarrow> None
     | Some v \<Rightarrow> (let v' = filter (\<lambda>(h, t). now - t < TTL) v in if v' = [] then None else Some v'))"

text \<open>The two instants are the readings in \<^verbatim>\<open>gc\<close> and for the new entry.\<close>

definition dirty_mark :: "nat \<Rightarrow> nat \<Rightarrow> string \<Rightarrow> string \<Rightarrow> dirty_set \<Rightarrow> dirty_set" where
  "dirty_mark now later path hash m =
     (let m = dirty_gc now m in m(path \<mapsto> (case m path of None \<Rightarrow> [] | Some v \<Rightarrow> v) @ [(hash, later)]))"

fun remove_first :: "string \<Rightarrow> (string \<times> nat) list \<Rightarrow> (string \<times> nat) list option" where
  "remove_first hash [] = None"
| "remove_first hash ((h, t) # v) =
     (if h = hash then Some v else map_option ((#) (h, t)) (remove_first hash v))"

definition dirty_check_and_consume :: "nat \<Rightarrow> string \<Rightarrow> string \<Rightarrow> dirty_set \<Rightarrow> bool \<times> dirty_set" where
  "dirty_check_and_consume now path hash m =
     (let m = dirty_gc now m in
      case m path of
        None \<Rightarrow> (False, m)
      | Some entries \<Rightarrow>
          (case remove_first hash entries of
             None \<Rightarrow> (False, m)
           | Some rest \<Rightarrow> (True, if rest = [] then m(path := None) else m(path \<mapsto> rest))))"

section \<open>What the set means\<close>

text \<open>The marks of a path, with their instants, as a multiset.\<close>

definition marks :: "dirty_set \<Rightarrow> string \<Rightarrow> string \<Rightarrow> nat multiset" where
  "marks m p h = image_mset snd (mset (filter (\<lambda>e. fst e = h) (case m p of None \<Rightarrow> [] | Some v \<Rightarrow> v)))"

lemma marks_new [simp]: "marks dirty_new p h = {#}"
  by (simp add: marks_def dirty_new_def)

lemma marks_gc: "marks (dirty_gc now m) p h = filter_mset (\<lambda>t. now - t < TTL) (marks m p h)"
proof (cases "m p")
  case (Some v)
  have "image_mset snd (mset (filter (\<lambda>e. fst e = h) (filter (\<lambda>(h, t). now - t < TTL) v))) =
      filter_mset (\<lambda>t. now - t < TTL) (image_mset snd (mset (filter (\<lambda>e. fst e = h) v)))"
    by (induction v) (auto simp del: mset_filter filter_filter)
  moreover have "marks (dirty_gc now m) p h =
      image_mset snd (mset (filter (\<lambda>e. fst e = h) (filter (\<lambda>(h, t). now - t < TTL) v)))"
    using Some by (simp add: marks_def dirty_gc_def Let_def del: mset_filter filter_filter)
  ultimately show ?thesis using Some by (simp add: marks_def del: mset_filter filter_filter)
qed (simp add: marks_def dirty_gc_def)

lemma marks_mark:
  "marks (dirty_mark now later p h m) q k =
     marks (dirty_gc now m) q k + (if q = p \<and> k = h then {#later#} else {#})"
  by (auto simp: dirty_mark_def Let_def marks_def split: option.splits)

lemma remove_first_None: "remove_first h v = None \<longleftrightarrow> filter (\<lambda>e. fst e = h) v = []"
  by (induction v rule: remove_first.induct) auto

lemma remove_first_Some:
  assumes "remove_first h v = Some w"
  shows "\<exists>t. mset (filter (\<lambda>e. fst e = k) v) =
      mset (filter (\<lambda>e. fst e = k) w) + (if k = h then {#(h, t)#} else {#})"
  using assms by (induction h v arbitrary: w rule: remove_first.induct) (auto split: if_splits)

text \<open>A check finds a mark that is not too old, and uses up one.\<close>

lemma check_result:
  assumes "dirty_check_and_consume now p h m = (b, m')"
  shows "b \<longleftrightarrow> marks (dirty_gc now m) p h \<noteq> {#}"
    and "\<exists>t. marks (dirty_gc now m) q k = marks m' q k + (if b \<and> q = p \<and> k = h then {#t#} else {#})"
proof -
  let ?g = "dirty_gc now m"
  have "(b \<longleftrightarrow> marks ?g p h \<noteq> {#}) \<and>
     (\<exists>t. marks ?g q k = marks m' q k + (if b \<and> q = p \<and> k = h then {#t#} else {#}))"
  proof (cases "?g p")
    case None
    with assms show ?thesis by (auto simp: dirty_check_and_consume_def Let_def marks_def)
  next
    case (Some v)
    show ?thesis
    proof (cases "remove_first h v")
      case None
      with assms Some show ?thesis
        by (auto simp: dirty_check_and_consume_def Let_def marks_def remove_first_None)
    next
      case (Some w)
      with assms \<open>?g p = Some v\<close> have b: "b" "m' = (if w = [] then ?g(p := None) else ?g(p \<mapsto> w))"
        by (auto simp: dirty_check_and_consume_def Let_def)
      obtain t where "mset (filter (\<lambda>e. fst e = k) v) =
          mset (filter (\<lambda>e. fst e = k) w) + (if k = h then {#(h, t)#} else {#})"
        using remove_first_Some [OF Some] by blast
      then have "q = p \<Longrightarrow> marks ?g q k = marks m' q k + (if k = h then {#t#} else {#})"
        using b \<open>?g p = Some v\<close> by (auto simp: marks_def split: if_splits)
      moreover have "q \<noteq> p \<Longrightarrow> marks ?g q k = marks m' q k" using b by (simp add: marks_def)
      moreover have "marks ?g p h \<noteq> {#}"
        using Some \<open>?g p = Some v\<close> remove_first_None [of h v] by (auto simp: marks_def simp del: mset_filter)
      ultimately show ?thesis using b(1) by (cases "q = p") auto
    qed
  qed
  then show "b \<longleftrightarrow> marks ?g p h \<noteq> {#}"
    "\<exists>t. marks ?g q k = marks m' q k + (if b \<and> q = p \<and> k = h then {#t#} else {#})" by blast+
qed

section \<open>Runs\<close>

text \<open>Marks and checks in any order, at any instants.\<close>

datatype dirty_op = Mark string string | Check string string

fun dirty_step :: "nat \<times> dirty_op \<Rightarrow> dirty_set \<Rightarrow> bool \<times> dirty_set" where
  "dirty_step (now, Mark p h) m = (False, dirty_mark now now p h m)"
| "dirty_step (now, Check p h) m = dirty_check_and_consume now p h m"

primrec suppressed :: "(nat \<times> dirty_op) list \<Rightarrow> dirty_set \<Rightarrow> (string \<times> string) list" where
  "suppressed [] m = []"
| "suppressed (s # ss) m =
     (case dirty_step s m of (b, m') \<Rightarrow>
        (case snd s of Check p h \<Rightarrow> (if b then [(p, h)] else []) | Mark _ _ \<Rightarrow> []) @ suppressed ss m')"

lemma marks_gc_le: "size (marks (dirty_gc now m) p h) \<le> size (marks m p h)"
  by (simp add: marks_gc size_filter_mset_lesseq)

text \<open>Every suppressed event is paid for by one write of exactly that content to that path.\<close>

lemma suppressed_bound:
  "length (filter ((=) (p, h)) (suppressed ss m)) \<le>
     size (marks m p h) + length (filter (\<lambda>s. snd s = Mark p h) ss)"
proof (induction ss arbitrary: m)
  case (Cons s ss)
  obtain now op where s: "s = (now, op)" by (cases s)
  obtain b m' where st: "dirty_step s m = (b, m')" by fastforce
  show ?case
  proof (cases op)
    case (Mark q k)
    with s st have "m' = dirty_mark now now q k m" by simp
    with marks_mark [of now now q k m p h] marks_gc_le [of now m p h] Cons.IH [of m'] s st Mark
    show ?thesis by (auto split: if_splits)
  next
    case (Check q k)
    with s st have "dirty_check_and_consume now q k m = (b, m')" by simp
    from check_result(2) [OF this, of p h] obtain t where
      "marks (dirty_gc now m) p h = marks m' p h + (if b \<and> p = q \<and> h = k then {#t#} else {#})" by blast
    then have "size (marks (dirty_gc now m) p h) = size (marks m' p h) + (if b \<and> p = q \<and> h = k then 1 else 0)"
      by simp
    with marks_gc_le [of now m p h] Cons.IH [of m'] s st Check show ?thesis by (auto split: if_splits)
  qed
qed simp

end
