(* ===== verification/Store.thy ===== *)
theory Store
  imports Disk Identity Doc DocHistory
begin

text \<open>
  \<^verbatim>\<open>crates/agentsync-core/src/store\<close>, \<^verbatim>\<open>fs/node_adapter.rs\<close>, \<^verbatim>\<open>host/native/{storage,filesystem}.rs\<close> and the
  file part of \<^verbatim>\<open>tls.rs\<close>: what the program keeps on disk. Everything is written next to its
  target and renamed over it; the locales \<open>doc_storage\<close> and \<open>blob_storage\<close> state the contracts
  of \<^verbatim>\<open>host/storage.rs\<close>, which hold under every fault of the disk.
\<close>

section \<open>Replacing a file\<close>

definition map_err :: "(error \<Rightarrow> error) \<Rightarrow> ('s, 'a) action \<Rightarrow> ('s, 'a) action" where
  "map_err f m s = (case m s of (Inl e, t) \<Rightarrow> (Inl (f e), t) | (Inr x, t) \<Rightarrow> (Inr x, t))"

text \<open>\<^verbatim>\<open>fs::write(&tmp, bytes)\<close> and \<^verbatim>\<open>fs::rename(&tmp, path)\<close>.\<close>

definition write_rename :: "fpath \<Rightarrow> fpath \<Rightarrow> byte list \<Rightarrow> (disk, unit) action" where
  "write_rename tmp p bs = andthen (fs_write tmp bs) (\<lambda>_. fs_rename tmp p)"

lemma write_rename_frame:
  assumes "write_rename tmp p bs d = (r, e)" "q \<noteq> tmp" "q \<noteq> p"
  shows "d_nodes e q = d_nodes d q"
proof (cases "fs_write tmp bs d")
  case (Pair r' d')
  note f = write_frame [OF Pair assms(2)]
  show ?thesis
  proof (cases r')
    case (Inl x)
    with assms(1) Pair f show ?thesis by (auto simp: write_rename_def andthen_run)
  next
    case (Inr x)
    with assms(1) Pair have "fs_rename tmp p d' = (r, e)" by (simp add: write_rename_def andthen_run)
    with f assms(2,3) show ?thesis
      by (auto simp: fs_rename_def split: if_splits option.splits file_node.splits)
  qed
qed

lemma map_err_id [simp]: "map_err (\<lambda>e. e) m = m"
  by (rule ext) (simp add: map_err_def split: prod.split sum.split)

text \<open>Old or new, nothing in between, and new exactly when success is reported.\<close>

lemma write_rename_mapped:
  assumes "andthen (fs_write tmp bs) (\<lambda>_. map_err f (fs_rename tmp p)) d = (r, e)" "tmp \<noteq> p"
  shows "r = Ok () \<and> file_at e p = Some bs \<or> (\<exists>x. r = Err x) \<and> d_nodes e p = d_nodes d p"
proof (cases "fs_write tmp bs d")
  case (Pair r' d')
  have fr: "d_nodes d' p = d_nodes d p" by (rule write_frame [OF Pair]) (use assms(2) in simp)
  show ?thesis
  proof (cases r')
    case (Inl x)
    with assms(1) Pair fr show ?thesis by (auto simp: andthen_run)
  next
    case (Inr u)
    obtain r2 e2 where rn: "fs_rename tmp p d' = (r2, e2)" by fastforce
    have e: "e2 = e" "r = (case r2 of Inl y \<Rightarrow> Inl (f y) | Inr u \<Rightarrow> Inr u)"
      using assms(1) Pair Inr rn by (auto simp: andthen_run map_err_def split: sum.splits)
    show ?thesis
    proof (cases r2)
      case (Inl y)
      with rename_Err [of tmp p d' y e2] rn fr e show ?thesis by auto
    next
      case (Inr v)
      with rename_Ok(1) [OF rn [unfolded Inr] assms(2)] write_Ok [of tmp bs d u d'] Pair \<open>r' = Inr u\<close> e
      show ?thesis by auto
    qed
  qed
qed

lemma write_rename_target:
  assumes "write_rename tmp p bs d = (r, e)" "tmp \<noteq> p"
  shows "r = Ok () \<and> file_at e p = Some bs \<or> (\<exists>x. r = Err x) \<and> d_nodes e p = d_nodes d p"
  using write_rename_mapped [of tmp bs "\<lambda>e. e"] assms by (simp add: write_rename_def)

lemma write_rename_files:
  assumes "write_rename tmp p bs d = (r, e)" "tmp \<noteq> p"
  shows "file_at e p = file_at d p \<or> file_at e p = Some bs" "q \<noteq> tmp \<Longrightarrow> q \<noteq> p \<Longrightarrow> file_at e q = file_at d q"
  using write_rename_target [OF assms] write_rename_frame [OF assms(1)] by (auto simp: file_at_def)

lemma write_rename_dirs:
  assumes "write_rename tmp p bs d = (r, e)" "d_nodes e q = Some DDir"
  shows "d_nodes d q = Some DDir"
proof -
  have w: "fs_write tmp bs d = (r1, d1) \<Longrightarrow> d_nodes d1 q = Some DDir \<Longrightarrow> d_nodes d q = Some DDir" for r1 d1
    by (auto simp: fs_write_def fs_write_mode_def split: if_splits)
  have n: "fs_rename tmp p d1 = (r2, d2) \<Longrightarrow> d_nodes d2 q = Some DDir \<Longrightarrow> d_nodes d1 q = Some DDir" for r2 d1 d2
    by (auto simp: fs_rename_def split: if_splits option.splits file_node.splits)
  show ?thesis
    using assms w n by (auto simp: write_rename_def andthen_def split: prod.splits sum.splits)
qed

section \<open>The document file\<close>

definition doc_path :: "fpath \<Rightarrow> fpath" where
  "doc_path root = root @ [''doc.bin'']"

definition tmp_path :: "fpath \<Rightarrow> fpath" where
  "tmp_path root = root @ [''doc.bin.tmp'']"

definition doc_ensure_dirs :: "fpath \<Rightarrow> (disk, unit) action" where
  "doc_ensure_dirs root =
     andthen (fs_create_dir_all root) (\<lambda>_.
     andthen (fs_create_dir_all (root @ [''snapshots''])) (\<lambda>_.
     fs_create_dir_all (root @ [''blobs''])))"

definition doc_exists :: "fpath \<Rightarrow> (disk, bool) action" where
  "doc_exists root = fs_exists (doc_path root)"

definition rename_failed :: "error \<Rightarrow> error" where
  "rename_failed e = (case e of Io m \<Rightarrow> Io (''rename doc.bin failed: '' @ m) | _ \<Rightarrow> e)"

definition save_bytes :: "fpath \<Rightarrow> byte list \<Rightarrow> (disk, unit) action" where
  "save_bytes root bs =
     andthen (fs_write (tmp_path root) bs) (\<lambda>_. map_err rename_failed (fs_rename (tmp_path root) (doc_path root)))"

definition doc_store_load :: "('d, 'o, 'y) automerge \<Rightarrow> host \<Rightarrow> fpath \<Rightarrow> (disk, 'd doc) action" where
  "doc_store_load am h root = andthen (fs_read (doc_path root)) (\<lambda>bs. lift (doc_load am h bs))"

definition doc_store_save ::
    "('d, 'o, 'y) automerge \<Rightarrow> fpath \<Rightarrow> 'd doc \<times> disk \<Rightarrow> unit result \<times> 'd doc \<times> disk" where
  "doc_store_save am root = (\<lambda>(s, d).
     case doc_save am s of (bs, s') \<Rightarrow> (case save_bytes root bs d of (r, d') \<Rightarrow> (r, s', d')))"

text \<open>\<^verbatim>\<open>NativeDocStorage\<close>: the same layout behind the host trait.\<close>

definition native_doc_load :: "fpath \<Rightarrow> (disk, byte list option) action" where
  "native_doc_load root d =
     (case fs_read (doc_path root) d of
        (Inr bs, e) \<Rightarrow> (Ok (Some bs), e)
      | (Inl x, e) \<Rightarrow> (if x = io_not_found then Ok None else Err x, e))"

definition native_doc_save :: "fpath \<Rightarrow> byte list \<Rightarrow> (disk, unit) action" where
  "native_doc_save root bs = write_rename (tmp_path root) (doc_path root) bs"

definition stored_doc :: "fpath \<Rightarrow> disk \<Rightarrow> byte list option" where
  "stored_doc root d = file_at d (doc_path root)"

lemma tmp_not_doc [simp]: "tmp_path root \<noteq> doc_path root"
  by (simp add: tmp_path_def doc_path_def)

lemma save_bytes_atomic:
  assumes "save_bytes root bs d = (r, e)"
  shows "r = Ok () \<and> stored_doc root e = Some bs \<or> (\<exists>x. r = Err x) \<and> stored_doc root e = stored_doc root d"
  using write_rename_mapped [OF assms [unfolded save_bytes_def] tmp_not_doc]
  by (auto simp: stored_doc_def file_at_def)

text \<open>The contract of \<^verbatim>\<open>trait DocStorage\<close>: replacement is atomic, whatever fails.\<close>

locale doc_storage =
  fixes load :: "('s, byte list option) action"
    and save :: "byte list \<Rightarrow> ('s, unit) action"
    and stored :: "'s \<Rightarrow> byte list option"
  assumes save_atomic: "save bs s = (r, t) \<Longrightarrow>
      r = Ok () \<and> stored t = Some bs \<or> (\<exists>x. r = Err x) \<and> stored t = stored s"
    and load_stored: "load s = (Ok x, t) \<Longrightarrow> x = stored s \<and> stored t = stored s"
begin

text \<open>A run of saves, each of which may fail, as the save loop makes them.\<close>

primrec save_run :: "byte list list \<Rightarrow> 's \<Rightarrow> 's" where
  "save_run [] s = s"
| "save_run (b # bs) s = save_run bs (snd (save b s))"

lemma save_run_stored: "stored (save_run bss s) \<in> insert (stored s) (Some ` set bss)"
proof (induction bss arbitrary: s)
  case (Cons b bss)
  obtain r t where s: "save b s = (r, t)" by fastforce
  have "stored t \<in> {stored s, Some b}" using save_atomic [OF s] by auto
  with Cons.IH [of t] s show ?case by auto
qed simp

lemma load_after_run:
  "load (save_run bss s) = (Ok x, t) \<Longrightarrow> x \<in> insert (stored s) (Some ` set bss)"
  using load_stored [of "save_run bss s" x t] save_run_stored [of bss s] by auto

end

interpretation native_doc: doc_storage "native_doc_load root" "native_doc_save root" "stored_doc root"
proof
  fix bs d r e
  assume "native_doc_save root bs d = (r, e)"
  then show "r = Ok () \<and> stored_doc root e = Some bs \<or> (\<exists>x. r = Err x) \<and> stored_doc root e = stored_doc root d"
    using write_rename_target [of "tmp_path root" "doc_path root" bs d r e]
    by (auto simp: native_doc_save_def stored_doc_def file_at_def)
next
  fix d x e
  assume "native_doc_load root d = (Ok x, e)"
  then show "x = stored_doc root d \<and> stored_doc root e = stored_doc root d"
    by (auto simp: native_doc_load_def fs_read_def stored_doc_def file_at_def doc_path_def
        io_not_found_def io_fault_def io_other_def split: if_splits option.splits file_node.splits)
qed

interpretation vault_doc: doc_storage "native_doc_load root" "save_bytes root" "stored_doc root"
  by unfold_locales (use save_bytes_atomic native_doc.load_stored in blast)+

section \<open>The blob store\<close>

definition blob_root :: "fpath \<Rightarrow> fpath" where
  "blob_root root = root @ [''blobs'']"

definition blob_path :: "fpath \<Rightarrow> string \<Rightarrow> fpath" where
  "blob_path root hash = path_join (blob_root root) hash"

definition blob_ensure_dirs :: "fpath \<Rightarrow> (disk, unit) action" where
  "blob_ensure_dirs root = fs_create_dir_all (blob_root root)"

definition blob_has :: "fpath \<Rightarrow> string \<Rightarrow> (disk, bool) action" where
  "blob_has root hash = fs_exists (blob_path root hash)"

definition blob_missing :: "string \<Rightarrow> error \<Rightarrow> error" where
  "blob_missing hash e = (if e = io_not_found then NotFound (''blob: '' @ hash) else e)"

definition blob_get :: "fpath \<Rightarrow> string \<Rightarrow> (disk, byte list) action" where
  "blob_get root hash = map_err (blob_missing hash) (fs_read (blob_path root hash))"

definition blob_tmp :: "fpath \<Rightarrow> string \<Rightarrow> fpath" where
  "blob_tmp root hash = path_join (blob_root root) (''.tmp.'' @ hash)"

definition blob_store_new :: "fpath \<Rightarrow> string \<Rightarrow> byte list \<Rightarrow> (disk, unit) action" where
  "blob_store_new root hash bs =
     andthen (blob_has root hash) (\<lambda>present.
     if present then ret () else write_rename (blob_tmp root hash) (blob_path root hash) bs)"

definition blob_put :: "crypto \<Rightarrow> fpath \<Rightarrow> byte list \<Rightarrow> (disk, string) action" where
  "blob_put c root bs =
     andthen (blob_ensure_dirs root) (\<lambda>_.
     let hash = content_hash c bs in
     andthen (blob_store_new root hash bs) (\<lambda>_. ret hash))"

definition blob_put_with_hash :: "crypto \<Rightarrow> fpath \<Rightarrow> string \<Rightarrow> byte list \<Rightarrow> (disk, unit) action" where
  "blob_put_with_hash c root hash bs =
     andthen (blob_ensure_dirs root) (\<lambda>_.
     let computed = content_hash c bs in
     if computed \<noteq> hash
     then fail (Other (''blob hash mismatch: expected '' @ hash @ '', computed '' @ computed))
     else blob_store_new root hash bs)"

text \<open>
  The invariant of the store: the blob directory holds files only, and each of them, the
  unfinished ones apart, is named by the hash of its content. \<open>blob_at\<close> is the content under a
  hash.
\<close>

definition blobs_ok :: "crypto \<Rightarrow> fpath \<Rightarrow> disk \<Rightarrow> bool" where
  "blobs_ok c root d \<longleftrightarrow>
     (\<forall>n bs. file_at d (blob_root root @ [n]) = Some bs \<and> \<not> starts_with n ''.tmp.'' \<longrightarrow> n = content_hash c bs) \<and>
     (\<forall>n. d_nodes d (blob_root root @ [n]) \<noteq> Some DDir)"

definition blob_at :: "fpath \<Rightarrow> disk \<Rightarrow> string \<Rightarrow> byte list option" where
  "blob_at root d hash = file_at d (blob_path root hash)"

lemma tmp_plain: "plain_component n \<Longrightarrow> plain_component (''.tmp.'' @ n)"
  by (auto simp: plain_component_def)

lemma blob_paths:
  assumes "plain_component n"
  shows "blob_path root n = blob_root root @ [n]" "blob_tmp root n = blob_root root @ [''.tmp.'' @ n]"
  using path_join_plain [OF assms] path_join_plain [OF tmp_plain [OF assms]]
  by (simp_all add: blob_path_def blob_tmp_def)

lemma blob_tmp_other: "plain_component n \<Longrightarrow> blob_tmp root n \<noteq> blob_path root n"
  by (simp add: blob_paths)

lemma has_files: "blob_has root h d = (r, e) \<Longrightarrow> d_nodes e = d_nodes d"
  by (auto simp: blob_has_def fs_exists_def)

lemma store_new_dirs:
  assumes "blob_store_new root h bs d = (r, e)" "d_nodes e q = Some DDir"
  shows "d_nodes d q = Some DDir"
proof -
  obtain b d1 where h: "blob_has root h d = (Ok b, d1)" by (auto simp: blob_has_def fs_exists_def)
  with assms write_rename_dirs [of "blob_tmp root h" "blob_path root h" bs d1 r e q] has_files [OF h]
  show ?thesis by (cases b) (auto simp: blob_store_new_def andthen_run ret_run)
qed

text \<open>What a store attempt can have done to the files of the disk.\<close>

lemma store_new_files:
  assumes "blob_store_new root h bs d = (r, e)" "plain_component h"
  shows "file_at e (blob_path root h) \<in> {file_at d (blob_path root h), Some bs}"
    "q \<noteq> blob_path root h \<Longrightarrow> q \<noteq> blob_tmp root h \<Longrightarrow> file_at e q = file_at d q"
    "r = Ok u \<Longrightarrow> d_nodes d (blob_path root h) \<noteq> Some DDir \<Longrightarrow> file_at e (blob_path root h) \<noteq> None"
proof -
  obtain b d1 where h: "blob_has root h d = (Ok b, d1)" by (auto simp: blob_has_def fs_exists_def)
  have n: "d_nodes d1 = d_nodes d" by (rule has_files [OF h])
  have 1: "file_at e (blob_path root h) \<in> {file_at d (blob_path root h), Some bs} \<and>
      (q \<noteq> blob_path root h \<longrightarrow> q \<noteq> blob_tmp root h \<longrightarrow> file_at e q = file_at d q) \<and>
      (r = Ok u \<longrightarrow> d_nodes d (blob_path root h) \<noteq> Some DDir \<longrightarrow> file_at e (blob_path root h) \<noteq> None)"
  proof (cases b)
    case True
    with assms(1) h have e: "e = d1" by (simp add: blob_store_new_def andthen_run ret_run)
    from True h have "d_nodes d (blob_path root h) \<noteq> None \<or> blob_path root h = []"
      by (auto simp: blob_has_def fs_exists_def)
    moreover have "blob_path root h \<noteq> []" by (simp add: blob_paths [OF assms(2)])
    ultimately show ?thesis
      using e n by (auto simp: file_at_def split: option.splits file_node.splits)
  next
    case False
    with assms(1) h have w: "write_rename (blob_tmp root h) (blob_path root h) bs d1 = (r, e)"
      by (simp add: blob_store_new_def andthen_run)
    note files = write_rename_files [OF w blob_tmp_other [OF assms(2)]]
    have t: "r = Ok () \<and> file_at e (blob_path root h) = Some bs \<or> (\<exists>x. r = Err x)"
      using write_rename_target [OF w blob_tmp_other [OF assms(2)]] by blast
    have "file_at d1 = file_at d" by (rule ext) (simp add: file_at_def n)
    then show ?thesis using files(1) files(2) [of q] t by auto
  qed
  then show "file_at e (blob_path root h) \<in> {file_at d (blob_path root h), Some bs}"
    "q \<noteq> blob_path root h \<Longrightarrow> q \<noteq> blob_tmp root h \<Longrightarrow> file_at e q = file_at d q"
    "r = Ok u \<Longrightarrow> d_nodes d (blob_path root h) \<noteq> Some DDir \<Longrightarrow> file_at e (blob_path root h) \<noteq> None"
    by auto
qed

context sha_hex
begin

lemma hash_plain: "plain_component (content_hash c bs)" "\<not> starts_with (content_hash c bs) ''.tmp.''"
proof -
  let ?h = "content_hash c bs"
  have l: "length ?h = 64" using sha_length hex_length by (simp add: content_hash_def)
  have x: "x \<in> set ?h \<Longrightarrow> x \<noteq> CHR ''.'' \<and> x \<noteq> CHR ''/''" for x
    using hex_chars [of "sha256 c bs"]
    by (auto simp: content_hash_def is_ascii_alphabetic_def is_ascii_digit_def byte_of_def)
  show "plain_component ?h" using l x by (auto simp: plain_component_def)
  show "\<not> starts_with ?h ''.tmp.''"
    using l x by (cases ?h) (auto simp: starts_with_def)
qed

text \<open>A store attempt, whatever fails in it, keeps the invariant and the other blobs.\<close>

lemma store_new_ok:
  assumes "blob_store_new root (content_hash c bs) bs d = (r, e)" "blobs_ok c root d"
  shows "blobs_ok c root e"
proof -
  let ?h = "content_hash c bs"
  note f = store_new_files [OF assms(1) hash_plain(1)] and p = blob_paths [OF hash_plain(1) [of bs]]
  have "n = content_hash c xs"
    if a: "file_at e (blob_root root @ [n]) = Some xs" "\<not> starts_with n ''.tmp.''" for n xs
  proof (cases "n = ?h")
    case True
    with a(1) f(1) p(1) have "file_at d (blob_root root @ [n]) = Some xs \<or> xs = bs" by auto
    with True a(2) assms(2) show ?thesis by (auto simp: blobs_ok_def)
  next
    case False
    have "n \<noteq> ''.tmp.'' @ ?h" using a(2) by (auto simp: starts_with_def)
    with False p have "file_at e (blob_root root @ [n]) = file_at d (blob_root root @ [n])"
      by (intro f(2)) simp_all
    with a assms(2) show ?thesis by (simp add: blobs_ok_def)
  qed
  moreover have "d_nodes e (blob_root root @ [n]) \<noteq> Some DDir" for n
    using store_new_dirs [OF assms(1)] assms(2) by (auto simp: blobs_ok_def)
  ultimately show ?thesis by (simp add: blobs_ok_def)
qed

lemma ensure_blobs:
  assumes "blob_ensure_dirs root d = (r, e)"
  shows "file_at e = file_at d" "blobs_ok c root d \<Longrightarrow> blobs_ok c root e"
proof -
  show f: "file_at e = file_at d"
    using create_dir_all_files [OF assms [unfolded blob_ensure_dirs_def]] by auto
  have "d_nodes e (blob_root root @ [n]) = d_nodes d (blob_root root @ [n])" for n
    using assms by (auto simp: blob_ensure_dirs_def fs_create_dir_all_def split: if_splits)
  with f show "blobs_ok c root d \<Longrightarrow> blobs_ok c root e" by (simp add: blobs_ok_def)
qed

lemma put_with_hash_cases:
  assumes "blob_put_with_hash c root h bs d = (r, e)"
  obtains (stopped) x r1 where "r = Err x" "blob_ensure_dirs root d = (r1, e)"
  | (stored) d1 where "h = content_hash c bs" "blob_ensure_dirs root d = (Ok (), d1)"
      "blob_store_new root h bs d1 = (r, e)"
proof -
  obtain r1 d1 where 1: "blob_ensure_dirs root d = (r1, d1)" by fastforce
  show thesis
  proof (cases r1)
    case (Inl x)
    with assms 1 show thesis by (intro stopped [of x r1]) (auto simp: blob_put_with_hash_def andthen_run)
  next
    case (Inr u)
    show thesis
    proof (cases "content_hash c bs = h")
      case True
      with assms 1 Inr show thesis
        by (intro stored [of d1]) (simp_all add: blob_put_with_hash_def andthen_run Let_def)
    next
      case False
      with assms 1 Inr show thesis
        by (intro stopped [of _ r1]) (auto simp: blob_put_with_hash_def andthen_run fail_run Let_def)
    qed
  qed
qed

text \<open>The laws of \<^verbatim>\<open>put_with_hash\<close>: they hold whatever fails.\<close>

lemma put_with_hash_laws:
  assumes "blob_put_with_hash c root h bs d = (r, e)" "blobs_ok c root d"
  shows "blobs_ok c root e"
    "plain_component k \<Longrightarrow> \<not> starts_with k ''.tmp.'' \<Longrightarrow> blob_at root e k \<noteq> blob_at root d k \<Longrightarrow>
       k = h \<and> h = content_hash c bs \<and> blob_at root e k = Some bs"
    "r = Ok () \<Longrightarrow> h = content_hash c bs \<and> blob_at root e h \<noteq> None"
proof -
  have "blobs_ok c root e \<and>
    (plain_component k \<and> \<not> starts_with k ''.tmp.'' \<and> blob_at root e k \<noteq> blob_at root d k \<longrightarrow>
       k = h \<and> h = content_hash c bs \<and> blob_at root e k = Some bs) \<and>
    (r = Ok () \<longrightarrow> h = content_hash c bs \<and> blob_at root e h \<noteq> None)"
    using assms(1)
  proof (cases rule: put_with_hash_cases)
    case (stopped x r1)
    with ensure_blobs [OF stopped(2)] assms(2) show ?thesis by (simp add: blob_at_def)
  next
    case (stored d1)
    note ok = ensure_blobs(2) [OF stored(2) assms(2)] and f = ensure_blobs(1) [OF stored(2)]
    have h: "plain_component h" "\<not> starts_with h ''.tmp.''" using hash_plain stored(1) by simp_all
    note n = store_new_files [OF stored(3) h(1)]
    have "k = h \<and> blob_at root e k = Some bs"
      if k: "plain_component k" "\<not> starts_with k ''.tmp.''" "blob_at root e k \<noteq> blob_at root d k"
    proof (cases "k = h")
      case True
      with n(1) f k(3) show ?thesis by (auto simp: blob_at_def)
    next
      case False
      with k h(1) have "blob_path root k \<noteq> blob_path root h" "blob_path root k \<noteq> blob_tmp root h"
        by (auto simp: blob_paths starts_with_def)
      then have "blob_at root e k = blob_at root d k" using n(2) f by (simp add: blob_at_def)
      with k(3) show ?thesis by simp
    qed
    moreover have "d_nodes d1 (blob_path root h) \<noteq> Some DDir"
      using ok h by (simp add: blobs_ok_def blob_paths)
    ultimately show ?thesis
      using store_new_ok [OF stored(3) [unfolded stored(1)] ok] stored(1) n(3) by (auto simp: blob_at_def)
  qed
  then show "blobs_ok c root e"
    "plain_component k \<Longrightarrow> \<not> starts_with k ''.tmp.'' \<Longrightarrow> blob_at root e k \<noteq> blob_at root d k \<Longrightarrow>
       k = h \<and> h = content_hash c bs \<and> blob_at root e k = Some bs"
    "r = Ok () \<Longrightarrow> h = content_hash c bs \<and> blob_at root e h \<noteq> None"
    by blast+
qed

lemma put_as_with_hash:
  "blob_put c root bs d = (r, e) \<Longrightarrow>
   blob_put_with_hash c root (content_hash c bs) bs d =
     ((case r of Inl x \<Rightarrow> Inl x | Inr _ \<Rightarrow> Inr ()), e) \<and> (\<forall>h. r = Ok h \<longrightarrow> h = content_hash c bs)"
  by (auto simp: blob_put_def blob_put_with_hash_def andthen_run ret_run Let_def split: prod.splits sum.splits)

end
text \<open>The contract of \<^verbatim>\<open>trait BlobStorage\<close>, for names that stay inside the store.\<close>

locale blob_storage =
  fixes get :: "string \<Rightarrow> ('s, byte list) action"
    and put :: "byte list \<Rightarrow> ('s, string) action"
    and put_with_hash :: "string \<Rightarrow> byte list \<Rightarrow> ('s, unit) action"
    and content :: "'s \<Rightarrow> string \<Rightarrow> byte list option"
    and good :: "'s \<Rightarrow> bool"
    and valid :: "string \<Rightarrow> bool"
    and hash :: "byte list \<Rightarrow> string"
  assumes get_law: "good s \<Longrightarrow> valid h \<Longrightarrow> get h s = (r, t) \<Longrightarrow>
      good t \<and> content t = content s \<and> (\<forall>bs. r = Ok bs \<longrightarrow> content s h = Some bs)"
    and content_law: "good s \<Longrightarrow> valid h \<Longrightarrow> content s h = Some bs \<Longrightarrow> hash bs = h"
    and put_with_hash_law: "good s \<Longrightarrow> put_with_hash h bs s = (u, t) \<Longrightarrow>
      good t \<and> (\<forall>k. valid k \<and> content t k \<noteq> content s k \<longrightarrow> k = h \<and> h = hash bs \<and> content t k = Some bs) \<and>
      (u = Ok () \<longrightarrow> h = hash bs \<and> content t h \<noteq> None)"
    and put_law: "good s \<Longrightarrow> put bs s = (r', t) \<Longrightarrow>
      good t \<and> (\<forall>k. valid k \<and> content t k \<noteq> content s k \<longrightarrow> k = hash bs \<and> content t k = Some bs) \<and>
      (\<forall>h. r' = Ok h \<longrightarrow> h = hash bs \<and> content t h \<noteq> None)"
    and hash_valid: "valid (hash bs)"
begin

lemma get_hash: "good s \<Longrightarrow> valid h \<Longrightarrow> get h s = (Ok bs, t) \<Longrightarrow> hash bs = h"
  using get_law content_law by metis

lemma put_then_get:
  assumes "good s" "put bs s = (Ok h, t)" "get h t = (Ok bs', u)"
  shows "h = hash bs \<and> hash bs' = hash bs"
  using put_law [OF assms(1,2)] get_hash [of t h bs' u] hash_valid [of bs] assms(3) by auto

lemma received_then_get:
  assumes "good s" "put_with_hash h bs s = (Ok (), t)" "get h t = (Ok bs', u)"
  shows "h = hash bs \<and> hash bs' = h"
  using put_with_hash_law [OF assms(1,2)] get_hash [of t h bs' u] hash_valid [of bs] assms(3) by auto

lemma blob_kept:
  assumes "good s" "valid k" "content s k \<noteq> None"
  shows "put bs s = (r, t) \<Longrightarrow> content t k \<noteq> None" "put_with_hash h bs s = (r', t) \<Longrightarrow> content t k \<noteq> None"
  using put_law [OF assms(1)] put_with_hash_law [OF assms(1)] assms(2,3) by (metis option.distinct(1))+

end

definition blob_name :: "string \<Rightarrow> bool" where
  "blob_name h \<longleftrightarrow> plain_component h \<and> \<not> starts_with h ''.tmp.''"

lemma blob_get_Ok:
  "blob_get root h d = (r, e) \<Longrightarrow> d_nodes e = d_nodes d \<and> (\<forall>bs. r = Ok bs \<longrightarrow> file_at d (blob_path root h) = Some bs)"
  by (auto simp: blob_get_def map_err_def fs_read_def file_at_def split: if_splits option.splits file_node.splits)

lemma native_blobs:
  assumes "sha_hex c"
  shows "blob_storage (blob_get root) (blob_put c root) (blob_put_with_hash c root) (blob_at root)
     (blobs_ok c root) blob_name (content_hash c)"
proof
  fix d h r e
  assume g: "blobs_ok c root d" "blob_name h" "blob_get root h d = (r, e)"
  then have "d_nodes e = d_nodes d" "\<forall>bs. r = Ok bs \<longrightarrow> file_at d (blob_path root h) = Some bs"
    using blob_get_Ok by blast+
  with g(1) show "blobs_ok c root e \<and> blob_at root e = blob_at root d \<and> (\<forall>bs. r = Ok bs \<longrightarrow> blob_at root d h = Some bs)"
    by (simp add: blobs_ok_def blob_at_def file_at_def fun_eq_iff)
next
  fix d h bs
  assume "blobs_ok c root d" "blob_name h" "blob_at root d h = Some bs"
  then show "content_hash c bs = h" by (auto simp: blobs_ok_def blob_at_def blob_name_def blob_paths)
next
  fix d h bs r e
  assume "blobs_ok c root d" "blob_put_with_hash c root h bs d = (r, e)"
  from sha_hex.put_with_hash_laws [OF assms this(2,1)]
  show "blobs_ok c root e \<and> (\<forall>k. blob_name k \<and> blob_at root e k \<noteq> blob_at root d k \<longrightarrow>
        k = h \<and> h = content_hash c bs \<and> blob_at root e k = Some bs) \<and>
      (r = Ok () \<longrightarrow> h = content_hash c bs \<and> blob_at root e h \<noteq> None)"
    unfolding blob_name_def by blast
next
  fix d bs and r :: "string result" and e
  assume g: "blobs_ok c root d" "blob_put c root bs d = (r, e)"
  note p = sha_hex.put_as_with_hash [OF assms g(2)]
  from sha_hex.put_with_hash_laws [OF assms conjunct1 [OF p] g(1)]
  show "blobs_ok c root e \<and> (\<forall>k. blob_name k \<and> blob_at root e k \<noteq> blob_at root d k \<longrightarrow>
        k = content_hash c bs \<and> blob_at root e k = Some bs) \<and>
      (\<forall>h. r = Ok h \<longrightarrow> h = content_hash c bs \<and> blob_at root e h \<noteq> None)"
    using p unfolding blob_name_def by (auto split: sum.splits)
next
  show "blob_name (content_hash c bs)" for bs
    using sha_hex.hash_plain [OF assms] by (simp add: blob_name_def)
qed

sublocale sha_hex \<subseteq> native_blob: blob_storage "blob_get root" "blob_put c root"
    "blob_put_with_hash c root" "blob_at root" "blobs_ok c root" blob_name "content_hash c" for root
  by (rule native_blobs) (rule sha_hex_axioms)

text \<open>A name with separators leaves the store: nothing in \<^verbatim>\<open>blob_path\<close> checks it.\<close>

lemma blob_path_escapes: "blob_path root ''../doc.bin'' = doc_path root"
proof -
  have "split_on (CHR ''/'') ''../doc.bin'' = [''..'', ''doc.bin'']" by code_simp
  then show ?thesis
    by (simp add: blob_path_def path_join_def blob_root_def doc_path_def starts_with_def)
qed

end
