(* ===== verification/Binding.thy ===== *)
theory Binding
  imports Paths SyncIgnore Glob Suppression Store "HOL-Library.AList"
begin

text \<open>
  \<^verbatim>\<open>crates/agentsync-core/src/fs/binding.rs\<close>: a directory bound to a vault, the translation
  between its files and vault paths, and which of them take part in the synchronisation.
\<close>

section \<open>Options\<close>

record bind_options =
  bo_include_patterns :: "string list"
  bo_text_extensions :: "string list"
  bo_attachment_max_bytes :: nat
  bo_text_file_max_bytes :: nat

definition for_extensions :: "string list \<Rightarrow> bind_options" where
  "for_extensions exts =
     (let exts = map (\<lambda>s. to_ascii_lowercase (trim_start_char (CHR ''.'') s)) exts in
      \<lparr>bo_include_patterns = map (\<lambda>e. ''**/*.'' @ e) exts, bo_text_extensions = exts,
       bo_attachment_max_bytes = 10 * 1024 * 1024, bo_text_file_max_bytes = 1 * 1024 * 1024\<rparr>)"

definition markdown_only :: bind_options where
  "markdown_only = for_extensions [''md'', ''markdown'']"

section \<open>Names\<close>

text \<open>
  \<^verbatim>\<open>to_string_lossy\<close>: each maximal part that is not well-formed UTF-8 becomes U+FFFD. The length
  of the well-formed character at the front, zero when there is none, and of the part to replace.
\<close>

fun char_len :: "string \<Rightarrow> nat" where
  "char_len [] = 0"
| "char_len (a # r) =
     (let n = byte_of a in
      if n < 128 then 1
      else if 194 \<le> n \<and> n \<le> 223 then (case r of b # _ \<Rightarrow> if utf8_cont b then 2 else 0 | _ \<Rightarrow> 0)
      else if 224 \<le> n \<and> n \<le> 239 then
        (case r of b # c # _ \<Rightarrow> if utf8_cont b \<and> utf8_cont c \<and> (n = 224 \<longrightarrow> 160 \<le> byte_of b) \<and>
            (n = 237 \<longrightarrow> byte_of b \<le> 159) then 3 else 0 | _ \<Rightarrow> 0)
      else if 240 \<le> n \<and> n \<le> 244 then
        (case r of b # c # d # _ \<Rightarrow> if utf8_cont b \<and> utf8_cont c \<and> utf8_cont d \<and>
            (n = 240 \<longrightarrow> 144 \<le> byte_of b) \<and> (n = 244 \<longrightarrow> byte_of b \<le> 143) then 4 else 0 | _ \<Rightarrow> 0)
      else 0)"

fun bad_len :: "string \<Rightarrow> nat" where
  "bad_len [] = 1"
| "bad_len (a # r) =
     (let n = byte_of a;
          second = (\<lambda>b. utf8_cont b \<and> (n = 224 \<longrightarrow> 160 \<le> byte_of b) \<and> (n = 237 \<longrightarrow> byte_of b \<le> 159) \<and>
            (n = 240 \<longrightarrow> 144 \<le> byte_of b) \<and> (n = 244 \<longrightarrow> byte_of b \<le> 143)) in
      if 224 \<le> n \<and> n \<le> 239 then (case r of b # _ \<Rightarrow> if second b then 2 else 1 | _ \<Rightarrow> 1)
      else if 240 \<le> n \<and> n \<le> 244 then
        (case r of b # c # _ \<Rightarrow> if second b then (if utf8_cont c then 3 else 2) else 1
         | [b] \<Rightarrow> if second b then 2 else 1 | _ \<Rightarrow> 1)
      else 1)"

lemma bad_len_pos: "0 < bad_len s"
  by (cases s) (auto simp: Let_def split: list.splits)

function to_string_lossy :: "string \<Rightarrow> string" where
  "to_string_lossy s =
     (if s = [] then []
      else if 0 < char_len s then take (char_len s) s @ to_string_lossy (drop (char_len s) s)
      else [CHR 0xEF, CHR 0xBF, CHR 0xBD] @ to_string_lossy (drop (bad_len s) s))"
  by pat_completeness auto
termination
  by (relation "measure length") (use bad_len_pos in auto)

declare to_string_lossy.simps [simp del]

lemma lossy_valid: "utf8_valid s \<Longrightarrow> to_string_lossy s = s"
proof (induction "length s" arbitrary: s rule: less_induct)
  case less
  show ?case
  proof (cases "s = []")
    case False
    have "0 < char_len s \<and> utf8_valid (drop (char_len s) s)"
      using less.prems False
      by (cases s) (auto simp: utf8_valid.simps [of s] utf8_valid.simps [of "_ # _"] Let_def
          split: if_splits list.splits)
    with less.hyps [of "drop (char_len s) s"] False show ?thesis
      by (simp add: to_string_lossy.simps [of s])
  qed (simp add: to_string_lossy.simps [of "[]"])
qed

section \<open>Excluded names\<close>

definition AUTHORIZED_KEYS_FILE :: string where
  "AUTHORIZED_KEYS_FILE = ''authorized_keys''"

definition ALWAYS_EXCLUDED_TOP_SEGMENTS :: "string list" where
  "ALWAYS_EXCLUDED_TOP_SEGMENTS = [''.agentsync'', ''.git'']"

definition always_excluded :: "string \<Rightarrow> bool" where
  "always_excluded path \<longleftrightarrow> hd (split_on (CHR ''/'') path) \<in> set ALWAYS_EXCLUDED_TOP_SEGMENTS"

definition is_syncignore_path :: "string \<Rightarrow> bool" where
  "is_syncignore_path path \<longleftrightarrow> last (split_on (CHR ''/'') path) = SYNC_IGNORE_FILENAME"

section \<open>The binding\<close>

text \<open>
  The hash maps are association lists with distinct keys; the order in which the code iterates
  over them is left open where it is used.
\<close>

record 'g binding =
  bd_root :: fpath
  bd_opts :: bind_options
  bd_sync_ignore :: "'g sync_ignore_set"
  bd_dirty :: dirty_set
  bd_materialized :: "(string \<times> string) list"
  bd_last_ingested :: "(string \<times> string) list"
  bd_materialized_dirs :: "string list"

definition binding_new :: "'g gitignore \<Rightarrow> walk \<Rightarrow> fpath \<Rightarrow> bind_options \<Rightarrow> (disk, 'g binding) action" where
  "binding_new gi wk root opts =
     andthen (sync_ignore_from gi wk root) (\<lambda>sync_ignore.
     ret \<lparr>bd_root = root, bd_opts = opts, bd_sync_ignore = sync_ignore, bd_dirty = dirty_new,
          bd_materialized = [], bd_last_ingested = [], bd_materialized_dirs = []\<rparr>)"

definition rebuild_sync_ignore :: "'g gitignore \<Rightarrow> walk \<Rightarrow> 'g binding \<Rightarrow> (disk, 'g binding) action" where
  "rebuild_sync_ignore gi wk b =
     andthen (sync_ignore_from gi wk (bd_root b)) (\<lambda>fresh. ret (b\<lparr>bd_sync_ignore := fresh\<rparr>))"

definition path_allowed :: "'g gitignore \<Rightarrow> 'g binding \<Rightarrow> string \<Rightarrow> bool" where
  "path_allowed gi b path \<longleftrightarrow>
     (if always_excluded path then False
      else if path = AUTHORIZED_KEYS_FILE \<or> is_syncignore_path path then True
      else if sync_ignored gi (bd_sync_ignore b) path False then False
      else if bo_include_patterns (bd_opts b) \<noteq> [] \<and> \<not> glob_match_any (bo_include_patterns (bd_opts b)) path
      then False
      else True)"

definition dir_path_allowed :: "'g gitignore \<Rightarrow> 'g binding \<Rightarrow> string \<Rightarrow> bool" where
  "dir_path_allowed gi b path \<longleftrightarrow>
     (if always_excluded path then False else \<not> sync_ignored gi (bd_sync_ignore b) path True)"

text \<open>\<^verbatim>\<open>abs.strip_prefix(root)\<close> with the separators of the system turned into slashes.\<close>

definition relative_name :: "fpath \<Rightarrow> fpath \<Rightarrow> string option" where
  "relative_name root p =
     (if prefix root p then
        (let rel_str = unify_slash (to_string_lossy (join ''/'' (drop (length root) p))) in
         if rel_str = [] then None else Some rel_str)
      else None)"

definition fs_path_to_vault_path :: "(string \<Rightarrow> string) \<Rightarrow> 'g gitignore \<Rightarrow> 'g binding \<Rightarrow> fpath \<Rightarrow> string option" where
  "fs_path_to_vault_path nfc gi b p =
     (case relative_name (bd_root b) p of
        None \<Rightarrow> None
      | Some rel_str \<Rightarrow> (case normalize nfc rel_str of
            Inl _ \<Rightarrow> None
          | Inr normalized \<Rightarrow> if path_allowed gi b normalized then Some normalized else None))"

definition fs_path_to_vault_dir_path :: "(string \<Rightarrow> string) \<Rightarrow> 'g gitignore \<Rightarrow> 'g binding \<Rightarrow> fpath \<Rightarrow> string option" where
  "fs_path_to_vault_dir_path nfc gi b p =
     (case relative_name (bd_root b) p of
        None \<Rightarrow> None
      | Some rel_str \<Rightarrow> (case normalize nfc rel_str of
            Inl _ \<Rightarrow> None
          | Inr normalized \<Rightarrow> if dir_path_allowed gi b normalized then Some normalized else None))"

definition vault_path_to_fs_path :: "'g binding \<Rightarrow> string \<Rightarrow> fpath" where
  "vault_path_to_fs_path b vault = resolve (bd_root b) (split_on (CHR ''/'') vault)"

definition is_text_extension :: "'g binding \<Rightarrow> string \<Rightarrow> bool" where
  "is_text_extension b path \<longleftrightarrow>
     (if path = AUTHORIZED_KEYS_FILE \<or> is_syncignore_path path then True
      else case name_extension (last (split_on (CHR ''/'') path)) of
          Some ext \<Rightarrow> list_ex (\<lambda>e. eq_ignore_ascii_case e ext) (bo_text_extensions (bd_opts b))
        | None \<Rightarrow> bo_text_extensions (bd_opts b) = [])"

definition over_size :: "'g binding \<Rightarrow> string \<Rightarrow> nat \<Rightarrow> bool" where
  "over_size b path n =
     (if is_text_extension b path then n > bo_text_file_max_bytes (bd_opts b)
      else n > bo_attachment_max_bytes (bd_opts b))"

section \<open>Facts\<close>

lemma resolve_good: "list_all good_segment cs \<Longrightarrow> resolve acc cs = acc @ cs"
  by (induction acc cs rule: resolve.induct) (auto simp: good_segment_def)

text \<open>A normalised path names a file below the root, and different paths different files.\<close>

lemma vault_path_below:
  "good_path p \<Longrightarrow> vault_path_to_fs_path b p = bd_root b @ split_on (CHR ''/'') p"
  by (simp add: vault_path_to_fs_path_def resolve_good good_path_def)

lemma vault_path_inj:
  assumes "good_path p" "good_path q" "vault_path_to_fs_path b p = vault_path_to_fs_path b q"
  shows "p = q"
  using assms by (metis vault_path_below append_same_eq join_split_on same_append_eq)

lemma unify_no_backslash: "CHR 0x5C \<notin> set s \<Longrightarrow> unify_slash s = s"
  by (auto simp: unify_slash_def intro: map_idI)

lemma relative_below:
  assumes "good_path p" "utf8_valid p" "CHR 0x5C \<notin> set p"
  shows "relative_name (bd_root b) (vault_path_to_fs_path b p) = Some p"
  using assms good_path_ne [OF assms(1)]
  by (simp add: relative_name_def vault_path_below join_split_on lossy_valid unify_no_backslash)

text \<open>The file a vault path stands for is translated back to it.\<close>

lemma vault_path_back:
  assumes "normalize nfc p = Ok p" "utf8_valid p" "CHR 0x5C \<notin> set p"
  shows "fs_path_to_vault_path nfc gi b (vault_path_to_fs_path b p) = (if path_allowed gi b p then Some p else None)"
    "fs_path_to_vault_dir_path nfc gi b (vault_path_to_fs_path b p) = (if dir_path_allowed gi b p then Some p else None)"
  using relative_below [OF normalize_good [OF assms(1)] assms(2,3), of b] assms(1)
  by (simp_all add: fs_path_to_vault_path_def fs_path_to_vault_dir_path_def)

lemma vault_path_good:
  "fs_path_to_vault_path nfc gi b p = Some q \<Longrightarrow> good_path q \<and> path_allowed gi b q"
  "fs_path_to_vault_dir_path nfc gi b p = Some q \<Longrightarrow> good_path q \<and> dir_path_allowed gi b q"
  by (auto simp: fs_path_to_vault_path_def fs_path_to_vault_dir_path_def split: option.splits sum.splits if_splits
      dest: normalize_good)

text \<open>The include patterns built from extensions match the files with these extensions.\<close>

lemma tokens_plain: "star \<notin> set s \<Longrightarrow> tokens s = map Lit s"
  by (induction s) auto

lemma wild_suffix: "wild (Any # map Lit xs) s \<longleftrightarrow> suffix xs s"
proof -
  have "wild (map Lit xs) r \<longleftrightarrow> r = xs" for r
    using wild_lits [of xs "[]" r] by simp
  then have "wild (Any # map Lit xs) s \<longleftrightarrow> (\<exists>k \<le> length s. drop k s = xs)" by (simp add: wild_Any)
  moreover have "k \<le> length s \<Longrightarrow> drop k s = xs \<Longrightarrow> suffix xs s" for k by (metis suffix_drop)
  moreover have "\<exists>k \<le> length s. drop k s = xs" if "suffix xs s"
  proof -
    from that obtain zs where "s = zs @ xs" by (auto simp: suffix_def)
    then show ?thesis by (intro exI [of _ "length zs"]) simp
  qed
  ultimately show ?thesis by blast
qed

lemma ends_with_suffix: "ends_with s p \<longleftrightarrow> suffix p s"
proof
  assume "ends_with s p"
  then show "suffix p s" unfolding ends_with_def by (metis suffix_drop)
qed (auto simp: ends_with_def suffix_def)

lemma glob_extension:
  assumes "star \<notin> set e"
  shows "glob_match (''**/*.'' @ e) path \<longleftrightarrow> ends_with path (CHR ''.'' # e)"
proof -
  let ?pat = "''**/*.'' @ e"
  have "ends_open ?pat"
    unfolding ends_open_def
  proof (intro allI impI)
    fix p assume p: "p < length ?pat" "double_star ?pat p \<and> after_star ?pat p = p + 3"
    have "p < 4"
    proof (rule ccontr)
      assume "\<not> p < 4"
      then have "?pat ! (p + 1) = e ! (p - 4)" using nth_append [of "''**/*.''" e "p + 1"] by (simp add: numeral_eq_Suc)
      moreover have "p - 4 < length e" using p(2) \<open>\<not> p < 4\<close> by (auto simp: double_star_def)
      ultimately show False using p(2) assms nth_mem [of "p - 4" e] by (simp add: double_star_def)
    qed
    with p have "p = 0"
      by (auto simp: double_star_def after_star_def star_def nth_Cons' less_Suc_eq numeral_eq_Suc split: if_splits)
    then show "\<exists>q\<ge>p + 3. q < length ?pat \<and> ?pat ! q \<noteq> star \<and> ?pat ! q \<noteq> CHR ''/''"
      by (intro exI [of _ 4]) (simp add: star_def)
  qed
  moreover have "tokens ?pat = Any # Any # map Lit (CHR ''.'' # e)"
    using tokens_plain [of "CHR ''.'' # e"] assms by (simp add: star_def)
  moreover have "wild (Any # Any # ts) s \<longleftrightarrow> wild (Any # ts) s" for ts s
    using wild_Any_mono [of ts _ s 0] by (auto simp: wild_Any [of "Any # ts"] intro: wild.skip)
  ultimately have "glob_match ?pat path \<longleftrightarrow> suffix (CHR ''.'' # e) path"
    by (simp add: glob_match_wild wild_suffix del: list.map)
  then show ?thesis by (simp only: ends_with_suffix)
qed

end
