(* ===== verification/StoreFiles.thy ===== *)
theory StoreFiles
  imports Store
begin

text \<open>
  The other files the program keeps: the snapshot index (\<^verbatim>\<open>store/snapshots.rs\<close> and
  \<^verbatim>\<open>host/native/storage.rs\<close>), the files of a bound directory (\<^verbatim>\<open>fs/node_adapter.rs\<close>,
  \<^verbatim>\<open>host/native/filesystem.rs\<close>), and the TLS certificate (\<^verbatim>\<open>tls.rs\<close>). JSON and certificate
  generation are parameters.
\<close>

section \<open>The snapshot index\<close>

record snapshot_entry =
  se_label :: string
  se_heads :: string
  se_created_at :: int

record snapshot_index_file =
  sf_schema_version :: int
  sf_labels :: "snapshot_entry list"

record index_json =
  to_json :: "snapshot_index_file \<Rightarrow> string"
  from_json :: "byte list \<Rightarrow> snapshot_index_file option"

definition index_path :: "fpath \<Rightarrow> fpath" where
  "index_path root = root @ [''snapshots'', ''index.json'']"

definition index_tmp :: "fpath \<Rightarrow> fpath" where
  "index_tmp root = root @ [''snapshots'', ''.index.json.tmp'']"

definition snapshot_entry_of :: "crypto \<Rightarrow> label \<Rightarrow> snapshot_entry" where
  "snapshot_entry_of c l =
     \<lparr>se_label = lb_name l, se_heads = b64np_encode c (concat (lb_heads l)), se_created_at = lb_created_at l\<rparr>"

definition write_index :: "index_json \<Rightarrow> fpath \<Rightarrow> snapshot_entry list \<Rightarrow> (disk, unit) action" where
  "write_index js root entries =
     andthen (fs_create_dir_all (root @ [''snapshots''])) (\<lambda>_.
     write_rename (index_tmp root) (index_path root)
       (as_bytes (to_json js \<lparr>sf_schema_version = 1, sf_labels = entries\<rparr>)))"

definition snapshots_write :: "crypto \<Rightarrow> index_json \<Rightarrow> fpath \<Rightarrow> label list \<Rightarrow> (disk, unit) action" where
  "snapshots_write c js root labels = write_index js root (map (snapshot_entry_of c) labels)"

definition snapshots_read :: "index_json \<Rightarrow> fpath \<Rightarrow> (disk, snapshot_entry list) action" where
  "snapshots_read js root d =
     (case fs_read (index_path root) d of
        (Inr bs, e) \<Rightarrow> (case from_json js bs of
            Some f \<Rightarrow> (Ok (sf_labels f), e)
          | None \<Rightarrow> (Err (SerdeJson ''invalid index''), e))
      | (Inl x, e) \<Rightarrow> (if x = io_not_found then Ok [] else Err x, e))"

definition decode_b64_heads :: "crypto \<Rightarrow> string \<Rightarrow> change_hash list result" where
  "decode_b64_heads c s =
     bind_result (ok_or (Other ''base64'') (b64np_decode c s)) (\<lambda>bytes.
     if length bytes mod 32 \<noteq> 0
     then Err (Other (''encoded heads not a multiple of 32: '' @ show_nat (length bytes)))
     else Ok (chunks_exact bytes))"

text \<open>The host's \<^verbatim>\<open>SnapshotEntry\<close> carries decoded heads.\<close>

record host_snapshot =
  hs_label :: string
  hs_heads :: "change_hash list"
  hs_created_at_ms :: int

definition native_encode_heads :: "crypto \<Rightarrow> change_hash list \<Rightarrow> string" where
  "native_encode_heads c heads = b64np_encode c (concat heads)"

definition native_snapshots_write :: "crypto \<Rightarrow> index_json \<Rightarrow> fpath \<Rightarrow> host_snapshot list \<Rightarrow> (disk, unit) action" where
  "native_snapshots_write c js root entries =
     write_index js root (map (\<lambda>e. \<lparr>se_label = hs_label e, se_heads = native_encode_heads c (hs_heads e),
                                    se_created_at = hs_created_at_ms e\<rparr>) entries)"

definition native_snapshots_read :: "crypto \<Rightarrow> index_json \<Rightarrow> fpath \<Rightarrow> (disk, host_snapshot list) action" where
  "native_snapshots_read c js root =
     andthen (snapshots_read js root) (\<lambda>entries.
     ret (map (\<lambda>e. \<lparr>hs_label = se_label e,
                    hs_heads = (case decode_b64_heads c (se_heads e) of Inr hs \<Rightarrow> hs | Inl _ \<Rightarrow> []),
                    hs_created_at_ms = se_created_at e\<rparr>) entries))"

locale index_format =
  fixes js :: index_json
  assumes json_inverse: "from_json js (as_bytes (to_json js f)) = Some f"
begin

lemma index_paths [simp]: "index_tmp root \<noteq> index_path root"
  by (simp add: index_tmp_def index_path_def)

lemma write_index_Ok:
  assumes "write_index js root entries d = (Ok (), e)" "\<not> faulty e"
  shows "snapshots_read js root e = (Ok entries, tick e)"
proof -
  from assms(1) obtain d1 where "write_rename (index_tmp root) (index_path root)
      (as_bytes (to_json js \<lparr>sf_schema_version = 1, sf_labels = entries\<rparr>)) d1 = (Ok (), e)"
    by (auto simp: write_index_def andthen_eq_Inr)
  from write_rename_target [OF this]
  have "file_at e (index_path root) = Some (as_bytes (to_json js \<lparr>sf_schema_version = 1, sf_labels = entries\<rparr>))"
    by simp
  then show ?thesis
    using assms(2)
    by (auto simp: snapshots_read_def fs_read_def file_at_def json_inverse split: option.splits file_node.splits)
qed

text \<open>A failed write leaves the index of before.\<close>

lemma write_index_Err:
  assumes "write_index js root entries d = (Err x, e)"
  shows "file_at e (index_path root) = file_at d (index_path root)"
proof -
  obtain r d1 where c: "fs_create_dir_all (root @ [''snapshots'']) d = (r, d1)" by fastforce
  note f = create_dir_all_files [OF c, of "index_path root"]
  show ?thesis
  proof (cases r)
    case (Inl y)
    with assms c f show ?thesis by (simp add: write_index_def andthen_run)
  next
    case (Inr u)
    with assms c have "write_rename (index_tmp root) (index_path root)
      (as_bytes (to_json js \<lparr>sf_schema_version = 1, sf_labels = entries\<rparr>)) d1 = (Err x, e)"
      by (simp add: write_index_def andthen_run)
    from write_rename_target [OF this] f show ?thesis by (auto simp: file_at_def)
  qed
qed

end

context base64_codec
begin

lemma b64_heads_round_trip:
  "\<forall>h \<in> set hs. length h = 32 \<Longrightarrow> decode_b64_heads c (native_encode_heads c hs) = Ok hs"
  using length_concat_hashes [of hs] chunks_exact_concat [of hs]
  by (simp add: decode_b64_heads_def native_encode_heads_def b64np_inverse)

lemma native_snapshots_round_trip:
  assumes "index_format js" "native_snapshots_write c js root es d = (Ok (), e)" "\<not> faulty e"
    and "\<forall>x \<in> set es. \<forall>h \<in> set (hs_heads x). length h = 32"
  shows "native_snapshots_read c js root e = (Ok es, tick e)"
proof -
  have "snapshots_read js root e = (Ok (map (\<lambda>e. \<lparr>se_label = hs_label e,
      se_heads = native_encode_heads c (hs_heads e), se_created_at = hs_created_at_ms e\<rparr>) es), tick e)"
    by (rule index_format.write_index_Ok [OF assms(1) _ assms(3)])
      (use assms(2) in \<open>simp add: native_snapshots_write_def\<close>)
  moreover have "map (\<lambda>e. \<lparr>hs_label = hs_label e,
      hs_heads = (case decode_b64_heads c (native_encode_heads c (hs_heads e)) of Inr hs \<Rightarrow> hs | Inl _ \<Rightarrow> []),
      hs_created_at_ms = hs_created_at_ms e\<rparr>) es = es"
    using assms(4) by (intro map_idI) (simp add: b64_heads_round_trip)
  ultimately show ?thesis
    by (simp add: native_snapshots_read_def andthen_run ret_run comp_def)
qed

end

section \<open>The bound directory\<close>

definition adapter_read :: "fpath \<Rightarrow> (disk, byte list) action" where
  "adapter_read p = fs_read p"

definition agentsync_tmp :: "fpath \<Rightarrow> fpath" where
  "agentsync_tmp p = butlast p @ [''.'' @ last p @ ''.agentsync-tmp'']"

definition adapter_write :: "fpath \<Rightarrow> byte list \<Rightarrow> (disk, unit) action" where
  "adapter_write p bs =
     andthen (if p \<noteq> [] then fs_create_dir_all (butlast p) else ret ()) (\<lambda>_.
     if p = [] then fail (InvalidPath (show_path p))
     else write_rename (agentsync_tmp p) p bs)"

definition adapter_delete :: "fpath \<Rightarrow> (disk, unit) action" where
  "adapter_delete p d =
     (case fs_remove_file p d of
        (Inr u, e) \<Rightarrow> (Ok (), e)
      | (Inl x, e) \<Rightarrow> (if x = io_not_found then Ok () else Err x, e))"

definition adapter_exists :: "fpath \<Rightarrow> (disk, bool) action" where
  "adapter_exists p = fs_exists p"

definition adapter_hash :: "crypto \<Rightarrow> fpath \<Rightarrow> (disk, string) action" where
  "adapter_hash c p = andthen (fs_read p) (\<lambda>bs. ret (content_hash c bs))"

definition native_create_dir_all :: "fpath \<Rightarrow> (disk, unit) action" where
  "native_create_dir_all p = fs_create_dir_all p"

definition native_remove_dir :: "fpath \<Rightarrow> (disk, unit) action" where
  "native_remove_dir p d =
     (case fs_remove_dir p d of
        (Inr u, e) \<Rightarrow> (Ok (), e)
      | (Inl x, e) \<Rightarrow> (if x = io_not_found then Ok () else Err x, e))"

text \<open>File system events, and the callback that turns the watcher's notices into them.\<close>

datatype fs_event = Touched fpath | Removed fpath | Renamed fpath fpath

datatype notify_kind = NCreate | NModify | NRemove | NOther

fun notify_event :: "notify_kind \<Rightarrow> fpath \<Rightarrow> fs_event option" where
  "notify_event NCreate p = Some (Touched p)"
| "notify_event NModify p = Some (Touched p)"
| "notify_event NRemove p = Some (Removed p)"
| "notify_event NOther p = None"

definition watch_callback :: "(notify_kind \<times> fpath list) result \<Rightarrow> fs_event list" where
  "watch_callback res =
     (case res of Inl _ \<Rightarrow> [] | Inr (kind, paths) \<Rightarrow> List.map_filter (notify_event kind) paths)"

text \<open>
  A write of the adapter gives the file the new bytes or leaves it as it was; no file but the
  target and its temporary sibling is ever touched.
\<close>

lemma adapter_write_atomic:
  assumes "adapter_write p bs d = (r, e)"
  shows "r = Ok () \<and> file_at e p = Some bs \<or> (\<exists>x. r = Err x) \<and> file_at e p = file_at d p"
    and "q \<noteq> p \<Longrightarrow> q \<noteq> agentsync_tmp p \<Longrightarrow> file_at e q = file_at d q"
proof -
  have ne: "p \<noteq> [] \<Longrightarrow> agentsync_tmp p \<noteq> p"
  proof
    assume "p \<noteq> []" "agentsync_tmp p = p"
    then have "last p = ''.'' @ last p @ ''.agentsync-tmp''" by (metis agentsync_tmp_def last_snoc)
    then have "length (last p) = length (''.'' @ last p @ ''.agentsync-tmp'')" by presburger
    then show False by simp
  qed
  have "(r = Ok () \<and> file_at e p = Some bs \<or> (\<exists>x. r = Err x) \<and> file_at e p = file_at d p) \<and>
     (q \<noteq> p \<longrightarrow> q \<noteq> agentsync_tmp p \<longrightarrow> file_at e q = file_at d q)"
  proof (cases "p = []")
    case True
    with assms show ?thesis by (auto simp: adapter_write_def andthen_run ret_run fail_run)
  next
    case False
    obtain r1 d1 where c: "fs_create_dir_all (butlast p) d = (r1, d1)" by fastforce
    have f: "file_at d1 = file_at d" using create_dir_all_files [OF c] by auto
    show ?thesis
    proof (cases r1)
      case (Inl x)
      with assms False c f show ?thesis by (auto simp: adapter_write_def andthen_run)
    next
      case (Inr u)
      with assms False c have w: "write_rename (agentsync_tmp p) p bs d1 = (r, e)"
        by (simp add: adapter_write_def andthen_run)
      from write_rename_target [OF w ne [OF False]] write_rename_frame [OF w, of q] f
      show ?thesis by (auto simp: file_at_def fun_eq_iff)
    qed
  qed
  then show "r = Ok () \<and> file_at e p = Some bs \<or> (\<exists>x. r = Err x) \<and> file_at e p = file_at d p"
    "q \<noteq> p \<Longrightarrow> q \<noteq> agentsync_tmp p \<Longrightarrow> file_at e q = file_at d q" by blast+
qed

lemma adapter_delete_files:
  assumes "adapter_delete p d = (r, e)"
  shows "q \<noteq> p \<Longrightarrow> file_at e q = file_at d q" "r = Ok () \<Longrightarrow> file_at e p = None"
    "r = Err x \<Longrightarrow> file_at e p = file_at d p"
  using assms
  by (auto simp: adapter_delete_def fs_remove_file_def file_at_def io_not_found_def io_fault_def io_other_def
      split: if_splits option.splits file_node.splits)

section \<open>The TLS certificate\<close>

definition TLS_DIR :: string where "TLS_DIR = ''.agentsync-server''"
definition CERT_FILE :: string where "CERT_FILE = ''tls.crt''"
definition KEY_FILE :: string where "KEY_FILE = ''tls.key''"

text \<open>\<open>cwd\<close> is what \<^verbatim>\<open>Path::new(".")\<close> means, for a storage path without a parent.\<close>

definition tls_dir_for_storage :: "fpath \<Rightarrow> fpath \<Rightarrow> fpath" where
  "tls_dir_for_storage cwd storage = (if storage = [] then cwd else butlast storage) @ [TLS_DIR]"

text \<open>\<^verbatim>\<open>write_with_mode\<close> of \<^verbatim>\<open>tls.rs\<close>: the bytes go straight to the file.\<close>

definition tls_write_with_mode :: "fpath \<Rightarrow> byte list \<Rightarrow> nat \<Rightarrow> (disk, unit) action" where
  "tls_write_with_mode p bs mode =
     andthen (if p \<noteq> [] then fs_create_dir_all (butlast p) else ret ()) (\<lambda>_. fs_write_mode p bs mode)"

definition load_or_generate_self_signed ::
    "(byte list \<times> byte list) result \<Rightarrow> fpath \<Rightarrow> (disk, byte list \<times> byte list) action" where
  "load_or_generate_self_signed generated dir =
     (let crt_path = dir @ [CERT_FILE]; key_path = dir @ [KEY_FILE] in
      andthen (fs_exists crt_path) (\<lambda>crt.
      andthen (if crt then fs_exists key_path else ret False) (\<lambda>both.
      if both
      then andthen (fs_read crt_path) (\<lambda>cert_der.
           andthen (fs_read key_path) (\<lambda>key_der. ret (cert_der, key_der)))
      else
        andthen (lift generated) (\<lambda>(cert_der, key_der).
        andthen (fs_create_dir_all dir) (\<lambda>_.
        andthen (tls_write_with_mode key_path key_der 384) (\<lambda>_.
        andthen (fs_write crt_path cert_der) (\<lambda>_.
        ret (cert_der, key_der))))))))"

definition cert_fingerprint :: "crypto \<Rightarrow> byte list \<Rightarrow> byte list" where
  "cert_fingerprint c cert_der = sha256 c cert_der"

lemma generate_stores:
  assumes "load_or_generate_self_signed g dir d = (Ok (crt, key), e)"
  shows "file_at e (dir @ [CERT_FILE]) = Some crt \<and> file_at e (dir @ [KEY_FILE]) = Some key"
proof -
  let ?c = "dir @ [CERT_FILE]" and ?k = "dir @ [KEY_FILE]"
  have ne: "?k \<noteq> ?c" by (simp add: CERT_FILE_def KEY_FILE_def)
  have rd: "fs_read p x = (Ok bs, y) \<Longrightarrow> d_nodes y = d_nodes x \<and> file_at x p = Some bs" for p x bs y
    by (auto simp: fs_read_def file_at_def split: if_splits option.splits file_node.splits)
  have ex: "fs_exists p x = (b, y) \<Longrightarrow> d_nodes y = d_nodes x" for p x b y
    by (rule exists_keeps)
  from assms consider
    (loaded) d1 d2 where "fs_read ?c d1 = (Ok crt, d2)" "fs_read ?k d2 = (Ok key, e)"
  | (made) d1 d2 where "tls_write_with_mode ?k key 384 d1 = (Ok (), d2)" "fs_write ?c crt d2 = (Ok (), e)"
    by (auto simp: load_or_generate_self_signed_def Let_def andthen_eq_Inr ret_run lift_run split: if_splits)
  then show ?thesis
  proof cases
    case loaded
    with rd [OF loaded(1)] rd [OF loaded(2)] show ?thesis by (simp add: file_at_def)
  next
    case made
    from made(1) obtain d3 where "fs_write_mode ?k key 384 d3 = (Ok (), d2)"
      by (auto simp: tls_write_with_mode_def andthen_eq_Inr)
    from write_mode_Ok [OF this] write_frame [OF made(2), of ?k] write_Ok [OF made(2)] ne
    show ?thesis by (simp add: file_at_def)
  qed
qed

text \<open>A pair that is on disk is loaded, not replaced.\<close>

lemma load_stable:
  assumes "file_at d (dir @ [CERT_FILE]) = Some crt" "file_at d (dir @ [KEY_FILE]) = Some key"
    and "\<forall>n < 4. \<not> d_fault d (d_calls d + n)"
  shows "fst (load_or_generate_self_signed g dir d) = Ok (crt, key)"
proof -
  have n: "\<not> d_fault d (d_calls d)" "\<not> d_fault d (Suc (d_calls d))" "\<not> d_fault d (Suc (Suc (d_calls d)))"
    "\<not> d_fault d (Suc (Suc (Suc (d_calls d))))"
    using assms(3) [rule_format, of 0] assms(3) [rule_format, of 1] assms(3) [rule_format, of 2]
      assms(3) [rule_format, of 3] by (simp_all add: numeral_2_eq_2 numeral_3_eq_3)
  from assms(1,2) obtain m m' where "d_nodes d (dir @ [CERT_FILE]) = Some (DFile crt m)"
    "d_nodes d (dir @ [KEY_FILE]) = Some (DFile key m')"
    by (auto simp: file_at_def split: option.splits file_node.splits)
  with n show ?thesis
    by (simp add: load_or_generate_self_signed_def Let_def andthen_run ret_run fs_exists_def fs_read_def)
qed

end
