(* ===== verification/Vault.thy ===== *)
theory Vault
  imports Binding StoreFiles DocRestore DocGenesis DocTrees AuthorizedKeys
begin

text \<open>
  \<^verbatim>\<open>crates/agentsync-core/src/vault.rs\<close>, first part: the state of a vault and the operations of
  \<^verbatim>\<open>impl Vault\<close> on its document and its storage. Each lock is held for one step of an operation,
  so an operation is the sequence of its steps.
\<close>

section \<open>State\<close>

datatype vault_event =
    Connected | Disconnected | FileChanged string | SyncProgress nat | EventError string

record vault_config =
  vc_rendezvous_url :: "string option"
  vc_hub_pubkey :: "pubkey option"
  vc_name :: "string option"
  vc_save_interval_ms :: nat
  vc_save_after_changes :: nat

definition default_config :: vault_config where
  "default_config = \<lparr>vc_rendezvous_url = None, vc_hub_pubkey = None, vc_name = None,
     vc_save_interval_ms = 1000, vc_save_after_changes = 100\<rparr>"

text \<open>The outbound channel of a peer is named by a number; what is queued in it is not kept here.\<close>

record 'y peer_slot =
  ps_state :: 'y
  ps_out :: nat
  ps_pubkey :: "pubkey option"

record client_conn =
  cc_peer_id :: "64 word"
  cc_vault_id :: string
  cc_hub_pubkey :: pubkey
  cc_vault_name :: "string option"

record ('d, 'y, 'g) vault =
  va_vault_id :: string
  va_identity :: identity
  va_storage_path :: fpath
  va_doc :: "'d doc"
  va_binding :: "'g binding option"
  va_peers :: "64 word \<rightharpoonup> 'y peer_slot"
  va_next_peer_id :: "64 word"
  va_doc_changed :: nat
  va_events :: "vault_event list"
  va_client :: "client_conn option"
  va_config :: vault_config
  va_disk :: disk

text \<open>A step on the document, on the disk, and on both (\<^verbatim>\<open>doc_store.save(&mut doc)\<close>).\<close>

definition on_doc :: "('d doc, 'a) action \<Rightarrow> (('d, 'y, 'g) vault, 'a) action" where
  "on_doc m s = (case m (va_doc s) of (r, d) \<Rightarrow> (r, s\<lparr>va_doc := d\<rparr>))"

definition on_disk :: "(disk, 'a) action \<Rightarrow> (('d, 'y, 'g) vault, 'a) action" where
  "on_disk m s = (case m (va_disk s) of (r, d) \<Rightarrow> (r, s\<lparr>va_disk := d\<rparr>))"

definition notify_doc_changed :: "(('d, 'y, 'g) vault, unit) action" where
  "notify_doc_changed s = (Ok (), s\<lparr>va_doc_changed := Suc (va_doc_changed s)\<rparr>)"

definition send_event :: "vault_event \<Rightarrow> (('d, 'y, 'g) vault, unit) action" where
  "send_event ev s = (Ok (), s\<lparr>va_events := va_events s @ [ev]\<rparr>)"

text \<open>A change of the document by this program: announced when it succeeds.\<close>

definition edit_doc :: "('d doc, 'a) action \<Rightarrow> (('d, 'y, 'g) vault, unit) action" where
  "edit_doc m = andthen (on_doc m) (\<lambda>_. notify_doc_changed)"

section \<open>Files and directories\<close>

definition vault_write_text_file ::
    "('d, 'o, 'y) automerge \<Rightarrow> (string \<Rightarrow> string) \<Rightarrow> string \<Rightarrow> string \<Rightarrow> (('d, 'y, 'g) vault, unit) action" where
  "vault_write_text_file am nfc path content =
     andthen (edit_doc (write_text_file am nfc path content)) (\<lambda>_. send_event (FileChanged path))"

definition vault_read_text_file ::
    "('d, 'o, 'y) automerge \<Rightarrow> (string \<Rightarrow> string) \<Rightarrow> string \<Rightarrow> (('d, 'y, 'g) vault, string) action" where
  "vault_read_text_file am nfc path = on_doc (read_file am nfc path)"

definition vault_delete_file ::
    "('d, 'o, 'y) automerge \<Rightarrow> (string \<Rightarrow> string) \<Rightarrow> string \<Rightarrow> (('d, 'y, 'g) vault, unit) action" where
  "vault_delete_file am nfc path =
     andthen (edit_doc (delete_file am nfc path)) (\<lambda>_. send_event (FileChanged path))"

definition vault_rename_file ::
    "('d, 'o, 'y) automerge \<Rightarrow> (string \<Rightarrow> string) \<Rightarrow> string \<Rightarrow> string \<Rightarrow> (('d, 'y, 'g) vault, unit) action" where
  "vault_rename_file am nfc from_path to_path = edit_doc (rename_file am nfc from_path to_path)"

definition vault_list_files :: "('d, 'o, 'y) automerge \<Rightarrow> (('d, 'y, 'g) vault, file_meta list) action" where
  "vault_list_files am = on_doc (list_files am)"

definition vault_list_file_paths :: "('d, 'o, 'y) automerge \<Rightarrow> (('d, 'y, 'g) vault, string list) action" where
  "vault_list_file_paths am = on_doc (list_file_paths am)"

definition vault_file_exists ::
    "('d, 'o, 'y) automerge \<Rightarrow> (string \<Rightarrow> string) \<Rightarrow> string \<Rightarrow> ('d, 'y, 'g) vault \<Rightarrow>
     bool \<times> ('d, 'y, 'g) vault" where
  "vault_file_exists am nfc path s = (case file_exists am nfc path (va_doc s) of (b, d) \<Rightarrow> (b, s\<lparr>va_doc := d\<rparr>))"

definition vault_file_hash ::
    "('d, 'o, 'y) automerge \<Rightarrow> crypto \<Rightarrow> (string \<Rightarrow> string) \<Rightarrow> string \<Rightarrow> (('d, 'y, 'g) vault, string) action" where
  "vault_file_hash am c nfc path = on_doc (file_hash am c nfc path)"

definition vault_create_directory ::
    "('d, 'o, 'y) automerge \<Rightarrow> (string \<Rightarrow> string) \<Rightarrow> string \<Rightarrow> (('d, 'y, 'g) vault, unit) action" where
  "vault_create_directory am nfc path = edit_doc (create_directory am nfc path)"

definition vault_delete_directory ::
    "('d, 'o, 'y) automerge \<Rightarrow> (string \<Rightarrow> string) \<Rightarrow> string \<Rightarrow> bool \<Rightarrow> (('d, 'y, 'g) vault, unit) action" where
  "vault_delete_directory am nfc path recursive = edit_doc (delete_directory am nfc path recursive)"

definition vault_rename_directory ::
    "('d, 'o, 'y) automerge \<Rightarrow> (string \<Rightarrow> string) \<Rightarrow> string \<Rightarrow> string \<Rightarrow> (('d, 'y, 'g) vault, unit) action" where
  "vault_rename_directory am nfc from_path to_path = edit_doc (rename_directory am nfc from_path to_path)"

definition vault_list_directories :: "('d, 'o, 'y) automerge \<Rightarrow> (('d, 'y, 'g) vault, directory_meta list) action" where
  "vault_list_directories am = on_doc (list_directories am)"

text \<open>\<^verbatim>\<open>debug_dump\<close>\<close>

definition vault_debug_dump ::
    "('d, 'o, 'y) automerge \<Rightarrow> (string \<Rightarrow> string) \<Rightarrow> (('d, 'y, 'g) vault, (string \<times> string option) list) action" where
  "vault_debug_dump am nfc = on_doc
     (andthen (list_files am) (\<lambda>fs.
      collect fs (\<lambda>f. case fm_kind f of
          KText \<Rightarrow> andthen (attempt (read_file am nfc (fm_path f))) (\<lambda>r. ret (Some (fm_path f, ok_opt r)))
        | KAttachment \<Rightarrow> ret (Some (fm_path f, fm_binary_hash f)))))"

section \<open>History\<close>

definition flush_snapshots_index ::
    "('d, 'o, 'y) automerge \<Rightarrow> crypto \<Rightarrow> index_json \<Rightarrow> (('d, 'y, 'g) vault, unit) action" where
  "flush_snapshots_index am c js =
     andthen (on_doc (list_labels am)) (\<lambda>labels s.
       on_disk (snapshots_write c js (va_storage_path s) labels) s)"

definition vault_create_label ::
    "('d, 'o, 'y) automerge \<Rightarrow> crypto \<Rightarrow> index_json \<Rightarrow> string \<Rightarrow> (('d, 'y, 'g) vault, unit) action" where
  "vault_create_label am c js name =
     andthen (on_doc (create_label am name)) (\<lambda>_.
     andthen (flush_snapshots_index am c js) (\<lambda>_. notify_doc_changed))"

definition vault_delete_label ::
    "('d, 'o, 'y) automerge \<Rightarrow> crypto \<Rightarrow> index_json \<Rightarrow> string \<Rightarrow> (('d, 'y, 'g) vault, unit) action" where
  "vault_delete_label am c js name =
     andthen (on_doc (delete_label am name)) (\<lambda>_.
     andthen (flush_snapshots_index am c js) (\<lambda>_. notify_doc_changed))"

definition vault_list_labels :: "('d, 'o, 'y) automerge \<Rightarrow> (('d, 'y, 'g) vault, label list) action" where
  "vault_list_labels am = on_doc (list_labels am)"

definition vault_restore_to_heads ::
    "('d, 'o, 'y) automerge \<Rightarrow> (string list \<Rightarrow> string list) \<Rightarrow> (string list \<Rightarrow> string list) \<Rightarrow>
     change_hash list \<Rightarrow> (('d, 'y, 'g) vault, unit) action" where
  "vault_restore_to_heads am order dir_order heads = edit_doc (restore_to_heads am order dir_order heads)"

definition vault_restore_to_time ::
    "('d, 'o, 'y) automerge \<Rightarrow> (change_hash list \<Rightarrow> change_hash list) \<Rightarrow> (string list \<Rightarrow> string list) \<Rightarrow>
     (string list \<Rightarrow> string list) \<Rightarrow> int \<Rightarrow> (('d, 'y, 'g) vault, unit) action" where
  "vault_restore_to_time am head_order order dir_order target_ms =
     edit_doc (restore_to_time am head_order order dir_order target_ms)"

section \<open>Life cycle\<close>

text \<open>\<^verbatim>\<open>doc_store.save(&mut doc)\<close> on the locked document, and the body of the save loop.\<close>

definition vault_flush :: "('d, 'o, 'y) automerge \<Rightarrow> (('d, 'y, 'g) vault, unit) action" where
  "vault_flush am s =
     (case doc_store_save am (va_storage_path s) (va_doc s, va_disk s) of
        (r, doc, d) \<Rightarrow> (r, s\<lparr>va_doc := doc, va_disk := d\<rparr>))"

definition save_tick :: "('d, 'o, 'y) automerge \<Rightarrow> ('d, 'y, 'g) vault \<Rightarrow> ('d, 'y, 'g) vault" where
  "save_tick am s = snd (vault_flush am s)"

record create_options =
  co_rendezvous_url :: "string option"
  co_identity :: "identity option"
  co_storage_path :: fpath

record open_options =
  oo_rendezvous_url :: "string option"
  oo_vault_id :: string
  oo_identity :: identity
  oo_storage_path :: fpath
  oo_hub_pubkey :: "pubkey option"
  oo_name :: "string option"

definition vault_start ::
    "string \<Rightarrow> identity \<Rightarrow> fpath \<Rightarrow> vault_config \<Rightarrow> 'd doc \<Rightarrow> disk \<Rightarrow> ('d, 'y, 'g) vault" where
  "vault_start vault_id identity storage config doc d =
     \<lparr>va_vault_id = vault_id, va_identity = identity, va_storage_path = storage, va_doc = doc,
      va_binding = None, va_peers = Map.empty, va_next_peer_id = 1, va_doc_changed = 0, va_events = [],
      va_client = None, va_config = config, va_disk = d\<rparr>"

text \<open>
  \<open>uuid\<close> is what \<^verbatim>\<open>Uuid::new_v4\<close> returns, \<open>generated\<close> what \<^verbatim>\<open>Identity::generate\<close> does.
\<close>

definition vault_create ::
    "('d, 'o, 'y) automerge \<Rightarrow> crypto \<Rightarrow> (string \<Rightarrow> string) \<Rightarrow> host \<Rightarrow> string \<Rightarrow> identity \<Rightarrow> create_options \<Rightarrow>
     (disk, ('d, 'y, 'g) vault) action" where
  "vault_create am c nfc h uuid generated opts =
     (let storage = co_storage_path opts in
      andthen (fs_create_dir_all storage) (\<lambda>_.
      andthen (doc_ensure_dirs storage) (\<lambda>_.
      andthen (blob_ensure_dirs storage) (\<lambda>_.
      let identity = unwrap_or generated (co_identity opts) in
      andthen (doc_exists storage) (\<lambda>present.
      if present
      then fail (AlreadyExists (''doc.bin already present at '' @ show_path (doc_path storage)))
      else (\<lambda>d. case doc_new am c h uuid of
          (Inl e, _) \<Rightarrow> (Inl e, d)
        | (Inr _, doc) \<Rightarrow>
           (let seed = render_authorized_keys c [\<lparr>ap_pubkey = identity_pubkey identity, ap_label = ''creator''\<rparr>] in
            case write_text_file am nfc AUTHORIZED_KEYS_FILE seed doc of
              (Inl e, _) \<Rightarrow> (Inl e, d)
            | (Inr _, doc) \<Rightarrow>
               (case doc_store_save am storage (doc, d) of
                  (Inl e, _, d) \<Rightarrow> (Inl e, d)
                | (Inr _, doc, d) \<Rightarrow>
                   (Ok (vault_start uuid identity storage
                      (default_config\<lparr>vc_rendezvous_url := co_rendezvous_url opts\<rparr>) doc d), d)))))))))"

definition vault_open ::
    "('d, 'o, 'y) automerge \<Rightarrow> crypto \<Rightarrow> host \<Rightarrow> open_options \<Rightarrow> (disk, ('d, 'y, 'g) vault) action" where
  "vault_open am c h opts =
     (let storage = oo_storage_path opts in
      andthen (doc_ensure_dirs storage) (\<lambda>_.
      andthen (blob_ensure_dirs storage) (\<lambda>_.
      andthen (doc_exists storage) (\<lambda>present.
      andthen (if present then doc_store_load am h storage
               else (\<lambda>d. case doc_new am c h (oo_vault_id opts) of
                   (Inl e, _) \<Rightarrow> (Inl e, d) | (Inr _, doc) \<Rightarrow> (Inr doc, d))) (\<lambda>doc d.
      case doc_vault_id am doc of (r, doc) \<Rightarrow>
        (let stored_id = (case r of Inr i \<Rightarrow> i | Inl _ \<Rightarrow> oo_vault_id opts) in
         if stored_id \<noteq> oo_vault_id opts
         then (Err (VaultError (''doc.bin vault_id mismatch: doc has '' @ stored_id @ '', opts has '' @
                oo_vault_id opts)), d)
         else (Ok (vault_start (oo_vault_id opts) (oo_identity opts) storage
                (default_config\<lparr>vc_rendezvous_url := oo_rendezvous_url opts, vc_hub_pubkey := oo_hub_pubkey opts,
                   vc_name := oo_name opts\<rparr>) doc d), d)))))))"

section \<open>Authorised keys\<close>

definition vault_authorized_peers ::
    "('d, 'o, 'y) automerge \<Rightarrow> crypto \<Rightarrow> (string \<Rightarrow> string) \<Rightarrow> ('d, 'y, 'g) vault \<Rightarrow>
     authorized_peer list \<times> ('d, 'y, 'g) vault" where
  "vault_authorized_peers am c nfc s =
     (case on_doc (read_file am nfc AUTHORIZED_KEYS_FILE) s of
        (Inl _, t) \<Rightarrow> ([], t)
      | (Inr content, t) \<Rightarrow> (parse_authorized_keys c content, t))"

definition vault_authorized_pubkeys ::
    "('d, 'o, 'y) automerge \<Rightarrow> crypto \<Rightarrow> (string \<Rightarrow> string) \<Rightarrow> ('d, 'y, 'g) vault \<Rightarrow>
     pubkey list \<times> ('d, 'y, 'g) vault" where
  "vault_authorized_pubkeys am c nfc s =
     (case vault_authorized_peers am c nfc s of (ps, t) \<Rightarrow> (map ap_pubkey ps, t))"

section \<open>Reconnecting\<close>

text \<open>The \<^verbatim>\<open>Display\<close> of an error (\<^verbatim>\<open>error.rs\<close>).\<close>

fun show_error :: "error \<Rightarrow> string" where
  "show_error (Io m) = ''io: '' @ m"
| "show_error (Automerge m) = ''automerge: '' @ m"
| "show_error (AutomergeLoad m) = ''automerge load: '' @ m"
| "show_error (InvalidPath m) = ''invalid path: '' @ m"
| "show_error (NotFound m) = ''not found: '' @ m"
| "show_error (AlreadyExists m) = ''already exists: '' @ m"
| "show_error (Auth m) = ''auth failed: '' @ m"
| "show_error (Config m) = ''config: '' @ m"
| "show_error (Protocol m) = ''protocol: '' @ m"
| "show_error (Network m) = ''network: '' @ m"
| "show_error (Notify m) = ''notify: '' @ m"
| "show_error (SerdeJson m) = ''serde json: '' @ m"
| "show_error (MsgpackEncode m) = ''msgpack encode: '' @ m"
| "show_error (MsgpackDecode m) = ''msgpack decode: '' @ m"
| "show_error (WebSocket m) = ''websocket: '' @ m"
| "show_error (VaultError m) = ''vault: '' @ m"
| "show_error (TooLarge m) = ''size limit exceeded: '' @ m"
| "show_error InvalidUtf8 = ''invalid utf8''"
| "show_error (Other m) = m"
| "show_error (Panic m) = m"

text \<open>Durations are nanoseconds.\<close>

record reconnect_options =
  ro_max_attempts :: nat
  ro_initial_backoff :: nat
  ro_max_backoff :: nat

definition default_reconnect :: reconnect_options where
  "default_reconnect = \<lparr>ro_max_attempts = 10, ro_initial_backoff = 500 * 1000000, ro_max_backoff = 30 * 1000000000\<rparr>"

definition saturating_mul_u64 :: "nat \<Rightarrow> nat \<Rightarrow> nat" where
  "saturating_mul_u64 a b = min (a * b) (2 ^ 64 - 1)"

definition backoff_delay :: "nat \<Rightarrow> nat \<Rightarrow> nat \<Rightarrow> nat" where
  "backoff_delay initial cap nth_try =
     (let ex = min (nth_try - 1) 20;
          factor = 2 ^ ex;
          millis = saturating_mul_u64 ((initial div 1000000) mod 2 ^ 64) factor in
      min (millis * 1000000) cap)"

datatype 'c connect_result = ConnectedTo 'c | Shutdown | GaveUp

text \<open>
  \<open>dial n\<close> is the n-th call of \<^verbatim>\<open>ClientConn::connect\<close> and \<open>shut n\<close> says that the shutdown signal
  arrives while the n-th delay runs. The delays slept are returned.
\<close>

function connect_loop ::
    "(nat \<Rightarrow> (('d, 'y, 'g) vault, 'c) action) \<Rightarrow> (nat \<Rightarrow> bool) \<Rightarrow> reconnect_options \<Rightarrow> nat \<Rightarrow>
     ('d, 'y, 'g) vault \<Rightarrow> 'c connect_result \<times> nat list \<times> ('d, 'y, 'g) vault" where
  "connect_loop dial shut opts attempts s =
     (let nth_try = attempts + 1 in
      case dial nth_try s of
        (Inr conn, t) \<Rightarrow> (ConnectedTo conn, [], t)
      | (Inl e, t) \<Rightarrow>
          if nth_try \<ge> ro_max_attempts opts
          then (GaveUp, [], snd (send_event (EventError (''could not connect to rendezvous after '' @
                  show_nat nth_try @ '' attempts: '' @ show_error e)) t))
          else
            (let delay = backoff_delay (ro_initial_backoff opts) (ro_max_backoff opts) nth_try in
             if shut nth_try then (Shutdown, [delay], t)
             else case connect_loop dial shut opts nth_try t of (r, ds, u) \<Rightarrow> (r, delay # ds, u)))"
  by pat_completeness auto
termination
  by (relation "measure (\<lambda>(dial, shut, opts, attempts, s). ro_max_attempts opts - attempts)") auto

declare connect_loop.simps [simp del]

definition connect_with_backoff ::
    "(nat \<Rightarrow> (('d, 'y, 'g) vault, 'c) action) \<Rightarrow> (nat \<Rightarrow> bool) \<Rightarrow> reconnect_options \<Rightarrow>
     ('d, 'y, 'g) vault \<Rightarrow> 'c connect_result \<times> nat list \<times> ('d, 'y, 'g) vault" where
  "connect_with_backoff dial shut opts = connect_loop dial shut opts 0"

section \<open>Facts\<close>

lemma on_doc_run: "on_doc m s = (fst (m (va_doc s)), s\<lparr>va_doc := snd (m (va_doc s))\<rparr>)"
  by (simp add: on_doc_def split: prod.split)

lemma on_disk_run: "on_disk m s = (fst (m (va_disk s)), s\<lparr>va_disk := snd (m (va_disk s))\<rparr>)"
  by (simp add: on_disk_def split: prod.split)

text \<open>An edit changes the document as the document operation does, and is announced iff it succeeds.\<close>

lemma edit_doc_run:
  "edit_doc m s =
     (case m (va_doc s) of
        (Inl e, d) \<Rightarrow> (Inl e, s\<lparr>va_doc := d\<rparr>)
      | (Inr _, d) \<Rightarrow> (Inr (), s\<lparr>va_doc := d, va_doc_changed := Suc (va_doc_changed s)\<rparr>))"
  by (simp add: edit_doc_def andthen_run on_doc_def notify_doc_changed_def split: prod.split sum.split)

lemma vault_write_run:
  assumes "write_text_file am nfc path content (va_doc s) = (Ok fid, d)"
  shows "vault_write_text_file am nfc path content s =
    (Ok (), s\<lparr>va_doc := d, va_doc_changed := Suc (va_doc_changed s), va_events := va_events s @ [FileChanged path]\<rparr>)"
  using assms by (simp add: vault_write_text_file_def andthen_run edit_doc_run send_event_def)

text \<open>Back-off: capped, monotone in the attempt, doubling while neither bound is reached.\<close>

lemma backoff_cap: "backoff_delay initial cap n \<le> cap"
  by (simp add: backoff_delay_def Let_def)

lemma backoff_mono:
  assumes "m \<le> n"
  shows "backoff_delay initial cap m \<le> backoff_delay initial cap n"
proof -
  have "(2::nat) ^ min (m - 1) 20 \<le> 2 ^ min (n - 1) 20" using assms by (intro power_increasing) auto
  then have "a * 2 ^ min (m - 1) 20 \<le> a * 2 ^ min (n - 1) 20" for a :: nat by (rule mult_left_mono) simp
  then show ?thesis
    unfolding backoff_delay_def Let_def saturating_mul_u64_def
    by (intro min.mono mult_right_mono min.mono) auto
qed

lemma backoff_exact:
  assumes "n \<le> 20" "initial = k * 1000000" "initial * 2 ^ n \<le> cap" "k * 2 ^ n < 2 ^ 64"
  shows "backoff_delay initial cap (n + 1) = initial * 2 ^ n"
proof -
  have "k * 1 \<le> k * 2 ^ n" by (intro mult_left_mono) simp_all
  with assms(4) have k: "k mod 2 ^ 64 = k" by (intro mod_less) linarith
  have "saturating_mul_u64 k (2 ^ n) = k * 2 ^ n"
    unfolding saturating_mul_u64_def by (rule min_absorb1) (use assms(4) in linarith)
  moreover have "k * 2 ^ n * 1000000 = initial * 2 ^ n" using assms(2) by simp
  then have "min (k * 2 ^ n * 1000000) cap = initial * 2 ^ n" using assms(3) by (simp only: min_absorb1)
  moreover have "initial div 1000000 = k" using assms(2) by simp
  moreover have "min (n + 1 - 1) 20 = n" using assms(1) by simp
  ultimately show ?thesis unfolding backoff_delay_def Let_def by (simp only: k)
qed

text \<open>The loop tries at most \<open>max_attempts\<close> times (once for zero), and sleeps between the tries.\<close>

lemma connect_loop_bound:
  assumes "connect_loop dial shut opts a s = (r, ds, t)"
  shows "length ds \<le> ro_max_attempts opts - Suc a" "\<forall>d \<in> set ds. d \<le> ro_max_backoff opts" "sorted ds"
    "ds \<noteq> [] \<Longrightarrow> hd ds \<ge> backoff_delay (ro_initial_backoff opts) (ro_max_backoff opts) (Suc a)"
proof -
  let ?d = "backoff_delay (ro_initial_backoff opts) (ro_max_backoff opts)"
  have "length ds \<le> ro_max_attempts opts - Suc a \<and> (\<forall>d \<in> set ds. d \<le> ro_max_backoff opts) \<and> sorted ds \<and>
      (ds \<noteq> [] \<longrightarrow> hd ds \<ge> ?d (Suc a))"
    using assms
  proof (induction "ro_max_attempts opts - a" arbitrary: a s r ds t rule: less_induct)
    case less
    obtain x u where x: "dial (Suc a) s = (x, u)" by fastforce
    show ?case
    proof (cases "x")
      case (Inr c)
      with less.prems x show ?thesis by (simp add: connect_loop.simps [of dial shut opts a] Let_def)
    next
      case (Inl e)
      show ?thesis
      proof (cases "ro_max_attempts opts \<le> Suc a \<or> shut (Suc a)")
        case True
        with less.prems x Inl backoff_cap show ?thesis
          by (auto simp: connect_loop.simps [of dial shut opts a] Let_def split: if_splits)
      next
        case False
        obtain r' ds' t' where rec: "connect_loop dial shut opts (Suc a) u = (r', ds', t')" by (metis prod_cases3)
        have ih: "length ds' \<le> ro_max_attempts opts - Suc (Suc a) \<and> (\<forall>d \<in> set ds'. d \<le> ro_max_backoff opts) \<and>
            sorted ds' \<and> (ds' \<noteq> [] \<longrightarrow> hd ds' \<ge> ?d (Suc (Suc a)))"
          using False by (intro less.hyps [OF _ rec]) auto
        have ds: "ds = ?d (Suc a) # ds'"
          using less.prems x Inl False rec by (auto simp: connect_loop.simps [of dial shut opts a] Let_def)
        have "ds' \<noteq> [] \<Longrightarrow> ?d (Suc a) \<le> hd ds'"
          using ih backoff_mono [of "Suc a" "Suc (Suc a)"] by (meson le_SucI le_refl le_trans)
        then have "sorted ds" using ih ds by (cases ds') auto
        with ih ds False backoff_cap show ?thesis by auto
      qed
    qed
  qed
  then show "length ds \<le> ro_max_attempts opts - Suc a" "\<forall>d \<in> set ds. d \<le> ro_max_backoff opts" "sorted ds"
    "ds \<noteq> [] \<Longrightarrow> hd ds \<ge> ?d (Suc a)" by blast+
qed

end
