(* ===== verification/Materialize.thy ===== *)
theory Materialize
  imports Vault "HOL-Library.Product_Lexorder"
begin

text \<open>
  \<^verbatim>\<open>materialize_inner\<close> of \<^verbatim>\<open>vault.rs\<close>: the pass that brings a bound directory to the state of the
  document, and what it never does: overwrite or delete a file whose content it does not know.
\<close>

section \<open>Steps on a vault and a binding\<close>

definition with_vault :: "('v, 'a) action \<Rightarrow> ('v \<times> 'b, 'a) action" where
  "with_vault m = (\<lambda>(v, b). case m v of (r, v') \<Rightarrow> (r, v', b))"

definition with_binding :: "('b \<Rightarrow> 'b) \<Rightarrow> ('v \<times> 'b, unit) action" where
  "with_binding f = (\<lambda>(v, b). (Ok (), v, f b))"

definition the_binding :: "('v \<times> 'b, 'b) action" where
  "the_binding = (\<lambda>(v, b). (Ok b, v, b))"

type_synonym ('d, 'y, 'g) bound = "('d, 'y, 'g) vault \<times> 'g binding"

definition set_materialized :: "string \<Rightarrow> string \<Rightarrow> (('d, 'y, 'g) bound, unit) action" where
  "set_materialized path hash =
     with_binding (\<lambda>b. b\<lparr>bd_materialized := AList.update path hash (bd_materialized b)\<rparr>)"

definition set_ingested :: "string \<Rightarrow> string \<Rightarrow> (('d, 'y, 'g) bound, unit) action" where
  "set_ingested path hash =
     with_binding (\<lambda>b. b\<lparr>bd_last_ingested := AList.update path hash (bd_last_ingested b)\<rparr>)"

text \<open>\<^verbatim>\<open>Instant::now()\<close> is \<open>clock\<close> at the system calls made so far.\<close>

definition mark_dirty :: "(nat \<Rightarrow> nat) \<Rightarrow> string \<Rightarrow> string \<Rightarrow> (('d, 'y, 'g) bound, unit) action" where
  "mark_dirty clock path hash = (\<lambda>(v, b).
     let now = clock (d_calls (va_disk v)) in
     (Ok (), v, b\<lparr>bd_dirty := dirty_mark now now path hash (bd_dirty b)\<rparr>))"

section \<open>The pass\<close>

definition is_safe_to_overwrite :: "string \<Rightarrow> string option \<Rightarrow> string option \<Rightarrow> bool" where
  "is_safe_to_overwrite disk_hash last_materialized last_ingested \<longleftrightarrow>
     last_materialized = Some disk_hash \<or> last_ingested = Some disk_hash"

text \<open>The hash of what is on disk, None when it cannot be read.\<close>

definition disk_hash :: "crypto \<Rightarrow> fpath \<Rightarrow> (disk, string option) action" where
  "disk_hash c p d =
     (case adapter_read p d of
        (Inr bs, e) \<Rightarrow> (Ok (Some (content_hash c bs)), e)
      | (Inl _, e) \<Rightarrow> (Ok None, e))"

text \<open>The new directories, a parent before its children; one that cannot be made is left for later.\<close>

definition depth_order :: "string list \<Rightarrow> string list" where
  "depth_order ps = sort_key (\<lambda>p. (count_list p (CHR ''/''), p)) ps"

definition mat_directory :: "string \<Rightarrow> (('d, 'y, 'g) bound, unit) action" where
  "mat_directory path =
     andthen the_binding (\<lambda>b.
     andthen (with_vault (on_disk (attempt (fs_create_dir_all (vault_path_to_fs_path b path))))) (\<lambda>r.
     case r of
       Inl _ \<Rightarrow> ret ()
     | Inr _ \<Rightarrow> with_binding (\<lambda>b. b\<lparr>bd_materialized_dirs := List.insert path (bd_materialized_dirs b)\<rparr>)))"

definition mat_delete ::
    "crypto \<Rightarrow> (nat \<Rightarrow> nat) \<Rightarrow> (string \<times> string) list \<Rightarrow> (string \<times> string) list \<Rightarrow> string set \<Rightarrow> string \<Rightarrow>
     (('d, 'y, 'g) bound, unit) action" where
  "mat_delete c clock existing last_ingested live path =
     (if path \<in> live then ret ()
      else
        andthen the_binding (\<lambda>b.
        let p = vault_path_to_fs_path b path in
        andthen (with_vault (on_disk (disk_hash c p))) (\<lambda>h.
        if (case h of Some d \<Rightarrow> \<not> is_safe_to_overwrite d (map_of existing path) (map_of last_ingested path)
            | None \<Rightarrow> False)
        then ret ()
        else
          andthen (with_vault (on_disk (attempt (adapter_delete p)))) (\<lambda>r.
          case r of Inl _ \<Rightarrow> ret () | Inr _ \<Rightarrow> mark_dirty clock path ''<deleted>''))))"

text \<open>Bring one file to \<open>bytes\<close>, whose hash is \<open>hash\<close>.\<close>

definition mat_write ::
    "crypto \<Rightarrow> (nat \<Rightarrow> nat) \<Rightarrow> (string \<times> string) list \<Rightarrow> (string \<times> string) list \<Rightarrow> string \<Rightarrow> string \<Rightarrow>
     byte list \<Rightarrow> (('d, 'y, 'g) bound, unit) action" where
  "mat_write c clock existing last_ingested path hash bytes =
     andthen the_binding (\<lambda>b.
     let p = vault_path_to_fs_path b path in
     andthen (with_vault (on_disk (disk_hash c p))) (\<lambda>h.
     if h = Some hash then set_materialized path hash
     else if (case h of Some d \<Rightarrow> \<not> is_safe_to_overwrite d (map_of existing path) (map_of last_ingested path)
              | None \<Rightarrow> False)
     then ret ()
     else
       andthen (mark_dirty clock path hash) (\<lambda>_.
       andthen (with_vault (on_disk (attempt (adapter_write p bytes)))) (\<lambda>r.
       case r of Inl _ \<Rightarrow> ret () | Inr _ \<Rightarrow> set_materialized path hash))))"

definition mat_file ::
    "('d, 'o, 'y) automerge \<Rightarrow> crypto \<Rightarrow> (nat \<Rightarrow> nat) \<Rightarrow> (string \<times> string) list \<Rightarrow> (string \<times> string) list \<Rightarrow>
     string \<times> file_meta \<Rightarrow> (('d, 'y, 'g) bound, unit) action" where
  "mat_file am c clock existing last_ingested = (\<lambda>(path, meta).
     case fm_kind meta of
       KText \<Rightarrow>
         andthen (with_vault (on_doc (read_file_id am (fm_id meta)))) (\<lambda>x.
         let target = unwrap_or [] x; target_hash = content_hash c (as_bytes target) in
         if map_of existing path = Some target_hash then ret ()
         else mat_write c clock existing last_ingested path target_hash (as_bytes target))
     | KAttachment \<Rightarrow>
         (case fm_binary_hash meta of
            None \<Rightarrow> ret ()
          | Some h \<Rightarrow>
              andthen (\<lambda>(v, b). with_vault (on_disk (attempt (blob_get (va_storage_path v) h))) (v, b)) (\<lambda>r.
              case r of
                Inl _ \<Rightarrow> ret ()
              | Inr bytes \<Rightarrow>
                  if map_of existing path = Some h then ret ()
                  else mat_write c clock existing last_ingested path h bytes)))"

text \<open>Directories that are gone from the document, children first; a non-empty one stays.\<close>

definition deep_first :: "string list \<Rightarrow> string list" where
  "deep_first ps = sort_key (\<lambda>p. - int (count_list p (CHR ''/''))) ps"

definition mat_remove_dir :: "string \<Rightarrow> (('d, 'y, 'g) bound, unit) action" where
  "mat_remove_dir path =
     andthen the_binding (\<lambda>b.
     andthen (with_vault (on_disk (attempt (fs_remove_dir (vault_path_to_fs_path b path))))) (\<lambda>r.
     if r = Inr () \<or> r = Inl io_not_found
     then with_binding (\<lambda>b. b\<lparr>bd_materialized_dirs := removeAll path (bd_materialized_dirs b)\<rparr>)
     else ret ()))"

text \<open>
  A hash map built from a list keeps the last value of a key. \<open>order\<close> and \<open>meta_order\<close> are the
  iteration orders of the maps and sets, any permutations.
\<close>

definition live_map :: "file_meta list \<Rightarrow> (string \<times> file_meta) list" where
  "live_map fs = foldl (\<lambda>al m. AList.update (fm_path m) m al) [] fs"

definition materialize ::
    "('d, 'o, 'y) automerge \<Rightarrow> crypto \<Rightarrow> (nat \<Rightarrow> nat) \<Rightarrow> (string list \<Rightarrow> string list) \<Rightarrow>
     ((string \<times> file_meta) list \<Rightarrow> (string \<times> file_meta) list) \<Rightarrow> (('d, 'y, 'g) bound, unit) action" where
  "materialize am c clock order meta_order =
     andthen (with_vault (on_doc (list_files am))) (\<lambda>files.
     andthen (with_vault (on_doc (list_directories am))) (\<lambda>dirs.
     let live = live_map files; live_dirs = remdups (map dm_path dirs) in
     andthen the_binding (\<lambda>b.
     andthen (foreach (depth_order (filter (\<lambda>p. p \<notin> set (bd_materialized_dirs b)) live_dirs)) mat_directory) (\<lambda>_.
     andthen the_binding (\<lambda>b.
     let existing = bd_materialized b; last_ingested = bd_last_ingested b in
     andthen (foreach (order (map fst existing))
       (mat_delete c clock existing last_ingested (fst ` set live))) (\<lambda>_.
     andthen (foreach (meta_order live) (mat_file am c clock existing last_ingested)) (\<lambda>_.
     andthen (with_binding (\<lambda>b. b\<lparr>
       bd_materialized := filter (\<lambda>(p, _). p \<in> fst ` set live) (bd_materialized b),
       bd_last_ingested := filter (\<lambda>(p, _). p \<in> fst ` set live) (bd_last_ingested b)\<rparr>)) (\<lambda>_.
     andthen the_binding (\<lambda>b.
     foreach (deep_first (filter (\<lambda>p. p \<notin> set live_dirs) (order (bd_materialized_dirs b)))) mat_remove_dir)))))))))"

text \<open>\<^verbatim>\<open>restore_label\<close> brings the bound directory up to date at once.\<close>

definition vault_materialize ::
    "('d, 'o, 'y) automerge \<Rightarrow> crypto \<Rightarrow> (nat \<Rightarrow> nat) \<Rightarrow> (string list \<Rightarrow> string list) \<Rightarrow>
     ((string \<times> file_meta) list \<Rightarrow> (string \<times> file_meta) list) \<Rightarrow> (('d, 'y, 'g) vault, unit) action" where
  "vault_materialize am c clock order meta_order s =
     (case va_binding s of
        None \<Rightarrow> (Ok (), s)
      | Some b \<Rightarrow> (case materialize am c clock order meta_order (s, b) of
            (r, s', b') \<Rightarrow> (r, s'\<lparr>va_binding := Some b'\<rparr>)))"

definition vault_restore_label ::
    "('d, 'o, 'y) automerge \<Rightarrow> crypto \<Rightarrow> (nat \<Rightarrow> nat) \<Rightarrow> (string list \<Rightarrow> string list) \<Rightarrow> (string list \<Rightarrow> string list) \<Rightarrow>
     ((string \<times> file_meta) list \<Rightarrow> (string \<times> file_meta) list) \<Rightarrow> string \<Rightarrow> (('d, 'y, 'g) vault, unit) action" where
  "vault_restore_label am c clock order dir_order meta_order name =
     andthen (on_doc (get_label_heads am name)) (\<lambda>heads.
     andthen (vault_restore_to_heads am order dir_order heads) (\<lambda>_.
     vault_materialize am c clock order meta_order))"

section \<open>No unknown content is lost\<close>

text \<open>
  \<open>kept\<close>: a file is as it was at the start, or its content then was one the program had written
  or taken in before under a vault path for it, or it is the temporary sibling of a file.
\<close>

definition known_content :: "crypto \<Rightarrow> 'g binding \<Rightarrow> fpath \<Rightarrow> byte list \<Rightarrow> bool" where
  "known_content c b p bs \<longleftrightarrow> (\<exists>path. p = vault_path_to_fs_path b path \<and>
     is_safe_to_overwrite (content_hash c bs) (map_of (bd_materialized b) path) (map_of (bd_last_ingested b) path))"

definition temporary :: "'g binding \<Rightarrow> fpath \<Rightarrow> bool" where
  "temporary b p \<longleftrightarrow> (\<exists>path. p = agentsync_tmp (vault_path_to_fs_path b path))"

definition kept :: "crypto \<Rightarrow> 'g binding \<Rightarrow> disk \<Rightarrow> disk \<Rightarrow> bool" where
  "kept c b d e \<longleftrightarrow> (\<forall>p bs. file_at d p = Some bs \<longrightarrow>
     file_at e p = Some bs \<or> known_content c b p bs \<or> temporary b p)"

text \<open>An action keeps an invariant of the state, whether it succeeds or not.\<close>

definition keeps :: "('s \<Rightarrow> bool) \<Rightarrow> ('s, 'a) action \<Rightarrow> bool" where
  "keeps I m \<longleftrightarrow> (\<forall>s r t. I s \<longrightarrow> m s = (r, t) \<longrightarrow> I t)"

named_theorems keeps_rules "actions that keep an invariant"

lemma keepsD: "keeps I m \<Longrightarrow> I s \<Longrightarrow> m s = (r, t) \<Longrightarrow> I t"
  unfolding keeps_def by blast

lemma keeps_ret [keeps_rules]: "keeps I (ret x)"
  by (simp add: keeps_def ret_run)

lemma keeps_andthen [keeps_rules]: "keeps I m \<Longrightarrow> (\<And>x. keeps I (f x)) \<Longrightarrow> keeps I (andthen m f)"
  unfolding keeps_def
proof (intro allI impI)
  fix s r t
  assume m: "\<forall>s r t. I s \<longrightarrow> m s = (r, t) \<longrightarrow> I t"
    and f: "\<And>x. \<forall>s r t. I s \<longrightarrow> f x s = (r, t) \<longrightarrow> I t"
    and s: "I s" "andthen m f s = (r, t)"
  obtain x u where 1: "m s = (x, u)" by fastforce
  with m s(1) have "I u" by blast
  with s(2) 1 f show "I t" by (cases x) (auto simp: andthen_run)
qed

lemma keeps_foreach [keeps_rules]: "(\<And>x. keeps I (f x)) \<Longrightarrow> keeps I (foreach xs f)"
  by (induction xs) (simp_all add: keeps_rules)

lemma keeps_if [keeps_rules]: "(P \<Longrightarrow> keeps I m) \<Longrightarrow> (\<not> P \<Longrightarrow> keeps I n) \<Longrightarrow> keeps I (if P then m else n)"
  by simp

lemma keeps_option [keeps_rules]:
  "keeps I m \<Longrightarrow> (\<And>x. keeps I (f x)) \<Longrightarrow> keeps I (case x of None \<Rightarrow> m | Some x \<Rightarrow> f x)"
  by (cases x) simp_all

lemma keeps_result [keeps_rules]:
  "(\<And>e. keeps I (f e)) \<Longrightarrow> (\<And>x. keeps I (g x)) \<Longrightarrow> keeps I (case r of Inl e \<Rightarrow> f e | Inr x \<Rightarrow> g x)"
  by (cases r) simp_all

text \<open>The invariant of a pass, in a run in which no system call fails.\<close>

definition quiet :: "disk \<Rightarrow> bool" where
  "quiet d \<longleftrightarrow> (\<forall>n. \<not> d_fault d n)"

definition pass_inv :: "crypto \<Rightarrow> 'g binding \<Rightarrow> disk \<Rightarrow> ('d, 'y, 'g) bound \<Rightarrow> bool" where
  "pass_inv c b0 d0 = (\<lambda>(v, b). bd_root b = bd_root b0 \<and> quiet (va_disk v) \<and> kept c b0 d0 (va_disk v))"

lemma same_fs_path: "bd_root b = bd_root b0 \<Longrightarrow> vault_path_to_fs_path b p = vault_path_to_fs_path b0 p"
  by (simp add: vault_path_to_fs_path_def)

lemma quiet_calls:
  "fs_read p d = (r1, e) \<Longrightarrow> quiet d \<Longrightarrow> quiet e"
  "fs_write_mode p bs m d = (r2, e) \<Longrightarrow> quiet d \<Longrightarrow> quiet e"
  "fs_rename p q d = (r2, e) \<Longrightarrow> quiet d \<Longrightarrow> quiet e"
  "fs_remove_file p d = (r2, e) \<Longrightarrow> quiet d \<Longrightarrow> quiet e"
  "fs_remove_dir p d = (r2, e) \<Longrightarrow> quiet d \<Longrightarrow> quiet e"
  "fs_create_dir_all p d = (r2, e) \<Longrightarrow> quiet d \<Longrightarrow> quiet e"
  by (auto simp: quiet_def fs_read_def fs_write_mode_def fs_rename_def fs_remove_file_def fs_remove_dir_def
      fs_create_dir_all_def tick_def set_node_def split: if_splits option.splits file_node.splits)

lemma quiet_write_rename: "write_rename t p bs d = (r, e) \<Longrightarrow> quiet d \<Longrightarrow> quiet e"
  unfolding write_rename_def andthen_def fs_write_def
  by (auto split: prod.splits sum.splits dest: quiet_calls)

lemma quiet_adapter_write: "adapter_write p bs d = (r, e) \<Longrightarrow> quiet d \<Longrightarrow> quiet e"
  unfolding adapter_write_def andthen_def
  by (auto simp: ret_run fail_run split: prod.splits sum.splits if_splits dest: quiet_calls quiet_write_rename)

lemma quiet_adapter_delete: "adapter_delete p d = (r, e) \<Longrightarrow> quiet d \<Longrightarrow> quiet e"
  unfolding adapter_delete_def by (auto split: prod.splits sum.splits dest: quiet_calls)

lemma disk_hash_run:
  assumes "disk_hash c p d = (r, e)"
  shows "d_nodes e = d_nodes d" "quiet d \<Longrightarrow> quiet e \<and> r = Ok (map_option (content_hash c) (file_at d p))"
  using assms
  by (auto simp: disk_hash_def adapter_read_def fs_read_def file_at_def quiet_def
      split: if_splits option.splits file_node.splits)

lemma disk_hash_quiet:
  assumes "quiet d"
  obtains e where "disk_hash c p d = (Ok (map_option (content_hash c) (file_at d p)), e)"
    "d_nodes e = d_nodes d" "quiet e"
proof -
  obtain r e where h: "disk_hash c p d = (r, e)" by fastforce
  from disk_hash_run [OF h] assms show thesis using that [of e] h by simp
qed

lemma kept_refl: "kept c b d d"
  by (simp add: kept_def)

lemma kept_files: "kept c b d0 d \<Longrightarrow> file_at e = file_at d \<Longrightarrow> kept c b d0 e"
  by (simp add: kept_def)

text \<open>Replacing or removing the file of a path whose content is known, or absent.\<close>

lemma kept_change:
  assumes "kept c b d0 d" "p = vault_path_to_fs_path b path"
    and "\<And>q. q \<noteq> p \<Longrightarrow> q \<noteq> agentsync_tmp p \<Longrightarrow> file_at e q = file_at d q"
    and "\<And>bs. file_at d p = Some bs \<Longrightarrow>
      is_safe_to_overwrite (content_hash c bs) (map_of (bd_materialized b) path) (map_of (bd_last_ingested b) path)"
  shows "kept c b d0 e"
  unfolding kept_def
proof (intro allI impI)
  fix q bs assume q: "file_at d0 q = Some bs"
  show "file_at e q = Some bs \<or> known_content c b q bs \<or> temporary b q"
  proof (cases "q = p \<or> q = agentsync_tmp p")
    case False
    with assms(1,3) q show ?thesis by (auto simp: kept_def)
  next
    case True
    then show ?thesis
    proof
      assume "q = agentsync_tmp p"
      with assms(2) show ?thesis by (auto simp: temporary_def)
    next
      assume qp: "q = p"
      from assms(1) q consider "file_at d q = Some bs" | "known_content c b q bs \<or> temporary b q"
        unfolding kept_def by blast
      then show ?thesis
      proof cases
        case 1
        with assms(2,4) qp show ?thesis by (auto simp: known_content_def)
      qed blast
    qed
  qed
qed

lemma keeps_on_doc [keeps_rules]: "keeps (pass_inv c b0 d0) (with_vault (on_doc m))"
  by (auto simp: keeps_def pass_inv_def with_vault_def on_doc_def split: prod.splits)

lemma keeps_the_binding [keeps_rules]: "keeps I the_binding"
  by (auto simp: keeps_def the_binding_def)

lemma keeps_with_binding [keeps_rules]:
  "(\<And>b. bd_root (f b) = bd_root b) \<Longrightarrow> keeps (pass_inv c b0 d0) (with_binding f)"
  by (auto simp: keeps_def pass_inv_def with_binding_def)

lemma keeps_sets [keeps_rules]:
  "keeps (pass_inv c b0 d0) (set_materialized p h)" "keeps (pass_inv c b0 d0) (set_ingested p h)"
  "keeps (pass_inv c b0 d0) (mark_dirty clock p h)"
  by (auto simp: set_materialized_def set_ingested_def keeps_with_binding)
     (auto simp: mark_dirty_def keeps_def pass_inv_def Let_def)

lemma keeps_on_disk:
  assumes "\<And>d r e. m d = (r, e) \<Longrightarrow> quiet d \<Longrightarrow> quiet e \<and> file_at e = file_at d"
  shows "keeps (pass_inv c b0 d0) (with_vault (on_disk m))"
  using assms
  by (fastforce simp: keeps_def pass_inv_def with_vault_def on_disk_def split: prod.splits intro: kept_files)

lemma keeps_mat_directory [keeps_rules]: "keeps (pass_inv c b0 d0) (mat_directory p)"
  unfolding mat_directory_def
  by (intro keeps_rules keeps_on_disk)
     (auto simp: attempt_run split: prod.splits dest: quiet_calls create_dir_all_files)

lemma remove_dir_files: "fs_remove_dir p d = (r, e) \<Longrightarrow> file_at e q = file_at d q"
  by (auto simp: fs_remove_dir_def file_at_def split: if_splits option.splits file_node.splits)

lemma keeps_mat_remove_dir [keeps_rules]: "keeps (pass_inv c b0 d0) (mat_remove_dir p)"
  unfolding mat_remove_dir_def
  by (intro keeps_rules keeps_on_disk)
     (auto simp: attempt_run split: prod.splits dest: quiet_calls remove_dir_files)

lemma mat_delete_run:
  assumes "path \<notin> live" "disk_hash c (vault_path_to_fs_path b path) (va_disk v) = (Ok h, d1)"
  shows "mat_delete c clock existing last_ingested live path (v, b) =
    (if (case h of Some d \<Rightarrow> \<not> is_safe_to_overwrite d (map_of existing path) (map_of last_ingested path)
         | None \<Rightarrow> False)
     then (Ok (), v\<lparr>va_disk := d1\<rparr>, b)
     else case adapter_delete (vault_path_to_fs_path b path) d1 of
         (Inl _, d2) \<Rightarrow> (Ok (), v\<lparr>va_disk := d2\<rparr>, b)
       | (Inr _, d2) \<Rightarrow> mark_dirty clock path ''<deleted>'' (v\<lparr>va_disk := d2\<rparr>, b))"
  using assms
  by (simp add: mat_delete_def Let_def andthen_run the_binding_def with_vault_def on_disk_def ret_run attempt_run
      split: prod.split sum.split)

lemma mat_write_run:
  assumes "disk_hash c (vault_path_to_fs_path b path) (va_disk v) = (Ok h, d1)"
  shows "mat_write c clock existing last_ingested path hash bytes (v, b) =
    (if h = Some hash then set_materialized path hash (v\<lparr>va_disk := d1\<rparr>, b)
     else if (case h of Some d \<Rightarrow> \<not> is_safe_to_overwrite d (map_of existing path) (map_of last_ingested path)
              | None \<Rightarrow> False)
     then (Ok (), v\<lparr>va_disk := d1\<rparr>, b)
     else
       (let b1 = snd (snd (mark_dirty clock path hash (v\<lparr>va_disk := d1\<rparr>, b))) in
        case adapter_write (vault_path_to_fs_path b path) bytes d1 of
          (Inl _, d2) \<Rightarrow> (Ok (), v\<lparr>va_disk := d2\<rparr>, b1)
        | (Inr _, d2) \<Rightarrow> set_materialized path hash (v\<lparr>va_disk := d2\<rparr>, b1)))"
  using assms
  by (simp add: mat_write_def Let_def andthen_run the_binding_def with_vault_def on_disk_def ret_run attempt_run
      mark_dirty_def split: prod.split sum.split)

lemma mark_dirty_root [simp]: "bd_root (snd (snd (mark_dirty clock p h s))) = bd_root (snd s)"
  by (simp add: mark_dirty_def Let_def split: prod.split)

lemma keeps_mat_delete:
  assumes "existing = bd_materialized b0" "last_ingested = bd_last_ingested b0"
  shows "keeps (pass_inv c b0 d0) (mat_delete c clock existing last_ingested live path)"
  unfolding keeps_def
proof (intro allI impI)
  fix s r t
  assume inv: "pass_inv c b0 d0 s" and run: "mat_delete c clock existing last_ingested live path s = (r, t)"
  obtain v b where s: "s = (v, b)" by (cases s)
  let ?p = "vault_path_to_fs_path b path"
  have i: "bd_root b = bd_root b0" "quiet (va_disk v)" "kept c b0 d0 (va_disk v)"
    using inv s by (auto simp: pass_inv_def)
  obtain d1 where h: "disk_hash c ?p (va_disk v) = (Ok (map_option (content_hash c) (file_at (va_disk v) ?p)), d1)"
    and n1: "d_nodes d1 = d_nodes (va_disk v)" and q1: "quiet d1"
    by (rule disk_hash_quiet [OF i(2)])
  have k1: "kept c b0 d0 d1" by (rule kept_files [OF i(3)]) (simp add: file_at_def n1 fun_eq_iff)
  let ?blocked = "case map_option (content_hash c) (file_at (va_disk v) ?p) of
      Some d \<Rightarrow> \<not> is_safe_to_overwrite d (map_of existing path) (map_of last_ingested path) | None \<Rightarrow> False"
  show "pass_inv c b0 d0 t"
  proof (cases "path \<in> live")
    case True
    with run inv show ?thesis by (simp add: mat_delete_def ret_run)
  next
    case False
    note run' = run [unfolded s mat_delete_run [OF False h]]
    show ?thesis
    proof (cases ?blocked)
      case True
      from run' [unfolded if_P [OF True]] have "t = (v\<lparr>va_disk := d1\<rparr>, b)" by simp
      with i k1 q1 show ?thesis by (simp add: pass_inv_def)
    next
      case nb: False
      obtain r2 d2 where del: "adapter_delete ?p d1 = (r2, d2)" by fastforce
      have "kept c b0 d0 d2"
      proof (rule kept_change [OF k1 same_fs_path [OF i(1)]])
        show "file_at d2 q = file_at d1 q" if "q \<noteq> ?p" for q
          using adapter_delete_files(1) [OF del that] .
        fix bs assume "file_at d1 ?p = Some bs"
        then have "file_at (va_disk v) ?p = Some bs" using n1 by (simp add: file_at_def)
        with nb assms show "is_safe_to_overwrite (content_hash c bs) (map_of (bd_materialized b0) path)
            (map_of (bd_last_ingested b0) path)" by simp
      qed
      then have "pass_inv c b0 d0 (v\<lparr>va_disk := d2\<rparr>, b)"
        using i quiet_adapter_delete [OF del q1] by (simp add: pass_inv_def)
      note d2 = this
      note run2 = run' [unfolded if_not_P [OF nb] del prod.case]
      show ?thesis
      proof (cases r2)
        case (Inl x)
        with run2 d2 show ?thesis by simp
      next
        case (Inr x)
        with run2 have "mark_dirty clock path ''<deleted>'' (v\<lparr>va_disk := d2\<rparr>, b) = (r, t)" by simp
        from keepsD [OF keeps_sets(3) d2 this] show ?thesis .
      qed
    qed
  qed
qed

lemma keeps_mat_write:
  assumes "existing = bd_materialized b0" "last_ingested = bd_last_ingested b0"
  shows "keeps (pass_inv c b0 d0) (mat_write c clock existing last_ingested path hash bytes)"
  unfolding keeps_def
proof (intro allI impI)
  fix s r t
  assume inv: "pass_inv c b0 d0 s" and run: "mat_write c clock existing last_ingested path hash bytes s = (r, t)"
  obtain v b where s: "s = (v, b)" by (cases s)
  let ?p = "vault_path_to_fs_path b path"
  have i: "bd_root b = bd_root b0" "quiet (va_disk v)" "kept c b0 d0 (va_disk v)"
    using inv s by (auto simp: pass_inv_def)
  let ?h = "map_option (content_hash c) (file_at (va_disk v) ?p)"
  obtain d1 where h: "disk_hash c ?p (va_disk v) = (Ok ?h, d1)"
    and n1: "d_nodes d1 = d_nodes (va_disk v)" and q1: "quiet d1"
    by (rule disk_hash_quiet [OF i(2)])
  have k1: "kept c b0 d0 d1" by (rule kept_files [OF i(3)]) (simp add: file_at_def n1 fun_eq_iff)
  let ?blocked = "case ?h of
      Some d \<Rightarrow> \<not> is_safe_to_overwrite d (map_of existing path) (map_of last_ingested path) | None \<Rightarrow> False"
  let ?v1 = "v\<lparr>va_disk := d1\<rparr>"
  have i1: "pass_inv c b0 d0 (?v1, b)" using i k1 q1 by (simp add: pass_inv_def)
  show "pass_inv c b0 d0 t"
  proof (cases "?h = Some hash \<or> ?blocked")
    case True
    have "set_materialized path hash (?v1, b) = (r, t) \<or> t = (?v1, b)"
    proof (cases "?h = Some hash")
      case False
      with True have "?blocked" by blast
      from run [unfolded s mat_write_run [OF h] if_not_P [OF False] if_P [OF this]] show ?thesis by simp
    qed (use run [unfolded s mat_write_run [OF h]] in simp)
    with i1 keepsD [OF keeps_sets(1) i1] show ?thesis by blast
  next
    case False
    obtain r2 d2 where wr: "adapter_write ?p bytes d1 = (r2, d2)" by fastforce
    have "kept c b0 d0 d2"
    proof (rule kept_change [OF k1 same_fs_path [OF i(1)]])
      show "file_at d2 q = file_at d1 q" if "q \<noteq> ?p" "q \<noteq> agentsync_tmp ?p" for q
        using adapter_write_atomic(2) [OF wr that] .
      fix bs assume "file_at d1 ?p = Some bs"
      then have "file_at (va_disk v) ?p = Some bs" using n1 by (simp add: file_at_def)
      with False assms show "is_safe_to_overwrite (content_hash c bs) (map_of (bd_materialized b0) path)
          (map_of (bd_last_ingested b0) path)" by simp
    qed
    then have w: "pass_inv c b0 d0 (v\<lparr>va_disk := d2\<rparr>, snd (snd (mark_dirty clock path hash (?v1, b))))"
      using i quiet_adapter_write [OF wr q1] by (simp add: pass_inv_def)
    from False have nb: "?h \<noteq> Some hash" "\<not> ?blocked" by blast+
    note run2 = run [unfolded s mat_write_run [OF h] if_not_P [OF nb(1)] if_not_P [OF nb(2)] Let_def wr prod.case]
    show ?thesis
    proof (cases r2)
      case (Inl x)
      with run2 w show ?thesis by simp
    next
      case (Inr x)
      with run2 have "set_materialized path hash (v\<lparr>va_disk := d2\<rparr>, snd (snd (mark_dirty clock path hash (?v1, b)))) = (r, t)"
        by simp
      from keepsD [OF keeps_sets(1) w this] show ?thesis .
    qed
  qed
qed

lemma keeps_blob_get: "keeps (pass_inv c b0 d0) (\<lambda>(v, b). with_vault (on_disk (attempt (blob_get (root v) h))) (v, b))"
proof -
  have q: "blob_get p h d = (r, e) \<Longrightarrow> quiet d \<Longrightarrow> quiet e \<and> file_at e = file_at d" for p d r e
    using blob_get_Ok [of p h d r e]
    by (auto simp: blob_get_def map_err_def file_at_def fun_eq_iff split: prod.splits sum.splits dest: quiet_calls)
  show ?thesis
    unfolding keeps_def
  proof (intro allI impI)
    fix s r t
    assume "pass_inv c b0 d0 s"
      "(case s of (v, b) \<Rightarrow> with_vault (on_disk (attempt (blob_get (root v) h))) (v, b)) = (r, t)"
    moreover obtain v b where "s = (v, b)" by (cases s)
    moreover have "keeps (pass_inv c b0 d0) (with_vault (on_disk (attempt (blob_get (root v) h))))"
      by (rule keeps_on_disk) (auto simp: attempt_run split: prod.splits dest: q)
    ultimately show "pass_inv c b0 d0 t" using keepsD by fastforce
  qed
qed

lemma keeps_mat_file:
  assumes "existing = bd_materialized b0" "last_ingested = bd_last_ingested b0"
  shows "keeps (pass_inv c b0 d0) (mat_file am c clock existing last_ingested pm)"
proof -
  obtain path meta where pm: "pm = (path, meta)" by (cases pm)
  show ?thesis
    using keeps_mat_write [OF assms]
    by (cases "fm_kind meta") (auto simp: mat_file_def pm Let_def intro!: keeps_rules keeps_blob_get)
qed

text \<open>The first loop leaves the two maps as they were.\<close>

definition same_maps :: "'g binding \<Rightarrow> ('d, 'y, 'g) bound \<Rightarrow> bool" where
  "same_maps b0 = (\<lambda>(v, b). bd_materialized b = bd_materialized b0 \<and> bd_last_ingested b = bd_last_ingested b0)"

lemma keeps_maps_vault: "keeps (same_maps b0) (with_vault m)"
  by (auto simp: keeps_def same_maps_def with_vault_def split: prod.splits)

lemma keeps_maps: "keeps (same_maps b0) (mat_directory p)"
  unfolding mat_directory_def
  by (intro keeps_rules keeps_maps_vault) (auto simp: keeps_def same_maps_def with_binding_def)

lemma keeps_conj: "keeps I m \<Longrightarrow> keeps J m \<Longrightarrow> keeps (\<lambda>s. I s \<and> J s) m"
  unfolding keeps_def by blast

lemma materialize_keeps:
  assumes "quiet (va_disk v)" "materialize am c clock order meta_order (v, b) = (r, v', b')"
  shows "kept c b (va_disk v) (va_disk v')"
proof -
  let ?I = "pass_inv c b (va_disk v)" and ?J = "same_maps b"
  have later: "keeps ?I (andthen (foreach xs (mat_delete c clock (bd_materialized b) (bd_last_ingested b) live)) (\<lambda>_.
     andthen (foreach ys (mat_file am c clock (bd_materialized b) (bd_last_ingested b))) (\<lambda>_.
     andthen (with_binding f) (\<lambda>_. andthen the_binding (\<lambda>b. foreach (zs b) mat_remove_dir)))))"
    if "\<And>b. bd_root (f b) = bd_root b" for xs ys zs live f
    by (intro keeps_rules keeps_mat_delete keeps_mat_file that) simp_all
  have start: "?I (v, b) \<and> ?J (v, b)" using assms(1) by (simp add: pass_inv_def same_maps_def kept_refl)
  obtain r1 v1 b1 where 1: "with_vault (on_doc (list_files am)) (v, b) = (r1, v1, b1)" by (metis prod_cases3)
  have s1: "?I (v1, b1) \<and> ?J (v1, b1)"
    using start keepsD [OF keeps_on_doc _ 1] keepsD [OF keeps_maps_vault _ 1] by blast
  obtain r2 v2 b2 where 2: "with_vault (on_doc (list_directories am)) (v1, b1) = (r2, v2, b2)" by (metis prod_cases3)
  have s2: "?I (v2, b2) \<and> ?J (v2, b2)"
    using s1 keepsD [OF keeps_on_doc _ 2] keepsD [OF keeps_maps_vault _ 2] by blast
  have "?I (v', b')"
  proof (cases "\<exists>fs ds. r1 = Ok fs \<and> r2 = Ok ds")
    case False
    with assms(2) 1 2 s1 s2 show ?thesis
      by (auto simp: materialize_def andthen_run split: sum.splits)
  next
    case True
    then obtain files dirs where fs: "r1 = Ok files" "r2 = Ok dirs" by blast
    let ?live = "live_map files" and ?dirs = "remdups (map dm_path dirs)"
    obtain r3 v3 b3 where 3: "foreach (depth_order (filter (\<lambda>p. p \<notin> set (bd_materialized_dirs b2)) ?dirs))
        mat_directory (v2, b2) = (r3, v3, b3)" by (metis prod_cases3)
    have "keeps (\<lambda>s. ?I s \<and> ?J s) (foreach xs mat_directory)" for xs
      by (intro keeps_foreach keeps_conj keeps_mat_directory keeps_maps)
    from keepsD [OF this s2 3] have s3: "?I (v3, b3)" "bd_materialized b3 = bd_materialized b"
      "bd_last_ingested b3 = bd_last_ingested b" by (auto simp: same_maps_def)
    show ?thesis
    proof (cases r3)
      case (Inl e)
      with assms(2) 1 2 fs 3 s3 show ?thesis
        by (auto simp: materialize_def andthen_run the_binding_def Let_def)
    next
      case (Inr u)
      with assms(2) 1 2 fs 3 have "andthen (foreach (order (map fst (bd_materialized b3)))
         (mat_delete c clock (bd_materialized b3) (bd_last_ingested b3) (fst ` set ?live))) (\<lambda>_.
       andthen (foreach (meta_order ?live) (mat_file am c clock (bd_materialized b3) (bd_last_ingested b3))) (\<lambda>_.
       andthen (with_binding (\<lambda>b. b\<lparr>
         bd_materialized := filter (\<lambda>(p, _). p \<in> fst ` set ?live) (bd_materialized b),
         bd_last_ingested := filter (\<lambda>(p, _). p \<in> fst ` set ?live) (bd_last_ingested b)\<rparr>)) (\<lambda>_.
       andthen the_binding (\<lambda>b.
       foreach (deep_first (filter (\<lambda>p. p \<notin> set ?dirs) (order (bd_materialized_dirs b)))) mat_remove_dir))))
         (v3, b3) = (r, v', b')"
        by (simp add: materialize_def andthen_run the_binding_def Let_def)
      note run = this [unfolded s3(2,3)]
      show ?thesis using later [unfolded keeps_def, rule_format, OF _ s3(1) run] by simp
    qed
  qed
  then show ?thesis by (simp add: pass_inv_def)
qed

end
