(* ===== verification/Mirror.thy ===== *)
theory Mirror
  imports Materialize DocRestore
begin

text \<open>
  What a materialize pass achieves (\<^verbatim>\<open>materialize_inner\<close> of \<^verbatim>\<open>vault.rs\<close>). In a run without system
  errors, on a directory without edits that are not taken in yet, every live directory is there
  afterwards, every live file has its content, and the files of removed entries are gone. The
  steps of the pass are followed one by one on the disk.
\<close>

section \<open>Loops that establish a fact for each element\<close>

lemma foreach_establish:
  assumes "\<And>x s. x \<in> set xs \<Longrightarrow> I s \<Longrightarrow>
      \<exists>t. f x s = (Inr (), t) \<and> I t \<and> Q x t \<and> (\<forall>y \<in> set ys. Q y s \<longrightarrow> Q y t)"
    and "I s" "set xs \<subseteq> set ys"
  shows "\<exists>t. foreach xs f s = (Inr (), t) \<and> I t \<and> (\<forall>x \<in> set xs. Q x t) \<and> (\<forall>y \<in> set ys. Q y s \<longrightarrow> Q y t)"
  using assms
proof (induction xs arbitrary: s)
  case Nil
  then show ?case by (simp add: act_simps)
next
  case (Cons x xs)
  from Cons.prems(1) [of x, OF _ Cons.prems(2)] obtain t where t: "f x s = (Inr (), t)" "I t" "Q x t"
    "\<forall>y \<in> set ys. Q y s \<longrightarrow> Q y t" by auto
  have "\<exists>u. foreach xs f t = (Inr (), u) \<and> I u \<and> (\<forall>x \<in> set xs. Q x u) \<and> (\<forall>y \<in> set ys. Q y t \<longrightarrow> Q y u)"
    using Cons.prems(1,3) by (intro Cons.IH [OF _ t(2)]) auto
  then obtain u where u: "foreach xs f t = (Inr (), u)" "I u" "\<forall>x \<in> set xs. Q x u" "\<forall>y \<in> set ys. Q y t \<longrightarrow> Q y u"
    by blast
  with t Cons.prems(3) show ?case by (intro exI [of _ u]) (auto simp: act_simps)
qed

section \<open>One write on a disk without obstacles\<close>

text \<open>
  No file stands where a directory of the path would be, and no directory at the path or at its
  temporary sibling.
\<close>

definition open_way :: "disk \<Rightarrow> fpath \<Rightarrow> bool" where
  "open_way d p \<longleftrightarrow> p \<noteq> [] \<and> (\<forall>k. 0 < k \<and> k < length p \<longrightarrow> file_at d (take k p) = None) \<and>
     d_nodes d p \<noteq> Some DDir \<and> d_nodes d (agentsync_tmp p) \<noteq> Some DDir"

definition dir_way :: "disk \<Rightarrow> fpath \<Rightarrow> bool" where
  "dir_way d p \<longleftrightarrow> (\<forall>k. 0 < k \<and> k \<le> length p \<longrightarrow> file_at d (take k p) = None)"

lemma tmp_facts:
  assumes "p \<noteq> []"
  shows "agentsync_tmp p \<noteq> p" "agentsync_tmp p \<noteq> []" "butlast (agentsync_tmp p) = butlast p"
    "\<not> prefix (agentsync_tmp p) (butlast p)" "\<not> prefix p (butlast p)" "length (agentsync_tmp p) = length p"
proof -
  have len: "length (''.'' @ last p @ ''.agentsync-tmp'') > length (last p)" by simp
  show "agentsync_tmp p \<noteq> p"
  proof
    assume "agentsync_tmp p = p"
    then have "last (agentsync_tmp p) = last p" by simp
    then show False using len by (simp add: agentsync_tmp_def)
  qed
  have "length (butlast p) < length p" using assms by (cases p) simp_all
  then show "\<not> prefix (agentsync_tmp p) (butlast p)" "\<not> prefix p (butlast p)"
    by (auto simp: agentsync_tmp_def dest: prefix_length_le)
  show "length (agentsync_tmp p) = length p" using assms by (cases p) (simp_all add: agentsync_tmp_def)
qed (simp_all add: agentsync_tmp_def)

definition after_write :: "fpath \<Rightarrow> byte list \<Rightarrow> disk \<Rightarrow> disk \<Rightarrow> bool" where
  "after_write p bs d e \<longleftrightarrow> quiet e \<and> (\<exists>m. \<forall>q. d_nodes e q =
     (if q = p then Some (DFile bs m) else if q = agentsync_tmp p then None
      else if q \<noteq> [] \<and> prefix q (butlast p) then Some DDir else d_nodes d q))"

lemma quiet_faulty: "quiet d \<Longrightarrow> \<not> faulty d" "quiet d \<Longrightarrow> quiet (tick d)" "quiet d \<Longrightarrow> quiet (set_node p n d)"
  by (simp_all add: quiet_def)

lemma make_dirs_run:
  assumes "quiet d" "dir_way d p"
  shows "fs_create_dir_all p d =
    (Ok (), tick (d\<lparr>d_nodes := (\<lambda>q. if q \<noteq> [] \<and> prefix q p then Some DDir else d_nodes d q)\<rparr>))"
proof -
  have "\<not> (\<exists>k \<in> set [1..<Suc (length p)]. file_at d (take k p) \<noteq> None)"
    using assms(2) by (auto simp: dir_way_def simp del: upt_Suc)
  then show ?thesis using assms(1) unfolding fs_create_dir_all_def quiet_def by presburger
qed

lemma write_run:
  assumes "quiet d" "open_way d p"
  obtains e where "adapter_write p bs d = (Ok (), e)" "after_write p bs d e"
proof -
  let ?t = "agentsync_tmp p"
  have ne: "p \<noteq> []" using assms(2) by (simp add: open_way_def)
  note tmp = tmp_facts [OF ne]
  have "dir_way d (butlast p)"
    using assms(2) ne by (auto simp: dir_way_def open_way_def take_butlast)
  note dirs = make_dirs_run [OF assms(1) this]
  let ?d1 = "tick (d\<lparr>d_nodes := (\<lambda>q. if q \<noteq> [] \<and> prefix q (butlast p) then Some DDir else d_nodes d q)\<rparr>)"
  have q1: "quiet ?d1" using assms(1) by (simp add: quiet_def)
  have open_t: "can_open ?d1 ?t" using assms(2) tmp by (auto simp: can_open_def is_dir_def open_way_def)
  let ?m = "mode_for ?d1 ?t 420"
  have w: "fs_write ?t bs ?d1 = (Ok (), tick (set_node ?t (Some (DFile bs ?m)) ?d1))"
    using open_t quiet_faulty(1) [OF q1] by (simp only: fs_write_def fs_write_mode_def simp_thms if_False if_True)
  let ?d2 = "tick (set_node ?t (Some (DFile bs ?m)) ?d1)"
  have open_p: "can_open ?d2 p"
    using assms(2) tmp by (auto simp: can_open_def is_dir_def open_way_def)
  have r: "fs_rename ?t p ?d2 = (Ok (), tick (set_node p (Some (DFile bs ?m)) (set_node ?t None ?d2)))"
    using open_p tmp(1) q1 by (simp add: fs_rename_def quiet_def)
  let ?e = "tick (set_node p (Some (DFile bs ?m)) (set_node ?t None ?d2))"
  have "adapter_write p bs d = (Ok (), ?e)"
    using dirs w r ne by (simp add: adapter_write_def write_rename_def andthen_run)
  moreover have "after_write p bs d ?e"
    using assms(1) tmp unfolding after_write_def by (intro conjI exI [of _ ?m]) (auto simp: quiet_def)
  ultimately show thesis by (rule that)
qed

section \<open>What the steps keep on the disk\<close>

text \<open>
  \<open>P\<close> are the files to be written and \<open>D\<close> the directories to be made; none of them is in the way
  of another. \<open>disk_ok\<close>: there is no obstacle, and nothing outside \<open>X\<close> has changed since \<open>d0\<close>.
\<close>

definition apart :: "fpath set \<Rightarrow> fpath set \<Rightarrow> bool" where
  "apart P D \<longleftrightarrow> (\<forall>p \<in> P. (\<forall>q \<in> P. (prefix p q \<longrightarrow> p = q) \<and> \<not> prefix (agentsync_tmp p) q) \<and>
     (\<forall>q \<in> D. \<not> prefix p q \<and> \<not> prefix (agentsync_tmp p) q))"

definition disk_ok :: "fpath set \<Rightarrow> fpath set \<Rightarrow> fpath set \<Rightarrow> disk \<Rightarrow> disk \<Rightarrow> bool" where
  "disk_ok P D X d0 d \<longleftrightarrow> quiet d \<and> (\<forall>p \<in> P. open_way d p) \<and> (\<forall>q \<in> D. dir_way d q) \<and>
     (\<forall>q. q \<notin> X \<longrightarrow> file_at d q = file_at d0 q)"

lemma prefix_butlastD: "prefix q (butlast p) \<Longrightarrow> prefix q p"
  using prefixeq_butlast prefix_order.trans by blast

lemma disk_ok_files:
  assumes "disk_ok P D X d0 d" "file_at e = file_at d" "quiet e"
    and "\<And>p. p \<in> P \<Longrightarrow> d_nodes e p = Some DDir \<Longrightarrow> d_nodes d p = Some DDir"
    and "\<And>p. p \<in> P \<Longrightarrow> d_nodes e (agentsync_tmp p) = Some DDir \<Longrightarrow> d_nodes d (agentsync_tmp p) = Some DDir"
  shows "disk_ok P D X d0 e"
  using assms unfolding disk_ok_def open_way_def dir_way_def by auto

lemma write_keeps:
  assumes "disk_ok P D X d0 d" "apart P D" "p \<in> P" "p \<in> X" "agentsync_tmp p \<in> X" "after_write p bs d e"
  shows "disk_ok P D X d0 e" "file_at e p = Some bs"
    "q \<noteq> p \<Longrightarrow> q \<noteq> agentsync_tmp p \<Longrightarrow> file_at e q = file_at d q"
    "q \<in> P \<Longrightarrow> q \<noteq> p \<Longrightarrow> file_at e q = file_at d q"
    "file_at d q = None \<Longrightarrow> q \<noteq> p \<Longrightarrow> file_at e q = None"
    "q \<in> D \<Longrightarrow> d_nodes d q = Some DDir \<Longrightarrow> d_nodes e q = Some DDir"
proof -
  have ne: "p \<noteq> []" using assms(1,3) by (simp add: disk_ok_def open_way_def)
  note tmp = tmp_facts [OF ne]
  obtain m where n: "\<And>q. d_nodes e q = (if q = p then Some (DFile bs m) else if q = agentsync_tmp p then None
      else if q \<noteq> [] \<and> prefix q (butlast p) then Some DDir else d_nodes d q)" and q: "quiet e"
    using assms(6) by (auto simp: after_write_def)
  have way: "file_at d r = None" if "r \<noteq> []" "prefix r (butlast p)" for r
  proof -
    have "open_way d p" using assms(1,3) by (simp add: disk_ok_def)
    moreover have "r = take (length r) p" "length r < length p"
      using that prefix_butlastD [OF that(2)] tmp(5) prefix_length_le [OF that(2)] ne
      by (auto simp: prefix_def)
    ultimately show ?thesis using that(1) unfolding open_way_def by (metis length_greater_0_conv)
  qed
  have other: "file_at e r = file_at d r" if "r \<noteq> p" "r \<noteq> agentsync_tmp p" for r
    using n [of r] that way [of r] by (auto simp: file_at_def)
  show "file_at e p = Some bs" using n [of p] by (simp add: file_at_def)
  show "file_at e q = file_at d q" if "q \<noteq> p" "q \<noteq> agentsync_tmp p"
    using other that by simp
  have apart: "prefix p r \<Longrightarrow> r = p" "\<not> prefix (agentsync_tmp p) r" "prefix r p \<Longrightarrow> r = p"
    "\<not> prefix (agentsync_tmp r) p" if "r \<in> P" for r
    using assms(2,3) that unfolding apart_def by blast+
  have apart_dir: "\<not> prefix p r" "\<not> prefix (agentsync_tmp p) r" if "r \<in> D" for r
    using assms(2,3) that unfolding apart_def by blast+
  show "file_at e q = file_at d q" if "q \<in> P" "q \<noteq> p"
    using other [OF that(2)] apart(2) [OF that(1)] by blast
  show "d_nodes e q = Some DDir" if "q \<in> D" "d_nodes d q = Some DDir"
    using n [of q] that apart_dir [OF that(1)] by auto
  have gone: "file_at e (agentsync_tmp p) = None" using n tmp(1) by (simp add: file_at_def)
  show "file_at e q = None" if "file_at d q = None" "q \<noteq> p"
    using that other [of q] gone by (cases "q = agentsync_tmp p") simp_all
  have "open_way e r" if "r \<in> P" for r
  proof -
    have o: "open_way d r" using assms(1) that by (simp add: disk_ok_def)
    have "file_at e (take k r) = None" if k: "0 < k" "k < length r" for k
    proof -
      have "take k r \<noteq> p"
      proof
        assume "take k r = p"
        then have "r = p" using apart(1) [OF \<open>r \<in> P\<close>] take_is_prefix [of k r] by simp
        with \<open>take k r = p\<close> k show False by (metis length_take min.absorb4 nat_less_le)
      qed
      with other [of "take k r"] gone o k show ?thesis by (cases "take k r = agentsync_tmp p") (auto simp: open_way_def)
    qed
    moreover have "d_nodes e r \<noteq> Some DDir"
      using o n [of r] apart(3) [OF that] prefix_butlastD [of r p] by (auto simp: open_way_def)
    moreover have "d_nodes e (agentsync_tmp r) \<noteq> Some DDir"
      using o n [of "agentsync_tmp r"] apart(4) [OF that] prefix_butlastD [of "agentsync_tmp r" p]
      by (auto simp: open_way_def)
    ultimately show ?thesis using o by (simp add: open_way_def)
  qed
  moreover have "dir_way e r" if "r \<in> D" for r
  proof -
    have "file_at e (take k r) = None" if k: "0 < k" "k \<le> length r" for k
    proof -
      have "take k r \<noteq> p" using apart_dir(1) [OF \<open>r \<in> D\<close>] take_is_prefix [of k r] by auto
      moreover have "file_at d (take k r) = None" using assms(1) \<open>r \<in> D\<close> k by (auto simp: disk_ok_def dir_way_def)
      ultimately show ?thesis using other [of "take k r"] gone by (cases "take k r = agentsync_tmp p") auto
    qed
    then show ?thesis by (simp add: dir_way_def)
  qed
  moreover have "file_at e r = file_at d0 r" if "r \<notin> X" for r
    using assms(1,4,5) other [of r] that by (auto simp: disk_ok_def)
  ultimately show "disk_ok P D X d0 e" using q by (simp add: disk_ok_def)
qed

lemma create_keeps:
  assumes "disk_ok P D X d0 d" "apart P D" "q \<in> D"
  obtains e where "fs_create_dir_all q d = (Ok (), e)" "disk_ok P D X d0 e" "is_dir e q"
    "\<And>r. d_nodes d r = Some DDir \<Longrightarrow> d_nodes e r = Some DDir" "file_at e = file_at d"
proof -
  have q: "quiet d" "dir_way d q" using assms(1,3) by (simp_all add: disk_ok_def)
  note run = make_dirs_run [OF q]
  let ?e = "tick (d\<lparr>d_nodes := (\<lambda>r. if r \<noteq> [] \<and> prefix r q then Some DDir else d_nodes d r)\<rparr>)"
  have f: "file_at ?e = file_at d" using create_dir_all_files [OF run] by (simp add: fun_eq_iff)
  have "disk_ok P D X d0 ?e"
    by (rule disk_ok_files [OF assms(1) f])
      (use assms(2,3) q(1) in \<open>auto simp: quiet_def apart_def split: if_splits\<close>)
  then show thesis by (intro that [OF run]) (use f in \<open>auto simp: is_dir_def\<close>)
qed

lemma delete_keeps:
  assumes "disk_ok P D X d0 d" "p \<in> X"
  obtains e r where "adapter_delete p d = (r, e)" "disk_ok P D X d0 e" "file_at e p = None"
    "d_nodes d p = Some DDir \<or> r = Ok ()" "\<And>q. q \<noteq> p \<Longrightarrow> d_nodes e q = d_nodes d q"
    "\<And>q. d_nodes d q = Some DDir \<Longrightarrow> d_nodes e q = Some DDir"
proof -
  have q: "\<not> faulty d" "quiet (tick d)" "quiet (tick (set_node p None d))"
    using assms(1) by (simp_all add: disk_ok_def quiet_def)
  have ok: "disk_ok P D X d0 (tick d)" by (rule disk_ok_files [OF assms(1)]) (use q in auto)
  have ok': "disk_ok P D X d0 (tick (set_node p None d))"
    using assms q unfolding disk_ok_def open_way_def dir_way_def by auto
  show thesis
  proof (cases "d_nodes d p")
    case None
    then show thesis
      using q by (intro that [of "Ok ()" "tick d"])
        (simp_all add: adapter_delete_def fs_remove_file_def file_at_def ok)
  next
    case (Some n)
    then show thesis
    proof (cases n)
      case DDir
      with Some show thesis
        using q by (intro that [of "Err io_other" "tick d"])
          (simp_all add: adapter_delete_def fs_remove_file_def file_at_def ok io_other_def io_not_found_def)
    next
      case (DFile bs m)
      with Some show thesis
        using q by (intro that [of "Ok ()" "tick (set_node p None d)"])
          (auto simp: adapter_delete_def fs_remove_file_def file_at_def ok')
    qed
  qed
qed

lemma remove_dir_keeps:
  assumes "disk_ok P D X d0 d" "fs_remove_dir p d = (r, e)"
  shows "disk_ok P D X d0 e" "q \<noteq> p \<Longrightarrow> d_nodes e q = d_nodes d q" "file_at e = file_at d"
proof -
  show f: "file_at e = file_at d" using remove_dir_files [OF assms(2)] by (simp add: fun_eq_iff)
  show "d_nodes e q = d_nodes d q" if "q \<noteq> p"
    using assms(2) that by (auto simp: fs_remove_dir_def split: if_splits option.splits file_node.splits)
  show "disk_ok P D X d0 e"
    by (rule disk_ok_files [OF assms(1) f])
      (use assms in \<open>auto simp: disk_ok_def fs_remove_dir_def quiet_def split: if_splits option.splits file_node.splits\<close>)
qed

section \<open>The steps of the pass\<close>

abbreviation hash_at :: "crypto \<Rightarrow> disk \<Rightarrow> fpath \<Rightarrow> string option" where
  "hash_at c d p \<equiv> map_option (content_hash c) (file_at d p)"

definition mirror_inv ::
    "('d, 'y, 'g) vault \<Rightarrow> 'g binding \<Rightarrow> fpath set \<Rightarrow> fpath set \<Rightarrow> fpath set \<Rightarrow> ('d, 'y, 'g) bound \<Rightarrow> bool" where
  "mirror_inv v0 b0 P D X = (\<lambda>(v, b). (\<exists>d. v = v0\<lparr>va_disk := d\<rparr>) \<and> bd_root b = bd_root b0 \<and>
     disk_ok P D X (va_disk v0) (va_disk v))"

text \<open>The directories are there; what the disk held at the files to be written is still there.\<close>

definition dirs_there :: "fpath set \<Rightarrow> ('d, 'y, 'g) bound \<Rightarrow> bool" where
  "dirs_there D = (\<lambda>(v, b). \<forall>q \<in> D. d_nodes (va_disk v) q = Some DDir)"

definition dirs_stage ::
    "('d, 'y, 'g) vault \<Rightarrow> 'g binding \<Rightarrow> fpath set \<Rightarrow> fpath set \<Rightarrow> fpath set \<Rightarrow> string set \<Rightarrow> ('d, 'y, 'g) bound \<Rightarrow> bool" where
  "dirs_stage v0 b0 P D X B = (\<lambda>(v, b). mirror_inv v0 b0 P D X (v, b) \<and> same_maps b0 (v, b) \<and>
     set (bd_materialized_dirs b) \<subseteq> B \<and> file_at (va_disk v) = file_at (va_disk v0))"

lemma mat_directory_step:
  assumes "dirs_stage v0 b0 P D X B (v, b)" "apart P D" "vault_path_to_fs_path b0 path \<in> D" "path \<in> B"
    and "vault_path_to_fs_path b0 path \<noteq> []"
  shows "\<exists>v' b'. mat_directory path (v, b) = (Ok (), v', b') \<and> dirs_stage v0 b0 P D X B (v', b') \<and>
    d_nodes (va_disk v') (vault_path_to_fs_path b0 path) = Some DDir \<and>
    (\<forall>q. d_nodes (va_disk v) q = Some DDir \<longrightarrow> d_nodes (va_disk v') q = Some DDir)"
proof -
  have inv: "\<exists>d. v = v0\<lparr>va_disk := d\<rparr>" "bd_root b = bd_root b0" "disk_ok P D X (va_disk v0) (va_disk v)"
    "file_at (va_disk v) = file_at (va_disk v0)" "set (bd_materialized_dirs b) \<subseteq> B" "same_maps b0 (v, b)"
    using assms(1) by (auto simp: dirs_stage_def mirror_inv_def)
  obtain e where e: "fs_create_dir_all (vault_path_to_fs_path b0 path) (va_disk v) = (Ok (), e)"
    "disk_ok P D X (va_disk v0) e" "is_dir e (vault_path_to_fs_path b0 path)"
    "\<And>r. d_nodes (va_disk v) r = Some DDir \<Longrightarrow> d_nodes e r = Some DDir" "file_at e = file_at (va_disk v)"
    using create_keeps [OF inv(3) assms(2,3)] by metis
  let ?b = "b\<lparr>bd_materialized_dirs := List.insert path (bd_materialized_dirs b)\<rparr>"
  have "mat_directory path (v, b) = (Ok (), v\<lparr>va_disk := e\<rparr>, ?b)"
    using e(1) by (simp add: mat_directory_def andthen_run the_binding_def with_vault_def on_disk_def attempt_run
        with_binding_def same_fs_path [OF inv(2)])
  moreover have "dirs_stage v0 b0 P D X B (v\<lparr>va_disk := e\<rparr>, ?b)"
    using inv e(2,5) assms(4) by (auto simp: dirs_stage_def mirror_inv_def same_maps_def)
  ultimately show ?thesis using e(3,4) assms(5) by (auto simp: is_dir_def)
qed

text \<open>
  The deletions: \<open>stale\<close> are the recorded paths that are not live, \<open>live\<close> the paths of the document.
\<close>

definition delete_stage ::
    "('d, 'y, 'g) vault \<Rightarrow> 'g binding \<Rightarrow> fpath set \<Rightarrow> fpath set \<Rightarrow> fpath set \<Rightarrow> fpath set \<Rightarrow> ('d, 'y, 'g) bound \<Rightarrow> bool" where
  "delete_stage v0 b0 P D X S = (\<lambda>(v, b). mirror_inv v0 b0 P D X (v, b) \<and> same_maps b0 (v, b) \<and>
     dirs_there D (v, b) \<and>
     (\<forall>p. file_at (va_disk v) p = file_at (va_disk v0) p \<or> p \<in> S \<and> file_at (va_disk v) p = None))"

lemma mat_delete_step:
  assumes "delete_stage v0 b0 P D X S (v, b)" "path \<notin> live" "vault_path_to_fs_path b0 path \<in> S \<inter> X"
    and "\<And>h. hash_at c (va_disk v0) (vault_path_to_fs_path b0 path) = Some h \<Longrightarrow>
      is_safe_to_overwrite h (map_of (bd_materialized b0) path) (map_of (bd_last_ingested b0) path)"
  shows "\<exists>v' b'. mat_delete c clock (bd_materialized b0) (bd_last_ingested b0) live path (v, b) = (Ok (), v', b') \<and>
    delete_stage v0 b0 P D X S (v', b') \<and> file_at (va_disk v') (vault_path_to_fs_path b0 path) = None \<and>
    (\<forall>q. file_at (va_disk v) q = None \<longrightarrow> file_at (va_disk v') q = None) \<and>
    bd_materialized_dirs b' = bd_materialized_dirs b"
proof -
  let ?p = "vault_path_to_fs_path b0 path"
  have inv: "\<exists>d. v = v0\<lparr>va_disk := d\<rparr>" "bd_root b = bd_root b0" "disk_ok P D X (va_disk v0) (va_disk v)"
    "same_maps b0 (v, b)" "\<forall>q \<in> D. d_nodes (va_disk v) q = Some DDir"
    and files: "\<And>p. file_at (va_disk v) p = file_at (va_disk v0) p \<or> p \<in> S \<and> file_at (va_disk v) p = None"
    using assms(1) by (auto simp: delete_stage_def mirror_inv_def dirs_there_def)
  have fs: "vault_path_to_fs_path b path = ?p" by (rule same_fs_path [OF inv(2)])
  obtain d1 where h: "disk_hash c ?p (va_disk v) = (Ok (hash_at c (va_disk v) ?p), d1)"
    and n1: "d_nodes d1 = d_nodes (va_disk v)" and q1: "quiet d1"
    using disk_hash_quiet [of "va_disk v" c ?p] inv(3) by (auto simp: disk_ok_def)
  have f1: "file_at d1 = file_at (va_disk v)" by (simp add: file_at_def n1 fun_eq_iff)
  have ok1: "disk_ok P D X (va_disk v0) d1" by (rule disk_ok_files [OF inv(3) f1 q1]) (simp_all add: n1)
  obtain e r where e: "adapter_delete ?p d1 = (r, e)" "disk_ok P D X (va_disk v0) e" "file_at e ?p = None"
    "\<And>q. q \<noteq> ?p \<Longrightarrow> d_nodes e q = d_nodes d1 q" "\<And>q. d_nodes d1 q = Some DDir \<Longrightarrow> d_nodes e q = Some DDir"
    using delete_keeps [OF ok1] assms(3) by (metis IntD2)
  have fe: "file_at e q = (if q = ?p then None else file_at (va_disk v) q)" for q
    using e(3) e(4) [of q] n1 by (simp add: file_at_def)
  have "\<not> (case hash_at c (va_disk v) ?p of
      Some d \<Rightarrow> \<not> is_safe_to_overwrite d (map_of (bd_materialized b0) path) (map_of (bd_last_ingested b0) path)
    | None \<Rightarrow> False)"
    using assms(4) files [of ?p] by (auto split: option.split)
  note run = mat_delete_run [OF assms(2), of c b v, unfolded fs, OF h, of clock "bd_materialized b0"
      "bd_last_ingested b0", unfolded if_not_P [OF this] e(1) prod.case]
  obtain b' where b': "mat_delete c clock (bd_materialized b0) (bd_last_ingested b0) live path (v, b) =
      (Ok (), v\<lparr>va_disk := e\<rparr>, b')" "bd_root b' = bd_root b" "same_maps b0 (v, b')"
    "bd_materialized_dirs b' = bd_materialized_dirs b"
    using run inv(4) by (cases r) (auto simp: mark_dirty_def same_maps_def Let_def)
  have "delete_stage v0 b0 P D X S (v\<lparr>va_disk := e\<rparr>, b')"
    using inv(1,2,5) b'(2,3) e(2,5) n1 files fe assms(3)
    by (auto simp: delete_stage_def mirror_inv_def dirs_there_def same_maps_def)
  with b'(1,4) fe show ?thesis by auto
qed

text \<open>
  The hash a live file is to have: that of its text, or the one its entry records when the
  attachment is in the store; none when there is nothing to write.
\<close>

definition target_hash :: "crypto \<Rightarrow> fpath \<Rightarrow> disk \<Rightarrow> node \<Rightarrow> string option" where
  "target_hash c store d n =
     (if str_of (meta_of n) ''kind'' = Some ''attachment''
      then case str_of (branch_of n) ''binary_hash'' of
          None \<Rightarrow> None
        | Some h \<Rightarrow> if file_at d (blob_path store h) = None then None else Some h
      else Some (content_hash c (as_bytes (unwrap_or [] (text_of (branch_of n) ''content'')))))"

text \<open>
  The writes: \<open>L\<close> are the live files, \<open>S\<close> the files that are gone. A file that is recorded with its
  target is there, and what a file holds otherwise may be overwritten.
\<close>

definition ready :: "crypto \<Rightarrow> 'g binding \<Rightarrow> string option \<Rightarrow> string \<Rightarrow> ('d, 'y, 'g) bound \<Rightarrow> bool" where
  "ready c b0 T path = (\<lambda>(v, b). \<forall>t. T = Some t \<longrightarrow>
     (map_of (bd_materialized b0) path = Some t \<longrightarrow>
        hash_at c (va_disk v) (vault_path_to_fs_path b0 path) = Some t \<and> map_of (bd_materialized b) path = Some t) \<and>
     (\<forall>h. hash_at c (va_disk v) (vault_path_to_fs_path b0 path) = Some h \<longrightarrow>
        h = t \<or> is_safe_to_overwrite h (map_of (bd_materialized b0) path) (map_of (bd_last_ingested b0) path)))"

definition mirrored :: "crypto \<Rightarrow> 'g binding \<Rightarrow> string option \<Rightarrow> string \<Rightarrow> disk \<Rightarrow> ('d, 'y, 'g) bound \<Rightarrow> bool" where
  "mirrored c b0 T path d0 = (\<lambda>(v, b).
     case T of
       Some t \<Rightarrow> hash_at c (va_disk v) (vault_path_to_fs_path b0 path) = Some t \<and>
         map_of (bd_materialized b) path = Some t
     | None \<Rightarrow> file_at (va_disk v) (vault_path_to_fs_path b0 path) = file_at d0 (vault_path_to_fs_path b0 path))"

definition write_stage ::
    "crypto \<Rightarrow> ('d, 'y, 'g) vault \<Rightarrow> 'g binding \<Rightarrow> fpath set \<Rightarrow> fpath set \<Rightarrow> fpath set \<Rightarrow> fpath set \<Rightarrow>
     (string \<times> string option) set \<Rightarrow> ('d, 'y, 'g) bound \<Rightarrow> bool" where
  "write_stage c v0 b0 P D X S L = (\<lambda>(v, b). mirror_inv v0 b0 P D X (v, b) \<and> dirs_there D (v, b) \<and>
     (\<forall>q \<in> S. file_at (va_disk v) q = None) \<and>
     (\<forall>(path, T) \<in> L. ready c b0 T path (v, b) \<and>
        (T = None \<longrightarrow> mirrored c b0 T path (va_disk v0) (v, b))))"

text \<open>One write, or none when the hash on the disk is the right one.\<close>

lemma mat_write_step:
  assumes "write_stage c v0 b0 P D X S L (v, b)" "(path, Some t) \<in> L" "content_hash c bytes = t"
    and "apart P D" "S \<inter> P = {}" "\<And>path T. (path, T) \<in> L \<Longrightarrow> vault_path_to_fs_path b0 path \<in> P"
    and "\<And>path' T. (path', T) \<in> L \<Longrightarrow> vault_path_to_fs_path b0 path' = vault_path_to_fs_path b0 path \<Longrightarrow>
      path' = path \<and> T = Some t"
    and "P \<subseteq> X" "agentsync_tmp ` P \<subseteq> X"
  shows "\<exists>v' b'. mat_write c clock (bd_materialized b0) (bd_last_ingested b0) path t bytes (v, b) = (Ok (), v', b') \<and>
    write_stage c v0 b0 P D X S L (v', b') \<and> mirrored c b0 (Some t) path (va_disk v0) (v', b') \<and>
    (\<forall>(path', T) \<in> L. mirrored c b0 T path' (va_disk v0) (v, b) \<longrightarrow> mirrored c b0 T path' (va_disk v0) (v', b')) \<and>
    bd_materialized_dirs b' = bd_materialized_dirs b"
proof -
  let ?f = "vault_path_to_fs_path b0" and ?p = "vault_path_to_fs_path b0 path"
  let ?d = "va_disk v"
  have inv: "\<exists>d. v = v0\<lparr>va_disk := d\<rparr>" "bd_root b = bd_root b0" "disk_ok P D X (va_disk v0) ?d"
    "\<forall>q \<in> D. d_nodes ?d q = Some DDir" "\<forall>q \<in> S. file_at ?d q = None"
    and L: "\<And>path T. (path, T) \<in> L \<Longrightarrow> ready c b0 T path (v, b)"
    "\<And>path. (path, None) \<in> L \<Longrightarrow> file_at ?d (?f path) = file_at (va_disk v0) (?f path)"
    using assms(1) by (auto simp: write_stage_def mirror_inv_def dirs_there_def mirrored_def)
  have fs: "vault_path_to_fs_path b path = ?p" by (rule same_fs_path [OF inv(2)])
  have p: "?p \<in> P" "?p \<in> X" "agentsync_tmp ?p \<in> X" using assms(2,6,8,9) by blast+
  obtain d1 where h: "disk_hash c ?p ?d = (Ok (hash_at c ?d ?p), d1)"
    and n1: "d_nodes d1 = d_nodes ?d" and q1: "quiet d1"
    using disk_hash_quiet [of ?d c ?p] inv(3) by (auto simp: disk_ok_def)
  have f1: "file_at d1 = file_at ?d" by (simp add: file_at_def n1 fun_eq_iff)
  have ok1: "disk_ok P D X (va_disk v0) d1" by (rule disk_ok_files [OF inv(3) f1 q1]) (simp_all add: n1)
  note run = mat_write_run [of c b path v, unfolded fs, OF h, of clock "bd_materialized b0" "bd_last_ingested b0" t bytes]
  have "\<exists>e b1. mat_write c clock (bd_materialized b0) (bd_last_ingested b0) path t bytes (v, b) =
      (Ok (), v\<lparr>va_disk := e\<rparr>, b1\<lparr>bd_materialized := AList.update path t (bd_materialized b)\<rparr>) \<and>
    bd_root b1 = bd_root b \<and> bd_materialized_dirs b1 = bd_materialized_dirs b \<and> disk_ok P D X (va_disk v0) e \<and>
    hash_at c e ?p = Some t \<and> (\<forall>q \<in> P. q \<noteq> ?p \<longrightarrow> file_at e q = file_at ?d q) \<and>
    (\<forall>q \<in> S. file_at e q = None) \<and> (\<forall>q \<in> D. d_nodes e q = Some DDir)"
  proof (cases "hash_at c ?d ?p = Some t")
    case True
    with run inv(4,5) n1 ok1 f1 show ?thesis
      by (intro exI [of _ d1] exI [of _ b]) (simp add: set_materialized_def with_binding_def)
  next
    case False
    have "\<not> (case hash_at c ?d ?p of
        Some d \<Rightarrow> \<not> is_safe_to_overwrite d (map_of (bd_materialized b0) path) (map_of (bd_last_ingested b0) path)
      | None \<Rightarrow> False)"
      using L(1) [OF assms(2)] False by (auto simp: ready_def split: option.split)
    note run = run [unfolded if_not_P [OF False] if_not_P [OF this]]
    obtain e where e: "adapter_write ?p bytes d1 = (Ok (), e)" "after_write ?p bytes d1 e"
      using write_run [of d1 ?p bytes] ok1 p(1) by (auto simp: disk_ok_def)
    note k = write_keeps [OF ok1 assms(4) p e(2)]
    have "\<forall>q \<in> S. file_at e q = None" using k(5) inv(5) f1 assms(5) p(1) by (metis disjoint_iff)
    with run e(1) k inv(4) n1 f1 assms(3) show ?thesis
      by (intro exI [of _ e] exI [of _ "snd (snd (mark_dirty clock path t (v\<lparr>va_disk := d1\<rparr>, b)))"])
        (auto simp: Let_def set_materialized_def with_binding_def mark_dirty_def)
  qed
  then obtain e b1 where e: "mat_write c clock (bd_materialized b0) (bd_last_ingested b0) path t bytes (v, b) =
      (Ok (), v\<lparr>va_disk := e\<rparr>, b1\<lparr>bd_materialized := AList.update path t (bd_materialized b)\<rparr>)"
    "bd_root b1 = bd_root b" "bd_materialized_dirs b1 = bd_materialized_dirs b" "disk_ok P D X (va_disk v0) e"
    "hash_at c e ?p = Some t" "\<forall>q \<in> P. q \<noteq> ?p \<longrightarrow> file_at e q = file_at ?d q"
    "\<forall>q \<in> S. file_at e q = None" "\<forall>q \<in> D. d_nodes e q = Some DDir" by blast
  let ?s = "(v\<lparr>va_disk := e\<rparr>, b1\<lparr>bd_materialized := AList.update path t (bd_materialized b)\<rparr>)"
  have here: "mirrored c b0 (Some t) path (va_disk v0) ?s"
    using e(5) by (simp add: mirrored_def update_conv')
  have there: "file_at e (?f path') = file_at ?d (?f path') \<and>
      map_of (AList.update path t (bd_materialized b)) path' = map_of (bd_materialized b) path'"
    if "(path', T) \<in> L" "path' \<noteq> path" for path' T
    using e(6) assms(6,7) [OF that(1)] that(2) by (auto simp: update_conv')
  have same: "path' = path \<Longrightarrow> (path', T) \<in> L \<Longrightarrow> T = Some t" for path' T using assms(7) by blast
  have keep: "mirrored c b0 T path' (va_disk v0) ?s"
    if "(path', T) \<in> L" "mirrored c b0 T path' (va_disk v0) (v, b)" for path' T
    using there [OF that(1)] that(2) here same [OF _ that(1)]
    by (cases "path' = path") (auto simp: mirrored_def split: option.splits)
  have "ready c b0 T path' ?s" if "(path', T) \<in> L" for path' T
    using there [OF that] L(1) [OF that] here same [OF _ that]
    by (cases "path' = path") (auto simp: ready_def mirrored_def)
  moreover have "mirrored c b0 None path' (va_disk v0) ?s" if "(path', None) \<in> L" for path'
    using keep [OF that] L(2) [OF that] by (simp add: mirrored_def)
  ultimately have "write_stage c v0 b0 P D X S L ?s"
    using inv(1,2) e(2,4,7,8) by (auto simp: write_stage_def mirror_inv_def dirs_there_def)
  with e(1,3) here keep show ?thesis by auto
qed

lemma tick_stage:
  assumes "write_stage c v0 b0 P D X S L (v, b)" "d_nodes e = d_nodes (va_disk v)" "quiet e"
  shows "write_stage c v0 b0 P D X S L (v\<lparr>va_disk := e\<rparr>, b)"
    "mirrored c b0 T path d0 (v\<lparr>va_disk := e\<rparr>, b) = mirrored c b0 T path d0 (v, b)"
proof -
  have f: "file_at e = file_at (va_disk v)" by (simp add: file_at_def assms(2) fun_eq_iff)
  have "disk_ok P D X (va_disk v0) e" if "disk_ok P D X (va_disk v0) (va_disk v)"
    by (rule disk_ok_files [OF that f assms(3)]) (simp_all add: assms(2))
  then show "write_stage c v0 b0 P D X S L (v\<lparr>va_disk := e\<rparr>, b)"
    using assms(1,2) f by (auto simp: write_stage_def mirror_inv_def dirs_there_def ready_def mirrored_def)
  show "mirrored c b0 T path d0 (v\<lparr>va_disk := e\<rparr>, b) = mirrored c b0 T path d0 (v, b)"
    by (simp add: mirrored_def f split: option.split)
qed

lemma blob_get_run:
  assumes "quiet d"
  shows "case file_at d (blob_path store h) of
      Some bs \<Rightarrow> blob_get store h d = (Ok bs, tick d)
    | None \<Rightarrow> \<exists>x. blob_get store h d = (Err x, tick d)"
proof -
  have "\<not> faulty d" using assms by (simp add: quiet_def)
  then show ?thesis
    by (cases "d_nodes d (blob_path store h)")
      (auto simp: blob_get_def map_err_def fs_read_def file_at_def split: file_node.split)
qed

context automerge_doc
begin

lemma mat_file_step:
  assumes "displays tree (va_doc v0) w" "v_files w fid = Some n" "entry_wf n" "store = va_storage_path v0"
    and "write_stage c v0 b0 P D X S L (v, b)" "(path, T) \<in> L" "T = target_hash c store (va_disk v0) n"
    and "\<And>h bs. str_of (branch_of n) ''binary_hash'' = Some h \<Longrightarrow> blob_path store h \<notin> X \<and>
      (file_at (va_disk v0) (blob_path store h) = Some bs \<longrightarrow> content_hash c bs = h)"
    and "apart P D" "S \<inter> P = {}" "\<And>path T. (path, T) \<in> L \<Longrightarrow> vault_path_to_fs_path b0 path \<in> P"
    and "\<And>path' T'. (path', T') \<in> L \<Longrightarrow> vault_path_to_fs_path b0 path' = vault_path_to_fs_path b0 path \<Longrightarrow>
      path' = path \<and> T' = T"
    and "P \<subseteq> X" "agentsync_tmp ` P \<subseteq> X"
  shows "\<exists>v' b'. mat_file am c clock (bd_materialized b0) (bd_last_ingested b0) (path, file_rec fid n) (v, b) =
      (Ok (), v', b') \<and>
    write_stage c v0 b0 P D X S L (v', b') \<and> mirrored c b0 T path (va_disk v0) (v', b') \<and>
    (\<forall>(path', T') \<in> L. mirrored c b0 T' path' (va_disk v0) (v, b) \<longrightarrow> mirrored c b0 T' path' (va_disk v0) (v', b')) \<and>
    bd_materialized_dirs b' = bd_materialized_dirs b"
proof -
  note writes = mat_write_step [OF _ _ _ assms(9-11) _ assms(13,14)]
  have skip: ?thesis if "mat_file am c clock (bd_materialized b0) (bd_last_ingested b0) (path, file_rec fid n) (v, b) =
      (Ok (), v', b)" "write_stage c v0 b0 P D X S L (v', b)"
    "\<And>T path. mirrored c b0 T path (va_disk v0) (v', b) = mirrored c b0 T path (va_disk v0) (v, b)"
    "T = None \<or> (\<exists>t. T = Some t \<and> map_of (bd_materialized b0) path = Some t)" for v'
  proof -
    have "mirrored c b0 T path (va_disk v0) (v, b)"
      using assms(5,6) that(4) by (auto simp: write_stage_def ready_def mirrored_def)
    with that show ?thesis by auto
  qed
  have kind: "fm_kind (file_rec fid n) = (if str_of (meta_of n) ''kind'' = Some ''attachment'' then KAttachment else KText)"
    "fm_binary_hash (file_rec fid n) = str_of (branch_of n) ''binary_hash''" "fm_id (file_rec fid n) = fid"
    by (simp_all add: file_rec_def Let_def)
  have st: "\<exists>d. v = v0\<lparr>va_disk := d\<rparr>" "disk_ok P D X (va_disk v0) (va_disk v)"
    using assms(5) by (auto simp: write_stage_def mirror_inv_def)
  show ?thesis
  proof (cases "str_of (meta_of n) ''kind'' = Some ''attachment''")
    case False
    let ?bs = "as_bytes (unwrap_or [] (text_of (branch_of n) ''content''))"
    have T: "T = Some (content_hash c ?bs)" using False assms(7) by (simp add: target_hash_def)
    have doc: "va_doc v = va_doc v0" using st(1) by auto
    have read: "with_vault (on_doc (read_file_id am fid)) (v, b) = (Ok (text_of (branch_of n) ''content''), v, b)"
      using read_file_id_run [OF assms(1-3)] by (simp add: with_vault_def on_doc_def doc)
    have run: "mat_file am c clock (bd_materialized b0) (bd_last_ingested b0) (path, file_rec fid n) (v, b) =
        (if map_of (bd_materialized b0) path = Some (content_hash c ?bs) then (Ok (), v, b)
         else mat_write c clock (bd_materialized b0) (bd_last_ingested b0) path (content_hash c ?bs) ?bs (v, b))"
      using False read by (simp add: mat_file_def kind andthen_run Let_def ret_run)
    show ?thesis
    proof (cases "map_of (bd_materialized b0) path = Some (content_hash c ?bs)")
      case True
      with run T assms(5) show ?thesis by (intro skip) simp_all
    next
      case differs: False
      have "(path, Some (content_hash c ?bs)) \<in> L" using assms(6) T by simp
      from writes [OF assms(5) this refl] assms(12) run T differs show ?thesis by simp
    qed
  next
    case att: True
    show ?thesis
    proof (cases "str_of (branch_of n) ''binary_hash''")
      case None
      with att assms(5,7) show ?thesis
        by (intro skip [of v]) (simp_all add: mat_file_def kind ret_run target_hash_def)
    next
      case (Some h)
      note blob = assms(8) [OF Some]
      have same: "file_at (va_disk v) (blob_path store h) = file_at (va_disk v0) (blob_path store h)"
        using st(2) blob by (auto simp: disk_ok_def)
      let ?e = "tick (va_disk v)"
      have q: "quiet (va_disk v)" using st(2) by (simp add: disk_ok_def)
      have path: "va_storage_path v = store" using st(1) assms(4) by auto
      note stage = tick_stage [OF assms(5) _ quiet_faulty(2) [OF q], simplified]
      show ?thesis
      proof (cases "file_at (va_disk v) (blob_path store h)")
        case missing: None
        obtain x where x: "blob_get store h (va_disk v) = (Err x, ?e)"
          using blob_get_run [OF q, of store h] missing by auto
        have "T = None" using att Some missing same assms(7) by (simp add: target_hash_def)
        with x att Some path stage show ?thesis
          by (intro skip [of "v\<lparr>va_disk := ?e\<rparr>"])
            (simp_all add: mat_file_def kind andthen_run with_vault_def on_disk_def attempt_run ret_run)
      next
        case there: (Some bs)
        have T: "T = Some h" using att Some there same assms(7) by (simp add: target_hash_def)
        have run: "mat_file am c clock (bd_materialized b0) (bd_last_ingested b0) (path, file_rec fid n) (v, b) =
            (if map_of (bd_materialized b0) path = Some h then (Ok (), v\<lparr>va_disk := ?e\<rparr>, b)
             else mat_write c clock (bd_materialized b0) (bd_last_ingested b0) path h bs (v\<lparr>va_disk := ?e\<rparr>, b))"
          using att Some blob_get_run [OF q, of store h] there path
          by (simp add: mat_file_def kind andthen_run with_vault_def on_disk_def attempt_run ret_run)
        show ?thesis
        proof (cases "map_of (bd_materialized b0) path = Some h")
          case True
          with run T stage show ?thesis by (intro skip [of "v\<lparr>va_disk := tick (va_disk v)\<rparr>"]) simp_all
        next
          case differs: False
          have "(path, Some h) \<in> L" "content_hash c bs = h" using assms(6) T blob there same by auto
          from writes [OF stage(1) this] assms(12) run T differs stage(2) show ?thesis by simp
        qed
      qed
    qed
  qed
qed

end

section \<open>Removing directories\<close>

lemma mat_remove_dir_step:
  assumes "mirror_inv v0 b0 P D X (v, b)" "dirs_there D (v, b)" "vault_path_to_fs_path b0 path \<notin> D"
  shows "\<exists>v' b'. mat_remove_dir path (v, b) = (Ok (), v', b') \<and> mirror_inv v0 b0 P D X (v', b') \<and>
    dirs_there D (v', b') \<and> file_at (va_disk v') = file_at (va_disk v) \<and> bd_materialized b' = bd_materialized b \<and>
    set (bd_materialized_dirs b') \<subseteq> set (bd_materialized_dirs b)"
proof -
  let ?p = "vault_path_to_fs_path b0 path"
  have inv: "\<exists>d. v = v0\<lparr>va_disk := d\<rparr>" "bd_root b = bd_root b0" "disk_ok P D X (va_disk v0) (va_disk v)"
    using assms(1) by (auto simp: mirror_inv_def)
  obtain r e where e: "fs_remove_dir ?p (va_disk v) = (r, e)" by fastforce
  note k = remove_dir_keeps [OF inv(3) e]
  have same: "q \<in> D \<Longrightarrow> d_nodes e q = d_nodes (va_disk v) q" for q by (rule k(2)) (use assms(3) in blast)
  let ?b = "b\<lparr>bd_materialized_dirs := removeAll path (bd_materialized_dirs b)\<rparr>"
  have "mat_remove_dir path (v, b) =
      (Ok (), v\<lparr>va_disk := e\<rparr>, if r = Inr () \<or> r = Inl io_not_found then ?b else b)"
    using e by (simp add: mat_remove_dir_def andthen_run the_binding_def with_vault_def on_disk_def attempt_run
        with_binding_def same_fs_path [OF inv(2)] ret_run)
  moreover have "dirs_there D (v\<lparr>va_disk := e\<rparr>, b')" for b' :: "'c binding"
    using assms(2) same by (simp add: dirs_there_def)
  moreover have "mirror_inv v0 b0 P D X (v\<lparr>va_disk := e\<rparr>, if r = Inr () \<or> r = Inl io_not_found then ?b else b)"
    using inv k(1) by (auto simp: mirror_inv_def)
  ultimately show ?thesis using k(3) by auto
qed

section \<open>The document as a set of paths\<close>

text \<open>
  No live path is a file and a directory, and none has the name of a temporary file.
\<close>

definition tidy :: "view \<Rightarrow> bool" where
  "tidy w \<longleftrightarrow> (\<forall>p. has_file w p \<longrightarrow> \<not> has_dir w p) \<and>
     (\<forall>p. has_file w p \<or> has_dir w p \<longrightarrow> (\<forall>seg \<in> set (split_on (CHR ''/'') p). \<not> suffix ''.agentsync-tmp'' seg))"

lemma update_new: "k \<notin> fst ` set al \<Longrightarrow> AList.update k v al = al @ [(k, v)]"
  by (induction al) auto

lemma live_map_list:
  assumes "distinct (map fm_path fs)"
  shows "live_map fs = map (\<lambda>m. (fm_path m, m)) fs"
  using assms
proof (induction fs rule: rev_induct)
  case (snoc m fs)
  have "fm_path m \<notin> fst ` set (map (\<lambda>m. (fm_path m, m)) fs)" using snoc.prems by auto
  then have "AList.update (fm_path m) m (map (\<lambda>m. (fm_path m, m)) fs) = map (\<lambda>m. (fm_path m, m)) fs @ [(fm_path m, m)]"
    by (rule update_new)
  with snoc show ?case by (simp add: live_map_def)
qed (simp add: live_map_def)

lemma segments_ancestor:
  assumes "good_path p" "good_path q" "prefix (split_on (CHR ''/'') p) (split_on (CHR ''/'') q)" "p \<noteq> q"
  shows "p \<in> set (ancestors q)"
proof -
  let ?ps = "split_on (CHR ''/'') p" and ?qs = "split_on (CHR ''/'') q"
  have j: "join ''/'' ?ps = p" "join ''/'' ?qs = q" by (simp_all add: join_split_on)
  have g: "list_all good_segment ?qs" "?qs \<noteq> []" "?ps \<noteq> []" using assms(2) by (simp_all add: good_path_def)
  have len: "length ?ps < length ?qs"
    using assms(3,4) j by (metis prefix_length_le le_neq_implies_less prefix_def append_eq_conv_conj append_self_conv length_drop
        cancel_comm_monoid_add_class.diff_cancel length_0_conv)
  have "p = join ''/'' (take (length ?ps) ?qs)" using assms(3) j(1) by (metis append_eq_conv_conj prefix_def)
  moreover have "length ?ps \<in> set [1..<length ?qs]" using len g(3) by (simp add: Suc_leI)
  ultimately show ?thesis using ancestors_segments [OF g(2,1)] j(2) by auto
qed

definition file_targets :: "'g binding \<Rightarrow> view \<Rightarrow> fpath set" where
  "file_targets b w = vault_path_to_fs_path b ` {p. has_file w p}"

definition dir_targets :: "'g binding \<Rightarrow> view \<Rightarrow> fpath set" where
  "dir_targets b w = vault_path_to_fs_path b ` {p. has_dir w p}"

lemma live_good: "all_placed w \<Longrightarrow> has_file w p \<or> has_dir w p \<Longrightarrow> good_path p"
  unfolding all_placed_def placed_def by blast

lemma targets_apart:
  assumes "all_placed w" "tidy w"
  shows "apart (file_targets b w) (dir_targets b w)"
proof -
  let ?f = "vault_path_to_fs_path b"
  have below: "?f p = bd_root b @ split_on (CHR ''/'') p" if "has_file w p \<or> has_dir w p" for p
    using vault_path_below live_good [OF assms(1) that] by blast
  have no_prefix: "\<not> prefix (?f p) (?f q)" if "has_file w p" "has_file w q \<or> has_dir w q" "p \<noteq> q" for p q
  proof
    assume "prefix (?f p) (?f q)"
    then have "prefix (split_on (CHR ''/'') p) (split_on (CHR ''/'') q)" using below that by simp
    from segments_ancestor [OF _ _ this that(3)] live_good [OF assms(1)] that(1,2)
    have "p \<in> set (ancestors q)" by blast
    with assms(1) that(2) have "has_dir w p" by (auto simp: all_placed_def placed_def)
    with assms(2) that(1) show False by (simp add: tidy_def)
  qed
  have no_tmp: "\<not> prefix (agentsync_tmp (?f p)) (?f q)" if "has_file w p" "has_file w q \<or> has_dir w q" for p q
  proof
    assume pre: "prefix (agentsync_tmp (?f p)) (?f q)"
    have ne: "split_on (CHR ''/'') p \<noteq> []" by simp
    let ?seg = "''.'' @ last (split_on (CHR ''/'') p) @ ''.agentsync-tmp''"
    have "agentsync_tmp (?f p) = bd_root b @ butlast (split_on (CHR ''/'') p) @ [?seg]"
      using below [of p] that(1) ne by (simp add: agentsync_tmp_def butlast_append)
    with pre below [OF that(2)] have "prefix (butlast (split_on (CHR ''/'') p) @ [?seg]) (split_on (CHR ''/'') q)" by simp
    then have "?seg \<in> set (split_on (CHR ''/'') q)" using set_mono_prefix by fastforce
    moreover have "suffix ''.agentsync-tmp'' ?seg" by (simp add: suffix_def)
    ultimately show False using assms(2) that(2) unfolding tidy_def by blast
  qed
  have apart: "?f p \<noteq> ?f q" if "has_file w p" "has_dir w q" for p q
  proof
    assume eq: "?f p = ?f q"
    have "p = q" using vault_path_inj [OF live_good [OF assms(1)] live_good [OF assms(1)] eq] that by blast
    with that assms(2) show False by (simp add: tidy_def)
  qed
  show ?thesis
    unfolding apart_def file_targets_def dir_targets_def
  proof (intro ballI conjI impI)
    fix x y assume x: "x \<in> ?f ` {p. has_file w p}" and y: "y \<in> ?f ` {p. has_file w p}"
    show "x = y" if "prefix x y" using x y that no_prefix by blast
    show "\<not> prefix (agentsync_tmp x) y" using x y no_tmp by blast
  next
    fix x y assume x: "x \<in> ?f ` {p. has_file w p}" and y: "y \<in> ?f ` {p. has_dir w p}"
    show "\<not> prefix x y"
    proof
      assume pre: "prefix x y"
      obtain p q where pq: "x = ?f p" "has_file w p" "y = ?f q" "has_dir w q" using x y by blast
      with apart [of p q] no_prefix [of p q] pre show False by blast
    qed
    show "\<not> prefix (agentsync_tmp x) y" using x y no_tmp by blast
  qed
qed

section \<open>The whole pass\<close>

text \<open>What the pass may touch: the live files, their temporary siblings and the recorded files.\<close>

definition may_touch :: "'g binding \<Rightarrow> view \<Rightarrow> fpath set" where
  "may_touch b w = file_targets b w \<union> agentsync_tmp ` file_targets b w \<union>
     vault_path_to_fs_path b ` fst ` set (bd_materialized b)"

definition stale_files :: "'g binding \<Rightarrow> view \<Rightarrow> fpath set" where
  "stale_files b w = vault_path_to_fs_path b ` {p \<in> fst ` set (bd_materialized b). \<not> has_file w p}"

definition targets :: "crypto \<Rightarrow> fpath \<Rightarrow> disk \<Rightarrow> view \<Rightarrow> (string \<times> string option) set" where
  "targets c store d w = {(p, target_hash c store d n) |fid n p. v_files w fid = Some n \<and> live_path n = Some p}"

text \<open>The hypotheses on the disk: no obstacles, and no edits that are not taken in yet.\<close>

definition way_clear :: "'g binding \<Rightarrow> view \<Rightarrow> disk \<Rightarrow> bool" where
  "way_clear b w d \<longleftrightarrow> (\<forall>p. has_file w p \<longrightarrow> open_way d (vault_path_to_fs_path b p)) \<and>
     (\<forall>p. has_dir w p \<longrightarrow> dir_way d (vault_path_to_fs_path b p))"

definition records_ok :: "'g binding \<Rightarrow> view \<Rightarrow> disk \<Rightarrow> bool" where
  "records_ok b w d \<longleftrightarrow> (\<forall>p \<in> fst ` set (bd_materialized b) \<union> set (bd_materialized_dirs b). good_path p) \<and>
     (\<forall>p \<in> set (bd_materialized_dirs b). has_dir w p \<longrightarrow> d_nodes d (vault_path_to_fs_path b p) = Some DDir)"

definition known_hash :: "'g binding \<Rightarrow> string \<Rightarrow> string \<Rightarrow> bool" where
  "known_hash b p h \<longleftrightarrow> is_safe_to_overwrite h (map_of (bd_materialized b) p) (map_of (bd_last_ingested b) p)"

definition no_local_edits :: "crypto \<Rightarrow> fpath \<Rightarrow> 'g binding \<Rightarrow> view \<Rightarrow> disk \<Rightarrow> bool" where
  "no_local_edits c store b w d \<longleftrightarrow>
     (\<forall>(p, T) \<in> targets c store d w. \<forall>t. T = Some t \<longrightarrow>
        (map_of (bd_materialized b) p = Some t \<longrightarrow> hash_at c d (vault_path_to_fs_path b p) = Some t) \<and>
        (\<forall>h. hash_at c d (vault_path_to_fs_path b p) = Some h \<longrightarrow> h = t \<or> known_hash b p h)) \<and>
     (\<forall>p \<in> fst ` set (bd_materialized b). \<not> has_file w p \<longrightarrow>
        (\<forall>h. hash_at c d (vault_path_to_fs_path b p) = Some h \<longrightarrow> known_hash b p h))"

definition attachments_ok :: "crypto \<Rightarrow> fpath \<Rightarrow> 'g binding \<Rightarrow> view \<Rightarrow> disk \<Rightarrow> bool" where
  "attachments_ok c store b w d \<longleftrightarrow> (\<forall>fid n h. v_files w fid = Some n \<and> live_path n \<noteq> None \<and>
     str_of (branch_of n) ''binary_hash'' = Some h \<longrightarrow> blob_path store h \<notin> may_touch b w \<and>
       (\<forall>bs. file_at d (blob_path store h) = Some bs \<longrightarrow> content_hash c bs = h))"

lemma target_live: "(p, T) \<in> targets c store d w \<Longrightarrow> has_file w p"
  by (auto simp: targets_def has_file_def live_files_def)

lemma target_unique:
  assumes "vault_ok w" "(p, T) \<in> targets c store d w" "(q, U) \<in> targets c store d w"
    and "vault_path_to_fs_path b p = vault_path_to_fs_path b q"
  shows "p = q \<and> T = U"
proof -
  have "p = q"
    using vault_path_inj [OF live_good [where w = w] live_good [where w = w] assms(4)] target_live [OF assms(2)] target_live [OF assms(3)] assms(1)
    by (simp add: vault_ok_def)
  moreover obtain i n where i: "v_files w i = Some n" "live_path n = Some p" "T = target_hash c store d n"
    using assms(2) by (auto simp: targets_def)
  moreover obtain j m where j: "v_files w j = Some m" "live_path m = Some q" "U = target_hash c store d m"
    using assms(3) by (auto simp: targets_def)
  ultimately have "i = j" using assms(1) by (fastforce simp: vault_ok_def unique_paths_def live_files_def)
  with i j \<open>p = q\<close> show ?thesis by simp
qed

lemma stale_apart:
  assumes "all_placed w" "records_ok b w d"
  shows "stale_files b w \<inter> file_targets b w = {}"
proof (rule equals0I)
  fix x assume "x \<in> stale_files b w \<inter> file_targets b w"
  then obtain p q where pq: "p \<in> fst ` set (bd_materialized b)" "\<not> has_file w p" "has_file w q"
    "vault_path_to_fs_path b p = vault_path_to_fs_path b q" by (auto simp: stale_files_def file_targets_def)
  have "good_path p" using assms(2) pq(1) by (simp add: records_ok_def)
  from vault_path_inj [OF this live_good [OF assms(1)] pq(4)] pq(2,3) show False by blast
qed

lemma start_ok:
  assumes "quiet d" "way_clear b w d"
  shows "disk_ok (file_targets b w) (dir_targets b w) X d d"
  using assms by (auto simp: disk_ok_def way_clear_def file_targets_def dir_targets_def)

text \<open>The four loops.\<close>

lemma dirs_loop:
  assumes "quiet (va_disk v)" "way_clear b w (va_disk v)" "records_ok b w (va_disk v)" "all_placed w" "tidy w"
    and "set ps = {p. has_dir w p}"
  obtains v1 b1 where "foreach (depth_order (filter (\<lambda>p. p \<notin> set (bd_materialized_dirs b)) ps)) mat_directory (v, b) =
      (Ok (), v1, b1)"
    "dirs_stage v b (file_targets b w) (dir_targets b w) X (Collect good_path) (v1, b1)" "dirs_there (dir_targets b w) (v1, b1)"
proof -
  let ?P = "file_targets b w" and ?D = "dir_targets b w" and ?B = "Collect good_path"
  let ?Q = "\<lambda>p (s :: ('a, 'b, 'c) bound). d_nodes (va_disk (fst s)) (vault_path_to_fs_path b p) = Some DDir"
  let ?xs = "depth_order (filter (\<lambda>p. p \<notin> set (bd_materialized_dirs b)) ps)"
  have "\<exists>t. foreach ?xs mat_directory (v, b) = (Ok (), t) \<and> dirs_stage v b ?P ?D X ?B t \<and>
      (\<forall>p \<in> set ?xs. ?Q p t) \<and> (\<forall>p \<in> set ps. ?Q p (v, b) \<longrightarrow> ?Q p t)"
  proof (rule foreach_establish)
    show "dirs_stage v b ?P ?D X ?B (v, b)"
      using start_ok [OF assms(1,2)] assms(3)
      by (auto simp: dirs_stage_def mirror_inv_def same_maps_def records_ok_def intro: exI [of _ "va_disk v"])
    show "set ?xs \<subseteq> set ps" by (auto simp: depth_order_def)
    fix p and s :: "('a, 'b, 'c) bound"
    assume p: "p \<in> set ?xs" and s: "dirs_stage v b ?P ?D X ?B s"
    obtain v2 b2 where [simp]: "s = (v2, b2)" by (cases s)
    have dir: "has_dir w p" using p assms(6) by (auto simp: depth_order_def)
    then have good: "good_path p" using live_good [OF assms(4)] by blast
    have "vault_path_to_fs_path b p \<in> ?D" using dir by (simp add: dir_targets_def)
    moreover have "vault_path_to_fs_path b p \<noteq> []" using vault_path_below [OF good, of b] by simp
    ultimately show "\<exists>t. mat_directory p s = (Ok (), t) \<and> dirs_stage v b ?P ?D X ?B t \<and> ?Q p t \<and>
        (\<forall>y \<in> set ps. ?Q y s \<longrightarrow> ?Q y t)"
      using mat_directory_step [of v b ?P ?D X ?B v2 b2 p] s targets_apart [OF assms(4,5)] good by fastforce
  qed
  then obtain v1 b1 where 1: "foreach ?xs mat_directory (v, b) = (Ok (), v1, b1)" "dirs_stage v b ?P ?D X ?B (v1, b1)"
    "\<forall>p \<in> set ?xs. ?Q p (v1, b1)" "\<forall>p \<in> set ps. ?Q p (v, b) \<longrightarrow> ?Q p (v1, b1)" by auto
  have "?Q p (v1, b1)" if "has_dir w p" for p
  proof (cases "p \<in> set (bd_materialized_dirs b)")
    case True
    with assms(3,6) that 1(4) show ?thesis by (simp add: records_ok_def)
  next
    case False
    with 1(3) assms(6) that show ?thesis by (simp add: depth_order_def)
  qed
  then have "dirs_there ?D (v1, b1)" by (auto simp: dirs_there_def dir_targets_def)
  with 1(1,2) show thesis by (rule that)
qed

lemma deletes_loop:
  assumes "dirs_stage v b P D X B (v1, b1)" "dirs_there D (v1, b1)" "set ps \<subseteq> fst ` set (bd_materialized b)"
    and "live = {p. has_file w p}" "P = file_targets b w" "X = may_touch b w" "no_local_edits c store b w (va_disk v)"
  obtains v2 b2 where "foreach ps (mat_delete c clock (bd_materialized b) (bd_last_ingested b) live) (v1, b1) = (Ok (), v2, b2)"
    "delete_stage v b P D X (stale_files b w) (v2, b2)" "set (bd_materialized_dirs b2) \<subseteq> B"
    "\<forall>p \<in> set ps. \<not> has_file w p \<longrightarrow> file_at (va_disk v2) (vault_path_to_fs_path b p) = None"
proof -
  let ?S = "stale_files b w"
  let ?I = "\<lambda>s :: ('a, 'b, 'c) bound. delete_stage v b P D X ?S s \<and> set (bd_materialized_dirs (snd s)) \<subseteq> B"
  let ?Q = "\<lambda>p (s :: ('a, 'b, 'c) bound). \<not> has_file w p \<longrightarrow> file_at (va_disk (fst s)) (vault_path_to_fs_path b p) = None"
  have "\<exists>t. foreach ps (mat_delete c clock (bd_materialized b) (bd_last_ingested b) live) (v1, b1) = (Ok (), t) \<and>
      ?I t \<and> (\<forall>p \<in> set ps. ?Q p t) \<and> (\<forall>p \<in> set ps. ?Q p (v1, b1) \<longrightarrow> ?Q p t)"
  proof (rule foreach_establish)
    show "?I (v1, b1)" using assms(1,2) by (auto simp: dirs_stage_def delete_stage_def)
    fix p and s :: "('a, 'b, 'c) bound"
    assume p: "p \<in> set ps" and s: "?I s"
    obtain v3 b3 where [simp]: "s = (v3, b3)" by (cases s)
    show "\<exists>t. mat_delete c clock (bd_materialized b) (bd_last_ingested b) live p s = (Ok (), t) \<and> ?I t \<and> ?Q p t \<and>
        (\<forall>y \<in> set ps. ?Q y s \<longrightarrow> ?Q y t)"
    proof (cases "has_file w p")
      case True
      with s show ?thesis by (simp add: mat_delete_def ret_run assms(4))
    next
      case False
      with p assms(3) have x: "vault_path_to_fs_path b p \<in> ?S \<inter> X"
        by (auto simp: stale_files_def assms(6) may_touch_def)
      have "p \<in> fst ` set (bd_materialized b)" using p assms(3) by blast
      note edits = bspec [OF conjunct2 [OF assms(7) [unfolded no_local_edits_def]] this]
      have safe: "is_safe_to_overwrite h (map_of (bd_materialized b) p) (map_of (bd_last_ingested b) p)"
        if "hash_at c (va_disk v) (vault_path_to_fs_path b p) = Some h" for h
        using edits False that by (simp add: known_hash_def)
      have "delete_stage v b P D X ?S (v3, b3)" "p \<notin> live" using s False by (simp_all add: assms(4))
      note step = mat_delete_step [OF this x safe, where clock = clock]
      obtain v4 b4 where "mat_delete c clock (bd_materialized b) (bd_last_ingested b) live p (v3, b3) =
          (Ok (), v4, b4)" "delete_stage v b P D X ?S (v4, b4)"
        "file_at (va_disk v4) (vault_path_to_fs_path b p) = None"
        "\<forall>q. file_at (va_disk v3) q = None \<longrightarrow> file_at (va_disk v4) q = None"
        "bd_materialized_dirs b4 = bd_materialized_dirs b3"
        using step by blast
      with s show ?thesis by (intro exI [of _ "(v4, b4)"]) simp
    qed
  qed simp
  then obtain t where "foreach ps (mat_delete c clock (bd_materialized b) (bd_last_ingested b) live) (v1, b1) = (Ok (), t)"
    "?I t" "\<forall>p \<in> set ps. ?Q p t" by blast
  then show thesis by (intro that [of "fst t" "snd t"]) simp_all
qed

lemma edits_ready:
  assumes "delete_stage v b P D X (stale_files b w) (v2, b2)" "P = file_targets b w" "vault_ok w"
    and "records_ok b w (va_disk v)" "no_local_edits c store b w (va_disk v)"
    and "\<forall>q \<in> stale_files b w. file_at (va_disk v2) q = None"
  shows "write_stage c v b P D X (stale_files b w) (targets c store (va_disk v) w) (v2, b2)"
proof -
  have same: "file_at (va_disk v2) (vault_path_to_fs_path b p) = file_at (va_disk v) (vault_path_to_fs_path b p)"
    if "(p, T) \<in> targets c store (va_disk v) w" for p T
  proof -
    have "vault_path_to_fs_path b p \<in> file_targets b w" using target_live [OF that] by (simp add: file_targets_def)
    with stale_apart [OF _ assms(4)] assms(3) have "vault_path_to_fs_path b p \<notin> stale_files b w"
      unfolding vault_ok_def by blast
    with assms(1) show ?thesis unfolding delete_stage_def by blast
  qed
  have maps: "bd_materialized b2 = bd_materialized b" using assms(1) by (simp add: delete_stage_def same_maps_def)
  have "ready c b T p (v2, b2)" if "(p, T) \<in> targets c store (va_disk v) w" for p T
    using bspec [OF conjunct1 [OF assms(5) [unfolded no_local_edits_def]] that] same [OF that]
    by (simp add: ready_def known_hash_def maps)
  moreover have "mirrored c b None p (va_disk v) (v2, b2)" if "(p, None) \<in> targets c store (va_disk v) w" for p
    using same [OF that] by (simp add: mirrored_def)
  ultimately show ?thesis using assms(1,6) by (auto simp: write_stage_def delete_stage_def)
qed

lemma removes_loop:
  assumes "mirror_inv v b P D X (v1, b1)" "dirs_there D (v1, b1)" "\<forall>p \<in> set ps. vault_path_to_fs_path b p \<notin> D"
  shows "\<exists>v2 b2. foreach ps mat_remove_dir (v1, b1) = (Ok (), v2, b2) \<and> mirror_inv v b P D X (v2, b2) \<and>
    dirs_there D (v2, b2) \<and> file_at (va_disk v2) = file_at (va_disk v1) \<and> bd_materialized b2 = bd_materialized b1 \<and>
    set (bd_materialized_dirs b2) \<subseteq> set (bd_materialized_dirs b1)"
proof -
  let ?I = "\<lambda>s :: ('a, 'b, 'c) bound. mirror_inv v b P D X s \<and> dirs_there D s \<and>
    file_at (va_disk (fst s)) = file_at (va_disk v1) \<and> bd_materialized (snd s) = bd_materialized b1 \<and>
    set (bd_materialized_dirs (snd s)) \<subseteq> set (bd_materialized_dirs b1)"
  have "\<exists>t. foreach ps mat_remove_dir (v1, b1) = (Ok (), t) \<and> ?I t"
  proof (rule foreach_invariant)
    fix p and s :: "('a, 'b, 'c) bound"
    assume "p \<in> set ps" "?I s"
    moreover obtain v3 b3 where "s = (v3, b3)" by (cases s)
    ultimately show "\<exists>t. mat_remove_dir p s = (Inr (), t) \<and> ?I t"
      using mat_remove_dir_step [of v b P D X v3 b3 p] assms(3) by fastforce
  qed (use assms in simp)
  then show ?thesis by fastforce
qed

lemma map_of_filter_keys: "p \<in> A \<Longrightarrow> map_of (filter (\<lambda>(p, _). p \<in> A) al) p = map_of al p"
  by (induction al) auto

context automerge_doc
begin

lemma live_listing:
  assumes "displays tree s w" "vault_ok w"
  obtains fs ds where "list_files am s = (Ok fs, s)" "list_directories am s = (Ok ds, s)"
    "live_map fs = map (\<lambda>m. (fm_path m, m)) fs" "fm_path ` set fs = {p. has_file w p}"
    "set fs = {file_rec fid n |fid n. v_files w fid = Some n \<and> live_path n \<noteq> None}"
    "dm_path ` set ds = {p. has_dir w p}"
proof -
  obtain fs where fs: "list_files am s = (Ok fs, s)" "sorted (map fm_path fs)" "distinct (map fm_id fs)"
    "set fs = {file_rec fid n |fid n. v_files w fid = Some n \<and> live_path n \<noteq> None}"
    by (rule list_files_run [OF assms(1) vault_ok_entries [OF assms(2)]])
  obtain ds where ds: "list_directories am s = (Ok ds, s)" "sorted (map dm_path ds)" "distinct (map dm_id ds)"
    "set ds = {dir_rec did n |did n. v_dirs w did = Some n \<and> dir_live_path n \<noteq> None}"
    by (rule list_directories_run [OF assms(1) vault_ok_dirs [OF assms(2)]])
  have path: "fm_path (file_rec fid n) = p" if "live_path n = Some p" for fid n p
    using that by (auto simp: file_rec_def Let_def live_path_def live_path_in_def split: if_splits)
  have dpath: "dm_path (dir_rec did n) = p" if "dir_live_path n = Some p" for did n p
    using that by (auto simp: dir_rec_def dir_live_path_def live_path_in_def split: if_splits)
  have "inj_on fm_path (set fs)"
  proof (rule inj_onI)
    fix x y assume xy: "x \<in> set fs" "y \<in> set fs" "fm_path x = fm_path y"
    then obtain i n p where i: "x = file_rec i n" "v_files w i = Some n" "live_path n = Some p" using fs(4) by auto
    obtain j m q where j: "y = file_rec j m" "v_files w j = Some m" "live_path m = Some q" using xy(2) fs(4) by auto
    have "p = q" using xy(3) i j path by simp
    with i j assms(2) have "i = j" by (fastforce simp: vault_ok_def unique_paths_def live_files_def)
    with i j show "x = y" by simp
  qed
  with fs(3) have "distinct (map fm_path fs)" by (simp add: distinct_map)
  note live = live_map_list [OF this]
  have "fm_path ` set fs = {p. has_file w p}"
    unfolding fs(4) by (force simp: has_file_def live_files_def path)
  moreover have "dm_path ` set ds = {p. has_dir w p}"
    unfolding ds(4) by (force simp: has_dir_def live_dirs_def dpath)
  ultimately show thesis by (rule that [OF fs(1) ds(1) live _ fs(4)])
qed

lemma writes_loop:
  assumes "displays tree (va_doc v) w" "vault_ok w" "tidy w" "store = va_storage_path v"
    and "write_stage c v b P D X (stale_files b w) L (v1, b1)" "set (bd_materialized_dirs b1) \<subseteq> B"
    and "L = targets c store (va_disk v) w" "P = file_targets b w" "D = dir_targets b w" "X = may_touch b w"
    and "records_ok b w (va_disk v)" "attachments_ok c store b w (va_disk v)"
    and "set xs = {(p, file_rec fid n) |p fid n. v_files w fid = Some n \<and> live_path n = Some p}"
  obtains v2 b2 where "foreach xs (mat_file am c clock (bd_materialized b) (bd_last_ingested b)) (v1, b1) = (Ok (), v2, b2)"
    "write_stage c v b P D X (stale_files b w) L (v2, b2)" "set (bd_materialized_dirs b2) \<subseteq> B"
    "\<forall>(p, T) \<in> L. mirrored c b T p (va_disk v) (v2, b2)"
proof -
  let ?S = "stale_files b w"
  let ?I = "\<lambda>s :: ('d, 'y, 'a) bound. write_stage c v b P D X ?S L s \<and> set (bd_materialized_dirs (snd s)) \<subseteq> B"
  let ?Q = "\<lambda>(p, m :: file_meta) (s :: ('d, 'y, 'a) bound). \<forall>T. (p, T) \<in> L \<longrightarrow> mirrored c b T p (va_disk v) s"
  have placed: "all_placed w" using assms(2) by (simp add: vault_ok_def)
  have inP: "vault_path_to_fs_path b p \<in> P" if "(p, T) \<in> L" for p T
    using target_live that by (auto simp: assms(7,8) file_targets_def)
  have "\<exists>t. foreach xs (mat_file am c clock (bd_materialized b) (bd_last_ingested b)) (v1, b1) = (Ok (), t) \<and>
      ?I t \<and> (\<forall>x \<in> set xs. ?Q x t) \<and> (\<forall>x \<in> set xs. ?Q x (v1, b1) \<longrightarrow> ?Q x t)"
  proof (rule foreach_establish)
    show "?I (v1, b1)" using assms(5,6) by simp
    fix x and s :: "('d, 'y, 'a) bound"
    assume x: "x \<in> set xs" and s: "?I s"
    obtain v3 b3 where s3: "s = (v3, b3)" by (cases s)
    obtain p fid n where p: "x = (p, file_rec fid n)" "v_files w fid = Some n" "live_path n = Some p"
      using x assms(13) by auto
    let ?T = "target_hash c store (va_disk v) n"
    have T: "(p, ?T) \<in> L" using p(2,3) by (auto simp: assms(7) targets_def)
    have wf: "entry_wf n" using assms(2) p(2) by (simp add: vault_ok_def schema_ok_def)
    have blob: "blob_path store h \<notin> X \<and>
        (file_at (va_disk v) (blob_path store h) = Some bs \<longrightarrow> content_hash c bs = h)"
      if "str_of (branch_of n) ''binary_hash'' = Some h" for h bs
      using assms(12) p(2,3) that unfolding attachments_ok_def assms(10) by auto
    have uniq: "p' = p \<and> T' = ?T" if "(p', T') \<in> L" "vault_path_to_fs_path b p' = vault_path_to_fs_path b p" for p' T'
      using target_unique [OF assms(2), of p' T' c store "va_disk v" p ?T b] that T unfolding assms(7) by blast
    have stage: "write_stage c v b P D X ?S L (v3, b3)" using s s3 by simp
    have sets: "apart P D" "?S \<inter> P = {}" "P \<subseteq> X" "agentsync_tmp ` P \<subseteq> X"
      using targets_apart [OF placed assms(3)] stale_apart [OF placed assms(11)] by (auto simp: assms(8-10) may_touch_def)
    have "\<exists>v4 b4. mat_file am c clock (bd_materialized b) (bd_last_ingested b) (p, file_rec fid n) (v3, b3) =
        (Ok (), v4, b4) \<and> write_stage c v b P D X ?S L (v4, b4) \<and> mirrored c b ?T p (va_disk v) (v4, b4) \<and>
      (\<forall>(p', T') \<in> L. mirrored c b T' p' (va_disk v) (v3, b3) \<longrightarrow> mirrored c b T' p' (va_disk v) (v4, b4)) \<and>
      bd_materialized_dirs b4 = bd_materialized_dirs b3"
      by (rule mat_file_step [OF assms(1) p(2) wf assms(4) stage T refl]) (use blob sets inP uniq in blast)+
    then obtain v4 b4 where 4: "mat_file am c clock (bd_materialized b) (bd_last_ingested b) (p, file_rec fid n) (v3, b3) =
        (Ok (), v4, b4)" "write_stage c v b P D X ?S L (v4, b4)" "mirrored c b ?T p (va_disk v) (v4, b4)"
      "\<forall>(p', T') \<in> L. mirrored c b T' p' (va_disk v) (v3, b3) \<longrightarrow> mirrored c b T' p' (va_disk v) (v4, b4)"
      "bd_materialized_dirs b4 = bd_materialized_dirs b3"
      by blast
    have "?Q x (v4, b4)" using 4(3) uniq p(1) by auto
    moreover have "\<forall>y \<in> set xs. ?Q y s \<longrightarrow> ?Q y (v4, b4)" using 4(4) s3 by auto
    ultimately show "\<exists>t. mat_file am c clock (bd_materialized b) (bd_last_ingested b) x s = (Ok (), t) \<and> ?I t \<and> ?Q x t \<and>
        (\<forall>y \<in> set xs. ?Q y s \<longrightarrow> ?Q y t)"
      using 4(1,2,5) p(1) s s3 by (intro exI [of _ "(v4, b4)"]) simp
  qed simp
  then obtain t where t: "foreach xs (mat_file am c clock (bd_materialized b) (bd_last_ingested b)) (v1, b1) = (Ok (), t)"
    "?I t" "\<forall>x \<in> set xs. ?Q x t" by blast
  have "mirrored c b T p (va_disk v) t" if pT: "(p, T) \<in> L" for p T
  proof -
    obtain fid n where "v_files w fid = Some n" "live_path n = Some p" using pT by (auto simp: assms(7) targets_def)
    then have "(p, file_rec fid n) \<in> set xs" using assms(13) by auto
    with t(3) pT show ?thesis by blast
  qed
  with t(1,2) show thesis by (intro that [of "fst t" "snd t"]) auto
qed

lemma materialize_run:
  assumes "sound tree (va_doc v) w" "permutes order" "permutes meta_order" "quiet (va_disk v)" "tidy w"
    and "way_clear b w (va_disk v)" "records_ok b w (va_disk v)"
    and "no_local_edits c (va_storage_path v) b w (va_disk v)" "attachments_ok c (va_storage_path v) b w (va_disk v)"
  obtains d' b' where "materialize am c clock order meta_order (v, b) = (Ok (), v\<lparr>va_disk := d'\<rparr>, b')"
    "\<forall>p. has_dir w p \<longrightarrow> d_nodes d' (vault_path_to_fs_path b p) = Some DDir"
    "\<forall>(p, T) \<in> targets c (va_storage_path v) (va_disk v) w. mirrored c b T p (va_disk v) (v\<lparr>va_disk := d'\<rparr>, b')"
    "\<forall>q \<in> stale_files b w. file_at d' q = None"
    "fst ` set (bd_materialized b') \<subseteq> {p. has_file w p}"
    "\<forall>q. q \<notin> may_touch b w \<longrightarrow> file_at d' q = file_at (va_disk v) q"
    "quiet d'" "way_clear b w d'" "bd_root b' = bd_root b" "set (bd_materialized_dirs b') \<subseteq> Collect good_path"
proof -
  let ?store = "va_storage_path v" and ?d0 = "va_disk v"
  let ?P = "file_targets b w" and ?D = "dir_targets b w" and ?X = "may_touch b w" and ?S = "stale_files b w"
  let ?L = "targets c ?store ?d0 w" and ?B = "Collect good_path"
  note disp = soundD(1) [OF assms(1)] and ok = soundD(2) [OF assms(1)]
  then have placed: "all_placed w" by (simp add: vault_ok_def)
  obtain fs ds where l: "list_files am (va_doc v) = (Ok fs, va_doc v)" "list_directories am (va_doc v) = (Ok ds, va_doc v)"
    "live_map fs = map (\<lambda>m. (fm_path m, m)) fs" "fm_path ` set fs = {p. has_file w p}"
    "set fs = {file_rec fid n |fid n. v_files w fid = Some n \<and> live_path n \<noteq> None}"
    "dm_path ` set ds = {p. has_dir w p}"
    by (rule live_listing [OF disp ok])
  let ?dirs = "remdups (map dm_path ds)" and ?live = "live_map fs"
  have livep: "fst ` set ?live = {p. has_file w p}" using l(3,4) by (simp add: image_image)
  have dirsp: "set ?dirs = {p. has_dir w p}" using l(6) by simp
  obtain v1 b1 where 1: "foreach (depth_order (filter (\<lambda>p. p \<notin> set (bd_materialized_dirs b)) ?dirs)) mat_directory (v, b) =
      (Ok (), v1, b1)" "dirs_stage v b ?P ?D ?X ?B (v1, b1)" "dirs_there ?D (v1, b1)"
    by (rule dirs_loop [OF assms(4,6,7) placed assms(5) dirsp])
  have maps: "bd_materialized b1 = bd_materialized b" "bd_last_ingested b1 = bd_last_ingested b"
    using 1(2) by (simp_all add: dirs_stage_def same_maps_def)
  let ?ps = "order (map fst (bd_materialized b))"
  have ps: "set ?ps = fst ` set (bd_materialized b)" using assms(2) by (simp add: permutes_def)
  obtain v2 b2 where 2: "foreach ?ps (mat_delete c clock (bd_materialized b) (bd_last_ingested b) {p. has_file w p}) (v1, b1) =
      (Ok (), v2, b2)" "delete_stage v b ?P ?D ?X ?S (v2, b2)" "set (bd_materialized_dirs b2) \<subseteq> ?B"
    "\<forall>p \<in> set ?ps. \<not> has_file w p \<longrightarrow> file_at (va_disk v2) (vault_path_to_fs_path b p) = None"
    by (rule deletes_loop [OF 1(2,3) equalityD1 [OF ps] refl refl refl assms(8)])
  have "\<forall>q \<in> ?S. file_at (va_disk v2) q = None" using 2(4) by (auto simp: stale_files_def ps)
  note start = edits_ready [OF 2(2) refl ok assms(7,8) this]
  have live: "set (meta_order ?live) = {(p, file_rec fid n) |p fid n. v_files w fid = Some n \<and> live_path n = Some p}"
  proof -
    have "set (meta_order ?live) = (\<lambda>m. (fm_path m, m)) ` set fs" using assms(3) l(3) by (simp add: permutes_def)
    moreover have path: "fm_path (file_rec fid n) = p" if "live_path n = Some p" for fid n p
      using that by (auto simp: file_rec_def Let_def live_path_def live_path_in_def split: if_splits)
    moreover have "(\<lambda>m. (fm_path m, m)) ` {file_rec fid n |fid n. v_files w fid = Some n \<and> live_path n \<noteq> None} =
        {(p, file_rec fid n) |p fid n. v_files w fid = Some n \<and> live_path n = Some p}" (is "?f ` ?A = ?R")
    proof (intro equalityI subsetI)
      fix x assume "x \<in> ?R"
      then obtain p fid n where x: "x = (p, file_rec fid n)" "v_files w fid = Some n" "live_path n = Some p" by blast
      then have "file_rec fid n \<in> ?A" by blast
      then show "x \<in> ?f ` ?A" using path [OF x(3)] x(1) by (intro image_eqI [of _ _ "file_rec fid n"]) simp_all
    next
      fix x assume "x \<in> ?f ` ?A"
      then obtain fid n p where x: "x = ?f (file_rec fid n)" "v_files w fid = Some n" "live_path n = Some p" by auto
      with path [OF x(3)] show "x \<in> ?R" by auto
    qed
    ultimately show ?thesis by (simp only: l(5))
  qed
  obtain v3 b3 where 3: "foreach (meta_order ?live) (mat_file am c clock (bd_materialized b) (bd_last_ingested b)) (v2, b2) =
      (Ok (), v3, b3)" "write_stage c v b ?P ?D ?X ?S ?L (v3, b3)" "set (bd_materialized_dirs b3) \<subseteq> ?B"
    "\<forall>(p, T) \<in> ?L. mirrored c b T p ?d0 (v3, b3)"
    by (rule writes_loop [OF disp ok assms(5) refl start 2(3) refl refl refl refl assms(7,9) live])
  let ?b4 = "b3\<lparr>bd_materialized := filter (\<lambda>(p, _). p \<in> {p. has_file w p}) (bd_materialized b3),
       bd_last_ingested := filter (\<lambda>(p, _). p \<in> {p. has_file w p}) (bd_last_ingested b3)\<rparr>"
  let ?zs = "deep_first (filter (\<lambda>p. p \<notin> set ?dirs) (order (bd_materialized_dirs ?b4)))"
  have 4: "mirror_inv v b ?P ?D ?X (v3, ?b4)" "dirs_there ?D (v3, ?b4)"
    using 3(2) by (simp_all add: write_stage_def mirror_inv_def dirs_there_def)
  have "vault_path_to_fs_path b p \<notin> ?D" if "p \<in> set ?zs" for p
  proof
    assume "vault_path_to_fs_path b p \<in> ?D"
    then obtain q where q: "vault_path_to_fs_path b p = vault_path_to_fs_path b q" "has_dir w q"
      by (auto simp: dir_targets_def)
    have "good_path p" "\<not> has_dir w p"
      using that 3(3) assms(2) dirsp by (auto simp: deep_first_def permutes_def)
    with vault_path_inj [OF _ live_good [OF placed] q(1)] q(2) show False by blast
  qed
  then obtain v5 b5 where 5: "foreach ?zs mat_remove_dir (v3, ?b4) = (Ok (), v5, b5)" "mirror_inv v b ?P ?D ?X (v5, b5)"
    "dirs_there ?D (v5, b5)" "file_at (va_disk v5) = file_at (va_disk v3)" "bd_materialized b5 = bd_materialized ?b4"
    "set (bd_materialized_dirs b5) \<subseteq> set (bd_materialized_dirs ?b4)"
    using removes_loop [OF 4, of ?zs] by blast
  have "materialize am c clock order meta_order (v, b) = (Ok (), v5, b5)"
    using l(1,2) 1(1) 2(1) 3(1) 5(1)
    by (simp add: materialize_def andthen_run with_vault_def on_doc_def the_binding_def with_binding_def Let_def maps livep)
  moreover obtain d' where d': "v5 = v\<lparr>va_disk := d'\<rparr>" using 5(2) by (auto simp: mirror_inv_def)
  ultimately have "materialize am c clock order meta_order (v, b) = (Ok (), v\<lparr>va_disk := d'\<rparr>, b5)" by simp
  moreover have "mirrored c b T p ?d0 (v5, b5)" if "(p, T) \<in> ?L" for p T
    using bspec [OF 3(4) that] target_live [OF that] map_of_filter_keys [of p "{p. has_file w p}" "bd_materialized b3"]
    by (cases T) (simp_all add: mirrored_def 5(4,5))
  moreover have "\<forall>q \<in> ?S. file_at (va_disk v5) q = None" using 3(2) by (simp add: write_stage_def 5(4))
  moreover have "fst ` set (bd_materialized b5) \<subseteq> {p. has_file w p}" by (auto simp: 5(5))
  moreover have "\<forall>q. q \<notin> ?X \<longrightarrow> file_at (va_disk v5) q = file_at ?d0 q"
    using 5(2) by (simp add: mirror_inv_def disk_ok_def)
  moreover have "\<forall>p. has_dir w p \<longrightarrow> d_nodes (va_disk v5) (vault_path_to_fs_path b p) = Some DDir"
    using 5(3) by (auto simp: dirs_there_def dir_targets_def)
  moreover have "quiet (va_disk v5)" "way_clear b w (va_disk v5)" "bd_root b5 = bd_root b"
    using 5(2) by (simp_all add: mirror_inv_def disk_ok_def way_clear_def file_targets_def dir_targets_def)
  moreover have "set (bd_materialized_dirs b5) \<subseteq> ?B" using 5(6) 3(3) by auto
  ultimately show thesis by (intro that [of d' b5]) (auto simp: d')
qed

end

end
