(* ===== verification/Examples.thy ===== *)
theory Examples
  imports StoreFiles
begin

text \<open>
  Concrete serialisers for the formats whose libraries are parameters: a self-delimiting
  encoding of byte strings and numbers, and on top of it an instance of \<open>index_format\<close>.
\<close>

fun quote :: "byte list \<Rightarrow> byte list" where
  "quote [] = [0]"
| "quote (x # xs) = 1 # x # quote xs"

fun unquote :: "byte list \<Rightarrow> (byte list \<times> byte list) option" where
  "unquote (t # r) =
     (if t = 0 then Some ([], r)
      else case r of [] \<Rightarrow> None | x # r' \<Rightarrow> map_option (map_prod ((#) x) id) (unquote r'))"
| "unquote [] = None"

lemma unquote_quote [simp]: "unquote (quote xs @ r) = Some (xs, r)"
  by (induction xs) simp_all

definition quote_nat :: "nat \<Rightarrow> byte list" where
  "quote_nat n = quote (replicate n 0)"

definition quote_int :: "int \<Rightarrow> byte list" where
  "quote_int i = (if i < 0 then 1 else 0) # quote_nat (nat \<bar>i\<bar>)"

fun unquote_int :: "byte list \<Rightarrow> (int \<times> byte list) option" where
  "unquote_int (s # r) =
     map_option (\<lambda>(xs, r'). (if s = 1 then - int (length xs) else int (length xs), r')) (unquote r)"
| "unquote_int [] = None"

lemma unquote_quote_int [simp]: "unquote_int (quote_int i @ r) = Some (i, r)"
  by (simp add: quote_int_def quote_nat_def)

definition quote_str :: "string \<Rightarrow> byte list" where
  "quote_str s = quote (as_bytes s)"

definition unquote_str :: "byte list \<Rightarrow> (string \<times> byte list) option" where
  "unquote_str bs = map_option (map_prod of_bytes id) (unquote bs)"

lemma unquote_quote_str [simp]: "unquote_str (quote_str s @ r) = Some (s, r)"
  by (simp add: unquote_str_def quote_str_def)

section \<open>The snapshot index\<close>

definition quote_entry :: "snapshot_entry \<Rightarrow> byte list" where
  "quote_entry e = quote_str (se_label e) @ quote_str (se_heads e) @ quote_int (se_created_at e)"

fun unquote_entries :: "nat \<Rightarrow> byte list \<Rightarrow> snapshot_entry list option" where
  "unquote_entries 0 bs = Some []"
| "unquote_entries (Suc n) bs =
     Option.bind (unquote_str bs) (\<lambda>(l, r).
     Option.bind (unquote_str r) (\<lambda>(h, r).
     Option.bind (unquote_int r) (\<lambda>(t, r).
     map_option ((#) \<lparr>se_label = l, se_heads = h, se_created_at = t\<rparr>) (unquote_entries n r))))"

definition example_json :: index_json where
  "example_json =
     \<lparr>to_json = (\<lambda>f. of_bytes (quote_int (sf_schema_version f) @ quote_nat (length (sf_labels f)) @
                              concat (map quote_entry (sf_labels f)))),
      from_json = (\<lambda>bs. Option.bind (unquote_int bs) (\<lambda>(v, r).
        Option.bind (unquote r) (\<lambda>(n, r).
        map_option (\<lambda>es. \<lparr>sf_schema_version = v, sf_labels = es\<rparr>) (unquote_entries (length n) r))))\<rparr>"

lemma unquote_entries_quote: "unquote_entries (length es) (concat (map quote_entry es)) = Some es"
  by (induction es) (simp_all add: quote_entry_def)

interpretation example_index: index_format example_json
  by unfold_locales (simp add: example_json_def quote_nat_def unquote_entries_quote)

end
