(* ===== verification/Protocol.thy ===== *)
theory Protocol
  imports Examples AuthorizedKeys
begin

text \<open>
  \<^verbatim>\<open>crates/agentsync-core/src/net/protocol.rs\<close> and \<^verbatim>\<open>auth.rs\<close>: the frames of the wire protocol, the
  websocket a handshake runs on, and the transcript both sides sign. MessagePack is the
  parameter \<open>codec\<close>.
\<close>

section \<open>Frames\<close>

datatype hello_op = Join | Create

datatype frame =
    HelloHub string "byte list" "byte list" "byte list" "string option"
  | HelloPeer "byte list" "byte list" hello_op
  | ProofHub "byte list"
  | ProofPeer "byte list"
  | SyncFrame "byte list"
  | BlobFetch string
  | BlobPush string "byte list"
  | Ping int
  | Pong int
  | ErrorFrame string

record codec =
  fr_encode :: "frame \<Rightarrow> byte list result"
  fr_decode :: "byte list \<Rightarrow> frame option"

definition frame_decode :: "codec \<Rightarrow> byte list \<Rightarrow> frame result" where
  "frame_decode fc bs = ok_or (Protocol ''decode'') (fr_decode fc bs)"

text \<open>MessagePack strings and binaries are shorter than 2^32 bytes.\<close>

fun frame_short :: "frame \<Rightarrow> bool" where
  "frame_short (HelloHub i pk n fp name) \<longleftrightarrow>
     length i < 4294967296 \<and> length pk < 4294967296 \<and> length n < 4294967296 \<and> length fp < 4294967296 \<and>
     (case name of Some x \<Rightarrow> length x < 4294967296 | None \<Rightarrow> True)"
| "frame_short (HelloPeer pk n op) \<longleftrightarrow> length pk < 4294967296 \<and> length n < 4294967296"
| "frame_short (ProofHub s) \<longleftrightarrow> length s < 4294967296"
| "frame_short (ProofPeer s) \<longleftrightarrow> length s < 4294967296"
| "frame_short (SyncFrame s) \<longleftrightarrow> length s < 4294967296"
| "frame_short (BlobFetch h) \<longleftrightarrow> length h < 4294967296"
| "frame_short (BlobPush h s) \<longleftrightarrow> length h < 4294967296 \<and> length s < 4294967296"
| "frame_short (Ping _) \<longleftrightarrow> True"
| "frame_short (Pong _) \<longleftrightarrow> True"
| "frame_short (ErrorFrame m) \<longleftrightarrow> length m < 4294967296"

locale frame_codec =
  fixes fc :: codec
  assumes decode_encode: "fr_encode fc f = Ok bs \<Longrightarrow> fr_decode fc bs = Some f"
    and encode_short: "frame_short f \<Longrightarrow> \<exists>bs. fr_encode fc f = Ok bs"
begin

lemma frame_decode_encode: "fr_encode fc f = Ok bs \<Longrightarrow> frame_decode fc bs = Ok f"
  by (simp add: frame_decode_def decode_encode)

text \<open>Two frames never have the same encoding.\<close>

lemma encode_inject: "fr_encode fc f = Ok bs \<Longrightarrow> fr_encode fc g = Ok bs \<Longrightarrow> f = g"
  using decode_encode [of f bs] decode_encode [of g bs] by simp

end

section \<open>The websocket\<close>

text \<open>
  What \<^verbatim>\<open>reader.next()\<close> yields, in order; an exhausted list is the end of the stream. What was
  sent is recorded; the n-th send fails when \<open>c_fault n\<close>.
\<close>

datatype ws_event = Binary "byte list" | CloseMsg | OtherMsg | WsError string

record conn =
  c_in :: "ws_event list"
  c_out :: "byte list list"
  c_sends :: nat
  c_fault :: "nat \<Rightarrow> bool"

definition ws_send :: "byte list \<Rightarrow> (conn, unit) action" where
  "ws_send bs k =
     (if c_fault k (c_sends k)
      then (Err (WebSocket ''send failed''), k\<lparr>c_sends := Suc (c_sends k)\<rparr>)
      else (Ok (), k\<lparr>c_out := c_out k @ [bs], c_sends := Suc (c_sends k)\<rparr>))"

fun read_events :: "codec \<Rightarrow> ws_event list \<Rightarrow> frame result \<times> ws_event list" where
  "read_events fc [] = (Err (Network ''stream ended mid-handshake''), [])"
| "read_events fc (Binary b # es) = (frame_decode fc b, es)"
| "read_events fc (CloseMsg # es) = (Err (Network ''connection closed mid-handshake''), es)"
| "read_events fc (OtherMsg # es) = read_events fc es"
| "read_events fc (WsError m # es) = (Err (WebSocket m), es)"

definition read_one_frame :: "codec \<Rightarrow> (conn, frame) action" where
  "read_one_frame fc k = (case read_events fc (c_in k) of (r, es) \<Rightarrow> (r, k\<lparr>c_in := es\<rparr>))"

definition send_frame :: "codec \<Rightarrow> frame \<Rightarrow> (conn, unit) action" where
  "send_frame fc f = andthen (lift (fr_encode fc f)) ws_send"

lemma ws_send_out:
  assumes "ws_send bs k = (r, k')"
  shows "c_in k' = c_in k" "c_fault k' = c_fault k" "c_out k' = c_out k \<or> c_out k' = c_out k @ [bs]"
    "r = Ok () \<Longrightarrow> c_out k' = c_out k @ [bs]"
  using assms by (auto simp: ws_send_def split: if_splits)

lemma send_frame_Ok:
  "send_frame fc f k = (Ok u, k') \<Longrightarrow>
   \<exists>bs. fr_encode fc f = Ok bs \<and> c_out k' = c_out k @ [bs] \<and> c_in k' = c_in k \<and> c_fault k' = c_fault k \<and>
        c_sends k' = Suc (c_sends k)"
  by (auto simp: send_frame_def andthen_eq_Inr lift_run ws_send_def split: if_splits)

lemma send_frame_reliable:
  assumes "fr_encode fc f = Ok bs" "\<not> c_fault k (c_sends k)"
  shows "send_frame fc f k = (Ok (), k\<lparr>c_out := c_out k @ [bs], c_sends := Suc (c_sends k)\<rparr>)"
  using assms by (simp add: send_frame_def andthen_run lift_run ws_send_def)

lemma send_frame_frame:
  assumes "send_frame fc f k = (r, k')"
  shows "c_in k' = c_in k" "set (c_out k') \<subseteq> set (c_out k) \<union> {bs. fr_encode fc f = Ok bs}"
  using assms
  by (auto simp: send_frame_def andthen_run lift_run ws_send_def split: sum.splits if_splits)

lemma read_one_frame_conn:
  "read_one_frame fc k = (r, k') \<Longrightarrow> c_out k' = c_out k \<and> c_sends k' = c_sends k \<and> c_fault k' = c_fault k"
  by (auto simp: read_one_frame_def split: prod.splits)

lemma read_one_frame_here:
  "c_in k = Binary b # es \<Longrightarrow> read_one_frame fc k = (frame_decode fc b, k\<lparr>c_in := es\<rparr>)"
  by (simp add: read_one_frame_def)

section \<open>The transcript\<close>

definition NONCE_LEN :: nat where "NONCE_LEN = 32"

definition HANDSHAKE_DOMAIN :: "byte list" where
  "HANDSHAKE_DOMAIN = as_bytes ''agentsync-auth-v1''"

text \<open>The nonce drawn from the generator of the operating system.\<close>

definition random_nonce :: "(nat \<Rightarrow> byte) \<Rightarrow> byte list" where
  "random_nonce rng = map rng [0..<NONCE_LEN]"

definition build_transcript ::
    "byte list \<Rightarrow> byte list \<Rightarrow> byte list \<Rightarrow> pubkey \<Rightarrow> pubkey \<Rightarrow> byte list" where
  "build_transcript hub_nonce peer_nonce tls_cert_fingerprint hub_pubkey peer_pubkey =
     HANDSHAKE_DOMAIN @ hub_nonce @ peer_nonce @ tls_cert_fingerprint @ hub_pubkey @ peer_pubkey"

lemma length_random_nonce [simp]: "length (random_nonce rng) = NONCE_LEN"
  by (simp add: random_nonce_def)

text \<open>
  With nonces and keys of the lengths both sides check, the transcript determines every field,
  the fingerprint included, whatever its length: an agreement on the signed bytes is an
  agreement on the session.
\<close>

lemma transcript_inject:
  assumes "build_transcript hn pn fp hk pk = build_transcript hn' pn' fp' hk' pk'"
    and "length hn = 32" "length hn' = 32" "length pn = 32" "length pn' = 32"
    and "length hk = 32" "length hk' = 32" "length pk = 32" "length pk' = 32"
  shows "hn = hn' \<and> pn = pn' \<and> fp = fp' \<and> hk = hk' \<and> pk = pk'"
proof -
  from assms(1) have 1: "hn @ pn @ fp @ hk @ pk = hn' @ pn' @ fp' @ hk' @ pk'"
    by (simp add: build_transcript_def)
  then have "length (hn @ pn @ fp @ hk @ pk) = length (hn' @ pn' @ fp' @ hk' @ pk')" by simp
  then have "length fp = length fp'" using assms(2-) by simp
  with 1 assms(2-) show ?thesis by (metis append_eq_append_conv)
qed

section \<open>A concrete codec\<close>

definition quote_frame :: "frame \<Rightarrow> byte list" where
  "quote_frame f = (case f of
     HelloHub i pk n fp name \<Rightarrow> 0 # quote_str i @ quote pk @ quote n @ quote fp @
       (case name of None \<Rightarrow> [0] | Some x \<Rightarrow> 1 # quote_str x)
   | HelloPeer pk n op \<Rightarrow> 1 # quote pk @ quote n @ [case op of Join \<Rightarrow> 0 | Create \<Rightarrow> 1]
   | ProofHub s \<Rightarrow> 2 # quote s
   | ProofPeer s \<Rightarrow> 3 # quote s
   | SyncFrame s \<Rightarrow> 4 # quote s
   | BlobFetch h \<Rightarrow> 5 # quote_str h
   | BlobPush h s \<Rightarrow> 6 # quote_str h @ quote s
   | Ping t \<Rightarrow> 7 # quote_int t
   | Pong t \<Rightarrow> 8 # quote_int t
   | ErrorFrame m \<Rightarrow> 9 # quote_str m)"

definition unquote_hub :: "byte list \<Rightarrow> frame option" where
  "unquote_hub r =
     Option.bind (unquote_str r) (\<lambda>(i, r). Option.bind (unquote r) (\<lambda>(pk, r).
     Option.bind (unquote r) (\<lambda>(n, r). Option.bind (unquote r) (\<lambda>(fp, r).
     case r of [] \<Rightarrow> None | t # r' \<Rightarrow>
       if t = 0 then Some (HelloHub i pk n fp None)
       else map_option (\<lambda>(x, _). HelloHub i pk n fp (Some x)) (unquote_str r')))))"

definition unquote_peer :: "byte list \<Rightarrow> frame option" where
  "unquote_peer r =
     Option.bind (unquote r) (\<lambda>(pk, r). Option.bind (unquote r) (\<lambda>(n, r).
     case r of [] \<Rightarrow> None | t # _ \<Rightarrow> Some (HelloPeer pk n (if t = 0 then Join else Create))))"

fun unquote_frame :: "byte list \<Rightarrow> frame option" where
  "unquote_frame [] = None"
| "unquote_frame (t # r) =
     (if t = 0 then unquote_hub r
      else if t = 1 then unquote_peer r
      else if t = 2 then map_option (\<lambda>(s, _). ProofHub s) (unquote r)
      else if t = 3 then map_option (\<lambda>(s, _). ProofPeer s) (unquote r)
      else if t = 4 then map_option (\<lambda>(s, _). SyncFrame s) (unquote r)
      else if t = 5 then map_option (\<lambda>(h, _). BlobFetch h) (unquote_str r)
      else if t = 6 then Option.bind (unquote_str r) (\<lambda>(h, r). map_option (\<lambda>(s, _). BlobPush h s) (unquote r))
      else if t = 7 then map_option (\<lambda>(i, _). Ping i) (unquote_int r)
      else if t = 8 then map_option (\<lambda>(i, _). Pong i) (unquote_int r)
      else if t = 9 then map_option (\<lambda>(m, _). ErrorFrame m) (unquote_str r)
      else None)"

definition example_codec :: codec where
  "example_codec = \<lparr>fr_encode = (\<lambda>f. Ok (quote_frame f)), fr_decode = unquote_frame\<rparr>"

lemma unquote_end [simp]:
  "unquote (quote s) = Some (s, [])" "unquote_str (quote_str m) = Some (m, [])"
  "unquote_int (quote_int i) = Some (i, [])"
  using unquote_quote [of s "[]"] unquote_quote_str [of m "[]"] unquote_quote_int [of i "[]"] by simp_all

lemma unquote_quote_frame: "unquote_frame (quote_frame f) = Some f"
  by (cases f) (auto simp: quote_frame_def unquote_hub_def unquote_peer_def split: option.split hello_op.split)

interpretation example_codec: frame_codec example_codec
  by unfold_locales (simp_all add: example_codec_def, use unquote_quote_frame in blast)

end
