(* ===== verification/Handshake.thy ===== *)
theory Handshake
  imports Protocol
begin

text \<open>
  The four-message handshake: \<^verbatim>\<open>run_handshake\<close> of \<^verbatim>\<open>net/client.rs\<close> and the authentication part of
  \<^verbatim>\<open>handle_peer\<close> of \<^verbatim>\<open>net/server.rs\<close>, each as one action on its websocket. Nothing is assumed of
  what the other side sends.
\<close>

section \<open>The client\<close>

definition expect_hello_hub ::
    "frame \<Rightarrow> (string \<times> byte list \<times> byte list \<times> byte list \<times> string option) result" where
  "expect_hello_hub f =
     (case f of HelloHub i pk n fp name \<Rightarrow> Ok (i, pk, n, fp, name)
      | ErrorFrame m \<Rightarrow> Err (Auth m)
      | _ \<Rightarrow> Err (Protocol ''expected HelloHub''))"

definition expect_proof_hub :: "frame \<Rightarrow> byte list result" where
  "expect_proof_hub f =
     (case f of ProofHub sig \<Rightarrow> Ok sig
      | ErrorFrame m \<Rightarrow> Err (Auth m)
      | _ \<Rightarrow> Err (Protocol ''expected ProofHub''))"

text \<open>The hub has opted out of channel binding: it advertises 32 zero bytes.\<close>

definition binding_disabled :: "byte list \<Rightarrow> bool" where
  "binding_disabled fp \<longleftrightarrow> length fp = 32 \<and> (\<forall>b \<in> set fp. b = 0)"

definition run_handshake ::
    "codec \<Rightarrow> crypto \<Rightarrow> agent \<Rightarrow> identity \<Rightarrow> (nat \<Rightarrow> byte) \<Rightarrow> byte list \<Rightarrow>
     (conn, string \<times> pubkey \<times> string option \<times> byte list) action" where
  "run_handshake fc c agent identity rng expected_cert_fp =
     andthen (read_one_frame fc) (\<lambda>frame.
     andthen (lift (expect_hello_hub frame)) (\<lambda>(vault_id, hub_pubkey_bytes, hub_nonce, advertised_fp, vault_name).
     andthen (lift (pubkey_from_bytes hub_pubkey_bytes)) (\<lambda>hub_pubkey.
     if length hub_nonce \<noteq> NONCE_LEN then fail (Protocol ''hub nonce wrong length'')
     else if \<not> binding_disabled advertised_fp \<and> advertised_fp \<noteq> expected_cert_fp
     then fail (Auth (''tls cert fingerprint mismatch: advertised '' @ show_nat (length advertised_fp) @
            '' bytes, observed '' @ show_nat (length expected_cert_fp)))
     else
       let peer_pubkey = identity_pubkey identity; peer_nonce = random_nonce rng in
       andthen (send_frame fc (HelloPeer peer_pubkey peer_nonce Join)) (\<lambda>_.
       let transcript = build_transcript hub_nonce peer_nonce advertised_fp hub_pubkey peer_pubkey in
       andthen (read_one_frame fc) (\<lambda>frame.
       andthen (lift (expect_proof_hub frame)) (\<lambda>hub_sig.
       if \<not> pubkey_verify c hub_pubkey transcript hub_sig
       then fail (Auth ''hub signature failed verification'')
       else
         andthen (lift (identity_sign agent c identity transcript)) (\<lambda>peer_sig.
         andthen (send_frame fc (ProofPeer peer_sig)) (\<lambda>_.
         ret (vault_id, hub_pubkey, vault_name, transcript)))))))))"

section \<open>The hub\<close>

text \<open>The hub's state beside the websocket; \<open>authorized\<close> reads the keys of the vault from it.\<close>

definition on_conn :: "(conn, 'a) action \<Rightarrow> (conn \<times> 'h, 'a) action" where
  "on_conn m = (\<lambda>(k, h). case m k of (r, k') \<Rightarrow> (r, k', h))"

definition on_hub :: "('h, 'a) action \<Rightarrow> (conn \<times> 'h, 'a) action" where
  "on_hub m = (\<lambda>(k, h). case m h of (r, h') \<Rightarrow> (r, k, h'))"

definition expect_hello_peer :: "frame \<Rightarrow> (byte list \<times> byte list) result" where
  "expect_hello_peer f =
     (case f of HelloPeer pk n op \<Rightarrow> Ok (pk, n)
      | ErrorFrame m \<Rightarrow> Err (Protocol (''peer reported error: '' @ m))
      | _ \<Rightarrow> Err (Protocol ''expected HelloPeer''))"

definition expect_proof_peer :: "frame \<Rightarrow> byte list result" where
  "expect_proof_peer f =
     (case f of ProofPeer sig \<Rightarrow> Ok sig
      | ErrorFrame m \<Rightarrow> Err (Protocol (''peer reported error: '' @ m))
      | _ \<Rightarrow> Err (Protocol ''expected ProofPeer''))"

text \<open>Tell the peer, whether or not the message goes out, and give up.\<close>

definition refuse :: "codec \<Rightarrow> string \<Rightarrow> error \<Rightarrow> (conn, 'a) action" where
  "refuse fc msg e =
     andthen (lift (fr_encode fc (ErrorFrame msg))) (\<lambda>bs. andthen (attempt (ws_send bs)) (\<lambda>_. fail e))"

definition hub_handshake ::
    "codec \<Rightarrow> crypto \<Rightarrow> agent \<Rightarrow> identity \<Rightarrow> string \<Rightarrow> string option \<Rightarrow> byte list \<Rightarrow> (nat \<Rightarrow> byte) \<Rightarrow>
     ('h, pubkey list) action \<Rightarrow> (conn \<times> 'h, pubkey) action" where
  "hub_handshake fc c agent identity vault_id vault_name cert_fp rng authorized =
     (let hub_pubkey = identity_pubkey identity; hub_nonce = random_nonce rng in
      andthen (on_conn (send_frame fc (HelloHub vault_id hub_pubkey hub_nonce cert_fp vault_name))) (\<lambda>_.
      andthen (on_conn (read_one_frame fc)) (\<lambda>frame.
      andthen (lift (expect_hello_peer frame)) (\<lambda>(peer_pubkey_bytes, peer_nonce).
      andthen (lift (pubkey_from_bytes peer_pubkey_bytes)) (\<lambda>peer_pubkey.
      if length peer_nonce \<noteq> NONCE_LEN then fail (Protocol ''peer nonce wrong length'')
      else
        andthen (on_hub authorized) (\<lambda>keys.
        if peer_pubkey \<notin> set keys
        then on_conn (refuse fc (''peer pubkey '' @ fingerprint_sha256 c peer_pubkey @ '' not authorized'')
               (Auth (''peer not in authorized_keys: '' @ fingerprint_sha256 c peer_pubkey)))
        else
          let transcript = build_transcript hub_nonce peer_nonce cert_fp hub_pubkey peer_pubkey in
          andthen (lift (identity_sign agent c identity transcript)) (\<lambda>hub_sig.
          andthen (on_conn (send_frame fc (ProofHub hub_sig))) (\<lambda>_.
          andthen (on_conn (read_one_frame fc)) (\<lambda>frame.
          andthen (lift (expect_proof_peer frame)) (\<lambda>peer_sig.
          if \<not> pubkey_verify c peer_pubkey transcript peer_sig
          then on_conn (refuse fc ''peer signature failed verification''
                 (Auth ''peer signature failed verification''))
          else ret peer_pubkey))))))))))"

section \<open>What acceptance means\<close>

lemmas expect_defs = expect_hello_hub_def expect_proof_hub_def expect_hello_peer_def expect_proof_peer_def

lemma expect_Ok:
  "expect_hello_hub f = Ok (i, pk, n, fp, name) \<longleftrightarrow> f = HelloHub i pk n fp name"
  "expect_proof_hub f = Ok s \<longleftrightarrow> f = ProofHub s"
  "expect_hello_peer f = Ok (pk, n) \<longleftrightarrow> (\<exists>op. f = HelloPeer pk n op)"
  "expect_proof_peer f = Ok s \<longleftrightarrow> f = ProofPeer s"
  by (auto simp: expect_defs split: frame.splits)

lemma pubkey_from_bytes_Ok: "pubkey_from_bytes bs = Ok pk \<longleftrightarrow> pk = bs \<and> length bs = 32"
  by (auto simp: pubkey_from_bytes_def PUBKEY_LEN_def)

text \<open>
  \<open>client_accepted\<close>: the frames the client read, in order, the checks they passed, and what it
  sent.
\<close>

definition client_accepted ::
    "codec \<Rightarrow> crypto \<Rightarrow> agent \<Rightarrow> identity \<Rightarrow> (nat \<Rightarrow> byte) \<Rightarrow> byte list \<Rightarrow> conn \<Rightarrow>
     string \<Rightarrow> pubkey \<Rightarrow> string option \<Rightarrow> byte list \<Rightarrow> conn \<Rightarrow> bool" where
  "client_accepted fc c agent i rng expected k vault_id hub_pk name transcript k' \<longleftrightarrow>
     (\<exists>hub_nonce fp hub_sig peer_sig k1 k2 k3 b1 b2.
        read_one_frame fc k = (Ok (HelloHub vault_id hub_pk hub_nonce fp name), k1) \<and>
        length hub_pk = 32 \<and> length hub_nonce = 32 \<and> (binding_disabled fp \<or> fp = expected) \<and>
        transcript = build_transcript hub_nonce (random_nonce rng) fp hub_pk (identity_pubkey i) \<and>
        fr_encode fc (HelloPeer (identity_pubkey i) (random_nonce rng) Join) = Ok b1 \<and>
        send_frame fc (HelloPeer (identity_pubkey i) (random_nonce rng) Join) k1 = (Ok (), k2) \<and>
        read_one_frame fc k2 = (Ok (ProofHub hub_sig), k3) \<and>
        pubkey_verify c hub_pk transcript hub_sig \<and>
        identity_sign agent c i transcript = Ok peer_sig \<and>
        fr_encode fc (ProofPeer peer_sig) = Ok b2 \<and> send_frame fc (ProofPeer peer_sig) k3 = (Ok (), k') \<and>
        c_out k' = c_out k @ [b1, b2])"

lemma client_accepts:
  assumes "run_handshake fc c agent i rng expected k = (Ok (vault_id, hub_pk, name, transcript), k')"
  shows "client_accepted fc c agent i rng expected k vault_id hub_pk name transcript k'"
proof -
  from assms obtain pkb hn fp k1 k2 k3 hub_sig peer_sig where
    1: "read_one_frame fc k = (Ok (HelloHub vault_id pkb hn fp name), k1)" "pubkey_from_bytes pkb = Ok hub_pk"
      "length hn = NONCE_LEN" "binding_disabled fp \<or> fp = expected"
      "send_frame fc (HelloPeer (identity_pubkey i) (random_nonce rng) Join) k1 = (Ok (), k2)"
      "read_one_frame fc k2 = (Ok (ProofHub hub_sig), k3)"
      "pubkey_verify c hub_pk transcript hub_sig"
      "transcript = build_transcript hn (random_nonce rng) fp hub_pk (identity_pubkey i)"
      "identity_sign agent c i transcript = Ok peer_sig"
      "send_frame fc (ProofPeer peer_sig) k3 = (Ok (), k')"
    by (auto simp: run_handshake_def andthen_eq_Inr lift_run fail_run ret_run Let_def expect_Ok split: if_splits)
  from 1(2) have pk: "hub_pk = pkb" "length hub_pk = 32" by (auto simp: pubkey_from_bytes_Ok)
  obtain b1 where b1: "fr_encode fc (HelloPeer (identity_pubkey i) (random_nonce rng) Join) = Ok b1"
    "c_out k2 = c_out k1 @ [b1]"
    using send_frame_Ok [OF 1(5)] by blast
  obtain b2 where b2: "fr_encode fc (ProofPeer peer_sig) = Ok b2" "c_out k' = c_out k3 @ [b2]"
    using send_frame_Ok [OF 1(10)] by blast
  have "c_out k' = c_out k @ [b1, b2]"
    using b1 b2 read_one_frame_conn [OF 1(1)] read_one_frame_conn [OF 1(6)] by simp
  then show ?thesis
    unfolding client_accepted_def using 1 pk b1(1) b2(1) unfolding NONCE_LEN_def by blast
qed

definition hub_accepted ::
    "codec \<Rightarrow> crypto \<Rightarrow> agent \<Rightarrow> identity \<Rightarrow> string \<Rightarrow> string option \<Rightarrow> byte list \<Rightarrow> (nat \<Rightarrow> byte) \<Rightarrow>
     ('h, pubkey list) action \<Rightarrow> conn \<Rightarrow> 'h \<Rightarrow> pubkey \<Rightarrow> conn \<Rightarrow> 'h \<Rightarrow> bool" where
  "hub_accepted fc c agent i vault_id name cert_fp rng authorized k h peer_pk k' h' \<longleftrightarrow>
     (\<exists>peer_nonce op keys hub_sig peer_sig k1 k2 k3.
        send_frame fc (HelloHub vault_id (identity_pubkey i) (random_nonce rng) cert_fp name) k = (Ok (), k1) \<and>
        read_one_frame fc k1 = (Ok (HelloPeer peer_pk peer_nonce op), k2) \<and>
        length peer_pk = 32 \<and> length peer_nonce = 32 \<and>
        authorized h = (Ok keys, h') \<and> peer_pk \<in> set keys \<and>
        identity_sign agent c i (build_transcript (random_nonce rng) peer_nonce cert_fp (identity_pubkey i) peer_pk) =
          Ok hub_sig \<and>
        send_frame fc (ProofHub hub_sig) k2 = (Ok (), k3) \<and>
        read_one_frame fc k3 = (Ok (ProofPeer peer_sig), k') \<and>
        pubkey_verify c peer_pk
          (build_transcript (random_nonce rng) peer_nonce cert_fp (identity_pubkey i) peer_pk) peer_sig)"

lemma on_conn_run: "on_conn m (k, h) = (case m k of (r, k') \<Rightarrow> (r, k', h))"
  by (simp add: on_conn_def)

lemma on_hub_run: "on_hub m (k, h) = (case m h of (r, h') \<Rightarrow> (r, k, h'))"
  by (simp add: on_hub_def)

lemma on_conn_eq: "on_conn m (k, h) = (r, s) \<longleftrightarrow> (\<exists>k'. m k = (r, k') \<and> s = (k', h))"
  by (auto simp: on_conn_run split: prod.splits)

lemma on_hub_eq: "on_hub m (k, h) = (r, s) \<longleftrightarrow> (\<exists>h'. m h = (r, h') \<and> s = (k, h'))"
  by (auto simp: on_hub_run split: prod.splits)

lemma refuse_Err: "refuse fc msg e k \<noteq> (Ok x, k')"
  by (auto simp: refuse_def andthen_eq_Inr fail_run)

lemma hub_accepts:
  assumes "hub_handshake fc c agent i vault_id name cert_fp rng authorized (k, h) = (Ok peer_pk, k', h')"
  shows "hub_accepted fc c agent i vault_id name cert_fp rng authorized k h peer_pk k' h'"
  using assms
  by (auto simp: hub_handshake_def hub_accepted_def andthen_eq_Inr lift_run fail_run ret_run Let_def expect_Ok
      on_conn_eq on_hub_eq pubkey_from_bytes_Ok refuse_Err NONCE_LEN_def split: if_splits)

section \<open>What is sent when the checks fail\<close>

lemma refuse_sends:
  assumes "refuse fc msg e k = (r, k')"
  shows "set (c_out k') \<subseteq> set (c_out k) \<union> {bs. fr_encode fc (ErrorFrame msg) = Ok bs}"
  using assms
  by (auto simp: refuse_def andthen_run lift_run attempt_run fail_run ws_send_def split: sum.splits if_splits)

text \<open>
  A peer that is not authorised sees the hello and perhaps an error frame, never a signature: a
  \<open>ProofHub\<close> goes out only after the hub has read a \<open>HelloPeer\<close> with an authorised key.
\<close>

lemma hub_sends:
  assumes "hub_handshake fc c agent i vault_id name cert_fp rng authorized (k, h) = (r, k', h')"
    and "b \<in> set (c_out k')" "b \<notin> set (c_out k)"
  shows "fr_encode fc (HelloHub vault_id (identity_pubkey i) (random_nonce rng) cert_fp name) = Ok b \<or>
    (\<exists>m. fr_encode fc (ErrorFrame m) = Ok b) \<or>
    (\<exists>k1 k2 pk n op keys h'' sig. read_one_frame fc k1 = (Ok (HelloPeer pk n op), k2) \<and> c_in k1 = c_in k \<and>
       authorized h = (Ok keys, h'') \<and> pk \<in> set keys \<and>
       identity_sign agent c i (build_transcript (random_nonce rng) n cert_fp (identity_pubkey i) pk) = Ok sig \<and>
       fr_encode fc (ProofHub sig) = Ok b)"
    (is "?hello \<or> ?error \<or> ?proof")
proof -
  let ?hf = "HelloHub vault_id (identity_pubkey i) (random_nonce rng) cert_fp name"
  obtain r1 k1 where 1: "send_frame fc ?hf k = (r1, k1)" by fastforce
  note s1 = send_frame_frame [OF 1]
  show ?thesis
  proof (cases r1)
    case (Inl x)
    with assms s1 1 show ?thesis by (auto simp: hub_handshake_def andthen_run on_conn_run Let_def)
  next
    case (Inr u)
    obtain r2 k2 where 2: "read_one_frame fc k1 = (r2, k2)" by fastforce
    note o2 = read_one_frame_conn [OF 2]
    show ?thesis
    proof (cases "\<exists>pk n op. r2 = Ok (HelloPeer pk n op) \<and> length pk = 32 \<and> length n = 32")
      case False
      with assms s1 1 2 o2 Inr show ?thesis
        by (auto simp: hub_handshake_def andthen_run on_conn_run lift_run fail_run Let_def expect_hello_peer_def
            pubkey_from_bytes_def PUBKEY_LEN_def NONCE_LEN_def split: sum.splits frame.splits if_splits)
    next
      case True
      then obtain pk n op where hp: "r2 = Ok (HelloPeer pk n op)" "length pk = 32" "length n = 32" by blast
      let ?tr = "build_transcript (random_nonce rng) n cert_fp (identity_pubkey i) pk"
      obtain r3 h3 where 3: "authorized h = (r3, h3)" by fastforce
      show ?thesis
      proof (cases "\<exists>keys. r3 = Ok keys \<and> pk \<in> set keys")
        case False
        have "set (c_out k') \<subseteq> set (c_out k2) \<union> {bs. \<exists>m. fr_encode fc (ErrorFrame m) = Ok bs}"
        proof (cases r3)
          case (Inl x)
          with assms(1) 1 2 3 Inr hp show ?thesis
            by (simp add: hub_handshake_def andthen_run on_conn_run on_hub_run lift_run Let_def
                expect_hello_peer_def pubkey_from_bytes_def PUBKEY_LEN_def NONCE_LEN_def)
        next
          case (Inr keys)
          with False have "pk \<notin> set keys" by simp
          with assms(1) 1 2 3 \<open>r1 = Inr u\<close> Inr hp have "on_conn (refuse fc
              (''peer pubkey '' @ fingerprint_sha256 c pk @ '' not authorized'')
              (Auth (''peer not in authorized_keys: '' @ fingerprint_sha256 c pk))) (k2, h3) = (r, k', h')"
            by (simp add: hub_handshake_def andthen_run on_conn_run on_hub_run lift_run Let_def
                expect_hello_peer_def pubkey_from_bytes_def PUBKEY_LEN_def NONCE_LEN_def)
          then obtain "refuse fc (''peer pubkey '' @ fingerprint_sha256 c pk @ '' not authorized'')
              (Auth (''peer not in authorized_keys: '' @ fingerprint_sha256 c pk)) k2 = (r, k')"
            by (auto simp: on_conn_eq)
          from refuse_sends [OF this] show ?thesis by auto
        qed
        with assms(2,3) s1(2) o2 show ?thesis by auto
      next
        case True
        then obtain keys where keys: "r3 = Ok keys" "pk \<in> set keys" by blast
        show ?thesis
        proof (cases "identity_sign agent c i ?tr")
          case (Inl x)
          with assms s1 1 2 3 o2 Inr hp keys show ?thesis
            by (auto simp: hub_handshake_def andthen_run on_conn_run on_hub_run lift_run Let_def
                expect_hello_peer_def pubkey_from_bytes_def PUBKEY_LEN_def NONCE_LEN_def)
        next
          case (Inr sig)
          obtain r4 k4 where 4: "send_frame fc (ProofHub sig) k2 = (r4, k4)" by fastforce
          note s4 = send_frame_frame [OF 4]
          have pre: "(case r4 of Inl x \<Rightarrow> (Inl x, k4, h3) | Inr _ \<Rightarrow>
              andthen (on_conn (read_one_frame fc)) (\<lambda>frame.
              andthen (lift (expect_proof_peer frame)) (\<lambda>peer_sig.
              if \<not> pubkey_verify c pk ?tr peer_sig
              then on_conn (refuse fc ''peer signature failed verification''
                     (Auth ''peer signature failed verification''))
              else ret pk)) (k4, h3)) = (r, k', h')"
            using assms(1) 1 2 3 4 \<open>r1 = Inr u\<close> Inr hp keys
            by (simp add: hub_handshake_def andthen_run on_conn_run on_hub_run lift_run Let_def
                expect_hello_peer_def pubkey_from_bytes_def PUBKEY_LEN_def NONCE_LEN_def split: sum.splits)
          have "set (c_out k') \<subseteq> set (c_out k4) \<union> {bs. \<exists>m. fr_encode fc (ErrorFrame m) = Ok bs}"
          proof (cases r4)
            case (Inl x)
            with pre show ?thesis by auto
          next
            case (Inr v)
            obtain r5 k5 where 5: "read_one_frame fc k4 = (r5, k5)" by fastforce
            note o5 = read_one_frame_conn [OF 5]
            have "on_conn (refuse fc ''peer signature failed verification''
                     (Auth ''peer signature failed verification'')) (k5, h3) = (r, k', h') \<or> k' = k5"
              using pre Inr 5
              by (auto simp: andthen_run on_conn_run lift_run ret_run split: sum.splits if_splits)
            then show ?thesis using refuse_sends o5 by (fastforce simp: on_conn_eq)
          qed
          moreover have "fr_encode fc (ProofHub sig) = Ok b \<Longrightarrow> ?proof"
            using 2 3 Inr hp keys s1(1) by blast
          ultimately show ?thesis using assms(2,3) s1(2) o2 s4(2) by auto
        qed
      qed
    qed
  qed
qed

text \<open>A client signs nothing before it has verified the hub's signature on the same transcript.\<close>

lemma client_sends:
  assumes "run_handshake fc c agent i rng expected k = (r, k')"
    and "b \<in> set (c_out k')" "b \<notin> set (c_out k)"
  shows "fr_encode fc (HelloPeer (identity_pubkey i) (random_nonce rng) Join) = Ok b \<or>
    (\<exists>tr hub_pk hub_sig peer_sig hub_nonce fp. pubkey_verify c hub_pk tr hub_sig \<and>
       tr = build_transcript hub_nonce (random_nonce rng) fp hub_pk (identity_pubkey i) \<and>
       (binding_disabled fp \<or> fp = expected) \<and>
       identity_sign agent c i tr = Ok peer_sig \<and> fr_encode fc (ProofPeer peer_sig) = Ok b)"
    (is "?hello \<or> ?proof")
proof -
  obtain r1 k1 where 1: "read_one_frame fc k = (r1, k1)" by fastforce
  note o1 = read_one_frame_conn [OF 1]
  show ?thesis
  proof (cases "\<exists>v pk hn fp name. r1 = Ok (HelloHub v pk hn fp name) \<and> length pk = 32 \<and> length hn = 32 \<and>
      (binding_disabled fp \<or> fp = expected)")
    case False
    with assms 1 o1 show ?thesis
      by (auto simp: run_handshake_def andthen_run lift_run fail_run Let_def expect_hello_hub_def
          pubkey_from_bytes_def PUBKEY_LEN_def NONCE_LEN_def split: sum.splits frame.splits if_splits)
  next
    case True
    then obtain v pk hn fp name where hh: "r1 = Ok (HelloHub v pk hn fp name)" "length pk = 32"
      "length hn = 32" "binding_disabled fp \<or> fp = expected" by blast
    let ?tr = "build_transcript hn (random_nonce rng) fp pk (identity_pubkey i)"
    obtain r2 k2 where 2: "send_frame fc (HelloPeer (identity_pubkey i) (random_nonce rng) Join) k1 = (r2, k2)"
      by fastforce
    note s2 = send_frame_frame [OF 2]
    show ?thesis
    proof (cases r2)
      case (Inl x)
      with assms 1 2 o1 s2 hh show ?thesis
        by (auto simp: run_handshake_def andthen_run lift_run Let_def expect_hello_hub_def
            pubkey_from_bytes_def PUBKEY_LEN_def NONCE_LEN_def)
    next
      case (Inr u)
      obtain r3 k3 where 3: "read_one_frame fc k2 = (r3, k3)" by fastforce
      note o3 = read_one_frame_conn [OF 3]
      have pre: "(case r3 of Inl x \<Rightarrow> (Inl x, k3) | Inr frame \<Rightarrow>
          andthen (lift (expect_proof_hub frame)) (\<lambda>hub_sig.
          if \<not> pubkey_verify c pk ?tr hub_sig then fail (Auth ''hub signature failed verification'')
          else
            andthen (lift (identity_sign agent c i ?tr)) (\<lambda>peer_sig.
            andthen (send_frame fc (ProofPeer peer_sig)) (\<lambda>_. ret (v, pk, name, ?tr)))) k3) = (r, k')"
        using assms(1) 1 2 3 Inr hh
        by (auto simp: run_handshake_def andthen_run lift_run Let_def expect_hello_hub_def
            pubkey_from_bytes_def PUBKEY_LEN_def NONCE_LEN_def split: sum.splits)
      show ?thesis
      proof (cases "\<exists>hub_sig sig. r3 = Ok (ProofHub hub_sig) \<and> pubkey_verify c pk ?tr hub_sig \<and>
          identity_sign agent c i ?tr = Ok sig")
        case False
        with pre have "c_out k' = c_out k3"
          by (auto simp: andthen_run lift_run fail_run expect_proof_hub_def split: sum.splits frame.splits if_splits)
        with assms(2,3) o1 o3 s2 show ?thesis by auto
      next
        case True
        then obtain hub_sig sig where sg: "r3 = Ok (ProofHub hub_sig)" "pubkey_verify c pk ?tr hub_sig"
          "identity_sign agent c i ?tr = Ok sig" by blast
        obtain r4 where "send_frame fc (ProofPeer sig) k3 = (r4, k')"
          using pre sg
          by (auto simp: andthen_run lift_run expect_proof_hub_def ret_run split: prod.splits sum.splits)
        from send_frame_frame [OF this] have "b \<in> set (c_out k3) \<or> fr_encode fc (ProofPeer sig) = Ok b"
          using assms(2) by auto
        moreover have "fr_encode fc (ProofPeer sig) = Ok b \<Longrightarrow> ?proof"
          using sg(2,3) hh(4) by blast
        ultimately show ?thesis using assms(3) o1 o3 s2(2) by auto
      qed
    qed
  qed
qed

section \<open>Runs between honest parties\<close>

definition fresh_conn :: "ws_event list \<Rightarrow> conn" where
  "fresh_conn es = \<lparr>c_in = es, c_out = [], c_sends = 0, c_fault = (\<lambda>_. False)\<rparr>"

context frame_codec
begin

lemma short_encode:
  "frame_short f \<Longrightarrow> fr_encode fc f = Ok (case fr_encode fc f of Inr bs \<Rightarrow> bs | Inl _ \<Rightarrow> [])"
  using encode_short [of f] by auto

lemma read_encoded:
  "fr_encode fc f = Ok bs \<Longrightarrow> c_in k = Binary bs # es \<Longrightarrow> read_one_frame fc k = (Ok f, k\<lparr>c_in := es\<rparr>)"
  by (simp add: read_one_frame_here frame_decode_encode)

text \<open>The hub, on the frames of a peer that can sign for an authorised key.\<close>

lemma hub_honest_run:
  assumes "fr_encode fc (HelloHub vault_id (identity_pubkey i) (random_nonce rng) cert_fp name) = Ok b1"
    and "fr_encode fc (HelloPeer pk n op) = Ok b2" "length pk = 32" "length n = 32"
    and "authorized h = (Ok keys, h')" "pk \<in> set keys"
    and "identity_sign agent c i (build_transcript (random_nonce rng) n cert_fp (identity_pubkey i) pk) = Ok hub_sig"
    and "fr_encode fc (ProofHub hub_sig) = Ok b3" "fr_encode fc (ProofPeer sig) = Ok b4"
    and "pubkey_verify c pk (build_transcript (random_nonce rng) n cert_fp (identity_pubkey i) pk) sig"
  shows "hub_handshake fc c agent i vault_id name cert_fp rng authorized
      (fresh_conn ([Binary b2, Binary b4] @ es), h) =
    (Ok pk, \<lparr>c_in = es, c_out = [b1, b3], c_sends = 2, c_fault = (\<lambda>_. False)\<rparr>, h')"
  using assms
  by (simp add: hub_handshake_def fresh_conn_def andthen_run on_conn_run on_hub_run lift_run ret_run Let_def
      send_frame_def ws_send_def read_one_frame_here frame_decode_encode expect_defs pubkey_from_bytes_def
      PUBKEY_LEN_def NONCE_LEN_def)

lemma client_honest_run:
  assumes "fr_encode fc (HelloHub vault_id hub_pk n fp name) = Ok b1" "length hub_pk = 32" "length n = 32"
    and "binding_disabled fp \<or> fp = expected"
    and "fr_encode fc (HelloPeer (identity_pubkey i) (random_nonce rng) Join) = Ok b2"
    and "fr_encode fc (ProofHub hub_sig) = Ok b3" "fr_encode fc (ProofPeer sig) = Ok b4"
    and "pubkey_verify c hub_pk (build_transcript n (random_nonce rng) fp hub_pk (identity_pubkey i)) hub_sig"
    and "identity_sign agent c i (build_transcript n (random_nonce rng) fp hub_pk (identity_pubkey i)) = Ok sig"
  shows "run_handshake fc c agent i rng expected (fresh_conn ([Binary b1, Binary b3] @ es)) =
    (Ok (vault_id, hub_pk, name, build_transcript n (random_nonce rng) fp hub_pk (identity_pubkey i)),
     \<lparr>c_in = es, c_out = [b2, b4], c_sends = 2, c_fault = (\<lambda>_. False)\<rparr>)"
  using assms
  by (auto simp: run_handshake_def fresh_conn_def andthen_run lift_run ret_run Let_def send_frame_def ws_send_def
      read_one_frame_here frame_decode_encode expect_defs pubkey_from_bytes_def PUBKEY_LEN_def NONCE_LEN_def)

end

end
