(* ===== verification/Authentication.thy ===== *)
theory Authentication
  imports Handshake
begin

text \<open>
  The handshake among many parties. A state of the network records which transcripts the code
  has signed and which sessions it has run and accepted; a step is one run of \<open>hub_handshake\<close>
  or \<open>run_handshake\<close> by an honest identity against arbitrary input. That signatures of honest
  keys cannot be forged is the guard of the accepting steps: the signature that was verified
  had been made. What an accepting run knows about the other side is the invariant.
\<close>

type_synonym session = "byte list \<times> byte list \<times> byte list \<times> pubkey \<times> pubkey"

definition transcript_of :: "session \<Rightarrow> byte list" where
  "transcript_of = (\<lambda>(hub_nonce, peer_nonce, fp, hub_pk, peer_pk).
     build_transcript hub_nonce peer_nonce fp hub_pk peer_pk)"

definition session_wf :: "session \<Rightarrow> bool" where
  "session_wf = (\<lambda>(hub_nonce, peer_nonce, fp, hub_pk, peer_pk).
     length hub_nonce = 32 \<and> length peer_nonce = 32 \<and> length hub_pk = 32 \<and> length peer_pk = 32)"

abbreviation hub_key :: "session \<Rightarrow> pubkey" where
  "hub_key s \<equiv> fst (snd (snd (snd s)))"

abbreviation peer_key :: "session \<Rightarrow> pubkey" where
  "peer_key s \<equiv> snd (snd (snd (snd s)))"

lemma transcript_of_inject:
  "transcript_of s = transcript_of t \<Longrightarrow> session_wf s \<Longrightarrow> session_wf t \<Longrightarrow> s = t"
  by (cases s; cases t) (auto simp: transcript_of_def session_wf_def dest: transcript_inject)

record net =
  n_signed :: "(pubkey \<times> byte list) set"
  n_hub_runs :: "session set"
  n_client_commits :: "session set"
  n_hub_commits :: "session set"

definition net_start :: net where
  "net_start = \<lparr>n_signed = {}, n_hub_runs = {}, n_client_commits = {}, n_hub_commits = {}\<rparr>"

text \<open>A run of the hub in which it answered a hello with its signature.\<close>

definition hub_signs ::
    "codec \<Rightarrow> crypto \<Rightarrow> agent \<Rightarrow> identity \<Rightarrow> string \<Rightarrow> string option \<Rightarrow> byte list \<Rightarrow> (nat \<Rightarrow> byte) \<Rightarrow>
     ('h, pubkey list) action \<Rightarrow> conn \<Rightarrow> 'h \<Rightarrow> byte list \<Rightarrow> pubkey \<Rightarrow> bool" where
  "hub_signs fc c agent i vault_id name cert_fp rng authorized k h n pk \<longleftrightarrow>
     (\<exists>r s' k1 op sig b.
        hub_handshake fc c agent i vault_id name cert_fp rng authorized (k, h) = (r, s') \<and>
        fst (read_one_frame fc k1) = Ok (HelloPeer pk n op) \<and> c_in k1 = c_in k \<and>
        length pk = 32 \<and> length n = 32 \<and>
        identity_sign agent c i (build_transcript (random_nonce rng) n cert_fp (identity_pubkey i) pk) = Ok sig \<and>
        fr_encode fc (ProofHub sig) = Ok b \<and> b \<in> set (c_out (fst s')) - set (c_out k))"

text \<open>\<open>party\<close> holds the honest identities, \<open>honest\<close> their keys.\<close>

definition honest :: "identity set \<Rightarrow> pubkey set" where
  "honest party = identity_pubkey ` party"

inductive net_step :: "codec \<Rightarrow> crypto \<Rightarrow> agent \<Rightarrow> identity set \<Rightarrow> net \<Rightarrow> net \<Rightarrow> bool"
  for fc c agent party where
  hub_sign: "i \<in> party \<Longrightarrow> length (identity_pubkey i) = 32 \<Longrightarrow>
     hub_signs fc c agent i vault_id name cert_fp rng authorized k (h :: nat) n pk \<Longrightarrow>
     s = (random_nonce rng, n, cert_fp, identity_pubkey i, pk) \<Longrightarrow>
     net_step fc c agent party \<sigma>
       (\<sigma>\<lparr>n_signed := insert (identity_pubkey i, transcript_of s) (n_signed \<sigma>),
          n_hub_runs := insert s (n_hub_runs \<sigma>)\<rparr>)"
| client_commit: "i \<in> party \<Longrightarrow> length (identity_pubkey i) = 32 \<Longrightarrow>
     run_handshake fc c agent i rng expected k = (Ok (vault_id, hub_pk, name, tr), k') \<Longrightarrow>
     fst (read_one_frame fc k) = Ok (HelloHub vault_id hub_pk hub_nonce fp name) \<Longrightarrow>
     s = (hub_nonce, random_nonce rng, fp, hub_pk, identity_pubkey i) \<Longrightarrow>
     (hub_pk \<in> honest party \<Longrightarrow> (hub_pk, tr) \<in> n_signed \<sigma>) \<Longrightarrow>
     net_step fc c agent party \<sigma>
       (\<sigma>\<lparr>n_signed := insert (identity_pubkey i, tr) (n_signed \<sigma>),
          n_client_commits := insert s (n_client_commits \<sigma>)\<rparr>)"
| hub_commit: "i \<in> party \<Longrightarrow> length (identity_pubkey i) = 32 \<Longrightarrow>
     hub_handshake fc c agent i vault_id name cert_fp rng authorized (k, h :: nat) = (Ok pk, k', h') \<Longrightarrow>
     fst (read_one_frame fc k1) = Ok (HelloPeer pk n op) \<Longrightarrow> c_in k1 = c_in k \<Longrightarrow>
     s = (random_nonce rng, n, cert_fp, identity_pubkey i, pk) \<Longrightarrow>
     s \<in> n_hub_runs \<sigma> \<Longrightarrow>
     (pk \<in> honest party \<Longrightarrow> (pk, transcript_of s) \<in> n_signed \<sigma>) \<Longrightarrow>
     net_step fc c agent party \<sigma> (\<sigma>\<lparr>n_hub_commits := insert s (n_hub_commits \<sigma>)\<rparr>)"

inductive net_reachable :: "codec \<Rightarrow> crypto \<Rightarrow> agent \<Rightarrow> identity set \<Rightarrow> net \<Rightarrow> bool"
  for fc c agent party where
  start: "net_reachable fc c agent party net_start"
| step: "net_reachable fc c agent party \<sigma> \<Longrightarrow> net_step fc c agent party \<sigma> \<tau> \<Longrightarrow> net_reachable fc c agent party \<tau>"

text \<open>
  The invariant: every signature was made by a hub run or a client that accepted, sessions are
  well-formed, a client that accepted an honest hub's key has that hub's run of the very session,
  and a hub that accepted an honest peer other than itself has that peer's run.
\<close>

definition net_inv :: "pubkey set \<Rightarrow> net \<Rightarrow> bool" where
  "net_inv good \<sigma> \<longleftrightarrow>
     (\<forall>s \<in> n_hub_runs \<sigma> \<union> n_client_commits \<sigma> \<union> n_hub_commits \<sigma>. session_wf s) \<and>
     (\<forall>(pk, m) \<in> n_signed \<sigma>. (\<exists>s \<in> n_hub_runs \<sigma>. hub_key s = pk \<and> m = transcript_of s) \<or>
        (\<exists>s \<in> n_client_commits \<sigma>. peer_key s = pk \<and> m = transcript_of s)) \<and>
     (\<forall>s \<in> n_client_commits \<sigma>. hub_key s \<in> good \<longrightarrow> s \<in> n_hub_runs \<sigma>) \<and>
     (\<forall>s \<in> n_hub_commits \<sigma>. peer_key s \<in> good \<and> peer_key s \<noteq> hub_key s \<longrightarrow> s \<in> n_client_commits \<sigma>)"

lemma client_session:
  assumes "run_handshake fc c agent i rng expected k = (Ok (vault_id, hub_pk, name, tr), k')"
    and "fst (read_one_frame fc k) = Ok (HelloHub vault_id' hub_pk' hub_nonce fp name')"
  shows "hub_pk' = hub_pk \<and> length hub_pk = 32 \<and> length hub_nonce = 32 \<and>
    tr = build_transcript hub_nonce (random_nonce rng) fp hub_pk (identity_pubkey i)"
  using client_accepts [OF assms(1)] assms(2) unfolding client_accepted_def by auto

lemma net_step_inv:
  assumes "net_step fc c agent party \<sigma> \<tau>" "net_inv (honest party) \<sigma>"
  shows "net_inv (honest party) \<tau>"
  using assms
proof (induction rule: net_step.induct)
  case (hub_sign i vault_id name cert_fp rng authorized k h n pk s \<sigma>)
  then have "session_wf s" by (auto simp: session_wf_def hub_signs_def NONCE_LEN_def)
  with hub_sign.prems hub_sign.hyps(4) show ?case by (auto simp: net_inv_def)
next
  case (client_commit i rng expected k vault_id hub_pk name tr k' hub_nonce fp s \<sigma>)
  note cs = client_session [OF client_commit.hyps(3,4)]
  have wf: "session_wf s" using client_commit.hyps(2,5) cs by (simp add: session_wf_def NONCE_LEN_def)
  have tr: "tr = transcript_of s" "hub_key s = hub_pk" "peer_key s = identity_pubkey i"
    using client_commit.hyps(5) cs by (simp_all add: transcript_of_def)
  have "s \<in> n_hub_runs \<sigma>" if "hub_pk \<in> honest party"
  proof -
    from client_commit.hyps(6) [OF that] client_commit.prems consider
      (hub) t where "t \<in> n_hub_runs \<sigma>" "tr = transcript_of t"
    | (client) t where "t \<in> n_client_commits \<sigma>" "tr = transcript_of t"
      unfolding net_inv_def by fastforce
    then show ?thesis
    proof cases
      case hub
      with wf tr(1) client_commit.prems have "t = s"
        by (intro transcript_of_inject) (auto simp: net_inv_def)
      with hub show ?thesis by simp
    next
      case client
      with wf tr(1) client_commit.prems have "t = s"
        by (intro transcript_of_inject) (auto simp: net_inv_def)
      with client client_commit.prems that tr(2) show ?thesis by (auto simp: net_inv_def)
    qed
  qed
  with client_commit.prems wf tr show ?case by (auto simp: net_inv_def)
next
  case (hub_commit i vault_id name cert_fp rng authorized k h pk k' h' k1 n op s \<sigma>)
  have wf: "session_wf s" using hub_commit.hyps(7) hub_commit.prems by (auto simp: net_inv_def)
  have keys: "hub_key s = identity_pubkey i" "peer_key s = pk" using hub_commit.hyps(6) by simp_all
  have "s \<in> n_client_commits \<sigma>" if "pk \<in> honest party" "pk \<noteq> identity_pubkey i"
  proof -
    from hub_commit.hyps(8) [OF that(1)] hub_commit.prems consider
      (hub) t where "t \<in> n_hub_runs \<sigma>" "transcript_of s = transcript_of t" "hub_key t = pk"
    | (client) t where "t \<in> n_client_commits \<sigma>" "transcript_of s = transcript_of t"
      unfolding net_inv_def by fastforce
    then show ?thesis
    proof cases
      case hub
      with wf hub_commit.prems have "s = t"
        by (intro transcript_of_inject) (auto simp: net_inv_def)
      with hub(3) keys that(2) show ?thesis by simp
    next
      case client
      with wf hub_commit.prems have "s = t"
        by (intro transcript_of_inject) (auto simp: net_inv_def)
      with client show ?thesis by simp
    qed
  qed
  with hub_commit.prems wf keys show ?case by (auto simp: net_inv_def)
qed

lemma net_reachable_inv: "net_reachable fc c agent party \<sigma> \<Longrightarrow> net_inv (honest party) \<sigma>"
proof (induction rule: net_reachable.induct)
  case start
  show ?case by (simp add: net_inv_def net_start_def)
next
  case (step \<sigma> \<tau>)
  from net_step_inv [OF step.hyps(2) step.IH] show ?case .
qed

end
