(* ===== verification/Ingest.thy ===== *)
theory Ingest
  imports Materialize
begin

text \<open>
  \<^verbatim>\<open>crates/agentsync-core/src/fs/ingest.rs\<close> and the event loop of \<^verbatim>\<open>vault.rs\<close>: what a change on
  the bound disk does to the document. The lemmas run the ingestion of a file on a sound
  document, and show that no removal on disk takes the authorised keys out of the vault.
\<close>

section \<open>Files\<close>

definition check_dirty :: "(nat \<Rightarrow> nat) \<Rightarrow> string \<Rightarrow> string \<Rightarrow> (('d, 'y, 'g) bound, bool) action" where
  "check_dirty clock path hash = (\<lambda>(v, b).
     case dirty_check_and_consume (clock (d_calls (va_disk v))) path hash (bd_dirty b) of
       (echo, m) \<Rightarrow> (Ok echo, v, b\<lparr>bd_dirty := m\<rparr>))"

definition record_content :: "string \<Rightarrow> string \<Rightarrow> (('d, 'y, 'g) bound, unit) action" where
  "record_content path hash = andthen (set_materialized path hash) (\<lambda>_. set_ingested path hash)"

definition ingest_attachment ::
    "('d, 'o, 'y) automerge \<Rightarrow> crypto \<Rightarrow> (string \<Rightarrow> string) \<Rightarrow> string \<Rightarrow> byte list \<Rightarrow>
     (('d, 'y, 'g) bound, unit) action" where
  "ingest_attachment am c nfc path bytes =
     andthen (\<lambda>(v, b). with_vault (on_disk (blob_put c (va_storage_path v) bytes)) (v, b)) (\<lambda>h.
     andthen (with_vault (edit_doc (write_attachment am nfc path h (int (length bytes))))) (\<lambda>_.
     andthen (with_vault (send_event (FileChanged path))) (\<lambda>_.
     record_content path h)))"

definition ingest_text ::
    "('d, 'o, 'y) automerge \<Rightarrow> (string \<Rightarrow> string) \<Rightarrow> string \<Rightarrow> string \<Rightarrow> string \<Rightarrow>
     (('d, 'y, 'g) bound, unit) action" where
  "ingest_text am nfc path hash s =
     andthen (with_vault (on_doc (attempt (read_file am nfc path)))) (\<lambda>cur.
     if cur = Inr s then record_content path hash
     else
       andthen (with_vault (vault_write_text_file am nfc path s)) (\<lambda>_. record_content path hash))"

definition ingest_bytes ::
    "('d, 'o, 'y) automerge \<Rightarrow> crypto \<Rightarrow> (string \<Rightarrow> string) \<Rightarrow> (nat \<Rightarrow> nat) \<Rightarrow> string \<Rightarrow> byte list \<Rightarrow>
     (('d, 'y, 'g) bound, unit) action" where
  "ingest_bytes am c nfc clock path bytes =
     andthen the_binding (\<lambda>b.
     if over_size b path (length bytes) then ret ()
     else
       let hash = content_hash c bytes in
       andthen (check_dirty clock path hash) (\<lambda>echo.
       if echo then ret ()
       else if is_text_extension b path
       then (case from_utf8 bytes of
           Some s \<Rightarrow> ingest_text am nfc path hash s
         | None \<Rightarrow> ingest_attachment am c nfc path bytes)
       else ingest_attachment am c nfc path bytes))"

text \<open>
  An empty file is read again after a pause when the document has content for it; \<open>settle\<close> is
  what the rest of the system does to the disk during the pause.
\<close>

definition ingest_file ::
    "('d, 'o, 'y) automerge \<Rightarrow> crypto \<Rightarrow> (string \<Rightarrow> string) \<Rightarrow> (nat \<Rightarrow> nat) \<Rightarrow> (disk \<Rightarrow> disk) \<Rightarrow> string \<Rightarrow>
     (('d, 'y, 'g) bound, unit) action" where
  "ingest_file am c nfc clock settle path =
     andthen the_binding (\<lambda>b.
     let p = vault_path_to_fs_path b path in
     andthen (with_vault (on_disk (attempt (adapter_read p)))) (\<lambda>r.
     case r of
       Inl _ \<Rightarrow> ret ()
     | Inr bytes \<Rightarrow>
         if bytes = []
         then
           andthen (with_vault (on_doc (attempt (read_file am nfc path)))) (\<lambda>cur.
           if (case cur of Inr s \<Rightarrow> s \<noteq> [] | Inl _ \<Rightarrow> False)
           then
             andthen (with_vault (on_disk (\<lambda>d. (Ok (), settle d)))) (\<lambda>_.
             andthen (with_vault (on_disk (attempt (adapter_read p)))) (\<lambda>r.
             case r of Inl _ \<Rightarrow> ret () | Inr bytes \<Rightarrow> ingest_bytes am c nfc clock path bytes))
           else ingest_bytes am c nfc clock path bytes)
         else ingest_bytes am c nfc clock path bytes))"

section \<open>Directories\<close>

text \<open>True when the directory was not in the document yet.\<close>

definition ingest_one_directory ::
    "('d, 'o, 'y) automerge \<Rightarrow> (string \<Rightarrow> string) \<Rightarrow> string \<Rightarrow> (('d, 'y, 'g) bound, bool) action" where
  "ingest_one_directory am nfc p =
     andthen (with_vault (on_doc (find_directory_by_path am nfc p))) (\<lambda>found.
     andthen (if found = None then andthen (with_vault (on_doc (create_directory am nfc p))) (\<lambda>_. ret True)
              else ret False) (\<lambda>made.
     andthen (with_binding (\<lambda>b. b\<lparr>bd_materialized_dirs := List.insert p (bd_materialized_dirs b)\<rparr>)) (\<lambda>_.
     ret made)))"

definition ingest_directory ::
    "('d, 'o, 'y) automerge \<Rightarrow> crypto \<Rightarrow> (string \<Rightarrow> string) \<Rightarrow> 'g gitignore \<Rightarrow> walk \<Rightarrow> (nat \<Rightarrow> nat) \<Rightarrow>
     (disk \<Rightarrow> disk) \<Rightarrow> string \<Rightarrow> (('d, 'y, 'g) bound, unit) action" where
  "ingest_directory am c nfc gi wk clock settle vault_path =
     andthen the_binding (\<lambda>b.
     andthen (\<lambda>(v, b). (Ok (d_nodes (va_disk v)), v, b)) (\<lambda>nodes.
     andthen (collect (wk nodes (vault_path_to_fs_path b vault_path)) (\<lambda>entry.
         case node_at_path nodes entry of
           Some DDir \<Rightarrow>
             andthen the_binding (\<lambda>b.
             case fs_path_to_vault_dir_path nfc gi b entry of
               None \<Rightarrow> ret None
             | Some p \<Rightarrow> andthen (ingest_one_directory am nfc p) (\<lambda>made. ret (if made then Some () else None)))
         | Some (DFile _ _) \<Rightarrow>
             andthen the_binding (\<lambda>b.
             case fs_path_to_vault_path nfc gi b entry of
               None \<Rightarrow> ret None
             | Some p \<Rightarrow> andthen (ingest_file am c nfc clock settle p) (\<lambda>_. ret None))
         | None \<Rightarrow> ret None)) (\<lambda>changed.
     if changed \<noteq> []
     then andthen (with_vault notify_doc_changed) (\<lambda>_. with_vault (send_event (FileChanged vault_path)))
     else ret ())))"

definition initial_scan ::
    "('d, 'o, 'y) automerge \<Rightarrow> crypto \<Rightarrow> (string \<Rightarrow> string) \<Rightarrow> 'g gitignore \<Rightarrow> walk \<Rightarrow> (nat \<Rightarrow> nat) \<Rightarrow>
     (disk \<Rightarrow> disk) \<Rightarrow> (('d, 'y, 'g) bound, unit) action" where
  "initial_scan am c nfc gi wk clock settle =
     andthen the_binding (\<lambda>b.
     andthen (\<lambda>(v, b). (Ok (d_nodes (va_disk v)), v, b)) (\<lambda>nodes.
     foreach (wk nodes (bd_root b)) (\<lambda>entry.
       case node_at_path nodes entry of
         Some DDir \<Rightarrow>
           if entry = bd_root b then ret ()
           else andthen the_binding (\<lambda>b.
             case fs_path_to_vault_dir_path nfc gi b entry of
               None \<Rightarrow> ret ()
             | Some p \<Rightarrow> ingest_directory am c nfc gi wk clock settle p)
       | Some (DFile _ _) \<Rightarrow>
           andthen the_binding (\<lambda>b.
           case fs_path_to_vault_path nfc gi b entry of
             None \<Rightarrow> ret ()
           | Some p \<Rightarrow> ingest_file am c nfc clock settle p)
       | None \<Rightarrow> ret ())))"

section \<open>Events\<close>

text \<open>\<^verbatim>\<open>tokio::fs::metadata(p)\<close>, as whether it is a directory.\<close>

definition fs_is_dir :: "fpath \<Rightarrow> (disk, bool) action" where
  "fs_is_dir p d =
     (if faulty d then (Err io_fault, tick d)
      else case node_at_path (d_nodes d) p of
        None \<Rightarrow> (Err io_not_found, tick d)
      | Some DDir \<Rightarrow> (Ok True, tick d)
      | Some (DFile _ _) \<Rightarrow> (Ok False, tick d))"

definition touched ::
    "('d, 'o, 'y) automerge \<Rightarrow> crypto \<Rightarrow> (string \<Rightarrow> string) \<Rightarrow> 'g gitignore \<Rightarrow> walk \<Rightarrow> (nat \<Rightarrow> nat) \<Rightarrow>
     (disk \<Rightarrow> disk) \<Rightarrow> fpath \<Rightarrow> (('d, 'y, 'g) bound, unit) action" where
  "touched am c nfc gi wk clock settle p =
     andthen (with_vault (on_disk (attempt (fs_is_dir p)))) (\<lambda>r.
     andthen the_binding (\<lambda>b.
     case r of
       Inl _ \<Rightarrow> ret ()
     | Inr True \<Rightarrow> (case fs_path_to_vault_dir_path nfc gi b p of
           None \<Rightarrow> ret () | Some q \<Rightarrow> ingest_directory am c nfc gi wk clock settle q)
     | Inr False \<Rightarrow> (case fs_path_to_vault_path nfc gi b p of
           None \<Rightarrow> ret () | Some q \<Rightarrow> ingest_file am c nfc clock settle q)))"

definition doc_file_exists ::
    "('d, 'o, 'y) automerge \<Rightarrow> (string \<Rightarrow> string) \<Rightarrow> string \<Rightarrow> (('d, 'y, 'g) bound, bool) action" where
  "doc_file_exists am nfc p = with_vault (\<lambda>v. case vault_file_exists am nfc p v of (r, v') \<Rightarrow> (Ok r, v'))"

definition removed_directory ::
    "('d, 'o, 'y) automerge \<Rightarrow> (string \<Rightarrow> string) \<Rightarrow> 'g gitignore \<Rightarrow> fpath \<Rightarrow> (('d, 'y, 'g) bound, unit) action" where
  "removed_directory am nfc gi p =
     andthen the_binding (\<lambda>b.
     case fs_path_to_vault_dir_path nfc gi b p of
       None \<Rightarrow> ret ()
     | Some q \<Rightarrow>
         andthen (with_vault (on_doc (find_directory_by_path am nfc q))) (\<lambda>found.
         if found = None then ret ()
         else
           andthen (with_vault (edit_doc (delete_directory am nfc q True))) (\<lambda>_.
           andthen (with_binding (\<lambda>b. b\<lparr>bd_materialized_dirs := removeAll q (bd_materialized_dirs b)\<rparr>)) (\<lambda>_.
           with_vault (send_event (FileChanged q))))))"

definition removed ::
    "('d, 'o, 'y) automerge \<Rightarrow> (string \<Rightarrow> string) \<Rightarrow> 'g gitignore \<Rightarrow> fpath \<Rightarrow> (('d, 'y, 'g) bound, unit) action" where
  "removed am nfc gi p =
     andthen (with_vault (on_disk (adapter_exists p))) (\<lambda>present.
     if present then ret ()
     else
       andthen the_binding (\<lambda>b.
       case fs_path_to_vault_path nfc gi b p of
         None \<Rightarrow> removed_directory am nfc gi p
       | Some q \<Rightarrow>
           if q = AUTHORIZED_KEYS_FILE then ret ()
           else
             andthen (doc_file_exists am nfc q) (\<lambda>live.
             if live then with_vault (vault_delete_file am nfc q)
             else removed_directory am nfc gi p)))"

definition renamed ::
    "('d, 'o, 'y) automerge \<Rightarrow> crypto \<Rightarrow> (string \<Rightarrow> string) \<Rightarrow> 'g gitignore \<Rightarrow> (nat \<Rightarrow> nat) \<Rightarrow> (disk \<Rightarrow> disk) \<Rightarrow>
     fpath \<Rightarrow> fpath \<Rightarrow> (('d, 'y, 'g) bound, unit) action" where
  "renamed am c nfc gi clock settle from_p to_p =
     andthen the_binding (\<lambda>b.
     case (fs_path_to_vault_path nfc gi b from_p, fs_path_to_vault_path nfc gi b to_p) of
       (Some f, Some t) \<Rightarrow>
         andthen (doc_file_exists am nfc f) (\<lambda>has_from.
         if \<not> has_from then ret ()
         else
           andthen (doc_file_exists am nfc t) (\<lambda>has_to.
           if has_to then ret () else with_vault (vault_rename_file am nfc f t)))
     | (Some f, None) \<Rightarrow>
         if f = AUTHORIZED_KEYS_FILE then ret ()
         else
           andthen (doc_file_exists am nfc f) (\<lambda>live.
           if live then with_vault (edit_doc (delete_file am nfc f)) else ret ())
     | (None, Some t) \<Rightarrow> ingest_file am c nfc clock settle t
     | (None, None) \<Rightarrow> ret ())"

fun dispatch_fs_event ::
    "('d, 'o, 'y) automerge \<Rightarrow> crypto \<Rightarrow> (string \<Rightarrow> string) \<Rightarrow> 'g gitignore \<Rightarrow> walk \<Rightarrow> (nat \<Rightarrow> nat) \<Rightarrow>
     (disk \<Rightarrow> disk) \<Rightarrow> fs_event \<Rightarrow> (('d, 'y, 'g) bound, unit) action" where
  "dispatch_fs_event am c nfc gi wk clock settle (Touched p) = touched am c nfc gi wk clock settle p"
| "dispatch_fs_event am c nfc gi wk clock settle (Removed p) = removed am nfc gi p"
| "dispatch_fs_event am c nfc gi wk clock settle (Renamed p q) = renamed am c nfc gi clock settle p q"

definition is_syncignore :: "fpath \<Rightarrow> bool" where
  "is_syncignore p \<longleftrightarrow> p \<noteq> [] \<and> last p = SYNC_IGNORE_FILENAME"

fun touches_syncignore :: "fs_event \<Rightarrow> bool" where
  "touches_syncignore (Touched p) = is_syncignore p"
| "touches_syncignore (Removed p) = is_syncignore p"
| "touches_syncignore (Renamed p q) = (is_syncignore p \<or> is_syncignore q)"

definition reload_ignores :: "'g gitignore \<Rightarrow> walk \<Rightarrow> (('d, 'y, 'g) bound, unit) action" where
  "reload_ignores gi wk = (\<lambda>(v, b).
     case rebuild_sync_ignore gi wk b (va_disk v) of
       (Inl e, d) \<Rightarrow> (Inl e, v\<lparr>va_disk := d\<rparr>, b)
     | (Inr b', d) \<Rightarrow> (Inr (), v\<lparr>va_disk := d\<rparr>, b'))"

definition handle_fs_event ::
    "('d, 'o, 'y) automerge \<Rightarrow> crypto \<Rightarrow> (string \<Rightarrow> string) \<Rightarrow> 'g gitignore \<Rightarrow> walk \<Rightarrow> (nat \<Rightarrow> nat) \<Rightarrow>
     (disk \<Rightarrow> disk) \<Rightarrow> fs_event \<Rightarrow> (('d, 'y, 'g) bound, unit) action" where
  "handle_fs_event am c nfc gi wk clock settle event =
     andthen (if touches_syncignore event then reload_ignores gi wk else ret ()) (\<lambda>_.
     andthen (attempt (dispatch_fs_event am c nfc gi wk clock settle event)) (\<lambda>dispatch.
     andthen (if touches_syncignore event then initial_scan am c nfc gi wk clock settle else ret ()) (\<lambda>_.
     lift dispatch)))"

section \<open>Debouncing\<close>

text \<open>The pending events, by path, with the instant at which each is due.\<close>

type_synonym pending = "(fpath \<times> fs_event \<times> nat) list"

definition FS_DEBOUNCE :: nat where "FS_DEBOUNCE = 150"

fun event_path :: "fs_event \<Rightarrow> fpath" where
  "event_path (Touched p) = p"
| "event_path (Removed p) = p"
| "event_path (Renamed p q) = q"

definition enqueue_event :: "nat \<Rightarrow> fs_event \<Rightarrow> pending \<Rightarrow> pending" where
  "enqueue_event now ev pending = AList.update (event_path ev) (ev, now + FS_DEBOUNCE) pending"

definition flush_expired ::
    "(fs_event \<Rightarrow> (('d, 'y, 'g) bound, unit) action) \<Rightarrow> (fpath list \<Rightarrow> fpath list) \<Rightarrow> nat \<Rightarrow> bool \<Rightarrow> pending \<Rightarrow>
     ('d, 'y, 'g) bound \<Rightarrow> pending \<times> ('d, 'y, 'g) bound" where
  "flush_expired handle order now force_all pending s =
     (let expired = order (map fst (filter (\<lambda>(_, _, t). force_all \<or> t \<le> now) pending)) in
      fold (\<lambda>p (pending, s). case map_of pending p of
          None \<Rightarrow> (pending, s)
        | Some (ev, _) \<Rightarrow> (AList.delete p pending, snd (handle ev s))) expired (pending, s))"

section \<open>Ingesting a file\<close>

lemma record_run: "record_content path hash (v, b) =
    (Ok (), v, b\<lparr>bd_materialized := AList.update path hash (bd_materialized b),
                 bd_last_ingested := AList.update path hash (bd_last_ingested b)\<rparr>)"
  by (simp add: record_content_def set_materialized_def set_ingested_def with_binding_def andthen_run)

lemma vault_doc_update [simp]: "s\<lparr>va_doc := va_doc s\<rparr> = s"
  by simp

context automerge_doc
begin

text \<open>Reading a file returns its text when the entry has one, whatever its kind says.\<close>

lemma read_file_entry:
  assumes "displays tree s v" "vault_ok v" "normalize nfc p = Ok q" "(q, fid, b) \<in> live_files v"
    and "v_files v fid = Some n"
  shows "read_file am nfc p s = (case text_of (branch_of n) ''content'' of
      Some t \<Rightarrow> Ok t | None \<Rightarrow> Err (Other (''file is not a text file: '' @ q)), s)"
proof -
  obtain n' where n: "find_file_by_path_normalized am q s = (Ok (Some fid), s)"
    "v_files v fid = Some n'" "entry_wf n'"
    by (rule find_live_run [OF assms(1,2,4)])
  obtain e where em: "n' = Branch e" "node_at (tree (inner s)) [''files'', fid] = Some (Branch e)"
    "get_object am (oid (inner s) [''files'']) fid s = (Ok (Some (oid (inner s) [''files'', fid])), s)"
    by (rule entry_run [OF assms(1) n(2,3)])
  have "n' = n" using n(2) assms(5) by simp
  then show ?thesis
    using get_text_run [OF em(2), of "''content''"] em(1)
    by (auto simp: read_file_def andthen_run lift_run assms(3) n(1) objs_run [OF assms(1)] em(3) ret_run fail_run
        split: option.splits)
qed

lemma read_file_keeps:
  assumes "displays tree s v" "vault_ok v" "normalize nfc p = Ok q"
  shows "snd (read_file am nfc p s) = s"
proof (cases "has_file v q")
  case True
  then obtain fid b n where "(q, fid, b) \<in> live_files v" "v_files v fid = Some n"
    by (auto simp: has_file_def live_files_def)
  from read_file_entry [OF assms this] show ?thesis by simp
next
  case False
  with read_file_run(2) [OF assms] show ?thesis by simp
qed

text \<open>
  Taking in a text: the document has it afterwards, and the binding remembers it. A text that is
  there already is not written again.
\<close>

lemma ingest_text_run:
  assumes "sound tree (va_doc v) w" "normalize nfc path = Ok path"
  obtains (unchanged) "fst (read_file am nfc path (va_doc v)) = Ok s"
      "ingest_text am nfc path hash s (v, b) = record_content path hash (v, b)"
  | (written) fid d w' where "fst (read_file am nfc path (va_doc v)) \<noteq> Ok s"
      "write_text_file am nfc path s (va_doc v) = (Ok fid, d)" "sound tree d w'"
      "file_written w path fid (TextBody s) w'"
      "ingest_text am nfc path hash s (v, b) = record_content path hash
         (v\<lparr>va_doc := d, va_doc_changed := Suc (va_doc_changed v), va_events := va_events v @ [FileChanged path]\<rparr>, b)"
proof -
  note k = read_file_keeps [OF soundD(1,2) [OF assms(1)] assms(2)]
  have cur: "with_vault (on_doc (attempt (read_file am nfc path))) (v, b) =
      (Ok (fst (read_file am nfc path (va_doc v))), v, b)"
    using k by (cases "read_file am nfc path (va_doc v)") (simp add: with_vault_def on_doc_def attempt_run)
  show thesis
  proof (cases "fst (read_file am nfc path (va_doc v)) = Ok s")
    case True
    with cur show thesis by (intro unchanged) (simp_all add: ingest_text_def andthen_run)
  next
    case False
    obtain fid d w' where wr: "write_text_file am nfc path s (va_doc v) = (Ok fid, d)" "sound tree d w'"
      "file_written w path fid (TextBody s) w'"
      by (rule write_text_run [OF assms])
    from cur False vault_write_run [OF wr(1)] show thesis
      by (intro written [OF False wr]) (simp add: ingest_text_def andthen_run with_vault_def)
  qed
qed

end

text \<open>A file that is not too big and no echo of the program's own write reaches \<open>ingest_text\<close>.\<close>

lemma ingest_bytes_text:
  assumes "\<not> over_size b path (length bytes)" "is_text_extension b path" "from_utf8 bytes = Some s"
    and "dirty_check_and_consume (clock (d_calls (va_disk v))) path (content_hash c bytes) (bd_dirty b) = (False, m)"
  shows "ingest_bytes am c nfc clock path bytes (v, b) =
    ingest_text am nfc path (content_hash c bytes) s (v, b\<lparr>bd_dirty := m\<rparr>)"
  using assms
  by (simp add: ingest_bytes_def andthen_run the_binding_def check_dirty_def Let_def)

lemma ingest_file_bytes:
  assumes "quiet (va_disk v)" "file_at (va_disk v) (vault_path_to_fs_path b path) = Some bytes" "bytes \<noteq> []"
  shows "ingest_file am c nfc clock settle path (v, b) =
    ingest_bytes am c nfc clock path bytes (v\<lparr>va_disk := tick (va_disk v)\<rparr>, b)"
  using assms
  by (auto simp: ingest_file_def andthen_run the_binding_def with_vault_def on_disk_def attempt_run
      adapter_read_def fs_read_def file_at_def quiet_def Let_def split: option.splits file_node.splits)

section \<open>The authorised keys stay\<close>

lemma not_under_keys:
  assumes "q \<noteq> []" "q \<noteq> AUTHORIZED_KEYS_FILE"
  shows "\<not> under q AUTHORIZED_KEYS_FILE"
proof
  assume "under q AUTHORIZED_KEYS_FILE"
  with assms have "length q < length AUTHORIZED_KEYS_FILE" "AUTHORIZED_KEYS_FILE ! length q = CHR ''/''"
    by (auto simp: under_def)
  then have "CHR ''/'' \<in> set AUTHORIZED_KEYS_FILE" by (metis nth_mem)
  then show False by (simp add: AUTHORIZED_KEYS_FILE_def)
qed

lemma keys_allowed: "path_allowed gi b AUTHORIZED_KEYS_FILE"
proof -
  have "\<not> always_excluded AUTHORIZED_KEYS_FILE" by code_simp
  then show ?thesis by (simp add: path_allowed_def)
qed

text \<open>What the two translations say of one path.\<close>

lemma dir_path_name:
  assumes "fs_path_to_vault_dir_path nfc gi b p = Some q"
  shows "normalize nfc (the (relative_name (bd_root b) p)) = Ok q"
    "fs_path_to_vault_path nfc gi b p = (if path_allowed gi b q then Some q else None)"
  using assms
  by (auto simp: fs_path_to_vault_dir_path_def fs_path_to_vault_path_def split: option.splits sum.splits if_splits)

lemma file_path_name:
  assumes "fs_path_to_vault_path nfc gi b p = Some q"
  shows "normalize nfc (the (relative_name (bd_root b) p)) = Ok q"
  using assms by (auto simp: fs_path_to_vault_path_def split: option.splits sum.splits if_splits)

definition keys_files :: "view \<Rightarrow> (string \<times> string \<times> body) set" where
  "keys_files w = {x \<in> live_files w. fst x = AUTHORIZED_KEYS_FILE}"

context automerge_doc
begin

lemma doc_file_exists_run:
  assumes "sound tree (va_doc v) w" "normalize nfc q = Ok q"
  shows "\<exists>x. doc_file_exists am nfc q (v, b) = (Ok x, v, b) \<and> (x \<longrightarrow> has_file w q)"
proof -
  obtain r where r: "find_file_by_path_normalized am q (va_doc v) = (Ok r, va_doc v)"
    "\<forall>fid. r = Some fid \<longrightarrow> (\<exists>n. v_files w fid = Some n \<and> live_path n = Some q)"
    by (rule find_file_run [OF soundD(1) [OF assms(1)] vault_ok_entries [OF soundD(2) [OF assms(1)]]])
  then have "file_exists am nfc q (va_doc v) = (r \<noteq> None, va_doc v)"
    by (simp add: file_exists_def find_file_by_path_def andthen_run lift_run assms(2))
  moreover have "r \<noteq> None \<Longrightarrow> has_file w q" using r(2) by (auto simp: has_file_def live_files_def)
  ultimately show ?thesis by (simp add: doc_file_exists_def with_vault_def vault_file_exists_def)
qed

lemma removed_directory_keeps:
  assumes "unicode_nfc nfc" "sound tree (va_doc v) w" "normal_paths nfc w"
    and "\<And>q. fs_path_to_vault_dir_path nfc gi b p = Some q \<Longrightarrow> q \<noteq> AUTHORIZED_KEYS_FILE"
    and "removed_directory am nfc gi p (v, b) = (r, v', b')"
  shows "r = Ok () \<and> (\<exists>w'. sound tree (va_doc v') w' \<and> keys_files w' = keys_files w)"
proof (cases "fs_path_to_vault_dir_path nfc gi b p")
  case None
  with assms(2,5) show ?thesis by (auto simp: removed_directory_def andthen_run the_binding_def ret_run)
next
  case (Some q)
  note q = assms(4) [OF Some] and good = conjunct1 [OF vault_path_good(2) [OF Some]]
  have nq: "normalize nfc q = Ok q"
    using unicode_nfc.normalize_again [OF assms(1) dir_path_name(1) [OF Some]] .
  obtain x where x: "find_directory_by_path_normalized am q (va_doc v) = (Ok x, va_doc v)"
    by (rule find_dir_run [OF soundD(1) [OF assms(2)] vault_ok_dirs [OF soundD(2) [OF assms(2)]]])
  then have f: "with_vault (on_doc (find_directory_by_path am nfc q)) (v, b) = (Ok x, v, b)"
    by (simp add: with_vault_def on_doc_def find_directory_by_path_def andthen_run lift_run nq)
  show ?thesis
  proof (cases "x = None")
    case True
    with assms(2,5) Some f show ?thesis
      by (auto simp: removed_directory_def andthen_run the_binding_def ret_run)
  next
    case False
    obtain t w' where d: "delete_directory am nfc q True (va_doc v) = (Ok (), t)" "sound tree t w'"
      "tree_deleted w q w'"
      by (rule delete_directory_run [OF assms(2,3) nq])
    have "keys_files w' = keys_files w"
      using d(3) not_under_keys [OF good_path_ne [OF good] q] by (auto simp: tree_deleted_def keys_files_def)
    with d(2) have keep: "\<exists>w'. sound tree t w' \<and> keys_files w' = keys_files w" by blast
    from assms(5) Some f False d(1) have "r = Ok ()" "va_doc v' = t"
      by (auto simp: removed_directory_def andthen_run the_binding_def with_vault_def edit_doc_run with_binding_def
          send_event_def)
    with keep show ?thesis by simp
  qed
qed

lemma removed_keeps_keys:
  assumes "unicode_nfc nfc" "sound tree (va_doc v) w" "normal_paths nfc w"
    and "removed am nfc gi p (v, b) = (r, v', b')"
  shows "r = Ok () \<and> (\<exists>w'. sound tree (va_doc v') w' \<and> keys_files w' = keys_files w)"
proof -
  obtain x d where x: "adapter_exists p (va_disk v) = (Ok x, d)"
    by (auto simp: adapter_exists_def fs_exists_def)
  let ?v = "v\<lparr>va_disk := d\<rparr>"
  have dir: ?thesis if run: "removed_directory am nfc gi p (?v, b) = (r, v', b')"
    and ne: "fs_path_to_vault_path nfc gi b p \<noteq> Some AUTHORIZED_KEYS_FILE"
  proof (rule removed_directory_keeps [OF assms(1) _ assms(3) _ run])
    show "sound tree (va_doc ?v) w" using assms(2) by simp
    show "q \<noteq> AUTHORIZED_KEYS_FILE" if "fs_path_to_vault_dir_path nfc gi b p = Some q" for q
      using dir_path_name(2) [OF that] ne keys_allowed [of gi b] by auto
  qed
  show ?thesis
  proof (cases "fs_path_to_vault_path nfc gi b p")
    case None
    with assms(2,4) x dir show ?thesis
      by (auto simp: removed_def andthen_run with_vault_def on_disk_def the_binding_def ret_run split: if_splits)
  next
    case (Some q)
    have nq: "normalize nfc q = Ok q"
      using unicode_nfc.normalize_again [OF assms(1) file_path_name [OF Some]] .
    obtain y where y: "doc_file_exists am nfc q (?v, b) = (Ok y, ?v, b)" "y \<longrightarrow> has_file w q"
      using doc_file_exists_run [OF _ nq, of ?v w b] assms(2) by auto
    show ?thesis
    proof (cases "x \<or> q = AUTHORIZED_KEYS_FILE")
      case True
      with assms(4) x Some have "r = Ok ()" "va_doc v' = va_doc v"
        by (auto simp: removed_def andthen_run with_vault_def on_disk_def the_binding_def ret_run split: if_splits)
      with assms(2) show ?thesis by auto
    next
      case False
      then have step: "(if y then with_vault (vault_delete_file am nfc q) else removed_directory am nfc gi p) (?v, b) =
          (r, v', b')"
        using assms(4) x Some y(1) by (simp add: removed_def andthen_run with_vault_def on_disk_def the_binding_def)
      show ?thesis
      proof (cases y)
        case True
        obtain t w' where d: "delete_file am nfc q (va_doc v) = (Ok (), t)" "sound tree t w'" "file_deleted w q w'"
          by (rule delete_file_run [OF assms(2) nq]) (use True y(2) in auto)
        have "keys_files w' = keys_files w" using d(3) False by (auto simp: file_deleted_def keys_files_def)
        with d(2) have keep: "\<exists>w'. sound tree t w' \<and> keys_files w' = keys_files w" by blast
        from step True d(1) have "r = Ok ()" "va_doc v' = t"
          by (auto simp: with_vault_def vault_delete_file_def andthen_run edit_doc_run send_event_def)
        with keep show ?thesis by simp
      next
        case nf: False
        with step dir Some False show ?thesis by simp
      qed
    qed
  qed
qed

end

end
