(* ===== verification/PeerHub.thy ===== *)
theory PeerHub
  imports Vault Handshake
begin

text \<open>
  \<^verbatim>\<open>trait SyncHandle\<close> of \<^verbatim>\<open>vault.rs\<close>, what a network session asks of a vault, and its
  implementation \<^verbatim>\<open>VaultSyncHandle\<close>. The trait is a record of operations; what the sessions rely
  on is the locale \<open>sync_hub\<close>, which the vault satisfies.
\<close>

section \<open>The trait\<close>

record 's sync_handle =
  sh_register :: "nat \<Rightarrow> pubkey option \<Rightarrow> ('s, 64 word) action"
  sh_unregister :: "64 word \<Rightarrow> 's \<Rightarrow> 's"
  sh_generate :: "64 word \<Rightarrow> ('s, byte list option) action"
  sh_receive :: "64 word \<Rightarrow> byte list \<Rightarrow> ('s, unit) action"
  sh_read_blob :: "string \<Rightarrow> ('s, byte list) action"
  sh_write_blob :: "string \<Rightarrow> byte list \<Rightarrow> ('s, unit) action"
  sh_authorized_pubkeys :: "'s \<Rightarrow> pubkey list \<times> 's"
  sh_authorized_peers :: "'s \<Rightarrow> authorized_peer list \<times> 's"
  sh_disconnect_unauthorized :: "pubkey list \<Rightarrow> 's \<Rightarrow> 's"

text \<open>The default of \<^verbatim>\<open>authorized_peers\<close>.\<close>

definition default_authorized_peers :: "('s \<Rightarrow> pubkey list \<times> 's) \<Rightarrow> 's \<Rightarrow> authorized_peer list \<times> 's" where
  "default_authorized_peers authorized_pubkeys s =
     (case authorized_pubkeys s of (pks, t) \<Rightarrow> (map (\<lambda>pk. \<lparr>ap_pubkey = pk, ap_label = []\<rparr>) pks, t))"

text \<open>
  \<open>slots\<close> shows the registered peers with their keys, and \<open>given\<close> the ids that have ever been
  handed out: an id is new as long as the 64-bit counter has not wrapped.
\<close>

locale sync_hub =
  fixes sh :: "'s sync_handle"
    and slots :: "'s \<Rightarrow> 64 word \<rightharpoonup> pubkey option"
    and given :: "'s \<Rightarrow> 64 word set"
  assumes register_law: "dom (slots s) \<subseteq> given s \<Longrightarrow> given s \<noteq> UNIV \<Longrightarrow>
      \<exists>i t. sh_register sh out pk s = (Ok i, t) \<and> i \<notin> given s \<and> slots t = (slots s)(i \<mapsto> pk) \<and>
        given t = insert i (given s)"
    and unregister_law: "slots (sh_unregister sh i s) = (slots s)(i := None)"
    and generate_law: "\<exists>r t. sh_generate sh i s = (Ok r, t) \<and> slots t = slots s"
    and generate_absent: "slots s i = None \<Longrightarrow> sh_generate sh i s = (Ok None, s)"
    and receive_law: "sh_receive sh i bs s = (r', t) \<Longrightarrow> slots t = slots s"
    and receive_absent: "slots s i = None \<Longrightarrow> snd (sh_receive sh i bs s) = s"
    and read_blob_law: "sh_read_blob sh h s = (b, t) \<Longrightarrow> slots t = slots s"
    and write_blob_law: "sh_write_blob sh h bs s = (r', t) \<Longrightarrow> slots t = slots s"
    and authorized_law: "sh_authorized_pubkeys sh s = (pks, t) \<Longrightarrow> slots t = slots s"
    and authorized_peers_law: "sh_authorized_peers sh s = (ps, t) \<Longrightarrow> slots t = slots s"
    and disconnect_law: "slots (sh_disconnect_unauthorized sh pks s) =
      (\<lambda>i. case slots s i of Some (Some pk) \<Rightarrow> if pk \<in> set pks then Some (Some pk) else None | x \<Rightarrow> x)"
    and given_law: "sh_unregister sh i s = t \<or> sh_generate sh i s = (r, t) \<or> sh_receive sh i bs s = (r', t) \<or>
      sh_read_blob sh h s = (b, t) \<or> sh_write_blob sh h bs s = (r', t) \<or> sh_authorized_pubkeys sh s = (pks, t) \<or>
      sh_authorized_peers sh s = (ps, t) \<or> sh_disconnect_unauthorized sh pks s = t \<Longrightarrow> given t = given s"

section \<open>The vault\<close>

definition vsh_register_peer :: "('d, 'o, 'y) automerge \<Rightarrow> nat \<Rightarrow> pubkey option \<Rightarrow> (('d, 'y, 'g) vault, 64 word) action" where
  "vsh_register_peer am out pubkey s =
     (let i = va_next_peer_id s in
      (Ok i, s\<lparr>va_next_peer_id := i + 1,
               va_peers := (va_peers s)(i \<mapsto> \<lparr>ps_state = am_sync_new am, ps_out = out, ps_pubkey = pubkey\<rparr>)\<rparr>))"

definition vsh_unregister_peer :: "64 word \<Rightarrow> ('d, 'y, 'g) vault \<Rightarrow> ('d, 'y, 'g) vault" where
  "vsh_unregister_peer i s = s\<lparr>va_peers := (va_peers s)(i := None)\<rparr>"

definition vsh_generate_sync_message ::
    "('d, 'o, 'y) automerge \<Rightarrow> 64 word \<Rightarrow> (('d, 'y, 'g) vault, byte list option) action" where
  "vsh_generate_sync_message am i s =
     (case va_peers s i of
        None \<Rightarrow> (Ok None, s)
      | Some slot \<Rightarrow>
          (case am_generate_sync am (inner (va_doc s)) (ps_state slot) of (msg, d, y) \<Rightarrow>
             (Ok msg, s\<lparr>va_doc := (va_doc s)\<lparr>inner := d\<rparr>, va_peers := (va_peers s)(i \<mapsto> slot\<lparr>ps_state := y\<rparr>)\<rparr>)))"

definition vsh_receive_sync_message ::
    "('d, 'o, 'y) automerge \<Rightarrow> 64 word \<Rightarrow> byte list \<Rightarrow> (('d, 'y, 'g) vault, unit) action" where
  "vsh_receive_sync_message am i bytes s =
     (case am_decode_sync am bytes of
        Inl _ \<Rightarrow> (Err (Protocol ''sync decode''), s)
      | Inr msg \<Rightarrow>
          (case va_peers s i of
             None \<Rightarrow> (Ok (), s)
           | Some slot \<Rightarrow>
               (case am_get_heads am (inner (va_doc s)) of (before, d) \<Rightarrow>
                 (case am_receive_sync am d (ps_state slot) msg of
                    Inl _ \<Rightarrow> (Err (Other ''receive sync''), s\<lparr>va_doc := (va_doc s)\<lparr>inner := d\<rparr>\<rparr>)
                  | Inr (d', y) \<Rightarrow>
                     (case am_get_heads am d' of (after, d'') \<Rightarrow>
                        (Ok (), s\<lparr>va_doc := (va_doc s)\<lparr>inner := d''\<rparr>,
                                  va_peers := (va_peers s)(i \<mapsto> slot\<lparr>ps_state := y\<rparr>),
                                  va_doc_changed := (if before \<noteq> after then Suc (va_doc_changed s)
                                                     else va_doc_changed s)\<rparr>))))))"

definition vsh_read_blob :: "string \<Rightarrow> (('d, 'y, 'g) vault, byte list) action" where
  "vsh_read_blob hash s = on_disk (blob_get (va_storage_path s) hash) s"

definition vsh_write_blob :: "crypto \<Rightarrow> string \<Rightarrow> byte list \<Rightarrow> (('d, 'y, 'g) vault, unit) action" where
  "vsh_write_blob c hash bytes s = on_disk (blob_put_with_hash c (va_storage_path s) hash bytes) s"

definition vsh_disconnect_unauthorized_peers :: "pubkey list \<Rightarrow> ('d, 'y, 'g) vault \<Rightarrow> ('d, 'y, 'g) vault" where
  "vsh_disconnect_unauthorized_peers authorized s =
     s\<lparr>va_peers := (\<lambda>i. case va_peers s i of
         None \<Rightarrow> None
       | Some slot \<Rightarrow> (case ps_pubkey slot of
             Some pk \<Rightarrow> if pk \<notin> set authorized then None else Some slot
           | None \<Rightarrow> Some slot))\<rparr>"

definition vault_sync_handle ::
    "('d, 'o, 'y) automerge \<Rightarrow> crypto \<Rightarrow> (string \<Rightarrow> string) \<Rightarrow> ('d, 'y, 'g) vault sync_handle" where
  "vault_sync_handle am c nfc = \<lparr>
     sh_register = vsh_register_peer am,
     sh_unregister = vsh_unregister_peer,
     sh_generate = vsh_generate_sync_message am,
     sh_receive = vsh_receive_sync_message am,
     sh_read_blob = vsh_read_blob,
     sh_write_blob = vsh_write_blob c,
     sh_authorized_pubkeys = vault_authorized_pubkeys am c nfc,
     sh_authorized_peers = vault_authorized_peers am c nfc,
     sh_disconnect_unauthorized = vsh_disconnect_unauthorized_peers\<rparr>"

lemmas vsh_defs = vault_sync_handle_def vsh_register_peer_def vsh_unregister_peer_def
  vsh_generate_sync_message_def vsh_receive_sync_message_def vsh_read_blob_def vsh_write_blob_def
  vsh_disconnect_unauthorized_peers_def vault_authorized_pubkeys_def vault_authorized_peers_def

definition vault_slots :: "('d, 'y, 'g) vault \<Rightarrow> 64 word \<rightharpoonup> pubkey option" where
  "vault_slots s i = map_option ps_pubkey (va_peers s i)"

text \<open>All ids given so far are below the counter; a counter back at zero has wrapped.\<close>

definition vault_given :: "('d, 'y, 'g) vault \<Rightarrow> 64 word set" where
  "vault_given s = (if va_next_peer_id s = 0 then UNIV else {i. i < va_next_peer_id s})"

lemma given_start: "va_next_peer_id s = 1 \<Longrightarrow> vault_given s = {0}"
proof -
  have "i < 1 \<longleftrightarrow> i = 0" for i :: "64 word" using unat_eq_zero [of i] by (auto simp: word_less_nat_alt)
  then show "va_next_peer_id s = 1 \<Longrightarrow> ?thesis" by (auto simp: vault_given_def)
qed

lemma given_next:
  assumes "vault_given s \<noteq> UNIV"
  shows "va_next_peer_id s \<notin> vault_given s"
    "vault_given (s\<lparr>va_next_peer_id := va_next_peer_id s + 1, va_peers := p\<rparr>) =
      insert (va_next_peer_id s) (vault_given s)"
proof -
  let ?n = "va_next_peer_id s"
  have n: "?n \<noteq> 0" using assms by (auto simp: vault_given_def)
  then show "?n \<notin> vault_given s" by (simp add: vault_given_def)
  have "i = ?n \<or> i < ?n" if "?n + 1 = 0" for i
  proof -
    from that have "?n = - 1" by (simp add: eq_neg_iff_add_eq_0)
    then show ?thesis using word_n1_ge [of i] by (auto simp: order_le_less)
  qed
  moreover have "i < ?n + 1 \<longleftrightarrow> i = ?n \<or> i < ?n" if "?n + 1 \<noteq> 0" for i
  proof -
    have "unat (?n + 1) = Suc (unat ?n)" using that by (simp add: unatSuc add.commute)
    then show ?thesis by (auto simp: word_less_nat_alt less_Suc_eq word_unat_eq_iff)
  qed
  ultimately show "vault_given (s\<lparr>va_next_peer_id := ?n + 1, va_peers := p\<rparr>) = insert ?n (vault_given s)"
    using n by (auto simp: vault_given_def)
qed

lemma register_vault:
  assumes "dom (vault_slots s) \<subseteq> vault_given s" "vault_given s \<noteq> UNIV"
  shows "\<exists>i t. vsh_register_peer am out pk s = (Ok i, t) \<and> i \<notin> vault_given s \<and>
    vault_slots t = (vault_slots s)(i \<mapsto> pk) \<and> vault_given t = insert i (vault_given s)"
  using given_next [OF assms(2)]
  by (auto simp: vsh_register_peer_def Let_def vault_slots_def fun_eq_iff)

text \<open>What is visible to the law: the slots and the counter.\<close>

abbreviation same_hub :: "('d, 'y, 'g) vault \<Rightarrow> ('d, 'y, 'g) vault \<Rightarrow> bool" where
  "same_hub s t \<equiv> vault_slots t = vault_slots s \<and> va_next_peer_id t = va_next_peer_id s"

lemma same_given: "va_next_peer_id t = va_next_peer_id s \<Longrightarrow> vault_given t = vault_given s"
  by (simp add: vault_given_def)

lemma vsh_slots:
  "vsh_generate_sync_message am i s = (r, t) \<Longrightarrow> same_hub s t \<and> (\<exists>x. r = Ok x)"
  "vsh_receive_sync_message am i bs s = (r', t) \<Longrightarrow> same_hub s t"
  "vsh_read_blob h s = (b, t) \<Longrightarrow> same_hub s t"
  "vsh_write_blob c h bs s = (r', t) \<Longrightarrow> same_hub s t"
  "vault_authorized_peers am c nfc s = (ps, t) \<Longrightarrow> same_hub s t"
  "vault_authorized_pubkeys am c nfc s = (pks, t) \<Longrightarrow> same_hub s t"
  "va_next_peer_id (vsh_unregister_peer i s) = va_next_peer_id s"
  "va_next_peer_id (vsh_disconnect_unauthorized_peers pks s) = va_next_peer_id s"
  by (auto simp: vsh_defs vault_slots_def on_doc_def on_disk_def fun_eq_iff
      split: option.splits prod.splits sum.splits if_splits)

interpretation vault_hub: sync_hub "vault_sync_handle am c nfc" vault_slots vault_given
proof
  fix s :: "('a, 'c, 'd) vault" and t out pk i r r' b pks ps h bs
  show "dom (vault_slots s) \<subseteq> vault_given s \<Longrightarrow> vault_given s \<noteq> UNIV \<Longrightarrow>
      \<exists>i t. sh_register (vault_sync_handle am c nfc) out pk s = (Ok i, t) \<and> i \<notin> vault_given s \<and>
        vault_slots t = (vault_slots s)(i \<mapsto> pk) \<and> vault_given t = insert i (vault_given s)"
    using register_vault [of s am out pk] by (simp add: vault_sync_handle_def)
  show "vault_slots (sh_unregister (vault_sync_handle am c nfc) i s) = (vault_slots s)(i := None)"
    by (simp add: vault_sync_handle_def vsh_unregister_peer_def vault_slots_def fun_eq_iff)
  show "\<exists>r t. sh_generate (vault_sync_handle am c nfc) i s = (Ok r, t) \<and> vault_slots t = vault_slots s"
    using vsh_slots(1) [of am i s] by (cases "vsh_generate_sync_message am i s") (auto simp: vault_sync_handle_def)
  show "vault_slots s i = None \<Longrightarrow> sh_generate (vault_sync_handle am c nfc) i s = (Ok None, s)"
    by (simp add: vault_sync_handle_def vsh_generate_sync_message_def vault_slots_def)
  show "sh_receive (vault_sync_handle am c nfc) i bs s = (r', t) \<Longrightarrow> vault_slots t = vault_slots s"
    using vsh_slots(2) [of am i bs s] by (simp add: vault_sync_handle_def)
  show "vault_slots s i = None \<Longrightarrow> snd (sh_receive (vault_sync_handle am c nfc) i bs s) = s"
    by (simp add: vault_sync_handle_def vsh_receive_sync_message_def vault_slots_def split: sum.split)
  show "sh_read_blob (vault_sync_handle am c nfc) h s = (b, t) \<Longrightarrow> vault_slots t = vault_slots s"
    using vsh_slots(3) [of h s] by (simp add: vault_sync_handle_def)
  show "sh_write_blob (vault_sync_handle am c nfc) h bs s = (r', t) \<Longrightarrow> vault_slots t = vault_slots s"
    using vsh_slots(4) [of c h bs s] by (simp add: vault_sync_handle_def)
  show "sh_authorized_pubkeys (vault_sync_handle am c nfc) s = (pks, t) \<Longrightarrow> vault_slots t = vault_slots s"
    using vsh_slots(6) [of am c nfc s] by (simp add: vault_sync_handle_def)
  show "sh_authorized_peers (vault_sync_handle am c nfc) s = (ps, t) \<Longrightarrow> vault_slots t = vault_slots s"
    using vsh_slots(5) [of am c nfc s] by (simp add: vault_sync_handle_def)
  show "vault_slots (sh_disconnect_unauthorized (vault_sync_handle am c nfc) pks s) =
      (\<lambda>i. case vault_slots s i of Some (Some pk) \<Rightarrow> if pk \<in> set pks then Some (Some pk) else None | x \<Rightarrow> x)"
    by (auto simp: vault_sync_handle_def vsh_disconnect_unauthorized_peers_def vault_slots_def fun_eq_iff
        split: option.split)
  assume "sh_unregister (vault_sync_handle am c nfc) i s = t \<or> sh_generate (vault_sync_handle am c nfc) i s = (r, t) \<or>
      sh_receive (vault_sync_handle am c nfc) i bs s = (r', t) \<or> sh_read_blob (vault_sync_handle am c nfc) h s = (b, t) \<or>
      sh_write_blob (vault_sync_handle am c nfc) h bs s = (r', t) \<or>
      sh_authorized_pubkeys (vault_sync_handle am c nfc) s = (pks, t) \<or>
      sh_authorized_peers (vault_sync_handle am c nfc) s = (ps, t) \<or>
      sh_disconnect_unauthorized (vault_sync_handle am c nfc) pks s = t"
  then have "va_next_peer_id t = va_next_peer_id s"
    using vsh_slots(1) [of am i s] vsh_slots(2) [of am i bs s] vsh_slots(3) [of h s] vsh_slots(4) [of c h bs s]
      vsh_slots(5,6) [of am c nfc s] vsh_slots(7) [of i s] vsh_slots(8) [of pks s]
    by (auto simp: vault_sync_handle_def)
  then show "vault_given t = vault_given s" by (rule same_given)
qed

end
