(* ===== verification/Sessions.thy ===== *)
theory Sessions
  imports PeerHub
begin

text \<open>
  What runs after the handshake: the session of a peer on the hub (\<^verbatim>\<open>handle_peer\<close> of
  \<^verbatim>\<open>net/server.rs\<close>) and of a client (\<^verbatim>\<open>ClientConn::connect\<close> of \<^verbatim>\<open>net/client.rs\<close>), both on a
  \<open>sync_handle\<close>. A session is three tasks on one websocket: a reader, a writer that drains an
  unbounded channel of frames, and a notifier. Each iteration of a task's loop is one step, and
  the tasks of all sessions, the enforcer of the authorised keys and the rest of the program
  interleave their steps in any order.
\<close>

section \<open>Sessions\<close>

record link =
  k_peer :: "64 word"
  k_pubkey :: pubkey
  k_conn :: conn
  k_queue :: "frame list"
  k_reading :: bool
  k_writing :: bool
  k_notifying :: bool
  k_close_sent :: bool

text \<open>What a frame does to the hub, and the frames it puts on the channel.\<close>

definition handle_inbound :: "'s sync_handle \<Rightarrow> 64 word \<Rightarrow> frame \<Rightarrow> 's \<Rightarrow> frame list \<times> 's" where
  "handle_inbound sh i f s =
     (case f of
        SyncFrame bs \<Rightarrow>
          (case sh_receive sh i bs s of
             (Inl _, t) \<Rightarrow> ([], t)
           | (Inr _, t) \<Rightarrow> (case sh_generate sh i t of
               (Inr (Some reply), u) \<Rightarrow> ([SyncFrame reply], u)
             | (_, u) \<Rightarrow> ([], u)))
      | BlobFetch h \<Rightarrow>
          (case sh_read_blob sh h s of
             (Inr bs, t) \<Rightarrow> ([BlobPush h bs], t)
           | (Inl e, t) \<Rightarrow> ([ErrorFrame (''blob fetch '' @ h @ '': '' @ show_error e)], t))
      | BlobPush h bs \<Rightarrow> ([], snd (sh_write_blob sh h bs s))
      | Ping ts \<Rightarrow> ([Pong ts], s)
      | _ \<Rightarrow> ([], s))"

text \<open>
  One message in the reader's loop. The end of the stream, a close and a read error leave the
  loop; then the peer is unregistered. A frame that does not decode is skipped.
\<close>

definition stop_reader :: "'s sync_handle \<Rightarrow> link \<Rightarrow> 's \<Rightarrow> link \<times> 's" where
  "stop_reader sh l s = (l\<lparr>k_reading := False\<rparr>, sh_unregister sh (k_peer l) s)"

definition drop_input :: "link \<Rightarrow> link" where
  "drop_input l = l\<lparr>k_conn := (k_conn l)\<lparr>c_in := tl (c_in (k_conn l))\<rparr>\<rparr>"

definition reader_step :: "codec \<Rightarrow> 's sync_handle \<Rightarrow> link \<Rightarrow> 's \<Rightarrow> link \<times> 's" where
  "reader_step fc sh l s =
     (case c_in (k_conn l) of
        [] \<Rightarrow> stop_reader sh l s
      | CloseMsg # _ \<Rightarrow> stop_reader sh (drop_input l) s
      | WsError _ # _ \<Rightarrow> stop_reader sh (drop_input l) s
      | OtherMsg # _ \<Rightarrow> (drop_input l, s)
      | Binary b # _ \<Rightarrow>
          (case frame_decode fc b of
             Inl _ \<Rightarrow> (drop_input l, s)
           | Inr f \<Rightarrow> (case handle_inbound sh (k_peer l) f s of
               (out, t) \<Rightarrow> ((drop_input l)\<lparr>k_queue := k_queue l @ out\<rparr>, t))))"

text \<open>
  The writer. The shutdown signal has priority over queued frames; a frame that does not encode
  is skipped, and a send that fails ends the task without a close message.
\<close>

definition stop_writer :: "link \<Rightarrow> link" where
  "stop_writer l = l\<lparr>k_writing := False, k_close_sent := True\<rparr>"

definition writer_step :: "codec \<Rightarrow> bool \<Rightarrow> link \<Rightarrow> link" where
  "writer_step fc shutdown l =
     (if shutdown then stop_writer l
      else case k_queue l of
        [] \<Rightarrow> l
      | f # fs \<Rightarrow>
          (case fr_encode fc f of
             Inl _ \<Rightarrow> l\<lparr>k_queue := fs\<rparr>
           | Inr bs \<Rightarrow> (case ws_send bs (k_conn l) of
               (Inl _, k) \<Rightarrow> l\<lparr>k_queue := fs, k_conn := k, k_writing := False\<rparr>
             | (Inr _, k) \<Rightarrow> l\<lparr>k_queue := fs, k_conn := k\<rparr>)))"

text \<open>The notifier, at a change of the document or after 100 ms. The channel is closed once the writer is gone.\<close>

definition notifier_step :: "'s sync_handle \<Rightarrow> link \<Rightarrow> 's \<Rightarrow> link \<times> 's" where
  "notifier_step sh l s =
     (case sh_generate sh (k_peer l) s of
        (Inr (Some bs), t) \<Rightarrow>
          (if k_writing l then l\<lparr>k_queue := k_queue l @ [SyncFrame bs]\<rparr> else l\<lparr>k_notifying := False\<rparr>, t)
      | (Inr None, t) \<Rightarrow> (l, t)
      | (Inl _, t) \<Rightarrow> (l\<lparr>k_notifying := False\<rparr>, t))"

section \<open>Opening a session\<close>

definition start_link :: "'s sync_handle \<Rightarrow> nat \<Rightarrow> pubkey \<Rightarrow> (conn \<times> 's, link) action" where
  "start_link sh out pk =
     andthen (on_hub (sh_register sh out (Some pk))) (\<lambda>i.
     andthen (on_hub (sh_generate sh i)) (\<lambda>msg.
     \<lambda>(k, s). (Ok \<lparr>k_peer = i, k_pubkey = pk, k_conn = k,
                  k_queue = (case msg of Some bs \<Rightarrow> [SyncFrame bs] | None \<Rightarrow> []),
                  k_reading = True, k_writing = True, k_notifying = True, k_close_sent = False\<rparr>, (k, s))))"

definition hub_keys :: "'s sync_handle \<Rightarrow> ('s, pubkey list) action" where
  "hub_keys sh s = (case sh_authorized_pubkeys sh s of (pks, t) \<Rightarrow> (Ok pks, t))"

definition peer_session ::
    "codec \<Rightarrow> crypto \<Rightarrow> agent \<Rightarrow> identity \<Rightarrow> string \<Rightarrow> string option \<Rightarrow> byte list \<Rightarrow> (nat \<Rightarrow> byte) \<Rightarrow> nat \<Rightarrow>
     's sync_handle \<Rightarrow> (conn \<times> 's, link) action" where
  "peer_session fc c agent identity vault_id vault_name cert_fp rng out sh =
     andthen (hub_handshake fc c agent identity vault_id vault_name cert_fp rng (hub_keys sh))
       (start_link sh out)"

text \<open>When the writer is done the handler aborts the notifier and unregisters the peer.\<close>

definition leave_peer :: "'s sync_handle \<Rightarrow> link \<Rightarrow> 's \<Rightarrow> link \<times> 's" where
  "leave_peer sh l s = (l\<lparr>k_notifying := False\<rparr>, sh_unregister sh (k_peer l) s)"

text \<open>The certificate fingerprint of a hub: zero without TLS.\<close>

datatype server_tls = TlsEnabled "byte list" "byte list" | TlsDisabled

definition zero_fp :: "byte list" where
  "zero_fp = replicate 32 0"

fun server_fp :: "crypto \<Rightarrow> server_tls \<Rightarrow> byte list" where
  "server_fp c (TlsEnabled cert_der key_der) = cert_fingerprint c cert_der"
| "server_fp c TlsDisabled = zero_fp"

section \<open>The client\<close>

text \<open>Sockets and TLS: the URL parser, the dialer and the certificates the server presents.\<close>

record parsed_url =
  u_scheme :: string
  u_host :: "string option"
  u_port :: "nat option"

record 'i network =
  nt_parse :: "string \<Rightarrow> parsed_url result"
  nt_tcp :: "string \<Rightarrow> nat \<Rightarrow> 'i result"
  nt_server_name :: "string \<Rightarrow> unit result"
  nt_tls :: "string \<Rightarrow> 'i \<Rightarrow> byte list list option result"
  nt_upgrade :: "string \<Rightarrow> 'i \<Rightarrow> conn result"

definition parse_failed :: "error \<Rightarrow> error" where
  "parse_failed e = Network (''parse url: '' @ show_error e)"

definition wrong_scheme :: "string \<Rightarrow> error" where
  "wrong_scheme s = Network (''unsupported scheme '' @ s @ '' (expected ws:// or wss://)'')"

definition no_port :: "string \<Rightarrow> error" where
  "no_port s = Network (''url has unknown scheme '' @ s @ ''; specify a port explicitly'')"

fun on_err :: "(error \<Rightarrow> error) \<Rightarrow> 'a result \<Rightarrow> 'a result" where
  "on_err f (Inl e) = Inl (f e)"
| "on_err f (Inr x) = Inr x"

definition open_transport :: "'i network \<Rightarrow> crypto \<Rightarrow> string \<Rightarrow> ('i \<times> byte list) result" where
  "open_transport net c url =
     bind_result (on_err parse_failed (nt_parse net url)) (\<lambda>u.
     if u_scheme u \<noteq> ''wss'' \<and> u_scheme u \<noteq> ''ws'' then Err (wrong_scheme (u_scheme u))
     else
       bind_result (ok_or (Network ''url missing host'') (u_host u)) (\<lambda>host.
       bind_result (ok_or (no_port (u_scheme u)) (u_port u)) (\<lambda>port.
       bind_result (nt_tcp net host port) (\<lambda>tcp.
       if u_scheme u = ''ws'' then Ok (tcp, zero_fp)
       else
         bind_result (nt_server_name net host) (\<lambda>_.
         bind_result (nt_tls net host tcp) (\<lambda>certs.
         bind_result (ok_or (Network ''server presented no certificate'') certs) (\<lambda>chain.
         case chain of
           [] \<Rightarrow> Err (Network ''empty server certificate chain'')
         | cert_der # _ \<Rightarrow> Ok (tcp, cert_fingerprint c cert_der))))))))"

definition open_websocket :: "'i network \<Rightarrow> crypto \<Rightarrow> string \<Rightarrow> (conn \<times> byte list) result" where
  "open_websocket net c url =
     bind_result (open_transport net c url) (\<lambda>(transport, fp).
     bind_result (nt_upgrade net url transport) (\<lambda>ws. Ok (ws, fp)))"

definition probe_handshake ::
    "'i network \<Rightarrow> codec \<Rightarrow> crypto \<Rightarrow> agent \<Rightarrow> (nat \<Rightarrow> byte) \<Rightarrow> string \<Rightarrow> identity \<Rightarrow>
     (string \<times> pubkey \<times> string option \<times> conn) result" where
  "probe_handshake net fc c agent rng url identity =
     bind_result (open_websocket net c url) (\<lambda>(ws, cert_fp).
     case run_handshake fc c agent identity rng cert_fp ws of
       (Inl e, _) \<Rightarrow> Err e
     | (Inr (vault_id, hub_pubkey, vault_name, _), ws') \<Rightarrow> Ok (vault_id, hub_pubkey, vault_name, ws'))"

definition discover_vault_id ::
    "'i network \<Rightarrow> codec \<Rightarrow> crypto \<Rightarrow> agent \<Rightarrow> (nat \<Rightarrow> byte) \<Rightarrow> string \<Rightarrow> identity \<Rightarrow> string result" where
  "discover_vault_id net fc c agent rng url identity =
     bind_result (probe_handshake net fc c agent rng url identity) (\<lambda>(vault_id, _). Ok vault_id)"

definition vault_mismatch :: "string \<Rightarrow> string \<Rightarrow> error" where
  "vault_mismatch got expected =
     Auth (''vault_id mismatch: server reported '' @ got @ '' but local config has '' @ expected)"

definition pin_mismatch :: "crypto \<Rightarrow> pubkey \<Rightarrow> pubkey \<Rightarrow> error" where
  "pin_mismatch c pinned presented =
     Auth (''hub identity mismatch: pinned '' @ fingerprint_sha256 c pinned @ '' but hub presented '' @
       fingerprint_sha256 c presented @ ''.'' @ [CHR 0x0A] @
       ''Either the hub's identity key was rotated, or someone is impersonating it. Run `agentsync hub trust '' @
       to_ssh_string c presented @
       ''` to accept the new key, or `agentsync hub forget` to clear the pin.'')"

text \<open>The two checks after the handshake.\<close>

definition check_hub ::
    "crypto \<Rightarrow> string option \<Rightarrow> pubkey option \<Rightarrow> string \<Rightarrow> pubkey \<Rightarrow> unit result" where
  "check_hub c expected_vault_id expected_hub_pubkey vault_id hub_pubkey =
     (case expected_vault_id of
        Some e \<Rightarrow> if e \<noteq> vault_id then Err (vault_mismatch vault_id e) else
          (case expected_hub_pubkey of
             Some p \<Rightarrow> if p \<noteq> hub_pubkey then Err (pin_mismatch c p hub_pubkey) else Ok ()
           | None \<Rightarrow> Ok ())
      | None \<Rightarrow>
          (case expected_hub_pubkey of
             Some p \<Rightarrow> if p \<noteq> hub_pubkey then Err (pin_mismatch c p hub_pubkey) else Ok ()
           | None \<Rightarrow> Ok ()))"

definition client_connect ::
    "'i network \<Rightarrow> codec \<Rightarrow> crypto \<Rightarrow> agent \<Rightarrow> (nat \<Rightarrow> byte) \<Rightarrow> nat \<Rightarrow> string \<Rightarrow> string option \<Rightarrow> pubkey option \<Rightarrow>
     identity \<Rightarrow> 's sync_handle \<Rightarrow> ('s, link \<times> client_conn) action" where
  "client_connect net fc c agent rng out url expected_vault_id expected_hub_pubkey identity sh s =
     (case open_websocket net c url of
        Inl e \<Rightarrow> (Err e, s)
      | Inr (ws, cert_fp) \<Rightarrow>
          (case andthen (on_conn (run_handshake fc c agent identity rng cert_fp))
              (\<lambda>(vault_id, hub_pubkey, vault_name, _).
                andthen (lift (check_hub c expected_vault_id expected_hub_pubkey vault_id hub_pubkey)) (\<lambda>_.
                andthen (start_link sh out hub_pubkey) (\<lambda>l.
                ret (l, \<lparr>cc_peer_id = k_peer l, cc_vault_id = vault_id, cc_hub_pubkey = hub_pubkey,
                        cc_vault_name = vault_name\<rparr>)))) (ws, s) of
             (r, _, t) \<Rightarrow> (r, t)))"

text \<open>
  Closing: the signal reaches the writer, the reader and the notifier are aborted and the peer is
  unregistered. A connection that is merely dropped is not unregistered.
\<close>

definition client_close :: "'s sync_handle \<Rightarrow> link \<Rightarrow> 's \<Rightarrow> link \<times> 's" where
  "client_close sh l s =
     (stop_writer (l\<lparr>k_reading := False, k_notifying := False\<rparr>), sh_unregister sh (k_peer l) s)"

definition client_drop :: "link \<Rightarrow> link" where
  "client_drop l = stop_writer (l\<lparr>k_reading := False, k_notifying := False\<rparr>)"

section \<open>The enforcer\<close>

text \<open>
  The set of keys last seen is a map from keys to labels. The log names the peers that were
  added and those that were removed.
\<close>

definition known_keys :: "authorized_peer list \<Rightarrow> pubkey \<rightharpoonup> string" where
  "known_keys ps = map_of (rev (map (\<lambda>p. (ap_pubkey p, ap_label p)) ps))"

definition label_or_unlabeled :: "string \<Rightarrow> string" where
  "label_or_unlabeled s = (if s = [] then ''(unlabeled)'' else s)"

definition log_authorized_diff ::
    "(pubkey \<rightharpoonup> string) \<Rightarrow> authorized_peer list \<Rightarrow> (pubkey \<times> string) list \<times> (pubkey \<times> string) set" where
  "log_authorized_diff prev current =
     (if card (dom prev) = length current \<and> list_all (\<lambda>p. prev (ap_pubkey p) \<noteq> None) current then ([], {})
      else
        (map (\<lambda>p. (ap_pubkey p, label_or_unlabeled (ap_label p)))
           (filter (\<lambda>p. prev (ap_pubkey p) = None) current),
         {(pk, label_or_unlabeled lab) | pk lab. prev pk = Some lab \<and> pk \<notin> ap_pubkey ` set current}))"

definition enforcer_step :: "'s sync_handle \<Rightarrow> (pubkey \<rightharpoonup> string) \<Rightarrow> 's \<Rightarrow> (pubkey \<rightharpoonup> string) \<times> 's" where
  "enforcer_step sh known s =
     (case sh_authorized_peers sh s of
        (current, t) \<Rightarrow> (known_keys current, sh_disconnect_unauthorized sh (map ap_pubkey current) t))"

section \<open>The hub\<close>

text \<open>What \<^verbatim>\<open>Server::bind\<close> hands to every session, beside the vault's handle.\<close>

record server_setup =
  sv_crypto :: crypto
  sv_agent :: agent
  sv_identity :: identity
  sv_vault_id :: string
  sv_vault_name :: "string option"
  sv_cert_fp :: "byte list"

definition serve_handshake ::
    "codec \<Rightarrow> server_setup \<Rightarrow> (nat \<Rightarrow> byte) \<Rightarrow> 's sync_handle \<Rightarrow> (conn \<times> 's, pubkey) action" where
  "serve_handshake fc sv rng sh =
     hub_handshake fc (sv_crypto sv) (sv_agent sv) (sv_identity sv) (sv_vault_id sv) (sv_vault_name sv)
       (sv_cert_fp sv) rng (hub_keys sh)"

text \<open>
  The hub's state, the peers that have authenticated but are not registered yet, and the
  sessions. \<open>other\<close> is a step of the rest of the program.
\<close>

record 's hub =
  h_state :: 's
  h_pending :: "(conn \<times> pubkey) list"
  h_links :: "link list"
  h_known :: "pubkey \<rightharpoonup> string"

inductive hub_step ::
    "codec \<Rightarrow> server_setup \<Rightarrow> 's sync_handle \<Rightarrow> ('s \<Rightarrow> 64 word set) \<Rightarrow> ('s \<Rightarrow> 's \<Rightarrow> bool) \<Rightarrow> 's hub \<Rightarrow> 's hub \<Rightarrow> bool"
  for fc sv sh given other where
  authenticate: "serve_handshake fc sv rng sh (k, h_state H) = (Ok pk, k', t) \<Longrightarrow>
     hub_step fc sv sh given other H (H\<lparr>h_state := t, h_pending := h_pending H @ [(k', pk)]\<rparr>)"
| refuse_peer: "serve_handshake fc sv rng sh (k, h_state H) = (Err e, k', t) \<Longrightarrow>
     hub_step fc sv sh given other H (H\<lparr>h_state := t\<rparr>)"
| join: "given (h_state H) \<noteq> UNIV \<Longrightarrow> h_pending H = before @ (k, pk) # after \<Longrightarrow>
     start_link sh out pk (k, h_state H) = (Ok l, k', t) \<Longrightarrow>
     hub_step fc sv sh given other H
       (H\<lparr>h_state := t, h_pending := before @ after, h_links := h_links H @ [l]\<rparr>)"
| read: "n < length (h_links H) \<Longrightarrow> k_reading (h_links H ! n) \<Longrightarrow>
     reader_step fc sh (h_links H ! n) (h_state H) = (l, t) \<Longrightarrow>
     hub_step fc sv sh given other H (H\<lparr>h_state := t, h_links := (h_links H)[n := l]\<rparr>)"
| writes: "n < length (h_links H) \<Longrightarrow> k_writing (h_links H ! n) \<Longrightarrow>
     hub_step fc sv sh given other H (H\<lparr>h_links := (h_links H)[n := writer_step fc shutdown (h_links H ! n)]\<rparr>)"
| notifies: "n < length (h_links H) \<Longrightarrow> k_notifying (h_links H ! n) \<Longrightarrow>
     notifier_step sh (h_links H ! n) (h_state H) = (l, t) \<Longrightarrow>
     hub_step fc sv sh given other H (H\<lparr>h_state := t, h_links := (h_links H)[n := l]\<rparr>)"
| leave: "n < length (h_links H) \<Longrightarrow> \<not> k_writing (h_links H ! n) \<Longrightarrow>
     leave_peer sh (h_links H ! n) (h_state H) = (l, t) \<Longrightarrow>
     hub_step fc sv sh given other H (H\<lparr>h_state := t, h_links := (h_links H)[n := l]\<rparr>)"
| enforce: "enforcer_step sh (h_known H) (h_state H) = (known, t) \<Longrightarrow>
     hub_step fc sv sh given other H (H\<lparr>h_state := t, h_known := known\<rparr>)"
| elsewhere: "other (h_state H) t \<Longrightarrow> hub_step fc sv sh given other H (H\<lparr>h_state := t\<rparr>)"

definition hub_start :: "'s sync_handle \<Rightarrow> 's \<Rightarrow> 's hub" where
  "hub_start sh s =
     (case sh_authorized_peers sh s of
        (ps, t) \<Rightarrow> \<lparr>h_state = t, h_pending = [], h_links = [], h_known = known_keys ps\<rparr>)"

inductive hub_reachable ::
    "codec \<Rightarrow> server_setup \<Rightarrow> 's sync_handle \<Rightarrow> ('s \<Rightarrow> 64 word set) \<Rightarrow> ('s \<Rightarrow> 's \<Rightarrow> bool) \<Rightarrow> 's \<Rightarrow> 's hub \<Rightarrow> bool"
  for fc sv sh given other s where
  start: "hub_reachable fc sv sh given other s (hub_start sh s)"
| step: "hub_reachable fc sv sh given other s H \<Longrightarrow> hub_step fc sv sh given other H K \<Longrightarrow>
     hub_reachable fc sv sh given other s K"

text \<open>
  The registered peers are sessions that are still read, under the key each session
  authenticated with, and no two sessions share an id.
\<close>

definition hub_inv :: "('s \<Rightarrow> 64 word \<rightharpoonup> pubkey option) \<Rightarrow> ('s \<Rightarrow> 64 word set) \<Rightarrow> 's hub \<Rightarrow> bool" where
  "hub_inv slots given H \<longleftrightarrow>
     dom (slots (h_state H)) \<subseteq> given (h_state H) \<and>
     distinct (map k_peer (h_links H)) \<and> k_peer ` set (h_links H) \<subseteq> given (h_state H) \<and>
     (\<forall>i x. slots (h_state H) i = Some x \<longrightarrow>
        (\<exists>l \<in> set (h_links H). k_peer l = i \<and> x = Some (k_pubkey l) \<and> k_reading l))"

text \<open>No task changes whose session it serves; only the reader ends the reading.\<close>

definition same_link :: "link \<Rightarrow> link \<Rightarrow> bool" where
  "same_link l m \<longleftrightarrow> k_peer m = k_peer l \<and> k_pubkey m = k_pubkey l \<and> k_reading m = k_reading l"

lemma writer_same: "same_link l (writer_step fc shutdown l)"
  by (auto simp: writer_step_def stop_writer_def same_link_def split: list.split sum.split prod.split)

lemma notifier_same: "notifier_step sh l s = (m, t) \<Longrightarrow> same_link l m"
  by (auto simp: notifier_step_def same_link_def split: prod.splits sum.splits option.splits if_splits)

lemma reader_cases:
  assumes "reader_step fc sh l s = (m, t)" "k_reading l"
  obtains (frame) b es f out where "c_in (k_conn l) = Binary b # es" "frame_decode fc b = Ok f"
      "handle_inbound sh (k_peer l) f s = (out, t)" "m = (drop_input l)\<lparr>k_queue := k_queue l @ out\<rparr>" "same_link l m"
  | (skip) "m = drop_input l" "t = s" "same_link l m"
  | (stop) "k_peer m = k_peer l" "k_pubkey m = k_pubkey l" "\<not> k_reading m" "t = sh_unregister sh (k_peer l) s"
      "k_queue m = k_queue l"
  using assms
  by (auto simp: reader_step_def stop_reader_def drop_input_def same_link_def
      split: list.splits ws_event.splits sum.splits prod.splits)

lemma update_links:
  assumes "n < length ls" "same_link (ls ! n) m"
  shows "map k_peer (ls[n := m]) = map k_peer ls"
    "(\<exists>l \<in> set ls. k_peer l = i \<and> x = Some (k_pubkey l) \<and> k_reading l) \<Longrightarrow>
     (\<exists>l \<in> set (ls[n := m]). k_peer l = i \<and> x = Some (k_pubkey l) \<and> k_reading l)"
proof -
  show "map k_peer (ls[n := m]) = map k_peer ls"
    using assms by (simp add: map_update same_link_def) (metis list_update_id nth_map)
  assume "\<exists>l \<in> set ls. k_peer l = i \<and> x = Some (k_pubkey l) \<and> k_reading l"
  then obtain j where j: "j < length ls" "k_peer (ls ! j) = i" "x = Some (k_pubkey (ls ! j))" "k_reading (ls ! j)"
    by (auto simp: in_set_conv_nth)
  have "ls[n := m] ! j \<in> set (ls[n := m])" using j(1) by (simp add: nth_mem)
  moreover have "k_peer (ls[n := m] ! j) = i \<and> x = Some (k_pubkey (ls[n := m] ! j)) \<and> k_reading (ls[n := m] ! j)"
    using j assms by (cases "j = n") (auto simp: same_link_def)
  ultimately show "\<exists>l \<in> set (ls[n := m]). k_peer l = i \<and> x = Some (k_pubkey l) \<and> k_reading l" by blast
qed

lemma hub_inv_links:
  assumes "hub_inv slots given H" "n < length (h_links H)" "same_link (h_links H ! n) m"
    and "slots t = slots (h_state H)" "given t = given (h_state H)"
  shows "hub_inv slots given (H\<lparr>h_state := t, h_links := (h_links H)[n := m]\<rparr>)"
proof -
  note u = update_links [OF assms(2,3)]
  from u(1) have "k_peer ` set ((h_links H)[n := m]) = k_peer ` set (h_links H)"
    by (metis list.set_map)
  with assms(1,4,5) u show ?thesis by (simp add: hub_inv_def)
qed

lemma hub_inv_state:
  assumes "hub_inv slots given H" "h_links K = h_links H"
    and "\<And>i x. slots (h_state K) i = Some x \<Longrightarrow> slots (h_state H) i = Some x" "given (h_state K) = given (h_state H)"
  shows "hub_inv slots given K"
  using assms unfolding hub_inv_def by (auto simp: dom_def)

text \<open>
  Every session, and every peer about to get one, has been accepted by a handshake of this hub in
  an earlier state, in which its key was authorised.
\<close>

definition admitted ::
    "codec \<Rightarrow> server_setup \<Rightarrow> 's sync_handle \<Rightarrow> ('s \<Rightarrow> 64 word set) \<Rightarrow> ('s \<Rightarrow> 's \<Rightarrow> bool) \<Rightarrow> 's \<Rightarrow> pubkey \<Rightarrow> bool" where
  "admitted fc sv sh given other s pk \<longleftrightarrow>
     (\<exists>K rng k k' t. hub_reachable fc sv sh given other s K \<and>
        hub_accepted fc (sv_crypto sv) (sv_agent sv) (sv_identity sv) (sv_vault_id sv) (sv_vault_name sv)
          (sv_cert_fp sv) rng (hub_keys sh) k (h_state K) pk k' t)"

lemma update_keys:
  assumes "n < length ls" "k_pubkey m = k_pubkey (ls ! n)"
  shows "k_pubkey ` set (ls[n := m]) = k_pubkey ` set ls"
proof -
  have "map k_pubkey (ls[n := m]) = map k_pubkey ls"
    using assms by (simp add: map_update) (metis list_update_id nth_map)
  then show ?thesis by (metis list.set_map)
qed

lemma session_pubkey:
  "k_pubkey (writer_step fc shutdown l) = k_pubkey l"
  "notifier_step sh l s = (m, t) \<Longrightarrow> k_pubkey m = k_pubkey l"
  "reader_step fc sh l s = (m, t) \<Longrightarrow> k_pubkey m = k_pubkey l"
  "leave_peer sh l s = (m, t) \<Longrightarrow> k_pubkey m = k_pubkey l"
  "start_link sh out pk (k, s) = (Ok m, k', t) \<Longrightarrow> k_pubkey m = pk"
  using writer_same [of l fc shutdown] notifier_same [of sh l s m t]
  by (auto simp: same_link_def reader_step_def stop_reader_def drop_input_def leave_peer_def start_link_def
      andthen_run on_hub_run split: list.splits ws_event.splits sum.splits prod.splits option.splits)

lemma hub_reachable_admitted:
  assumes "hub_reachable fc sv sh given other s H"
  shows "\<forall>pk \<in> k_pubkey ` set (h_links H) \<union> snd ` set (h_pending H). admitted fc sv sh given other s pk"
  using assms
proof (induction rule: hub_reachable.induct)
  case start
  show ?case by (simp add: hub_start_def split: prod.split)
next
  case (step H K)
  from step.hyps(2) show ?case
  proof (cases rule: hub_step.cases)
    case (authenticate rng k pk k' t)
    from hub_accepts [OF authenticate(2) [unfolded serve_handshake_def]] step.hyps(1)
    have "admitted fc sv sh given other s pk" unfolding admitted_def by blast
    with step.IH authenticate(1) show ?thesis by auto
  next
    case (join before k pk after out l k' t)
    with step.IH session_pubkey(5) [OF join(4)] show ?thesis by auto
  next
    case (read n l t)
    with step.IH update_keys [OF read(2) session_pubkey(3) [OF read(4)]] show ?thesis by simp
  next
    case (writes n shutdown)
    with step.IH update_keys [OF writes(2) session_pubkey(1)] show ?thesis by simp
  next
    case (notifies n l t)
    with step.IH update_keys [OF notifies(2) session_pubkey(2) [OF notifies(4)]] show ?thesis by simp
  next
    case (leave n l t)
    with step.IH update_keys [OF leave(2) session_pubkey(4) [OF leave(4)]] show ?thesis by simp
  qed (use step.IH in simp_all)
qed

context sync_hub
begin

lemma handle_inbound_slots:
  assumes "handle_inbound sh i f s = (out, t)"
  shows "slots t = slots s \<and> given t = given s"
proof (cases f)
  case (SyncFrame bs)
  obtain r u where r: "sh_receive sh i bs s = (r, u)" by fastforce
  obtain x w where w: "sh_generate sh i u = (Ok x, w)" "slots w = slots u" using generate_law by blast
  have "given u = given s" "given w = given u" using given_law r w(1) by blast+
  moreover have "slots u = slots s" by (rule receive_law [OF r])
  ultimately show ?thesis using assms SyncFrame r w
    by (auto simp: handle_inbound_def split: sum.splits option.splits)
next
  case (BlobFetch h)
  obtain r u where r: "sh_read_blob sh h s = (r, u)" by fastforce
  have "given u = given s" "slots u = slots s" using given_law read_blob_law r by blast+
  with assms BlobFetch r show ?thesis by (auto simp: handle_inbound_def split: sum.splits)
next
  case (BlobPush h bs)
  obtain r u where r: "sh_write_blob sh h bs s = (r, u)" by fastforce
  have "given u = given s" "slots u = slots s" using given_law write_blob_law r by blast+
  with assms BlobPush r show ?thesis by (auto simp: handle_inbound_def)
qed (use assms in \<open>auto simp: handle_inbound_def\<close>)

lemma given_same [simp]:
  "given (sh_unregister sh i s) = given s" "given (sh_disconnect_unauthorized sh pks s) = given s"
  using given_law by blast+

lemma hub_keys_slots:
  assumes "hub_keys sh s = (r, t)"
  shows "slots t = slots s \<and> given t = given s"
proof -
  from assms obtain pks where "sh_authorized_pubkeys sh s = (pks, t)" by (auto simp: hub_keys_def split: prod.splits)
  then show ?thesis using authorized_law given_law by blast
qed

text \<open>A handshake only reads the keys.\<close>

lemma handshake_slots:
  assumes "hub_handshake fc c agent i vault_id name cert_fp rng (hub_keys sh) (k, s) = (r, k', t)"
  shows "slots t = slots s \<and> given t = given s"
proof -
  have "t = s \<or> (\<exists>r. hub_keys sh s = (r, t))"
    using assms
    by (auto simp: hub_handshake_def andthen_run on_conn_run on_hub_run lift_run fail_run ret_run Let_def
        split: sum.splits prod.splits if_splits)
  then show ?thesis using hub_keys_slots by blast
qed

text \<open>A session starts under a new id, with the peer's key.\<close>

lemma start_link_run:
  assumes "dom (slots s) \<subseteq> given s" "given s \<noteq> UNIV"
  obtains l t where "start_link sh out pk (k, s) = (Ok l, k, t)" "k_peer l \<notin> given s" "k_pubkey l = pk"
    "k_reading l" "slots t = (slots s)(k_peer l \<mapsto> Some pk)" "given t = insert (k_peer l) (given s)"
proof -
  obtain i u where r: "sh_register sh out (Some pk) s = (Ok i, u)" "i \<notin> given s"
    "slots u = (slots s)(i \<mapsto> Some pk)" "given u = insert i (given s)"
    using register_law [OF assms] by blast
  obtain x t where g: "sh_generate sh i u = (Ok x, t)" "slots t = slots u" using generate_law by blast
  have "given t = given u" using given_law g(1) by blast
  with r g show thesis
    by (intro that [of "\<lparr>k_peer = i, k_pubkey = pk, k_conn = k,
        k_queue = (case x of Some bs \<Rightarrow> [SyncFrame bs] | None \<Rightarrow> []),
        k_reading = True, k_writing = True, k_notifying = True, k_close_sent = False\<rparr>" t])
      (simp_all add: start_link_def andthen_run on_hub_run)
qed

lemma enforcer_slots:
  assumes "enforcer_step sh known s = (known', t)"
  shows "given t = given s" "slots t i = Some x \<Longrightarrow> slots s i = Some x"
proof -
  obtain ps u where ps: "sh_authorized_peers sh s = (ps, u)" by fastforce
  have u: "given u = given s" "slots u = slots s" using given_law authorized_peers_law ps by blast+
  have t: "t = sh_disconnect_unauthorized sh (map ap_pubkey ps) u" using assms ps by (simp add: enforcer_step_def)
  then show "given t = given s" using u(1) by simp
  assume "slots t i = Some x"
  then show "slots s i = Some x"
    unfolding t disconnect_law u(2) by (simp split: option.splits if_splits)
qed

text \<open>A reader that stops takes its own slot along.\<close>

lemma stop_inv:
  assumes "hub_inv slots given H" "n < length (h_links H)" "k_peer m = k_peer (h_links H ! n)"
    and "t = sh_unregister sh (k_peer m) (h_state H)"
  shows "hub_inv slots given (H\<lparr>h_state := t, h_links := (h_links H)[n := m]\<rparr>)"
proof -
  have t: "slots t = (slots (h_state H))(k_peer m := None)" "given t = given (h_state H)"
    using assms(4) unregister_law by simp_all
  have "map k_peer ((h_links H)[n := m]) = map k_peer (h_links H)"
    using assms(2,3) by (simp add: map_update) (metis list_update_id nth_map)
  moreover from this have "k_peer ` set ((h_links H)[n := m]) = k_peer ` set (h_links H)" by (metis list.set_map)
  moreover have "\<exists>l \<in> set ((h_links H)[n := m]). k_peer l = i \<and> x = Some (k_pubkey l) \<and> k_reading l"
    if "slots t i = Some x" for i x
  proof -
    from that t(1) have i: "i \<noteq> k_peer m" "slots (h_state H) i = Some x" by (auto split: if_splits)
    from assms(1) i(2) have "\<exists>l \<in> set (h_links H). k_peer l = i \<and> x = Some (k_pubkey l) \<and> k_reading l"
      unfolding hub_inv_def by blast
    then obtain l where l: "l \<in> set (h_links H)" "k_peer l = i" "x = Some (k_pubkey l)" "k_reading l" by blast
    then obtain j where "j < length (h_links H)" "h_links H ! j = l" by (auto simp: in_set_conv_nth)
    with i(1) l assms(3) have "l \<in> set ((h_links H)[n := m])"
      by (metis length_list_update nth_list_update_neq nth_mem)
    with l show ?thesis by blast
  qed
  moreover have "dom (slots t) \<subseteq> given (h_state H)" using t(1) assms(1) unfolding hub_inv_def by auto
  ultimately show ?thesis using assms(1) t(2) by (simp add: hub_inv_def)
qed

lemma reader_inv:
  assumes "hub_inv slots given H" "n < length (h_links H)" "k_reading (h_links H ! n)"
    and "reader_step fc sh (h_links H ! n) (h_state H) = (l, t)"
  shows "hub_inv slots given (H\<lparr>h_state := t, h_links := (h_links H)[n := l]\<rparr>)"
  using assms(4,3)
proof (cases rule: reader_cases)
  case frame
  from handle_inbound_slots [OF frame(3)] show ?thesis
    by (intro hub_inv_links [OF assms(1,2) frame(5)]) simp_all
next
  case skip
  show ?thesis unfolding skip(2) by (intro hub_inv_links [OF assms(1,2) skip(3)]) simp_all
next
  case stop
  then show ?thesis by (intro stop_inv [OF assms(1,2)]) simp_all
qed

lemma join_inv:
  assumes "hub_inv slots given H" "given (h_state H) \<noteq> UNIV"
    and "start_link sh out pk (k, h_state H) = (Ok l, k', t)"
  shows "hub_inv slots given (H\<lparr>h_state := t, h_pending := p, h_links := h_links H @ [l]\<rparr>)"
proof -
  have dom: "dom (slots (h_state H)) \<subseteq> given (h_state H)" using assms(1) by (simp add: hub_inv_def)
  obtain l' t' where l: "start_link sh out pk (k, h_state H) = (Ok l', k, t')" "k_peer l' \<notin> given (h_state H)"
    "k_pubkey l' = pk" "k_reading l'" "slots t' = (slots (h_state H))(k_peer l' \<mapsto> Some pk)"
    "given t' = insert (k_peer l') (given (h_state H))"
    by (rule start_link_run [OF dom assms(2)])
  with assms(3) have "l' = l" "t' = t" by simp_all
  with l assms(1) show ?thesis by (auto simp: hub_inv_def split: if_splits)
qed

lemma notifier_slots:
  assumes "notifier_step sh l s = (m, t)"
  shows "slots t = slots s \<and> given t = given s"
proof -
  obtain x u where g: "sh_generate sh (k_peer l) s = (Ok x, u)" "slots u = slots s"
    using generate_law by blast
  moreover have "given u = given s" using given_law g(1) by blast
  ultimately show ?thesis using assms by (auto simp: notifier_step_def split: option.splits)
qed

lemma leave_inv:
  assumes "hub_inv slots given H" "n < length (h_links H)" "leave_peer sh (h_links H ! n) (h_state H) = (l, t)"
  shows "hub_inv slots given (H\<lparr>h_state := t, h_links := (h_links H)[n := l]\<rparr>)"
  using assms(3) by (intro stop_inv [OF assms(1,2)]) (auto simp: leave_peer_def)

lemma hub_step_inv:
  assumes "hub_step fc sv sh given other H K" "hub_inv slots given H"
    and other: "\<And>s t. other s t \<Longrightarrow> slots t = slots s \<and> given t = given s"
  shows "hub_inv slots given K"
  using assms(1)
proof (cases rule: hub_step.cases)
  case (authenticate rng k pk k' t)
  from handshake_slots [OF authenticate(2) [unfolded serve_handshake_def]] authenticate(1) show ?thesis
    by (intro hub_inv_state [OF assms(2)]) simp_all
next
  case (refuse_peer rng k e k' t)
  from handshake_slots [OF refuse_peer(2) [unfolded serve_handshake_def]] refuse_peer(1) show ?thesis
    by (intro hub_inv_state [OF assms(2)]) simp_all
next
  case (join before k pk after out l k' t)
  show ?thesis unfolding join(1) by (rule join_inv [OF assms(2) join(2,4)])
next
  case (read n l t)
  show ?thesis unfolding read(1) by (rule reader_inv [OF assms(2) read(2,3,4)])
next
  case (writes n shutdown)
  with hub_inv_links [OF assms(2) writes(2) writer_same, of "h_state H" fc shutdown] show ?thesis by simp
next
  case (notifies n l t)
  show ?thesis unfolding notifies(1)
    using notifier_slots [OF notifies(4)]
    by (intro hub_inv_links [OF assms(2) notifies(2) notifier_same [OF notifies(4)]]) simp_all
next
  case (leave n l t)
  show ?thesis unfolding leave(1) by (rule leave_inv [OF assms(2) leave(2,4)])
next
  case (enforce known t)
  from enforcer_slots [OF enforce(2)] enforce(1) show ?thesis
    by (intro hub_inv_state [OF assms(2)]) simp_all
next
  case (elsewhere t)
  with other [OF elsewhere(2)] show ?thesis by (intro hub_inv_state [OF assms(2)]) simp_all
qed

lemma hub_reachable_inv:
  assumes "hub_reachable fc sv sh given other s H" "slots s = Map.empty"
    and "\<And>s t. other s t \<Longrightarrow> slots t = slots s \<and> given t = given s"
  shows "hub_inv slots given H"
  using assms(1)
proof (induction rule: hub_reachable.induct)
  case start
  obtain ps t where "sh_authorized_peers sh s = (ps, t)" by fastforce
  with authorized_peers_law [OF this] assms(2) show ?case by (simp add: hub_inv_def hub_start_def)
next
  case (step H K)
  show ?case by (rule hub_step_inv [OF step.hyps(2) step.IH]) (use assms(3) in blast)
qed

text \<open>
  A session that is not registered gets no synchronisation: its frames leave the document as it
  is and are answered by no sync message.
\<close>

lemma absent_sync:
  assumes "slots s i = None" "handle_inbound sh i (SyncFrame bs) s = (out, t)"
  shows "out = [] \<and> t = s"
proof -
  obtain r u where r: "sh_receive sh i bs s = (r, u)" by fastforce
  with receive_absent [OF assms(1), of bs] have "u = s" by simp
  with assms r generate_absent [OF assms(1)] show ?thesis
    by (auto simp: handle_inbound_def split: sum.splits)
qed

text \<open>
  The session of a peer that is gone never ends by itself: while the hub is not shut down,
  neither the writer nor the notifier does anything, so the handler waits for the writer forever.
\<close>

lemma dead_session:
  assumes "slots s (k_peer l) = None" "k_queue l = []"
  shows "writer_step fc False l = l" "notifier_step sh l s = (l, s)"
  using assms generate_absent by (simp_all add: writer_step_def notifier_step_def)

end

end
