(* ===== verification/Channels.thy ===== *)
theory Channels
  imports Sessions
begin

text \<open>
  What a session delivers: the frames put on its channel reach the other side's
  \<open>handle_inbound\<close> in order and unchanged; and what the enforcer achieves and logs.
\<close>

section \<open>Delivery\<close>

text \<open>What the writer puts on the wire, and the specification of the receiver: the frames in order.\<close>

definition encoded :: "codec \<Rightarrow> frame list \<Rightarrow> byte list list" where
  "encoded fc fs = concat (map (\<lambda>f. case fr_encode fc f of Inr bs \<Rightarrow> [bs] | Inl _ \<Rightarrow> []) fs)"

primrec handle_all :: "'s sync_handle \<Rightarrow> 64 word \<Rightarrow> frame list \<Rightarrow> 's \<Rightarrow> frame list \<times> 's" where
  "handle_all sh i [] s = ([], s)"
| "handle_all sh i (f # fs) s =
     (case handle_inbound sh i f s of (out, t) \<Rightarrow>
        (case handle_all sh i fs t of (out', u) \<Rightarrow> (out @ out', u)))"

primrec writer_steps :: "codec \<Rightarrow> nat \<Rightarrow> link \<Rightarrow> link" where
  "writer_steps fc 0 l = l"
| "writer_steps fc (Suc n) l = (if k_writing l then writer_steps fc n (writer_step fc False l) else l)"

primrec reader_steps :: "codec \<Rightarrow> 's sync_handle \<Rightarrow> nat \<Rightarrow> link \<Rightarrow> 's \<Rightarrow> link \<times> 's" where
  "reader_steps fc sh 0 l s = (l, s)"
| "reader_steps fc sh (Suc n) l s = (case reader_step fc sh l s of (m, t) \<Rightarrow> reader_steps fc sh n m t)"

lemma encoded_simps [simp]:
  "encoded fc [] = []"
  "encoded fc (f # fs) = (case fr_encode fc f of Inr bs \<Rightarrow> bs # encoded fc fs | Inl _ \<Rightarrow> encoded fc fs)"
  by (simp_all add: encoded_def split: sum.split)

text \<open>A writer whose sends succeed empties the queue onto the wire.\<close>

lemma writer_drains:
  assumes "\<And>n. \<not> c_fault (k_conn l) n" "k_writing l"
  shows "writer_steps fc (length (k_queue l)) l =
    l\<lparr>k_queue := [], k_conn := (k_conn l)\<lparr>c_out := c_out (k_conn l) @ encoded fc (k_queue l),
       c_sends := c_sends (k_conn l) + length (encoded fc (k_queue l))\<rparr>\<rparr>"
  using assms
proof (induction "k_queue l" arbitrary: l)
  case Nil
  from Nil.hyps [symmetric] show ?case by simp
next
  case (Cons f fs)
  note q = Cons.hyps(2) [symmetric]
  show ?case
  proof (cases "fr_encode fc f")
    case (Inl e)
    then have w: "writer_step fc False l = l\<lparr>k_queue := fs\<rparr>" using q by (simp add: writer_step_def)
    from Cons.hyps(1) [of "l\<lparr>k_queue := fs\<rparr>"] Cons.prems q w Inl show ?thesis by simp
  next
    case (Inr bs)
    let ?k = "(k_conn l)\<lparr>c_out := c_out (k_conn l) @ [bs], c_sends := Suc (c_sends (k_conn l))\<rparr>"
    let ?l = "l\<lparr>k_queue := fs, k_conn := ?k\<rparr>"
    have w: "writer_step fc False l = ?l" using q Inr Cons.prems by (simp add: writer_step_def ws_send_def)
    from Cons.hyps(1) [of ?l] Cons.prems q w Inr show ?thesis by simp
  qed
qed

text \<open>A writer never reorders: whatever fails, the wire grows by encodings of a prefix of the queue.\<close>

lemma writer_step_cases:
  assumes "k_writing l"
  obtains (idle) "k_queue l = []" "writer_step fc False l = l"
  | (sent) f fs where "k_queue l = f # fs" "k_queue (writer_step fc False l) = fs"
      "c_out (k_conn (writer_step fc False l)) = c_out (k_conn l) @ encoded fc [f]" "k_writing (writer_step fc False l)"
  | (failed) f fs where "k_queue l = f # fs" "k_queue (writer_step fc False l) = fs"
      "c_out (k_conn (writer_step fc False l)) = c_out (k_conn l)" "\<not> k_writing (writer_step fc False l)"
proof (cases "k_queue l")
  case Nil
  then show thesis by (intro idle) (simp_all add: writer_step_def)
next
  case (Cons f fs)
  show thesis
  proof (cases "fr_encode fc f")
    case (Inl e)
    with Cons assms show thesis by (intro sent [OF Cons]) (simp_all add: writer_step_def)
  next
    case (Inr bs)
    show thesis
    proof (cases "c_fault (k_conn l) (c_sends (k_conn l))")
      case True
      with Cons Inr show thesis by (intro failed [OF Cons]) (simp_all add: writer_step_def ws_send_def)
    next
      case False
      with Cons Inr assms show thesis by (intro sent [OF Cons]) (simp_all add: writer_step_def ws_send_def)
    qed
  qed
qed

lemma encoded_append: "encoded fc (fs @ gs) = encoded fc fs @ encoded fc gs"
  by (simp add: encoded_def)

lemma writer_prefix:
  "\<exists>fs bss. k_queue l = fs @ k_queue (writer_steps fc n l) \<and> prefix bss (encoded fc fs) \<and>
     c_out (k_conn (writer_steps fc n l)) = c_out (k_conn l) @ bss"
proof (induction n arbitrary: l)
  case 0
  show ?case by simp
next
  case (Suc n)
  show ?case
  proof (cases "k_writing l")
    case False
    then show ?thesis by simp
  next
    case True
    let ?m = "writer_step fc False l"
    obtain fs bss where ih: "k_queue ?m = fs @ k_queue (writer_steps fc n ?m)" "prefix bss (encoded fc fs)"
      "c_out (k_conn (writer_steps fc n ?m)) = c_out (k_conn ?m) @ bss"
      using Suc.IH [of ?m] by blast
    from True show ?thesis
    proof (cases rule: writer_step_cases [where fc = fc])
      case idle
      with Suc.IH [of l] True show ?thesis by simp
    next
      case (sent f fs')
      with ih True have "k_queue l = (f # fs) @ k_queue (writer_steps fc (Suc n) l)"
        "prefix (encoded fc [f] @ bss) (encoded fc (f # fs))"
        "c_out (k_conn (writer_steps fc (Suc n) l)) = c_out (k_conn l) @ encoded fc [f] @ bss"
        using encoded_append [of fc "[f]" fs] by simp_all
      then show ?thesis by blast
    next
      case (failed f fs')
      then have "writer_steps fc n ?m = ?m" by (cases n) simp_all
      with failed True have "k_queue l = [f] @ k_queue (writer_steps fc (Suc n) l)" "prefix [] (encoded fc [f])"
        "c_out (k_conn (writer_steps fc (Suc n) l)) = c_out (k_conn l) @ []" by simp_all
      then show ?thesis by blast
    qed
  qed
qed

context frame_codec
begin

text \<open>The reader handles exactly the frames that were encoded, in order.\<close>

lemma reader_handles:
  assumes "\<forall>f \<in> set fs. frame_short f" "c_in (k_conn l) = map Binary (encoded fc fs) @ es"
    and "handle_all sh (k_peer l) fs s = (out, t)"
  shows "reader_steps fc sh (length fs) l s =
    (l\<lparr>k_conn := (k_conn l)\<lparr>c_in := es\<rparr>, k_queue := k_queue l @ out\<rparr>, t)"
  using assms
proof (induction fs arbitrary: l s out t)
  case Nil
  then show ?case by simp
next
  case (Cons f fs)
  obtain bs where bs: "fr_encode fc f = Ok bs" using encode_short Cons.prems(1) by auto
  obtain o1 u where h: "handle_inbound sh (k_peer l) f s = (o1, u)" by fastforce
  obtain o2 v where r: "handle_all sh (k_peer l) fs u = (o2, v)" by fastforce
  let ?l = "l\<lparr>k_conn := (k_conn l)\<lparr>c_in := map Binary (encoded fc fs) @ es\<rparr>, k_queue := k_queue l @ o1\<rparr>"
  have "reader_step fc sh l s = (?l, u)"
    using Cons.prems(2) bs h by (simp add: reader_step_def drop_input_def frame_decode_encode)
  moreover have "reader_steps fc sh (length fs) ?l u =
      (?l\<lparr>k_conn := (k_conn ?l)\<lparr>c_in := es\<rparr>, k_queue := k_queue ?l @ o2\<rparr>, v)"
    by (rule Cons.IH) (use Cons.prems(1) r in simp_all)
  ultimately show ?case using Cons.prems(3) h r by simp
qed

lemma encoded_short: "\<forall>f \<in> set fs. frame_short f \<Longrightarrow> length (encoded fc fs) = length fs"
proof (induction fs)
  case (Cons f fs)
  then obtain bs where "fr_encode fc f = Ok bs" using encode_short [of f] by auto
  with Cons show ?case by simp
qed simp

end

section \<open>Deauthorisation\<close>

context sync_hub
begin

lemma enforcer_keys:
  assumes "enforcer_step sh known s = (known', t)" "sh_authorized_peers sh s = (ps, u)"
  shows "slots t i = Some (Some pk) \<longleftrightarrow> slots s i = Some (Some pk) \<and> pk \<in> ap_pubkey ` set ps"
proof -
  have "t = sh_disconnect_unauthorized sh (map ap_pubkey ps) u" using assms by (simp add: enforcer_step_def)
  moreover have "slots u = slots s" by (rule authorized_peers_law [OF assms(2)])
  ultimately show ?thesis by (auto simp: disconnect_law split: option.splits if_splits)
qed

end

text \<open>The log is exact when no key is listed twice.\<close>

lemma log_diff_exact:
  assumes "finite (dom prev)" "distinct (map ap_pubkey current)"
  shows "log_authorized_diff prev current =
    (map (\<lambda>p. (ap_pubkey p, label_or_unlabeled (ap_label p))) (filter (\<lambda>p. prev (ap_pubkey p) = None) current),
     {(pk, label_or_unlabeled lab) | pk lab. prev pk = Some lab \<and> pk \<notin> ap_pubkey ` set current})"
proof (cases "card (dom prev) = length current \<and> list_all (\<lambda>p. prev (ap_pubkey p) \<noteq> None) current")
  case False
  then show ?thesis unfolding log_authorized_diff_def by (simp only: if_False)
next
  case True
  let ?keys = "ap_pubkey ` set current"
  have sub: "?keys \<subseteq> dom prev" using True by (auto simp: list_all_iff)
  have "card ?keys = length current" using distinct_card [OF assms(2)] by simp
  with True sub assms(1) have eq: "?keys = dom prev" by (intro card_subset_eq) simp_all
  have "filter (\<lambda>p. prev (ap_pubkey p) = None) current = []" using True by (simp add: list_all_iff filter_empty_conv)
  moreover have "{(pk, label_or_unlabeled lab) | pk lab. prev pk = Some lab \<and> pk \<notin> ?keys} = {}"
    unfolding eq by auto
  ultimately show ?thesis using True by (simp add: log_authorized_diff_def)
qed

end
