(* ===== verification/VaultNet.thy ===== *)
theory VaultNet
  imports Ingest Channels
begin

text \<open>
  The operations of \<^verbatim>\<open>impl Vault\<close> that start and stop connections and bindings: a vault with its
  network side. A \<open>round\<close> of the reconnect supervisor is one connection from the first attempt
  to its end. The lemmas show that the supervisor never leaves the slot of a dead connection
  behind, and that a second \<open>connect\<close> does.
\<close>

section \<open>State\<close>

record ('d, 'y, 'g) node =
  nd_vault :: "('d, 'y, 'g) vault"
  nd_supervised :: bool
  nd_server :: "server_tls option"

definition on_vault :: "(('d, 'y, 'g) vault, 'a) action \<Rightarrow> (('d, 'y, 'g) node, 'a) action" where
  "on_vault m n = (case m (nd_vault n) of (r, v) \<Rightarrow> (r, n\<lparr>nd_vault := v\<rparr>))"

text \<open>\<open>dial\<close> is \<^verbatim>\<open>ClientConn::connect\<close> up to the tasks it spawns.\<close>

type_synonym ('d, 'y, 'g) dialer =
  "string \<Rightarrow> string option \<Rightarrow> pubkey option \<Rightarrow> identity \<Rightarrow> (('d, 'y, 'g) vault, client_conn) action"

definition vault_dialer ::
    "('d, 'o, 'y) automerge \<Rightarrow> (string \<Rightarrow> string) \<Rightarrow> 'i network \<Rightarrow> codec \<Rightarrow> crypto \<Rightarrow> agent \<Rightarrow> (nat \<Rightarrow> byte) \<Rightarrow> nat \<Rightarrow>
     ('d, 'y, 'g) dialer" where
  "vault_dialer am nfc net fc c agent rng out url vault_id pin identity =
     andthen (client_connect net fc c agent rng out url vault_id pin identity (vault_sync_handle am c nfc))
       (\<lambda>(_, conn). ret conn)"

definition set_client :: "client_conn option \<Rightarrow> (('d, 'y, 'g) vault, unit) action" where
  "set_client conn s = (Ok (), s\<lparr>va_client := conn\<rparr>)"

section \<open>Connecting\<close>

text \<open>\<^verbatim>\<open>ClientConn::close\<close>, as far as the vault sees it.\<close>

definition close_client :: "client_conn option \<Rightarrow> ('d, 'y, 'g) vault \<Rightarrow> ('d, 'y, 'g) vault" where
  "close_client conn s = (case conn of None \<Rightarrow> s | Some cc \<Rightarrow> vsh_unregister_peer (cc_peer_id cc) s)"

definition vault_connect :: "('d, 'y, 'g) dialer \<Rightarrow> (('d, 'y, 'g) vault, unit) action" where
  "vault_connect dial s =
     (case vc_rendezvous_url (va_config s) of
        None \<Rightarrow> (Err (Network ''no rendezvous_url configured''), s)
      | Some url \<Rightarrow>
          andthen (dial url (Some (va_vault_id s)) (vc_hub_pubkey (va_config s)) (va_identity s)) (\<lambda>conn.
          andthen (set_client (Some conn)) (\<lambda>_. send_event Connected)) s)"

definition take_client :: "('d, 'y, 'g) vault \<Rightarrow> ('d, 'y, 'g) vault" where
  "take_client s = close_client (va_client s) (s\<lparr>va_client := None\<rparr>)"

definition vault_disconnect :: "('d, 'y, 'g) node \<Rightarrow> ('d, 'y, 'g) node" where
  "vault_disconnect n =
     n\<lparr>nd_supervised := False, nd_vault := snd (send_event Disconnected (take_client (nd_vault n)))\<rparr>"

text \<open>
  One round of the supervisor: the attempts, the shutdown signal during a delay, how the
  connection ends, and what the rest of the program does to the vault while it lasts.
\<close>

datatype fate = Lost | Stopped

record ('d, 'y, 'g) round =
  rd_dial :: "nat \<Rightarrow> (('d, 'y, 'g) vault, client_conn) action"
  rd_shut :: "nat \<Rightarrow> bool"
  rd_world :: "('d, 'y, 'g) vault \<Rightarrow> ('d, 'y, 'g) vault"
  rd_fate :: fate

fun supervise :: "reconnect_options \<Rightarrow> ('d, 'y, 'g) round list \<Rightarrow> ('d, 'y, 'g) vault \<Rightarrow> ('d, 'y, 'g) vault" where
  "supervise opts [] s = s"
| "supervise opts (r # rs) s =
     (case connect_with_backoff (rd_dial r) (rd_shut r) opts s of
        (ConnectedTo conn, _, t) \<Rightarrow>
          (let u = rd_world r (snd (set_client (Some conn) (snd (send_event Connected t)))) in
           case rd_fate r of
             Lost \<Rightarrow> supervise opts rs (take_client (snd (send_event Disconnected u)))
           | Stopped \<Rightarrow> u)
      | (Shutdown, _, t) \<Rightarrow> t
      | (GaveUp, _, t) \<Rightarrow> t)"

definition connect_with_reconnect :: "(('d, 'y, 'g) node, string) action" where
  "connect_with_reconnect n =
     (let m = vault_disconnect n in
      case vc_rendezvous_url (va_config (nd_vault m)) of
        None \<Rightarrow> (Err (Network ''no rendezvous_url configured''), m)
      | Some url \<Rightarrow> (Ok url, m\<lparr>nd_supervised := True\<rparr>))"

section \<open>Listening\<close>

definition listen_with_tls :: "unit result \<Rightarrow> server_tls \<Rightarrow> (('d, 'y, 'g) node, unit) action" where
  "listen_with_tls bind tls =
     andthen (lift bind) (\<lambda>_ n. (Ok (), n\<lparr>nd_server := Some tls\<rparr>))"

definition vault_listen ::
    "(byte list \<times> byte list) result \<Rightarrow> fpath \<Rightarrow> unit result \<Rightarrow> (('d, 'y, 'g) node, unit) action" where
  "vault_listen generated cwd bind n =
     andthen (on_vault (on_disk (load_or_generate_self_signed generated
         (tls_dir_for_storage cwd (va_storage_path (nd_vault n)))))) (\<lambda>(cert_der, key_der).
     listen_with_tls bind (TlsEnabled cert_der key_der)) n"

definition listen_plain :: "unit result \<Rightarrow> (('d, 'y, 'g) node, unit) action" where
  "listen_plain bind = listen_with_tls bind TlsDisabled"

definition unlisten :: "('d, 'y, 'g) node \<Rightarrow> ('d, 'y, 'g) node" where
  "unlisten n = n\<lparr>nd_server := None\<rparr>"

definition vault_close :: "('d, 'o, 'y) automerge \<Rightarrow> (('d, 'y, 'g) node, unit) action" where
  "vault_close am n = on_vault (vault_flush am) (unlisten (vault_disconnect n))"

definition peer_count :: "('d, 'y, 'g) vault \<Rightarrow> nat" where
  "peer_count s = card (dom (va_peers s))"

section \<open>Binding a directory\<close>

text \<open>The binding is kept in the vault while a step works on it.\<close>

definition on_bound :: "(('d, 'y, 'g) bound, unit) action \<Rightarrow> (('d, 'y, 'g) vault, unit) action" where
  "on_bound m s =
     (case va_binding s of
        None \<Rightarrow> (Ok (), s)
      | Some b \<Rightarrow> (case m (s, b) of (r, s', b') \<Rightarrow> (r, s'\<lparr>va_binding := Some b'\<rparr>)))"

definition bind_directory ::
    "('d, 'o, 'y) automerge \<Rightarrow> crypto \<Rightarrow> (string \<Rightarrow> string) \<Rightarrow> 'g gitignore \<Rightarrow> walk \<Rightarrow> (nat \<Rightarrow> nat) \<Rightarrow> (disk \<Rightarrow> disk) \<Rightarrow>
     (string list \<Rightarrow> string list) \<Rightarrow> ((string \<times> file_meta) list \<Rightarrow> (string \<times> file_meta) list) \<Rightarrow> unit result \<Rightarrow>
     fpath \<Rightarrow> bind_options \<Rightarrow> (('d, 'y, 'g) vault, unit) action" where
  "bind_directory am c nfc gi wk clock settle order meta_order watch path opts =
     andthen (on_disk (binding_new gi wk path opts)) (\<lambda>b.
     andthen (lift watch) (\<lambda>_.
     andthen (\<lambda>s. (Ok (), s\<lparr>va_binding := Some b\<rparr>)) (\<lambda>_.
     andthen (on_bound (initial_scan am c nfc gi wk clock settle)) (\<lambda>_.
     on_bound (materialize am c clock order meta_order)))))"

text \<open>One turn of the two loops that are spawned; errors are logged.\<close>

definition materialize_turn ::
    "('d, 'o, 'y) automerge \<Rightarrow> crypto \<Rightarrow> (nat \<Rightarrow> nat) \<Rightarrow> (string list \<Rightarrow> string list) \<Rightarrow>
     ((string \<times> file_meta) list \<Rightarrow> (string \<times> file_meta) list) \<Rightarrow> ('d, 'y, 'g) vault \<Rightarrow> ('d, 'y, 'g) vault" where
  "materialize_turn am c clock order meta_order s = snd (on_bound (materialize am c clock order meta_order) s)"

section \<open>No slot is left behind\<close>

text \<open>The slots of a vault that is no hub: the one of its connection, if it has one.\<close>

definition client_slots :: "('d, 'y, 'g) vault \<Rightarrow> bool" where
  "client_slots s \<longleftrightarrow>
     dom (vault_slots s) \<subseteq> (case va_client s of None \<Rightarrow> {} | Some cc \<Rightarrow> {cc_peer_id cc})"

text \<open>What dialing does: it adds the slot of the connection, or none.\<close>

definition dials :: "(('d, 'y, 'g) vault, client_conn) action \<Rightarrow> bool" where
  "dials m \<longleftrightarrow> (\<forall>s r t. m s = (r, t) \<longrightarrow> va_client t = va_client s \<and>
     (case r of Inl _ \<Rightarrow> dom (vault_slots t) \<subseteq> dom (vault_slots s)
      | Inr cc \<Rightarrow> dom (vault_slots t) \<subseteq> insert (cc_peer_id cc) (dom (vault_slots s))))"

definition keeps_slots :: "(('d, 'y, 'g) vault \<Rightarrow> ('d, 'y, 'g) vault) \<Rightarrow> bool" where
  "keeps_slots f \<longleftrightarrow> (\<forall>s. va_client (f s) = va_client s \<and> dom (vault_slots (f s)) \<subseteq> dom (vault_slots s))"

lemma send_event_slots [simp]:
  "vault_slots (snd (send_event ev s)) = vault_slots s" "va_client (snd (send_event ev s)) = va_client s"
  by (simp_all add: send_event_def vault_slots_def fun_eq_iff)

lemma set_client_slots [simp]:
  "vault_slots (snd (set_client x s)) = vault_slots s" "va_client (snd (set_client x s)) = x"
  by (simp_all add: set_client_def vault_slots_def fun_eq_iff)

lemma take_client_slots:
  "va_client (take_client s) = None"
  "client_slots s \<Longrightarrow> vault_slots (take_client s) = Map.empty"
  by (auto simp: take_client_def close_client_def client_slots_def vsh_unregister_peer_def vault_slots_def
      fun_eq_iff dom_def split: option.splits)

lemma connect_loop_dials:
  assumes "\<And>n. dials (dial n)" "connect_loop dial shut opts a s = (r, ds, t)"
  shows "va_client t = va_client s \<and>
    dom (vault_slots t) \<subseteq> (case r of ConnectedTo cc \<Rightarrow> insert (cc_peer_id cc) (dom (vault_slots s))
      | _ \<Rightarrow> dom (vault_slots s))"
  using assms(2)
proof (induction "ro_max_attempts opts - a" arbitrary: a s r ds t rule: less_induct)
  case less
  obtain x u where x: "dial (Suc a) s = (x, u)" by fastforce
  from assms(1) [of "Suc a"] x have u: "va_client u = va_client s"
    "case x of Inl _ \<Rightarrow> dom (vault_slots u) \<subseteq> dom (vault_slots s)
     | Inr cc \<Rightarrow> dom (vault_slots u) \<subseteq> insert (cc_peer_id cc) (dom (vault_slots s))"
    unfolding dials_def by blast+
  note unfold = less.prems [unfolded connect_loop.simps [of dial shut opts a], simplified Let_def, simplified, unfolded x, simplified]
  show ?case
  proof (cases x)
    case (Inr cc)
    with unfold have "r = ConnectedTo cc" "t = u" by auto
    with u Inr show ?thesis by simp
  next
    case (Inl e)
    note u2 = u(2) [unfolded Inl, simplified]
    show ?thesis
    proof (cases "ro_max_attempts opts \<le> Suc a \<or> shut (Suc a)")
      case True
      with unfold Inl have "r = GaveUp \<or> r = Shutdown" "vault_slots t = vault_slots u \<and> va_client t = va_client u"
        by (auto split: if_splits)
      with u(1) u2 show ?thesis by (elim disjE) simp_all
    next
      case False
      obtain r' ds' t' where rec: "connect_loop dial shut opts (Suc a) u = (r', ds', t')" by (metis prod_cases3)
      have "va_client t' = va_client u \<and> dom (vault_slots t') \<subseteq>
          (case r' of ConnectedTo cc \<Rightarrow> insert (cc_peer_id cc) (dom (vault_slots u)) | _ \<Rightarrow> dom (vault_slots u))"
        using False by (intro less.hyps [OF _ rec]) auto
      moreover have "r' = r" "t' = t" using unfold Inl False rec by auto
      ultimately show ?thesis using u(1) u2 by (cases r) (simp; blast)+
    qed
  qed
qed

text \<open>
  However connections come and go, at any moment at which the supervisor holds no connection the
  vault has no peer, and while it holds one that is its only peer.
\<close>

lemma supervise_slots:
  assumes "\<forall>r \<in> set rs. (\<forall>n. dials (rd_dial r n)) \<and> keeps_slots (rd_world r)"
    and "va_client s = None" "vault_slots s = Map.empty"
  shows "client_slots (supervise opts rs s)"
  using assms
proof (induction rs arbitrary: s)
  case Nil
  then show ?case by (simp add: client_slots_def)
next
  case (Cons r rs)
  obtain x ds t where x: "connect_with_backoff (rd_dial r) (rd_shut r) opts s = (x, ds, t)" by (metis prod_cases3)
  have t: "va_client t = None" "dom (vault_slots t) \<subseteq> (case x of ConnectedTo cc \<Rightarrow> {cc_peer_id cc} | _ \<Rightarrow> {})"
    using connect_loop_dials [of "rd_dial r" "rd_shut r" opts 0 s x ds t] Cons.prems x
    by (auto simp: connect_with_backoff_def split: connect_result.splits)
  show ?case
  proof (cases x)
    case (ConnectedTo cc)
    let ?u = "rd_world r (snd (set_client (Some cc) (snd (send_event Connected t))))"
    from Cons.prems(1) have w: "keeps_slots (rd_world r)" by simp
    then have "va_client ?u = Some cc" "dom (vault_slots ?u) \<subseteq> dom (vault_slots t)"
      unfolding keeps_slots_def by (metis set_client_slots send_event_slots(1))+
    with t ConnectedTo have u: "client_slots ?u" by (auto simp: client_slots_def)
    then have v: "client_slots (snd (send_event Disconnected ?u))" by (simp add: client_slots_def)
    show ?thesis
    proof (cases "rd_fate r")
      case Lost
      have "client_slots (supervise opts rs (take_client (snd (send_event Disconnected ?u))))"
        using Cons.prems(1) take_client_slots [of "snd (send_event Disconnected ?u)"] v
        by (intro Cons.IH) simp_all
      with Lost x ConnectedTo show ?thesis by (simp add: Let_def)
    next
      case Stopped
      with u x ConnectedTo show ?thesis by (simp add: Let_def)
    qed
  qed (use x t in \<open>simp_all add: client_slots_def\<close>)
qed

text \<open>\<^verbatim>\<open>ClientConn::connect\<close> on the vault's own handle dials in this sense.\<close>

lemma start_link_dials:
  assumes "start_link (vault_sync_handle am c nfc) out pk (k, s) = (r, k', t)"
  shows "va_client t = va_client s \<and> (\<exists>l. r = Ok l \<and> dom (vault_slots t) = insert (k_peer l) (dom (vault_slots s)))"
proof -
  let ?i = "va_next_peer_id s"
  obtain u where u: "vsh_register_peer am out (Some pk) s = (Ok ?i, u)" "va_client u = va_client s"
    "vault_slots u = (vault_slots s)(?i \<mapsto> Some pk)"
    by (auto simp: vsh_register_peer_def Let_def vault_slots_def fun_eq_iff)
  obtain m w where g: "vsh_generate_sync_message am ?i u = (m, w)" by fastforce
  from vsh_slots(1) [OF g] obtain x where x: "m = Ok x" "vault_slots w = vault_slots u" by blast
  have "va_client w = va_client u"
    using g by (auto simp: vsh_generate_sync_message_def split: option.splits prod.splits)
  let ?l = "\<lparr>k_peer = ?i, k_pubkey = pk, k_conn = k,
      k_queue = (case x of Some bs \<Rightarrow> [SyncFrame bs] | None \<Rightarrow> []),
      k_reading = True, k_writing = True, k_notifying = True, k_close_sent = False\<rparr>"
  have "start_link (vault_sync_handle am c nfc) out pk (k, s) = (Ok ?l, k, w)"
    using u(1) g x(1) by (simp add: start_link_def andthen_run on_hub_run vault_sync_handle_def)
  with assms have "r = Ok ?l" "t = w" by auto
  moreover have "dom (vault_slots w) = insert (k_peer ?l) (dom (vault_slots s))" using x(2) u(3) by simp
  ultimately show ?thesis using \<open>va_client w = va_client u\<close> u(2) by simp
qed

lemma vault_dialer_dials: "dials (vault_dialer am nfc net fc c agent rng out url vault_id pin identity)"
proof -
  have "va_client t = va_client s \<and> (case r of Inl _ \<Rightarrow> dom (vault_slots t) \<subseteq> dom (vault_slots s)
      | Inr cc \<Rightarrow> dom (vault_slots t) \<subseteq> insert (cc_peer_id cc) (dom (vault_slots s)))"
    if run: "vault_dialer am nfc net fc c agent rng out url vault_id pin identity s = (r, t)" for s r t
  proof (cases "open_websocket net c url")
    case (Inl e)
    with run show ?thesis by (auto simp: vault_dialer_def client_connect_def andthen_run)
  next
    case (Inr x)
    obtain ws fp where x: "x = (ws, fp)" by (cases x)
    obtain h ws' where h: "run_handshake fc c agent identity rng fp ws = (h, ws')" by fastforce
    show ?thesis
    proof (cases h)
      case (Inl e)
      with run Inr x h show ?thesis
        by (auto simp: vault_dialer_def client_connect_def andthen_run on_conn_run)
    next
      case h': (Inr y)
      obtain vid pk name tr where y: "y = (vid, pk, name, tr)" by (cases y) auto
      show ?thesis
      proof (cases "check_hub c vault_id pin vid pk")
        case (Inl e)
        with run Inr x h h' y show ?thesis
          by (auto simp: vault_dialer_def client_connect_def andthen_run on_conn_run lift_run)
      next
        case chk: (Inr z)
        obtain r2 k2 t2 where sl: "start_link (vault_sync_handle am c nfc) out pk (ws', s) = (r2, k2, t2)"
          by (metis prod_cases3)
        from start_link_dials [OF sl] obtain l where l: "va_client t2 = va_client s" "r2 = Ok l"
          "dom (vault_slots t2) = insert (k_peer l) (dom (vault_slots s))" by blast
        with run Inr x h h' y chk sl show ?thesis
          by (auto simp: vault_dialer_def client_connect_def andthen_run on_conn_run lift_run ret_run)
      qed
    qed
  qed
  then show ?thesis unfolding dials_def by blast
qed

end
