(* ===== verification/Keyring.thy ===== *)
theory Keyring
  imports PeerHub Demo
begin

text \<open>
  The authorised keys of a vault are a text file of its document. The lemmas connect the
  operations that write the file with what \<open>vault_authorized_peers\<close> reads back, and a concrete
  vault with one authorised peer is built for the properties of the sessions.
\<close>

section \<open>Reading the keys\<close>

lemma authorized_peers_run:
  assumes "automerge_doc am tree oid" "sound tree (va_doc s) v"
    and "normalize nfc AUTHORIZED_KEYS_FILE = Ok AUTHORIZED_KEYS_FILE"
  shows "(AUTHORIZED_KEYS_FILE, fid, TextBody t) \<in> live_files v \<Longrightarrow>
      vault_authorized_peers am c nfc s = (parse_authorized_keys c t, s)"
    "\<not> has_file v AUTHORIZED_KEYS_FILE \<Longrightarrow> vault_authorized_peers am c nfc s = ([], s)"
  using automerge_doc.read_file_run [OF assms(1) soundD(1,2) [OF assms(2)] assms(3)]
  by (simp_all add: vault_authorized_peers_def on_doc_def)

lemma written_keys_read:
  assumes "automerge_doc am tree oid" "base64_codec c" "sound tree (va_doc s) v'"
    and "normalize nfc AUTHORIZED_KEYS_FILE = Ok AUTHORIZED_KEYS_FILE" "\<forall>p \<in> set peers. peer_ok p"
    and "file_written v AUTHORIZED_KEYS_FILE fid (TextBody (render_authorized_keys c peers)) v'"
  shows "vault_authorized_peers am c nfc s = (peers, s)"
proof -
  from assms(6) have "(AUTHORIZED_KEYS_FILE, fid, TextBody (render_authorized_keys c peers)) \<in> live_files v'"
    by (simp add: file_written_def)
  from authorized_peers_run(1) [OF assms(1,3,4) this, of c] show ?thesis
    by (simp add: base64_codec.parse_render [OF assms(2,5)])
qed

lemma authorized_pubkeys_of_peers:
  "vault_authorized_peers am c nfc s = (ps, t) \<Longrightarrow> vault_authorized_pubkeys am c nfc s = (map ap_pubkey ps, t)"
  by (simp add: vault_authorized_pubkeys_def)

section \<open>A concrete vault\<close>

abbreviation hub1 :: identity where
  "hub1 \<equiv> identity_from_seed example_crypto [1]"

abbreviation peer2 :: identity where
  "peer2 \<equiv> identity_from_seed example_crypto [2]"

definition keyring_peers :: "authorized_peer list" where
  "keyring_peers = [\<lparr>ap_pubkey = identity_pubkey peer2, ap_label = ''creator''\<rparr>]"

definition keyring_doc :: "ref_doc doc" where
  "keyring_doc = snd (write_text_file ref_am ascii_nfc AUTHORIZED_KEYS_FILE
     (render_authorized_keys example_crypto keyring_peers) demo)"

definition blank_disk :: disk where
  "blank_disk = \<lparr>d_nodes = Map.empty, d_calls = 0, d_fault = (\<lambda>_. False), d_cut = (\<lambda>_. 0)\<rparr>"

definition keyring_vault :: "(ref_doc, unit, unit) vault" where
  "keyring_vault = vault_start ''v'' hub1 [] default_config keyring_doc blank_disk"

lemma keys_path: "normalize ascii_nfc AUTHORIZED_KEYS_FILE = Ok AUTHORIZED_KEYS_FILE"
  by code_simp

lemma keyring_ok: "\<forall>p \<in> set keyring_peers. peer_ok p"
proof -
  have "trim ''creator'' = ''creator''" by code_simp
  then show ?thesis
    by (simp add: keyring_peers_def peer_ok_def label_ok_def identity_from_seed_def
        ed25519.public_length [OF ex.ed25519_axioms])
qed

lemma keyring_written:
  assumes "d = keyring_doc"
  obtains fid v where "sound ref_tree d v"
    "file_written demo_view AUTHORIZED_KEYS_FILE fid (TextBody (render_authorized_keys example_crypto keyring_peers)) v"
proof -
  obtain fid d' v' where
    w: "write_text_file ref_am ascii_nfc AUTHORIZED_KEYS_FILE (render_authorized_keys example_crypto keyring_peers) demo =
      (Ok fid, d')" "sound ref_tree d' v'"
      "file_written demo_view AUTHORIZED_KEYS_FILE fid (TextBody (render_authorized_keys example_crypto keyring_peers)) v'"
    by (rule automerge_doc.write_text_run [OF ref.automerge_doc_axioms demo_sound keys_path])
  moreover have "d = d'" using w(1) assms by (simp add: keyring_doc_def)
  ultimately show thesis using that by blast
qed

lemma keyring_live:
  assumes "d = keyring_doc"
  obtains fid v where "sound ref_tree d v"
    "(AUTHORIZED_KEYS_FILE, fid, TextBody (render_authorized_keys example_crypto keyring_peers)) \<in> live_files v"
  by (rule keyring_written [OF assms]) (use that in \<open>auto simp: file_written_def\<close>)

lemma keyring_parsed:
  "parse_authorized_keys example_crypto (render_authorized_keys example_crypto keyring_peers) = keyring_peers"
  by (rule base64_codec.parse_render [OF ex.base64_codec_axioms keyring_ok])

lemma keyring_authorized:
  assumes "va_doc s = keyring_doc"
  shows "vault_authorized_peers ref_am example_crypto ascii_nfc s = (keyring_peers, s)"
    "vault_authorized_pubkeys ref_am example_crypto ascii_nfc s = ([identity_pubkey peer2], s)"
proof -
  obtain fid v where "sound ref_tree (va_doc s) v"
    "(AUTHORIZED_KEYS_FILE, fid, TextBody (render_authorized_keys example_crypto keyring_peers)) \<in> live_files v"
    by (rule keyring_live [OF assms])
  from authorized_peers_run(1) [OF ref.automerge_doc_axioms this(1) keys_path this(2), of example_crypto]
  show "vault_authorized_peers ref_am example_crypto ascii_nfc s = (keyring_peers, s)"
    by (simp add: keyring_parsed)
  from authorized_pubkeys_of_peers [OF this]
  show "vault_authorized_pubkeys ref_am example_crypto ascii_nfc s = ([identity_pubkey peer2], s)"
    by (simp add: keyring_peers_def)
qed

end
