(* ===== verification/NetProperties.thy ===== *)
theory NetProperties
  imports Authentication VaultNet Keyring
begin

text \<open>
  The properties of the wire protocol, the handshake and the sessions. MessagePack and ed25519
  are hypotheses, discharged in the witnesses by the concrete codec and signature scheme.
\<close>

section \<open>Two honest parties\<close>

lemma honest_pair:
  assumes "frame_codec fc" "ed25519 c" "hub = identity_from_seed c s1" "peer = identity_from_seed c s2"
    and "authorized h = (Ok keys, h')" "identity_pubkey peer \<in> set keys"
    and "length cert_fp < 4294967296" "length vault_id < 4294967296" "\<forall>n. name = Some n \<longrightarrow> length n < 4294967296"
  obtains b1 b2 b3 b4 where
    "hub_handshake fc c agent hub vault_id name cert_fp rng authorized (fresh_conn [Binary b2, Binary b4], h) =
       (Ok (identity_pubkey peer), \<lparr>c_in = [], c_out = [b1, b3], c_sends = 2, c_fault = (\<lambda>_. False)\<rparr>, h')"
    "run_handshake fc c agent peer rng' cert_fp (fresh_conn [Binary b1, Binary b3]) =
       (Ok (vault_id, identity_pubkey hub, name, build_transcript (random_nonce rng) (random_nonce rng') cert_fp
          (identity_pubkey hub) (identity_pubkey peer)),
        \<lparr>c_in = [], c_out = [b2, b4], c_sends = 2, c_fault = (\<lambda>_. False)\<rparr>)"
    "fr_encode fc (HelloHub vault_id (identity_pubkey hub) (random_nonce rng) cert_fp name) = Ok b1"
    "fr_encode fc (HelloPeer (identity_pubkey peer) (random_nonce rng') Join) = Ok b2"
    "fr_encode fc (ProofHub (ed_sign c s1 (build_transcript (random_nonce rng) (random_nonce rng') cert_fp
       (identity_pubkey hub) (identity_pubkey peer)))) = Ok b3"
    "fr_encode fc (ProofPeer (ed_sign c s2 (build_transcript (random_nonce rng) (random_nonce rng') cert_fp
       (identity_pubkey hub) (identity_pubkey peer)))) = Ok b4"
proof -
  let ?hk = "identity_pubkey hub" and ?pk = "identity_pubkey peer"
  let ?n = "random_nonce rng" and ?m = "random_nonce rng'"
  let ?tr = "build_transcript ?n ?m cert_fp ?hk ?pk"
  note enc = frame_codec.encode_short [OF assms(1)]
  have keys: "?hk = ed_public c s1" "?pk = ed_public c s2" using assms(3,4) by (simp_all add: identity_from_seed_def)
  have len: "length ?hk = 32" "length ?pk = 32" "length ?n = 32" "length ?m = 32"
    "length (ed_sign c s msg) = 64" for s msg
    using keys ed25519.public_length [OF assms(2)] ed25519.sign_length [OF assms(2)] by (simp_all add: NONCE_LEN_def)
  have v: "pubkey_verify c (ed_public c s) ?tr (ed_sign c s ?tr)" for s
    using ed25519.sign_verify [OF assms(2)] len by (simp add: pubkey_verify_def SIGNATURE_LEN_def)
  have sg: "identity_sign agent c hub ?tr = Ok (ed_sign c s1 ?tr)" "identity_sign agent c peer ?tr = Ok (ed_sign c s2 ?tr)"
    using assms(3,4) by (simp_all add: identity_sign_def identity_from_seed_def)
  obtain b1 where b1: "fr_encode fc (HelloHub vault_id ?hk ?n cert_fp name) = Ok b1"
    using enc [of "HelloHub vault_id ?hk ?n cert_fp name"] assms(7-9) len by (cases name) auto
  obtain b2 where b2: "fr_encode fc (HelloPeer ?pk ?m Join) = Ok b2"
    using enc [of "HelloPeer ?pk ?m Join"] len by auto
  obtain b3 where b3: "fr_encode fc (ProofHub (ed_sign c s1 ?tr)) = Ok b3"
    using enc [of "ProofHub (ed_sign c s1 ?tr)"] len by auto
  obtain b4 where b4: "fr_encode fc (ProofPeer (ed_sign c s2 ?tr)) = Ok b4"
    using enc [of "ProofPeer (ed_sign c s2 ?tr)"] len by auto
  have hub: "hub_handshake fc c agent hub vault_id name cert_fp rng authorized (fresh_conn [Binary b2, Binary b4], h) =
      (Ok ?pk, \<lparr>c_in = [], c_out = [b1, b3], c_sends = 2, c_fault = (\<lambda>_. False)\<rparr>, h')"
    using frame_codec.hub_honest_run [where authorized = authorized and h = h and es = "[]",
        OF assms(1) b1 b2 len(2,4) assms(5,6) sg(1) b3 b4] v [of s2] keys
    by simp
  have client: "run_handshake fc c agent peer rng' cert_fp (fresh_conn [Binary b1, Binary b3]) =
      (Ok (vault_id, ?hk, name, ?tr), \<lparr>c_in = [], c_out = [b2, b4], c_sends = 2, c_fault = (\<lambda>_. False)\<rparr>)"
    using frame_codec.client_honest_run [where es = "[]",
        OF assms(1) b1 len(1,3) disjI2 [OF refl] b2 b3 b4 _ sg(2)] v [of s1] keys
    by simp
  show thesis by (rule that [OF hub client b1 b2 b3 b4])
qed

text \<open>The three steps of such a run in the network of all parties.\<close>

lemma honest_net:
  assumes "frame_codec fc" "ed25519 c" "hub = identity_from_seed c s1" "peer = identity_from_seed c s2"
    and "hub \<in> party" "peer \<in> party"
  obtains \<sigma> s where "net_reachable fc c agent party \<sigma>" "s \<in> n_hub_commits \<sigma>"
    "hub_key s = identity_pubkey hub" "peer_key s = identity_pubkey peer"
proof -
  let ?rng = "\<lambda>_. 0 :: byte" and ?fp = "replicate 32 0 :: byte list"
  let ?auth = "\<lambda>h :: nat. (Ok [identity_pubkey peer], h) :: pubkey list result \<times> nat"
  let ?n = "random_nonce ?rng"
  let ?tr = "build_transcript ?n ?n ?fp (identity_pubkey hub) (identity_pubkey peer)"
  let ?s = "(?n, ?n, ?fp, identity_pubkey hub, identity_pubkey peer)"
  have side: "?auth 0 = (Ok [identity_pubkey peer], 0)" "identity_pubkey peer \<in> set [identity_pubkey peer]"
    "length ?fp < 4294967296" "length ([] :: string) < 4294967296" "\<forall>n :: string. None = Some n \<longrightarrow> length n < 4294967296"
    by simp_all
  obtain b1 b2 b3 b4 where
    hub: "hub_handshake fc c agent hub [] None ?fp ?rng ?auth (fresh_conn [Binary b2, Binary b4], 0) =
       (Ok (identity_pubkey peer), \<lparr>c_in = [], c_out = [b1, b3], c_sends = 2, c_fault = (\<lambda>_. False)\<rparr>, 0)" and
    cl: "run_handshake fc c agent peer ?rng ?fp (fresh_conn [Binary b1, Binary b3]) =
       (Ok ([], identity_pubkey hub, None, ?tr), \<lparr>c_in = [], c_out = [b2, b4], c_sends = 2, c_fault = (\<lambda>_. False)\<rparr>)" and
    b1: "fr_encode fc (HelloHub [] (identity_pubkey hub) ?n ?fp None) = Ok b1" and
    b2: "fr_encode fc (HelloPeer (identity_pubkey peer) ?n Join) = Ok b2" and
    b3: "fr_encode fc (ProofHub (ed_sign c s1 ?tr)) = Ok b3" and
    b4: "fr_encode fc (ProofPeer (ed_sign c s2 ?tr)) = Ok b4"
    by (rule honest_pair [where authorized = ?auth and h = 0 and h' = 0 and rng = ?rng and rng' = ?rng, OF assms(1-4) side])
  have len: "length (identity_pubkey hub) = 32" "length (identity_pubkey peer) = 32"
    using assms(3,4) ed25519.public_length [OF assms(2)] by (simp_all add: identity_from_seed_def)
  have rd: "fst (read_one_frame fc (fresh_conn [Binary b2, Binary b4])) = Ok (HelloPeer (identity_pubkey peer) ?n Join)"
    "fst (read_one_frame fc (fresh_conn [Binary b1, Binary b3])) = Ok (HelloHub [] (identity_pubkey hub) ?n ?fp None)"
    using frame_codec.read_encoded [OF assms(1) b2] frame_codec.read_encoded [OF assms(1) b1]
    by (simp_all add: fresh_conn_def)
  have sg: "identity_sign agent c hub ?tr = Ok (ed_sign c s1 ?tr)"
    using assms(3) by (simp add: identity_sign_def identity_from_seed_def)
  have signs: "hub_signs fc c agent hub [] None ?fp ?rng ?auth (fresh_conn [Binary b2, Binary b4]) (0 :: nat) ?n (identity_pubkey peer)"
    unfolding hub_signs_def
    by (intro exI conjI, rule hub, rule rd(1), rule refl, rule len(2), simp add: NONCE_LEN_def, rule sg, rule b3)
      (simp add: fresh_conn_def)
  let ?\<sigma>1 = "net_start\<lparr>n_signed := insert (identity_pubkey hub, transcript_of ?s) (n_signed net_start),
      n_hub_runs := insert ?s (n_hub_runs net_start)\<rparr>"
  let ?\<sigma>2 = "?\<sigma>1\<lparr>n_signed := insert (identity_pubkey peer, ?tr) (n_signed ?\<sigma>1),
      n_client_commits := insert ?s (n_client_commits ?\<sigma>1)\<rparr>"
  let ?\<sigma>3 = "?\<sigma>2\<lparr>n_hub_commits := insert ?s (n_hub_commits ?\<sigma>2)\<rparr>"
  have tr: "transcript_of ?s = ?tr" by (simp add: transcript_of_def)
  have 1: "net_step fc c agent party net_start ?\<sigma>1"
    by (rule net_step.hub_sign [OF assms(5) len(1) signs refl])
  have 2: "net_step fc c agent party ?\<sigma>1 ?\<sigma>2"
    by (rule net_step.client_commit [OF assms(6) len(2) cl rd(2) refl]) (simp add: tr)
  have 3: "net_step fc c agent party ?\<sigma>2 ?\<sigma>3"
    by (rule net_step.hub_commit [OF assms(5) len(1) hub rd(1) refl refl]) (simp_all add: tr)
  have "net_reachable fc c agent party ?\<sigma>3"
    by (intro net_reachable.step [OF _ 3] net_reachable.step [OF _ 2] net_reachable.step [OF _ 1] net_reachable.start)
  then show thesis by (rule that [of _ ?s]) simp_all
qed

section \<open>Authentication\<close>



text \<open>
  C9. The hub's signature. Whatever a peer sends, a \<open>ProofHub\<close> frame leaves the hub only after
  it has read a \<open>HelloPeer\<close> whose key is among the authorised keys it read then, and the
  signature in it is on the transcript of that very hello.
\<close>

theorem hub_signs_for_authorised:
  assumes "frame_codec fc"
    and "hub_handshake fc c agent i vault_id name cert_fp rng authorized (k, h) = (r, k', h')"
    and "fr_encode fc (ProofHub sig) = Ok b" "b \<in> set (c_out k')" "b \<notin> set (c_out k)"
  shows "\<exists>pk n op keys h''. fst (read_events fc (c_in k)) = Ok (HelloPeer pk n op) \<and>
    authorized h = (Ok keys, h'') \<and> pk \<in> set keys \<and>
    identity_sign agent c i (build_transcript (random_nonce rng) n cert_fp (identity_pubkey i) pk) = Ok sig"
proof -
  note same = frame_codec.encode_inject [OF assms(1) assms(3)]
  from hub_sends [OF assms(2,4,5)] obtain k1 k2 pk n op keys h'' sig' where
    s: "read_one_frame fc k1 = (Ok (HelloPeer pk n op), k2)" "c_in k1 = c_in k" "authorized h = (Ok keys, h'')"
      "pk \<in> set keys" "fr_encode fc (ProofHub sig') = Ok b"
      "identity_sign agent c i (build_transcript (random_nonce rng) n cert_fp (identity_pubkey i) pk) = Ok sig'"
    by (blast dest: same)
  from same [OF s(5)] have "sig' = sig" by simp
  moreover have "fst (read_events fc (c_in k)) = Ok (HelloPeer pk n op)"
    using s(1,2) by (simp add: read_one_frame_def split: prod.splits)
  ultimately show ?thesis using s by blast
qed

text \<open>The run of the two concrete parties.\<close>

abbreviation nonce0 :: "byte list" where
  "nonce0 \<equiv> random_nonce (\<lambda>_. 0)"

abbreviation transcript12 :: "byte list" where
  "transcript12 \<equiv> build_transcript nonce0 nonce0 zero_fp (identity_pubkey hub1) (identity_pubkey peer2)"

lemma example_pair:
  assumes "authorized h = (Ok keys, h')" "identity_pubkey peer2 \<in> set keys"
  obtains b1 b2 b3 b4 where
    "hub_handshake example_codec example_crypto (\<lambda>_ _. None) hub1 ''v'' None zero_fp (\<lambda>_. 0) authorized
       (fresh_conn [Binary b2, Binary b4], h) =
     (Ok (identity_pubkey peer2), \<lparr>c_in = [], c_out = [b1, b3], c_sends = 2, c_fault = (\<lambda>_. False)\<rparr>, h')"
    "run_handshake example_codec example_crypto (\<lambda>_ _. None) peer2 (\<lambda>_. 0) zero_fp (fresh_conn [Binary b1, Binary b3]) =
     (Ok (''v'', identity_pubkey hub1, None, transcript12),
      \<lparr>c_in = [], c_out = [b2, b4], c_sends = 2, c_fault = (\<lambda>_. False)\<rparr>)"
    "fr_encode example_codec (ProofHub (ed_sign example_crypto [1] transcript12)) = Ok b3"
    "fr_encode example_codec (ProofPeer (ed_sign example_crypto [2] transcript12)) = Ok b4"
proof -
  have side: "length zero_fp < 4294967296" "length ''v'' < 4294967296"
    "\<forall>n :: string. None = Some n \<longrightarrow> length n < 4294967296"
    by (simp_all add: zero_fp_def)
  show thesis
    by (rule honest_pair [where authorized = authorized and h = h and h' = h' and rng = "\<lambda>_. 0" and rng' = "\<lambda>_. 0"
          and agent = "\<lambda>_ _. None", OF example_codec.frame_codec_axioms ex.ed25519_axioms refl refl assms side])
      (rule that)
qed

theorem hub_signs_for_authorised_witness:
  "\<exists>b2 b4 n op. fst (read_events example_codec [Binary b2, Binary b4]) = Ok (HelloPeer (identity_pubkey peer2) n op)"
proof -
  let ?auth = "\<lambda>n :: nat. (Ok [identity_pubkey peer2] :: pubkey list result, n)"
  obtain b1 b2 b3 b4 where
    hub: "hub_handshake example_codec example_crypto (\<lambda>_ _. None) hub1 ''v'' None zero_fp (\<lambda>_. 0) ?auth
       (fresh_conn [Binary b2, Binary b4], 0) =
     (Ok (identity_pubkey peer2), \<lparr>c_in = [], c_out = [b1, b3], c_sends = 2, c_fault = (\<lambda>_. False)\<rparr>, 0)"
    and b3: "fr_encode example_codec (ProofHub (ed_sign example_crypto [1] transcript12)) = Ok b3"
    by (rule example_pair [of ?auth 0 "[identity_pubkey peer2]" 0]) simp_all
  from hub_signs_for_authorised [OF example_codec.frame_codec_axioms hub b3] show ?thesis
    by (auto simp: fresh_conn_def)
qed

text \<open>
  C10. The client's signature. Whatever a hub sends, a \<open>ProofPeer\<close> frame leaves the client only
  after it has verified the hub's signature on the same transcript, which holds the client's own
  fresh nonce and key and a certificate fingerprint that is the observed one or switched off.
\<close>

theorem client_signs_after_hub:
  assumes "frame_codec fc"
    and "run_handshake fc c agent i rng expected k = (r, k')"
    and "fr_encode fc (ProofPeer sig) = Ok b" "b \<in> set (c_out k')" "b \<notin> set (c_out k)"
  shows "\<exists>tr hub_pk hub_sig hub_nonce fp. pubkey_verify c hub_pk tr hub_sig \<and>
    tr = build_transcript hub_nonce (random_nonce rng) fp hub_pk (identity_pubkey i) \<and>
    (binding_disabled fp \<or> fp = expected) \<and> identity_sign agent c i tr = Ok sig"
proof -
  note same = frame_codec.encode_inject [OF assms(1) assms(3)]
  from client_sends [OF assms(2,4,5)] show ?thesis by (blast dest: same)
qed

theorem client_signs_after_hub_witness:
  "\<exists>tr hub_pk hub_sig. pubkey_verify example_crypto hub_pk tr hub_sig \<and>
     identity_sign (\<lambda>_ _. None) example_crypto peer2 tr = Ok (ed_sign example_crypto [2] transcript12)"
proof -
  let ?auth = "\<lambda>n :: nat. (Ok [identity_pubkey peer2] :: pubkey list result, n)"
  obtain b1 b2 b3 b4 where
    run: "run_handshake example_codec example_crypto (\<lambda>_ _. None) peer2 (\<lambda>_. 0) zero_fp (fresh_conn [Binary b1, Binary b3]) =
     (Ok (''v'', identity_pubkey hub1, None, transcript12),
      \<lparr>c_in = [], c_out = [b2, b4], c_sends = 2, c_fault = (\<lambda>_. False)\<rparr>)"
    and b4: "fr_encode example_codec (ProofPeer (ed_sign example_crypto [2] transcript12)) = Ok b4"
    by (rule example_pair [of ?auth 0 "[identity_pubkey peer2]" 0]) simp_all
  from client_signs_after_hub [OF example_codec.frame_codec_axioms run b4] show ?thesis
    by (auto simp: fresh_conn_def)
qed

text \<open>
  C11. Completion. When an honest hub and an honest peer whose key is authorised read each
  other's frames, both handshakes succeed: each has consumed all it was sent, they agree on the
  transcript, and the client learns the vault's id and name.
\<close>

theorem honest_handshake_completes:
  assumes "frame_codec fc" "ed25519 c" "hub = identity_from_seed c s1" "peer = identity_from_seed c s2"
    and "authorized h = (Ok keys, h')" "identity_pubkey peer \<in> set keys"
    and "length cert_fp < 4294967296" "length vault_id < 4294967296" "\<forall>n. name = Some n \<longrightarrow> length n < 4294967296"
  shows "\<exists>b1 b2 b3 b4.
    hub_handshake fc c agent hub vault_id name cert_fp rng authorized (fresh_conn [Binary b2, Binary b4], h) =
      (Ok (identity_pubkey peer), \<lparr>c_in = [], c_out = [b1, b3], c_sends = 2, c_fault = (\<lambda>_. False)\<rparr>, h') \<and>
    run_handshake fc c agent peer rng' cert_fp (fresh_conn [Binary b1, Binary b3]) =
      (Ok (vault_id, identity_pubkey hub, name, build_transcript (random_nonce rng) (random_nonce rng') cert_fp
          (identity_pubkey hub) (identity_pubkey peer)),
       \<lparr>c_in = [], c_out = [b2, b4], c_sends = 2, c_fault = (\<lambda>_. False)\<rparr>)"
  by (rule honest_pair [where authorized = authorized and h = h and h' = h' and rng = rng and rng' = rng'
        and agent = agent, OF assms]) blast

theorem honest_handshake_completes_witness:
  "\<exists>b1 b2 b3 b4.
    hub_handshake example_codec example_crypto (\<lambda>_ _. None) hub1 ''v'' (Some ''home'') zero_fp (\<lambda>_. 0)
       (\<lambda>n :: nat. (Ok [identity_pubkey peer2], n)) (fresh_conn [Binary b2, Binary b4], 0) =
      (Ok (identity_pubkey peer2), \<lparr>c_in = [], c_out = [b1, b3], c_sends = 2, c_fault = (\<lambda>_. False)\<rparr>, 0) \<and>
    run_handshake example_codec example_crypto (\<lambda>_ _. None) peer2 (\<lambda>_. 0) zero_fp (fresh_conn [Binary b1, Binary b3]) =
      (Ok (''v'', identity_pubkey hub1, Some ''home'', transcript12),
       \<lparr>c_in = [], c_out = [b2, b4], c_sends = 2, c_fault = (\<lambda>_. False)\<rparr>)"
  by (rule honest_handshake_completes
      [OF example_codec.frame_codec_axioms ex.ed25519_axioms refl refl, of _ _ "[identity_pubkey peer2]"])
    (simp_all add: zero_fp_def)

end
