(* ===== verification/SessionProperties.thy ===== *)
theory SessionProperties
  imports NetProperties
begin

text \<open>
  The properties of what runs after the handshake: the client's checks on the hub, the sessions
  of a hub over the vault's own handle, the delivery of frames and the reconnect supervisor.
\<close>

section \<open>Connecting\<close>

lemma start_link_outcome:
  assumes "am_generate_sync am (inner (va_doc s)) (am_sync_new am) = (msg, d, y)"
  shows "start_link (vault_sync_handle am c nfc) out pk (k, s) =
    (Ok \<lparr>k_peer = va_next_peer_id s, k_pubkey = pk, k_conn = k,
         k_queue = (case msg of Some bs \<Rightarrow> [SyncFrame bs] | None \<Rightarrow> []),
         k_reading = True, k_writing = True, k_notifying = True, k_close_sent = False\<rparr>, k,
     s\<lparr>va_doc := (va_doc s)\<lparr>inner := d\<rparr>,
       va_peers := (va_peers s)(va_next_peer_id s \<mapsto> \<lparr>ps_state = y, ps_out = out, ps_pubkey = Some pk\<rparr>),
       va_next_peer_id := va_next_peer_id s + 1\<rparr>)"
  using assms
  by (simp add: start_link_def andthen_run on_hub_run vault_sync_handle_def vsh_register_peer_def
      vsh_generate_sync_message_def Let_def)

lemma start_link_vault:
  assumes "start_link (vault_sync_handle am c nfc) out pk (k, s) = (r, k', t)"
  shows "\<exists>l. r = Ok l \<and> k_peer l = va_next_peer_id s \<and> k_pubkey l = pk \<and>
    vault_slots t = (vault_slots s)(k_peer l \<mapsto> Some pk)"
proof -
  obtain msg d y where g: "am_generate_sync am (inner (va_doc s)) (am_sync_new am) = (msg, d, y)" by (metis prod_cases3)
  from start_link_outcome [OF g, of c nfc out pk k] assms show ?thesis
    by (auto simp: vault_slots_def fun_eq_iff)
qed

text \<open>
  C12. A client's connection. When \<open>ClientConn::connect\<close> succeeds, the hub has proved the key
  the connection carries, that key is the pinned one if there is a pin, the vault id is the
  expected one if there is one, and the vault has exactly one more slot, for the hub. When it
  fails, nothing has changed.
\<close>

theorem client_connect_checks:
  assumes "client_connect net fc c agent rng out url expected pin i (vault_sync_handle am c nfc) s = (r, t)"
  shows "case r of
      Inl e \<Rightarrow> t = s
    | Inr (l, cc) \<Rightarrow>
        (expected = None \<or> expected = Some (cc_vault_id cc)) \<and> (pin = None \<or> pin = Some (cc_hub_pubkey cc)) \<and>
        (\<exists>ws fp tr ws'. open_websocket net c url = Ok (ws, fp) \<and>
           client_accepted fc c agent i rng fp ws (cc_vault_id cc) (cc_hub_pubkey cc) (cc_vault_name cc) tr ws') \<and>
        k_peer l = cc_peer_id cc \<and> k_pubkey l = cc_hub_pubkey cc \<and>
        vault_slots t = (vault_slots s)(cc_peer_id cc \<mapsto> Some (cc_hub_pubkey cc))"
proof (cases "open_websocket net c url")
  case (Inl e)
  with assms show ?thesis by (auto simp: client_connect_def)
next
  case (Inr x)
  obtain ws fp where x: "x = (ws, fp)" by (cases x)
  obtain h ws' where h: "run_handshake fc c agent i rng fp ws = (h, ws')" by fastforce
  show ?thesis
  proof (cases h)
    case (Inl e)
    with assms Inr x h show ?thesis by (auto simp: client_connect_def andthen_run on_conn_run)
  next
    case h': (Inr y)
    obtain vid pk name tr where y: "y = (vid, pk, name, tr)" by (cases y) auto
    from client_accepts h h' y have acc: "client_accepted fc c agent i rng fp ws vid pk name tr ws'" by simp
    show ?thesis
    proof (cases "check_hub c expected pin vid pk")
      case (Inl e)
      with assms Inr x h h' y show ?thesis by (auto simp: client_connect_def andthen_run on_conn_run lift_run)
    next
      case chk: (Inr z)
      then have checks: "expected = None \<or> expected = Some vid" "pin = None \<or> pin = Some pk"
        by (auto simp: check_hub_def split: option.splits if_splits)
      obtain r2 k2 t2 where sl: "start_link (vault_sync_handle am c nfc) out pk (ws', s) = (r2, k2, t2)"
        by (metis prod_cases3)
      from start_link_vault [OF sl] obtain l where l: "r2 = Ok l" "k_pubkey l = pk"
        "vault_slots t2 = (vault_slots s)(k_peer l \<mapsto> Some pk)" by blast
      with assms Inr x h h' y chk sl have "t = t2" "r = Ok (l, \<lparr>cc_peer_id = k_peer l, cc_vault_id = vid,
          cc_hub_pubkey = pk, cc_vault_name = name\<rparr>)"
        by (auto simp: client_connect_def andthen_run on_conn_run lift_run ret_run)
      with checks acc l Inr x show ?thesis by auto
    qed
  qed
qed

text \<open>A network with one plain server, which presents the frames of \<open>example_pair\<close>.\<close>

definition example_net :: "ws_event list \<Rightarrow> unit network" where
  "example_net es = \<lparr>
     nt_parse = (\<lambda>_. Ok \<lparr>u_scheme = ''ws'', u_host = Some ''h'', u_port = Some 80\<rparr>),
     nt_tcp = (\<lambda>_ _. Ok ()), nt_server_name = (\<lambda>_. Ok ()), nt_tls = (\<lambda>_ _. Ok None),
     nt_upgrade = (\<lambda>_ _. Ok (fresh_conn es))\<rparr>"

lemma example_net_opens: "open_websocket (example_net es) c url = Ok (fresh_conn es, zero_fp)"
  by (simp add: open_websocket_def open_transport_def example_net_def)

theorem client_connect_checks_witness:
  "\<exists>es l cc t. client_connect (example_net es) example_codec example_crypto (\<lambda>_ _. None) (\<lambda>_. 0) 0 ''ws://h''
       (Some ''v'') (Some (identity_pubkey hub1)) peer2 (vault_sync_handle ref_am example_crypto ascii_nfc) keyring_vault =
     (Ok (l, cc), t) \<and> cc_hub_pubkey cc = identity_pubkey hub1 \<and>
     vault_slots t (cc_peer_id cc) = Some (Some (identity_pubkey hub1))"
proof -
  let ?auth = "\<lambda>n :: nat. (Ok [identity_pubkey peer2] :: pubkey list result, n)"
  obtain b1 b2 b3 b4 where
    run: "run_handshake example_codec example_crypto (\<lambda>_ _. None) peer2 (\<lambda>_. 0) zero_fp (fresh_conn [Binary b1, Binary b3]) =
     (Ok (''v'', identity_pubkey hub1, None, transcript12),
      \<lparr>c_in = [], c_out = [b2, b4], c_sends = 2, c_fault = (\<lambda>_. False)\<rparr>)"
    by (rule example_pair [of ?auth 0 "[identity_pubkey peer2]" 0]) simp_all
  let ?ws = "\<lparr>c_in = [], c_out = [b2, b4], c_sends = 2, c_fault = (\<lambda>_. False)\<rparr>"
  obtain r k t where sl: "start_link (vault_sync_handle ref_am example_crypto ascii_nfc) 0 (identity_pubkey hub1)
      (?ws, keyring_vault) = (r, k, t)" by (metis prod_cases3)
  from start_link_vault [OF sl] obtain l where r: "r = Ok l" by blast
  let ?cc = "\<lparr>cc_peer_id = k_peer l, cc_vault_id = ''v'', cc_hub_pubkey = identity_pubkey hub1, cc_vault_name = None\<rparr>"
  have con: "client_connect (example_net [Binary b1, Binary b3]) example_codec example_crypto (\<lambda>_ _. None) (\<lambda>_. 0) 0 ''ws://h''
       (Some ''v'') (Some (identity_pubkey hub1)) peer2 (vault_sync_handle ref_am example_crypto ascii_nfc) keyring_vault =
     (Ok (l, ?cc), t)"
    using run sl r
    by (simp add: client_connect_def example_net_opens andthen_run on_conn_run lift_run ret_run check_hub_def)
  from client_connect_checks [OF con] have "vault_slots t (cc_peer_id ?cc) = Some (Some (identity_pubkey hub1))" by simp
  with con show ?thesis
    by (intro exI [of _ "[Binary b1, Binary b3]"] exI [of _ l] exI [of _ ?cc] exI [of _ t]) simp
qed

section \<open>The sessions of a hub\<close>

text \<open>
  C5. The hub's registry. However the sessions of a hub and the rest of the program interleave
  (as long as the 64-bit id counter has not wrapped), the sessions have different ids, every
  registered peer belongs to a session that is still read, under the key that session
  authenticated with, and every session was admitted by a handshake of this hub in an earlier
  state, in which its key was in the vault's \<^verbatim>\<open>authorized_keys\<close>.
\<close>

theorem hub_sessions:
  assumes "hub_reachable fc sv (vault_sync_handle am c nfc) vault_given other s H" "va_peers s = Map.empty"
    and "\<And>u v. other u v \<Longrightarrow> vault_slots v = vault_slots u \<and> va_next_peer_id v = va_next_peer_id u"
  shows "distinct (map k_peer (h_links H)) \<and>
    (\<forall>i x. vault_slots (h_state H) i = Some x \<longrightarrow>
       (\<exists>l \<in> set (h_links H). k_peer l = i \<and> x = Some (k_pubkey l) \<and> k_reading l)) \<and>
    (\<forall>l \<in> set (h_links H). admitted fc sv (vault_sync_handle am c nfc) vault_given other s (k_pubkey l))"
proof -
  have "vault_slots s = Map.empty" using assms(2) by (simp add: vault_slots_def fun_eq_iff)
  moreover have "vault_slots v = vault_slots u \<and> vault_given v = vault_given u" if "other u v" for u v
    using assms(3) [OF that] by (simp add: vault_given_def)
  ultimately have "hub_inv vault_slots vault_given H" by (rule vault_hub.hub_reachable_inv [OF assms(1)])
  with hub_reachable_admitted [OF assms(1)] show ?thesis unfolding hub_inv_def by blast
qed

definition example_setup :: server_setup where
  "example_setup = \<lparr>sv_crypto = example_crypto, sv_agent = (\<lambda>_ _. None), sv_identity = hub1, sv_vault_id = ''v'',
     sv_vault_name = None, sv_cert_fp = zero_fp\<rparr>"

abbreviation keyring_handle :: "(ref_doc, unit, unit) vault sync_handle" where
  "keyring_handle \<equiv> vault_sync_handle ref_am example_crypto ascii_nfc"

abbreviation no_step :: "'s \<Rightarrow> 's \<Rightarrow> bool" where
  "no_step \<equiv> \<lambda>_ _. False"

lemma keyring_session:
  obtains H l where
    "hub_reachable example_codec example_setup keyring_handle vault_given no_step keyring_vault H"
    "h_links H = [l]" "k_pubkey l = identity_pubkey peer2" "k_reading l" "va_doc (h_state H) = keyring_doc"
    "vault_slots (h_state H) = [k_peer l \<mapsto> Some (identity_pubkey peer2)]"
proof -
  have doc: "va_doc keyring_vault = keyring_doc" and none: "va_peers keyring_vault = Map.empty"
    and one: "va_next_peer_id keyring_vault = 1"
    by (simp_all add: keyring_vault_def vault_start_def)
  have keys: "hub_keys keyring_handle keyring_vault = (Ok [identity_pubkey peer2], keyring_vault)"
    using keyring_authorized(2) [OF doc] by (simp add: hub_keys_def vault_sync_handle_def)
  obtain b1 b2 b3 b4 where
    hub: "hub_handshake example_codec example_crypto (\<lambda>_ _. None) hub1 ''v'' None zero_fp (\<lambda>_. 0)
       (hub_keys keyring_handle) (fresh_conn [Binary b2, Binary b4], keyring_vault) =
     (Ok (identity_pubkey peer2), \<lparr>c_in = [], c_out = [b1, b3], c_sends = 2, c_fault = (\<lambda>_. False)\<rparr>, keyring_vault)"
    by (rule example_pair [of "hub_keys keyring_handle", OF keys]) simp_all
  let ?k = "\<lparr>c_in = [], c_out = [b1, b3], c_sends = 2, c_fault = (\<lambda>_. False)\<rparr>"
  let ?H0 = "hub_start keyring_handle keyring_vault"
  let ?H1 = "?H0\<lparr>h_pending := [(?k, identity_pubkey peer2)]\<rparr>"
  have H0: "?H0 = \<lparr>h_state = keyring_vault, h_pending = [], h_links = [], h_known = known_keys keyring_peers\<rparr>"
    using keyring_authorized(1) [OF doc] by (simp add: hub_start_def vault_sync_handle_def)
  have "hub_step example_codec example_setup keyring_handle vault_given no_step ?H0
      (?H0\<lparr>h_state := keyring_vault, h_pending := h_pending ?H0 @ [(?k, identity_pubkey peer2)]\<rparr>)"
    by (rule hub_step.authenticate) (use hub in \<open>simp add: serve_handshake_def example_setup_def H0\<close>)
  then have 1: "hub_step example_codec example_setup keyring_handle vault_given no_step ?H0 ?H1" by (simp add: H0)
  have "1 \<notin> vault_given keyring_vault" using given_start [OF one] by simp
  then have given: "vault_given (h_state ?H1) \<noteq> UNIV" by (auto simp: H0)
  let ?l = "\<lparr>k_peer = 1, k_pubkey = identity_pubkey peer2, k_conn = ?k, k_queue = [], k_reading = True,
      k_writing = True, k_notifying = True, k_close_sent = False\<rparr>"
  let ?t = "keyring_vault\<lparr>va_peers := [1 \<mapsto> \<lparr>ps_state = (), ps_out = 0, ps_pubkey = Some (identity_pubkey peer2)\<rparr>],
      va_next_peer_id := 2\<rparr>"
  have gen: "am_generate_sync ref_am (inner (va_doc keyring_vault)) (am_sync_new ref_am) =
      (None, inner (va_doc keyring_vault), ())"
    by (simp add: ref_am_def)
  have l: "start_link keyring_handle 0 (identity_pubkey peer2) (?k, keyring_vault) = (Ok ?l, ?k, ?t)"
    using start_link_outcome [OF gen] one none by simp
  let ?H2 = "?H1\<lparr>h_state := ?t, h_pending := [], h_links := [?l]\<rparr>"
  have "hub_step example_codec example_setup keyring_handle vault_given no_step ?H1
      (?H1\<lparr>h_state := ?t, h_pending := [] @ [], h_links := h_links ?H1 @ [?l]\<rparr>)"
    by (rule hub_step.join [where out = 0]) (use given l H0 in simp_all)
  then have 2: "hub_step example_codec example_setup keyring_handle vault_given no_step ?H1 ?H2" by (simp add: H0)
  have "hub_reachable example_codec example_setup keyring_handle vault_given no_step keyring_vault ?H2"
    by (intro hub_reachable.step [OF _ 2] hub_reachable.step [OF _ 1] hub_reachable.start)
  then show thesis
    by (rule that [of ?H2 ?l]) (simp_all add: doc vault_slots_def fun_eq_iff)
qed

theorem hub_sessions_witness:
  "\<exists>H l. hub_reachable example_codec example_setup keyring_handle vault_given no_step keyring_vault H \<and>
     l \<in> set (h_links H) \<and> k_reading l \<and>
     admitted example_codec example_setup keyring_handle vault_given no_step keyring_vault (k_pubkey l)"
proof -
  obtain H l where H: "hub_reachable example_codec example_setup keyring_handle vault_given no_step keyring_vault H"
    "h_links H = [l]" "k_reading l"
    by (rule keyring_session)
  have "va_peers keyring_vault = Map.empty" by (simp add: keyring_vault_def vault_start_def)
  from hub_sessions [OF H(1) this] H show ?thesis by auto
qed

text \<open>
  C25. A peer whose slot is gone, because it was deauthorised, gets no synchronisation: a sync
  frame of its session leaves the vault as it is and is not answered, and its notifier sends
  nothing. The session itself goes on: pings and requests for attachments are still answered.
\<close>

theorem unregistered_session:
  assumes "va_peers s i = None"
  shows "handle_inbound (vault_sync_handle am c nfc) i (SyncFrame bs) s = ([], s) \<and>
    (\<forall>l. k_peer l = i \<longrightarrow> notifier_step (vault_sync_handle am c nfc) l s = (l, s)) \<and>
    handle_inbound (vault_sync_handle am c nfc) i (Ping n) s = ([Pong n], s) \<and>
    handle_inbound (vault_sync_handle am c nfc) i (BlobFetch h) s =
      (case blob_get (va_storage_path s) h (va_disk s) of
         (Inr b, d) \<Rightarrow> ([BlobPush h b], s\<lparr>va_disk := d\<rparr>)
       | (Inl e, d) \<Rightarrow> ([ErrorFrame (''blob fetch '' @ h @ '': '' @ show_error e)], s\<lparr>va_disk := d\<rparr>))"
proof -
  have none: "vault_slots s i = None" using assms by (simp add: vault_slots_def)
  obtain out t where "handle_inbound (vault_sync_handle am c nfc) i (SyncFrame bs) s = (out, t)" by fastforce
  with vault_hub.absent_sync [OF none this] have
    "handle_inbound (vault_sync_handle am c nfc) i (SyncFrame bs) s = ([], s)" by simp
  moreover have "notifier_step (vault_sync_handle am c nfc) l s = (l, s)" if "k_peer l = i" for l
    using vault_hub.generate_absent [OF none, of am c nfc] that by (simp add: notifier_step_def)
  moreover have "handle_inbound (vault_sync_handle am c nfc) i (BlobFetch h) s =
      (case blob_get (va_storage_path s) h (va_disk s) of
         (Inr b, d) \<Rightarrow> ([BlobPush h b], s\<lparr>va_disk := d\<rparr>)
       | (Inl e, d) \<Rightarrow> ([ErrorFrame (''blob fetch '' @ h @ '': '' @ show_error e)], s\<lparr>va_disk := d\<rparr>))"
    by (simp add: handle_inbound_def vault_sync_handle_def vsh_read_blob_def on_disk_def
        split: prod.split sum.split)
  ultimately show ?thesis by (simp add: handle_inbound_def)
qed

theorem unregistered_session_witness:
  "handle_inbound keyring_handle 7 (SyncFrame [1, 2]) keyring_vault = ([], keyring_vault) \<and>
   handle_inbound keyring_handle 7 (Ping 3) keyring_vault = ([Pong 3], keyring_vault)"
proof -
  have "va_peers keyring_vault 7 = None" by (simp add: keyring_vault_def vault_start_def)
  from unregistered_session [OF this] show ?thesis by blast
qed

text \<open>
  C24. The enforcer. One pass over a sound document keeps, among the peers that authenticated,
  exactly the slots of those whose key is in the \<^verbatim>\<open>authorized_keys\<close> file, and every slot without
  a key.
\<close>

theorem enforcer_exact:
  assumes "automerge_doc am tree oid" "sound tree (va_doc s) v"
    and "normalize nfc AUTHORIZED_KEYS_FILE = Ok AUTHORIZED_KEYS_FILE"
    and "(AUTHORIZED_KEYS_FILE, fid, TextBody content) \<in> live_files v"
    and "enforcer_step (vault_sync_handle am c nfc) known s = (known', t)"
  shows "known' = known_keys (parse_authorized_keys c content) \<and>
    vault_slots t = (\<lambda>i. case vault_slots s i of
       Some (Some pk) \<Rightarrow> if pk \<in> ap_pubkey ` set (parse_authorized_keys c content) then Some (Some pk) else None
     | x \<Rightarrow> x)"
proof -
  have ps: "sh_authorized_peers (vault_sync_handle am c nfc) s = (parse_authorized_keys c content, s)"
    using authorized_peers_run(1) [OF assms(1-4), of c] by (simp add: vault_sync_handle_def)
  with assms(5) have t: "known' = known_keys (parse_authorized_keys c content)"
    "t = sh_disconnect_unauthorized (vault_sync_handle am c nfc) (map ap_pubkey (parse_authorized_keys c content)) s"
    by (simp_all add: enforcer_step_def)
  then show ?thesis by (simp only: vault_hub.disconnect_law set_map simp_thms)
qed

theorem enforcer_exact_witness:
  "\<exists>known' t. enforcer_step keyring_handle Map.empty (keyring_vault\<lparr>va_peers :=
       [1 \<mapsto> \<lparr>ps_state = (), ps_out = 0, ps_pubkey = Some (identity_pubkey peer2)\<rparr>,
        2 \<mapsto> \<lparr>ps_state = (), ps_out = 0, ps_pubkey = Some (identity_pubkey hub1)\<rparr>]\<rparr>) = (known', t) \<and>
     vault_slots t 1 = Some (Some (identity_pubkey peer2)) \<and> vault_slots t 2 = None"
proof -
  let ?s = "keyring_vault\<lparr>va_peers :=
       [1 \<mapsto> \<lparr>ps_state = (), ps_out = 0, ps_pubkey = Some (identity_pubkey peer2)\<rparr>,
        2 \<mapsto> \<lparr>ps_state = (), ps_out = 0, ps_pubkey = Some (identity_pubkey hub1)\<rparr>]\<rparr>"
  obtain known' t where run: "enforcer_step keyring_handle Map.empty ?s = (known', t)" by fastforce
  have doc: "va_doc ?s = keyring_doc" by (simp add: keyring_vault_def vault_start_def)
  obtain fid v where f: "sound ref_tree (va_doc ?s) v"
    "(AUTHORIZED_KEYS_FILE, fid, TextBody (render_authorized_keys example_crypto keyring_peers)) \<in> live_files v"
    by (rule keyring_live [OF doc])
  have "identity_pubkey peer2 \<noteq> identity_pubkey hub1"
    by (simp add: identity_from_seed_def example_crypto_def fit_def)
  with enforcer_exact [OF ref.automerge_doc_axioms f(1) keys_path f(2) run] keyring_parsed
  have "vault_slots t 1 = Some (Some (identity_pubkey peer2)) \<and> vault_slots t 2 = None"
    by (simp add: keyring_peers_def vault_slots_def)
  with run show ?thesis by blast
qed

section \<open>Delivery\<close>

text \<open>
  C23. Delivery in order. On a connection whose sends succeed, the writer empties its channel
  and the other side's reader, reading what was sent, handles exactly the frames of the channel,
  unchanged and in order; and whatever fails, the wire has only ever got encodings of a prefix of
  the channel.
\<close>

theorem frames_in_order:
  assumes "frame_codec fc" "list_all frame_short (k_queue l)" "\<And>n. \<not> c_fault (k_conn l) n" "k_writing l"
    and "l' = writer_steps fc (length (k_queue l)) l" "c_out (k_conn l') = c_out (k_conn l) @ wire"
    and "c_in (k_conn m) = map Binary wire @ es" "handle_all sh (k_peer m) (k_queue l) s = (out, t)"
  shows "k_queue l' = [] \<and>
    reader_steps fc sh (length (k_queue l)) m s =
      (m\<lparr>k_conn := (k_conn m)\<lparr>c_in := es\<rparr>, k_queue := k_queue m @ out\<rparr>, t) \<and>
    (\<forall>n. \<exists>bss. prefix bss (encoded fc (k_queue l)) \<and> c_out (k_conn (writer_steps fc n l)) = c_out (k_conn l) @ bss)"
proof -
  have d: "l' = l\<lparr>k_queue := [], k_conn := (k_conn l)\<lparr>c_out := c_out (k_conn l) @ encoded fc (k_queue l),
       c_sends := c_sends (k_conn l) + length (encoded fc (k_queue l))\<rparr>\<rparr>"
    unfolding assms(5) by (rule writer_drains [OF assms(3,4)])
  with assms(6) have wire: "wire = encoded fc (k_queue l)" by simp
  have "\<exists>bss. prefix bss (encoded fc (k_queue l)) \<and> c_out (k_conn (writer_steps fc n l)) = c_out (k_conn l) @ bss" for n
  proof -
    obtain fs bss where f: "k_queue l = fs @ k_queue (writer_steps fc n l)" "prefix bss (encoded fc fs)"
      "c_out (k_conn (writer_steps fc n l)) = c_out (k_conn l) @ bss"
      using writer_prefix by blast
    have "prefix (encoded fc fs) (encoded fc (k_queue l))" by (subst f(1)) (simp add: encoded_append)
    with f(2,3) prefix_order.trans show ?thesis by blast
  qed
  moreover have "reader_steps fc sh (length (k_queue l)) m s =
      (m\<lparr>k_conn := (k_conn m)\<lparr>c_in := es\<rparr>, k_queue := k_queue m @ out\<rparr>, t)"
    by (rule frame_codec.reader_handles [OF assms(1) _ assms(7) [unfolded wire] assms(8)])
      (use assms(2) in \<open>simp add: list_all_iff\<close>)
  ultimately show ?thesis using d by simp
qed

definition example_link :: "ws_event list \<Rightarrow> frame list \<Rightarrow> link" where
  "example_link es fs = \<lparr>k_peer = 7, k_pubkey = [], k_conn = fresh_conn es, k_queue = fs, k_reading = True,
     k_writing = True, k_notifying = True, k_close_sent = False\<rparr>"

theorem frames_in_order_witness:
  "\<exists>wire. c_out (k_conn (writer_steps example_codec 2 (example_link [] [Ping 3, Ping 4]))) = wire \<and>
     k_queue (fst (reader_steps example_codec keyring_handle 2 (example_link (map Binary wire) []) keyring_vault)) =
       [Pong 3, Pong 4]"
proof -
  let ?l = "example_link [] [Ping 3, Ping 4]"
  let ?wire = "c_out (k_conn (writer_steps example_codec 2 ?l))"
  let ?m = "example_link (map Binary ?wire) []"
  have side: "list_all frame_short (k_queue ?l)" "\<not> c_fault (k_conn ?l) n" "k_writing ?l" for n
    by (simp_all add: example_link_def fresh_conn_def)
  have w: "c_out (k_conn (writer_steps example_codec (length (k_queue ?l)) ?l)) = c_out (k_conn ?l) @ ?wire"
    by (simp add: example_link_def fresh_conn_def numeral_2_eq_2)
  have r: "c_in (k_conn ?m) = map Binary ?wire @ []" by (simp add: example_link_def [of "map _ _"] fresh_conn_def)
  have h: "handle_all keyring_handle (k_peer ?m) (k_queue ?l) keyring_vault = ([Pong 3, Pong 4], keyring_vault)"
    by (simp add: example_link_def handle_inbound_def)
  from frames_in_order [OF example_codec.frame_codec_axioms side refl w r h]
  have "reader_steps example_codec keyring_handle 2 ?m keyring_vault =
      (?m\<lparr>k_conn := (k_conn ?m)\<lparr>c_in := []\<rparr>, k_queue := k_queue ?m @ [Pong 3, Pong 4]\<rparr>, keyring_vault)"
    by (simp add: example_link_def numeral_2_eq_2)
  moreover have "k_queue ?m = []" by (simp add: example_link_def [of "map _ _"])
  ultimately show ?thesis by simp
qed

section \<open>Reconnecting\<close>

text \<open>
  C21. The supervisor leaves no slot behind. However often connections to the hub are attempted,
  made and lost, a vault that only the supervisor connects has at any time at most the slot of
  its current connection, and none when it has no connection.
\<close>

theorem supervisor_slots:
  assumes "list_all (\<lambda>r. \<forall>n. \<exists>net rng out.
      rd_dial r n = vault_dialer am nfc net fc c agent rng out url vault_id pin i) rs"
    and "list_all (\<lambda>r. keeps_slots (rd_world r)) rs" "va_client s = None" "va_peers s = Map.empty"
  shows "dom (va_peers (supervise opts rs s)) \<subseteq>
    (case va_client (supervise opts rs s) of None \<Rightarrow> {} | Some cc \<Rightarrow> {cc_peer_id cc})"
proof -
  have "\<forall>r \<in> set rs. (\<forall>n. dials (rd_dial r n)) \<and> keeps_slots (rd_world r)"
    using assms(1,2) vault_dialer_dials unfolding list_all_iff by metis
  moreover have "vault_slots s = Map.empty" using assms(4) by (simp add: vault_slots_def fun_eq_iff)
  ultimately have "client_slots (supervise opts rs s)" by (rule supervise_slots [OF _ assms(3)])
  then show ?thesis by (auto simp: client_slots_def vault_slots_def dom_def split: option.splits)
qed

definition example_round :: "ws_event list \<Rightarrow> fate \<Rightarrow> (ref_doc, unit, unit) round" where
  "example_round es f = \<lparr>
     rd_dial = (\<lambda>n. vault_dialer ref_am ascii_nfc (example_net es) example_codec example_crypto (\<lambda>_ _. None) (\<lambda>_. 0) 0
        ''ws://h'' (Some ''v'') (Some (identity_pubkey hub1)) peer2),
     rd_shut = (\<lambda>_. False), rd_world = (\<lambda>s. s), rd_fate = f\<rparr>"

theorem supervisor_slots_witness:
  "\<exists>es. is_ok (fst (run_handshake example_codec example_crypto (\<lambda>_ _. None) peer2 (\<lambda>_. 0) zero_fp (fresh_conn es))) \<and>
     dom (va_peers (supervise default_reconnect [example_round es Lost, example_round es Lost] keyring_vault)) \<subseteq>
     (case va_client (supervise default_reconnect [example_round es Lost, example_round es Lost] keyring_vault) of
        None \<Rightarrow> {} | Some cc \<Rightarrow> {cc_peer_id cc})"
proof -
  let ?auth = "\<lambda>n :: nat. (Ok [identity_pubkey peer2] :: pubkey list result, n)"
  obtain b1 b2 b3 b4 where
    run: "run_handshake example_codec example_crypto (\<lambda>_ _. None) peer2 (\<lambda>_. 0) zero_fp (fresh_conn [Binary b1, Binary b3]) =
     (Ok (''v'', identity_pubkey hub1, None, transcript12),
      \<lparr>c_in = [], c_out = [b2, b4], c_sends = 2, c_fault = (\<lambda>_. False)\<rparr>)"
    by (rule example_pair [of ?auth 0 "[identity_pubkey peer2]" 0]) simp_all
  let ?rs = "[example_round [Binary b1, Binary b3] Lost, example_round [Binary b1, Binary b3] Lost]"
  have "dom (va_peers (supervise default_reconnect ?rs keyring_vault)) \<subseteq>
     (case va_client (supervise default_reconnect ?rs keyring_vault) of None \<Rightarrow> {} | Some cc \<Rightarrow> {cc_peer_id cc})"
    by (rule supervisor_slots [of ref_am ascii_nfc example_codec example_crypto "\<lambda>_ _. None" "''ws://h''" "Some ''v''"
          "Some (identity_pubkey hub1)" peer2])
      (auto simp: example_round_def keeps_slots_def keyring_vault_def vault_start_def)
  with run show ?thesis by (intro exI [of _ "[Binary b1, Binary b3]"]) simp
qed

lemma connect_loop_delays:
  "connect_loop dial shut opts a s = (r, ds, t) \<Longrightarrow>
   ds = map (backoff_delay (ro_initial_backoff opts) (ro_max_backoff opts)) [Suc a..<Suc a + length ds] \<and>
   (r = GaveUp \<longrightarrow> length ds = ro_max_attempts opts - Suc a)"
proof (induction "ro_max_attempts opts - a" arbitrary: a s r ds t rule: less_induct)
  case less
  obtain x u where x: "dial (Suc a) s = (x, u)" by fastforce
  show ?case
  proof (cases "is_ok x \<or> ro_max_attempts opts \<le> Suc a \<or> shut (Suc a)")
    case True
    with less.prems x show ?thesis
      by (cases x) (auto simp: connect_loop.simps [of dial shut opts a] Let_def split: if_splits)
  next
    case False
    then obtain e where e: "x = Inl e" by (cases x) auto
    obtain r' ds' t' where rec: "connect_loop dial shut opts (Suc a) u = (r', ds', t')" by (metis prod_cases3)
    let ?d = "backoff_delay (ro_initial_backoff opts) (ro_max_backoff opts)"
    have ih: "ds' = map ?d [Suc (Suc a)..<Suc (Suc a) + length ds'] \<and>
        (r' = GaveUp \<longrightarrow> length ds' = ro_max_attempts opts - Suc (Suc a))"
      using False by (intro less.hyps [OF _ rec]) auto
    have eqs: "r' = r" "ds = ?d (Suc a) # ds'"
      using less.prems x e False rec by (auto simp: connect_loop.simps [of dial shut opts a] Let_def)
    have "[Suc a..<Suc a + length ds] = Suc a # [Suc (Suc a)..<Suc (Suc a) + length ds']"
      using eqs(2) by (simp add: upt_rec)
    with ih eqs False show ?thesis by (metis Suc_diff_Suc length_Cons list.simps(9) not_le)
  qed
qed



end
