(* ===== verification/Reference_Save.thy ===== *)
theory Reference_Save
  imports Reference_Doc Examples
begin

text \<open>
  The reference document store with a real byte format: \<open>load\<close> gives back what \<open>save\<close> wrote.
  It shows that the laws of saving, which the vault relies on, can hold together with those of
  the document.
\<close>

section \<open>The laws of saving\<close>

locale automerge_saved = automerge_doc am tree oid
  for am :: "('d, 'o, 'y) automerge" and tree :: "'d \<Rightarrow> node" and oid :: "'d \<Rightarrow> string list \<Rightarrow> 'o" +
  assumes save_law: "am_save am d = (bs, d') \<Longrightarrow>
    tree d' = tree d \<and> oid d' = oid d \<and> (\<exists>e. am_load am bs = Ok e \<and> tree e = tree d)"

section \<open>A byte format\<close>

fun quote_scalar :: "scalar \<Rightarrow> byte list" where
  "quote_scalar (SStr s) = 0 # quote_str s"
| "quote_scalar (SInt i) = 1 # quote_int i"
| "quote_scalar (SUint w) = 2 # quote_nat (unat w)"
| "quote_scalar (SBytes bs) = 3 # quote bs"
| "quote_scalar SNull = [4]"
| "quote_scalar SOther = [5]"

fun unquote_scalar :: "byte list \<Rightarrow> (scalar \<times> byte list) option" where
  "unquote_scalar [] = None"
| "unquote_scalar (t # r) =
     (if t = 0 then map_option (map_prod SStr id) (unquote_str r)
      else if t = 1 then map_option (map_prod SInt id) (unquote_int r)
      else if t = 2 then map_option (map_prod (\<lambda>xs. SUint (of_nat (length xs))) id) (unquote r)
      else if t = 3 then map_option (map_prod SBytes id) (unquote r)
      else if t = 4 then Some (SNull, r)
      else Some (SOther, r))"

lemma unquote_quote_scalar [simp]: "unquote_scalar (quote_scalar v @ r) = Some (v, r)"
  by (cases v) (simp_all add: quote_nat_def)

fun quote_jnode :: "jnode \<Rightarrow> byte list" and quote_entries :: "(string \<times> jnode) list \<Rightarrow> byte list" where
  "quote_jnode (JLeaf v) = 0 # quote_scalar v"
| "quote_jnode (JText s) = 1 # quote_str s"
| "quote_jnode (JMap al) = 2 # quote_entries al"
| "quote_jnode JOther = [3]"
| "quote_entries [] = [0]"
| "quote_entries ((k, n) # al) = 1 # quote_str k @ quote_jnode n @ quote_entries al"

text \<open>The parser's fuel is the number of bytes.\<close>

fun unquote_jnode :: "nat \<Rightarrow> byte list \<Rightarrow> (jnode \<times> byte list) option"
  and unquote_entry_list :: "nat \<Rightarrow> byte list \<Rightarrow> ((string \<times> jnode) list \<times> byte list) option" where
  "unquote_jnode (Suc f) (t # r) =
     (if t = 0 then map_option (map_prod JLeaf id) (unquote_scalar r)
      else if t = 1 then map_option (map_prod JText id) (unquote_str r)
      else if t = 2 then map_option (map_prod JMap id) (unquote_entry_list f r)
      else Some (JOther, r))"
| "unquote_jnode _ _ = None"
| "unquote_entry_list (Suc f) (t # r) =
     (if t = 0 then Some ([], r)
      else Option.bind (unquote_str r) (\<lambda>(k, r).
           Option.bind (unquote_jnode f r) (\<lambda>(n, r).
           map_option (map_prod ((#) (k, n)) id) (unquote_entry_list f r))))"
| "unquote_entry_list _ _ = None"

lemma unquote_quote_jnode:
  "length (quote_jnode n) \<le> f \<Longrightarrow> unquote_jnode f (quote_jnode n @ r) = Some (n, r)"
  "length (quote_entries al) \<le> f \<Longrightarrow> unquote_entry_list f (quote_entries al @ r) = Some (al, r)"
proof (induction n and al arbitrary: f r and f r rule: quote_jnode_quote_entries.induct)
  case (6 k n al)
  then obtain f' where f: "f = Suc f'" by (cases f) auto
  with 6 show ?case by simp
next
  case (3 al)
  then obtain f' where "f = Suc f'" by (cases f) auto
  with 3 show ?case by simp
qed (use Suc_le_D in force)+

section \<open>The store\<close>

definition ref_save :: "ref_doc \<Rightarrow> byte list" where
  "ref_save d = quote_jnode (rd_tree d)"

definition ref_load :: "byte list \<Rightarrow> ref_doc result" where
  "ref_load bs =
     (case unquote_jnode (length bs) bs of
        Some (n, []) \<Rightarrow> Ok \<lparr>rd_tree = n, rd_log = []\<rparr>
      | _ \<Rightarrow> Err (AutomergeLoad ''invalid document''))"

definition ref_store :: "(ref_doc, string list, unit) automerge" where
  "ref_store = ref_am\<lparr>am_load := ref_load, am_save := \<lambda>d. (ref_save d, d)\<rparr>"

lemma ref_load_save: "ref_load (ref_save d) = Ok \<lparr>rd_tree = rd_tree d, rd_log = []\<rparr>"
  using unquote_quote_jnode(1) [of "rd_tree d" "length (ref_save d)" "[]"] by (simp add: ref_load_def ref_save_def)

lemma ref_store_doc: "automerge_doc ref_store ref_tree ref_oid"
  using ref.automerge_doc_axioms by (simp add: ref_store_def automerge_doc_def)

interpretation ref_store: automerge_saved ref_store ref_tree ref_oid
  by (rule automerge_saved.intro [OF ref_store_doc], unfold_locales)
    (auto simp: ref_store_def ref_load_save ref_tree_def)

end
