(* ===== verification/StoreProperties.thy ===== *)
theory StoreProperties
  imports SessionProperties Reference_Save
begin

text \<open>
  The properties of what is kept on disk: the document file under failing saves, a restart of a
  vault, and the store of attachments.
\<close>

section \<open>Saving and reopening\<close>

lemma save_run_fold: "vault_doc.save_run root bss d = fold (\<lambda>bs d. snd (save_bytes root bs d)) bss d"
  by (induction bss arbitrary: d) simp_all

text \<open>
  C18. Saves are atomic. After any run of saves, each of which may fail at any of its system
  calls, what can be read from \<^verbatim>\<open>doc.bin\<close> is exactly what one of the saves was given, or what was
  there before; if the last save succeeded it is that one.
\<close>

theorem saves_are_atomic:
  assumes "e = fold (\<lambda>bs d. snd (save_bytes root bs d)) bss d"
  shows "stored_doc root e \<in> insert (stored_doc root d) (Some ` set bss) \<and>
    (\<forall>bs r e'. save_bytes root bs e = (r, e') \<longrightarrow>
       (r = Ok () \<and> stored_doc root e' = Some bs) \<or> ((\<exists>x. r = Err x) \<and> stored_doc root e' = stored_doc root e))"
  unfolding assms save_run_fold [symmetric] using vault_doc.save_run_stored save_bytes_atomic by blast

theorem saves_are_atomic_witness:
  "stored_doc [] (fold (\<lambda>bs d. snd (save_bytes [] bs d)) [[1], [2]]
     \<lparr>d_nodes = [[''doc.bin''] \<mapsto> DFile [9] 420], d_calls = 0, d_fault = (\<lambda>n. n = 3), d_cut = (\<lambda>_. 0)\<rparr>)
   \<in> {Some [9], Some [1], Some [2]}"
  using saves_are_atomic [OF refl, of "[]" "[[1], [2]]"
      "\<lparr>d_nodes = [[''doc.bin''] \<mapsto> DFile [9] 420], d_calls = 0, d_fault = (\<lambda>n. n = 3), d_cut = (\<lambda>_. 0)\<rparr>"]
  by (simp add: stored_doc_def doc_path_def file_at_def)

text \<open>No file is in the way of the directories of a storage.\<close>

definition storage_free :: "fpath \<Rightarrow> disk \<Rightarrow> bool" where
  "storage_free root d \<longleftrightarrow>
     (\<forall>p. prefix p (root @ [''snapshots'']) \<or> prefix p (root @ [''blobs'']) \<longrightarrow> file_at d p = None)"

lemma create_dirs_run:
  assumes "quiet d" "\<forall>q. prefix q p \<longrightarrow> file_at d q = None"
  obtains e where "fs_create_dir_all p d = (Ok (), e)" "file_at e = file_at d" "quiet e"
proof -
  obtain r e where c: "fs_create_dir_all p d = (r, e)" by fastforce
  have "file_at d (take k p) = None" for k using assms(2) take_is_prefix by blast
  with c assms(1) have "r = Ok ()" by (auto simp: fs_create_dir_all_def quiet_def split: if_splits)
  moreover have "file_at e = file_at d" using create_dir_all_files [OF c] by auto
  ultimately show thesis using c quiet_calls(6) [OF c assms(1)] by (intro that) simp_all
qed

lemma ensure_run:
  assumes "quiet d" "storage_free root d"
  obtains e where "doc_ensure_dirs root d = (Ok (), e)" "file_at e = file_at d" "quiet e"
proof -
  have f: "\<forall>q. prefix q root \<longrightarrow> file_at d q = None" "\<forall>q. prefix q (root @ [''snapshots'']) \<longrightarrow> file_at d q = None"
    "\<forall>q. prefix q (root @ [''blobs'']) \<longrightarrow> file_at d q = None"
    using assms(2) by (auto simp: storage_free_def)
  obtain d1 where 1: "fs_create_dir_all root d = (Ok (), d1)" "file_at d1 = file_at d" "quiet d1"
    by (rule create_dirs_run [OF assms(1) f(1)])
  obtain d2 where 2: "fs_create_dir_all (root @ [''snapshots'']) d1 = (Ok (), d2)" "file_at d2 = file_at d1" "quiet d2"
    by (rule create_dirs_run [OF 1(3) f(2) [folded 1(2)]])
  obtain d3 where 3: "fs_create_dir_all (root @ [''blobs'']) d2 = (Ok (), d3)" "file_at d3 = file_at d2" "quiet d3"
    by (rule create_dirs_run [OF 2(3) f(3) [folded 1(2), folded 2(2)]])
  show thesis
    by (rule that [of d3]) (use 1 2 3 in \<open>simp_all add: doc_ensure_dirs_def andthen_run\<close>)
qed

lemma blobs_dir_run:
  assumes "quiet d" "storage_free root d"
  obtains e where "blob_ensure_dirs root d = (Ok (), e)" "file_at e = file_at d" "quiet e"
  using create_dirs_run [of d "root @ [''blobs'']" thesis] assms
  by (auto simp: storage_free_def blob_ensure_dirs_def blob_root_def)

lemma stored_run:
  assumes "quiet d" "stored_doc root d = Some bs"
  shows "doc_exists root d = (Ok True, tick d)" "fs_read (doc_path root) d = (Ok bs, tick d)"
  using assms
  by (auto simp: doc_exists_def fs_exists_def fs_read_def stored_doc_def file_at_def quiet_def
      split: option.splits file_node.splits)

lemma open_run:
  assumes "automerge_doc am tree oid" "quiet d" "storage_free root d" "root = oo_storage_path opts"
    and "stored_doc root d = Some bs" "am_load am bs = Ok e0" "tree e0 = view_tree v"
    and "v_rest v ''vault_id'' = Some (Leaf (SStr i))"
  obtains e where "file_at e = file_at d" "quiet e"
    "vault_open am c h opts d =
      (if i = oo_vault_id opts
       then (Ok (vault_start (oo_vault_id opts) (oo_identity opts) root
               (default_config\<lparr>vc_rendezvous_url := oo_rendezvous_url opts, vc_hub_pubkey := oo_hub_pubkey opts,
                  vc_name := oo_name opts\<rparr>) \<lparr>inner = e0, host = h\<rparr> e), e)
       else (Err (VaultError (''doc.bin vault_id mismatch: doc has '' @ i @ '', opts has '' @ oo_vault_id opts)), e))"
proof -
  obtain d1 where 1: "doc_ensure_dirs root d = (Ok (), d1)" "file_at d1 = file_at d" "quiet d1"
    by (rule ensure_run [OF assms(2,3)])
  have sf: "storage_free root d1" using assms(3) 1(2) by (simp add: storage_free_def)
  obtain d2 where 2: "blob_ensure_dirs root d1 = (Ok (), d2)" "file_at d2 = file_at d1" "quiet d2"
    by (rule blobs_dir_run [OF 1(3) sf])
  have st: "stored_doc root d2 = Some bs" using assms(5) 1(2) 2(2) by (simp add: stored_doc_def)
  note x = stored_run [OF 2(3) st]
  have q3: "quiet (tick d2)" using 2(3) by (simp add: quiet_def)
  have st3: "stored_doc root (tick d2) = Some bs" using st by (simp add: stored_doc_def file_at_def)
  note y = stored_run(2) [OF q3 st3]
  have vid: "doc_vault_id am \<lparr>inner = e0, host = h\<rparr> = (Ok i, \<lparr>inner = e0, host = h\<rparr>)"
    by (rule automerge_doc.vault_id_run [OF assms(1) _ assms(8)]) (simp add: displays_def assms(7))
  show thesis
    by (rule that [of "tick (tick d2)"])
      (use 1 2 x y q3 vid assms(4,6) in \<open>simp_all add: file_at_def quiet_def fun_eq_iff vault_open_def andthen_run
        doc_store_load_def doc_load_def lift_run Let_def\<close>)
qed

lemma flush_run:
  assumes "automerge_saved am tree oid" "vault_flush am s = (Ok (), t)" "quiet (va_disk s)"
    and "storage_free (va_storage_path s) (va_disk s)"
  obtains bs e0 where "stored_doc (va_storage_path s) (va_disk t) = Some bs" "am_load am bs = Ok e0"
    "tree e0 = tree (inner (va_doc s))" "quiet (va_disk t)" "storage_free (va_storage_path s) (va_disk t)"
proof -
  let ?root = "va_storage_path s"
  obtain bs d' where sv: "am_save am (inner (va_doc s)) = (bs, d')" by fastforce
  obtain r e where w: "save_bytes ?root bs (va_disk s) = (r, e)" by fastforce
  from assms(2) sv w have e: "r = Ok ()" "va_disk t = e"
    by (auto simp: vault_flush_def doc_store_save_def doc_save_def)
  obtain e0 where l: "am_load am bs = Ok e0" "tree e0 = tree (inner (va_doc s))"
    using automerge_saved.save_law [OF assms(1) sv] by blast
  from w e(1) have run: "write_rename (tmp_path ?root) (doc_path ?root) bs (va_disk s) = (Ok (), e)"
    by (auto simp: save_bytes_def write_rename_def andthen_run map_err_def split: prod.splits sum.splits)
  have "file_at e p = file_at (va_disk s) p" if "prefix p (?root @ [''snapshots'']) \<or> prefix p (?root @ [''blobs''])" for p
    by (rule write_rename_files(2) [OF run tmp_not_doc])
      (use that in \<open>auto simp: tmp_path_def doc_path_def prefix_append prefix_Cons\<close>)
  with assms(4) have "storage_free ?root e" by (simp add: storage_free_def)
  then show thesis
    using that [OF _ l] save_bytes_atomic [OF w] e quiet_write_rename [OF run assms(3)] by auto
qed

text \<open>
  C17. Restart. After a successful flush of a vault with a sound document, opening the storage
  again gives a vault without peers or connection whose document is sound and shows the same
  view; opening it as a vault with another id is refused, and neither changes a file.
\<close>

theorem flushed_vault_reopens:
  fixes am :: "('d, 'o, 'y) automerge" and s :: "('d, 'y, 'g) vault"
  assumes "automerge_saved am tree oid" "sound tree (va_doc s) v"
    and "v_rest v ''vault_id'' = Some (Leaf (SStr (va_vault_id s)))"
    and "quiet (va_disk s)" "storage_free (va_storage_path s) (va_disk s)" "vault_flush am s = (Ok (), t)"
    and "oo_storage_path opts = va_storage_path s" "fresh_ids ((va_doc s)\<lparr>host := h\<rparr>) v"
  shows "\<exists>(r :: ('d, 'y, 'g) vault result) e. vault_open am c h opts (va_disk t) = (r, e) \<and> file_at e = file_at (va_disk t) \<and>
    (if oo_vault_id opts = va_vault_id s
     then \<exists>u. r = Ok u \<and> sound tree (va_doc u) v \<and> va_vault_id u = va_vault_id s \<and>
            va_peers u = Map.empty \<and> va_client u = None \<and> va_disk u = e
     else \<exists>m. r = Err (VaultError m))"
proof -
  let ?root = "va_storage_path s"
  obtain bs e0 where f: "stored_doc ?root (va_disk t) = Some bs" "am_load am bs = Ok e0"
    "tree e0 = tree (inner (va_doc s))" "quiet (va_disk t)" "storage_free ?root (va_disk t)"
    by (rule flush_run [OF assms(1,6,4,5)])
  have tr: "tree e0 = view_tree v" using f(3) assms(2) by (simp add: sound_def displays_def)
  have snd: "sound tree \<lparr>inner = e0, host = h\<rparr> v"
    using assms(2,8) tr by (simp add: sound_def displays_def fresh_ids_def)
  obtain e where e: "file_at e = file_at (va_disk t)"
    "(vault_open am c h opts (va_disk t) :: ('d, 'y, 'g) vault result \<times> disk) =
      (if va_vault_id s = oo_vault_id opts
       then (Ok (vault_start (oo_vault_id opts) (oo_identity opts) ?root
               (default_config\<lparr>vc_rendezvous_url := oo_rendezvous_url opts, vc_hub_pubkey := oo_hub_pubkey opts,
                  vc_name := oo_name opts\<rparr>) \<lparr>inner = e0, host = h\<rparr> e), e)
       else (Err (VaultError (''doc.bin vault_id mismatch: doc has '' @ va_vault_id s @ '', opts has '' @ oo_vault_id opts)), e))"
    by (rule open_run [OF automerge_saved.axioms(1) [OF assms(1)] f(4,5) assms(7) [symmetric] f(1,2) tr assms(3)])
  with snd show ?thesis by (cases "oo_vault_id opts = va_vault_id s") (auto simp: vault_start_def)
qed

definition reopen_options :: "string \<Rightarrow> open_options" where
  "reopen_options i = \<lparr>oo_rendezvous_url = None, oo_vault_id = i, oo_identity = hub1, oo_storage_path = [],
     oo_hub_pubkey = None, oo_name = None\<rparr>"

theorem flushed_vault_reopens_witness:
  "\<exists>t u e. vault_flush ref_store (vault_start ''v'' hub1 [] default_config demo blank_disk :: (ref_doc, unit, unit) vault) =
       (Ok (), t) \<and>
     vault_open ref_store example_crypto demo_host (reopen_options ''v'') (va_disk t) = (Ok (u :: (ref_doc, unit, unit) vault), e) \<and>
     sound ref_tree (va_doc u) demo_view"
proof -
  let ?s = "vault_start ''v'' hub1 [] default_config demo blank_disk :: (ref_doc, unit, unit) vault"
  obtain r t where run: "vault_flush ref_store ?s = (r, t)" by fastforce
  have "r = Ok ()"
    using run by (simp add: vault_flush_def doc_store_save_def doc_save_def ref_store_def vault_start_def save_bytes_def
        andthen_run map_err_def fs_write_def fs_write_mode_def fs_rename_def can_open_def is_dir_def tmp_path_def
        doc_path_def blank_disk_def tick_def set_node_def split: prod.splits)
  with run have f: "vault_flush ref_store ?s = (Ok (), t)" by simp
  have side: "sound ref_tree (va_doc ?s) demo_view" "v_rest demo_view ''vault_id'' = Some (Leaf (SStr (va_vault_id ?s)))"
    "quiet (va_disk ?s)" "storage_free (va_storage_path ?s) (va_disk ?s)"
    "oo_storage_path (reopen_options ''v'') = va_storage_path ?s" "fresh_ids ((va_doc ?s)\<lparr>host := demo_host\<rparr>) demo_view"
    using demo_sound
    by (simp_all add: vault_start_def demo_view_def quiet_def blank_disk_def storage_free_def file_at_def
        reopen_options_def sound_def fresh_ids_def demo_def)
  from flushed_vault_reopens [OF ref_store.automerge_saved_axioms side(1-4) f side(5,6), of example_crypto] f
  show ?thesis by (auto simp: reopen_options_def vault_start_def)
qed

section \<open>Attachments\<close>

text \<open>
  C39. Content addressing. Whatever fails, storing an attachment that a peer has sent keeps the
  store's invariant, loses no attachment, and succeeds only if its bytes have the announced hash,
  which are then stored; and every attachment read back under a proper name hashes to it.
\<close>

theorem blobs_addressed:
  assumes "sha_hex c" "blobs_ok c (va_storage_path s) (va_disk s)" "vsh_write_blob c h bs s = (r, t)"
  shows "blobs_ok c (va_storage_path t) (va_disk t) \<and>
    (r = Ok () \<longrightarrow> h = content_hash c bs \<and> blob_at (va_storage_path t) (va_disk t) h \<noteq> None) \<and>
    (\<forall>k. blob_name k \<and> blob_at (va_storage_path s) (va_disk s) k \<noteq> None \<longrightarrow>
       blob_at (va_storage_path t) (va_disk t) k \<noteq> None) \<and>
    (\<forall>k xs u. blob_name k \<and> vsh_read_blob k t = (Ok xs, u) \<longrightarrow> content_hash c xs = k)"
proof -
  let ?root = "va_storage_path s"
  obtain d where d: "blob_put_with_hash c ?root h bs (va_disk s) = (r, d)" "t = s\<lparr>va_disk := d\<rparr>"
    using assms(3) by (auto simp: vsh_write_blob_def on_disk_def split: prod.splits)
  have path: "va_storage_path t = ?root" "va_disk t = d" using d(2) by simp_all
  note store = native_blobs [OF assms(1), of ?root]
  note law = blob_storage.put_with_hash_law [OF store assms(2) d(1)]
  have "content_hash c xs = k" if "blob_name k" "vsh_read_blob k t = (Ok xs, u)" for k xs u
  proof -
    from that(2) path obtain e where "blob_get ?root k d = (Ok xs, e)"
      by (auto simp: vsh_read_blob_def on_disk_def split: prod.splits)
    with that(1) law show ?thesis by (blast intro: blob_storage.get_hash [OF store])
  qed
  with law path blob_storage.blob_kept(2) [OF store assms(2) _ _ d(1)] show ?thesis by auto
qed

theorem blobs_addressed_witness:
  "\<exists>r t. vsh_write_blob example_crypto (content_hash example_crypto [5]) [5] keyring_vault = (r, t) \<and>
     blobs_ok example_crypto [] (va_disk t)"
proof -
  have ok: "blobs_ok example_crypto (va_storage_path keyring_vault) (va_disk keyring_vault)"
    by (simp add: keyring_vault_def vault_start_def blank_disk_def blobs_ok_def file_at_def)
  obtain r t where run: "vsh_write_blob example_crypto (content_hash example_crypto [5]) [5] keyring_vault = (r, t)"
    by fastforce
  have "va_storage_path t = []"
    using run by (auto simp: vsh_write_blob_def on_disk_def keyring_vault_def vault_start_def split: prod.splits)
  with blobs_addressed [OF ex.sha_hex_axioms ok run] run show ?thesis by auto
qed

end
