(* ===== verification/Debounce.thy ===== *)
theory Debounce
  imports Ingest DocRestore
begin

text \<open>
  \<^verbatim>\<open>debounced_fs_loop\<close> of \<^verbatim>\<open>vault.rs\<close>: the queue between the watcher and \<open>handle_fs_event\<close>. The
  loop is a function of what wakes it, in order: an event from the channel, the end of its sleep,
  or the end of the channel, each with the time.
\<close>

section \<open>The loop\<close>

text \<open>How long the loop sleeps at most, in milliseconds.\<close>

definition next_wait :: "nat \<Rightarrow> pending \<Rightarrow> nat" where
  "next_wait now pending =
     (case map (\<lambda>(_, _, t). t - now) pending of [] \<Rightarrow> 3600000 | t # ts \<Rightarrow> fold min ts t)"

datatype wake_up = Arrives nat fs_event | Wakes nat | Closes nat

fun debounced_fs_loop ::
    "(fs_event \<Rightarrow> (('d, 'y, 'g) bound, unit) action) \<Rightarrow> (fpath list \<Rightarrow> fpath list) \<Rightarrow> wake_up list \<Rightarrow> pending \<Rightarrow>
     ('d, 'y, 'g) bound \<Rightarrow> pending \<times> ('d, 'y, 'g) bound" where
  "debounced_fs_loop handle order [] pending s = (pending, s)"
| "debounced_fs_loop handle order (Arrives now ev # inputs) pending s =
     debounced_fs_loop handle order inputs (enqueue_event now ev pending) s"
| "debounced_fs_loop handle order (Wakes now # inputs) pending s =
     (case flush_expired handle order now False pending s of
        (pending, s) \<Rightarrow> debounced_fs_loop handle order inputs pending s)"
| "debounced_fs_loop handle order (Closes now # inputs) pending s =
     flush_expired handle order now True pending s"

section \<open>What a flush handles\<close>

definition due :: "(fpath list \<Rightarrow> fpath list) \<Rightarrow> nat \<Rightarrow> bool \<Rightarrow> pending \<Rightarrow> fpath list" where
  "due order now force_all pending = order (map fst (filter (\<lambda>(_, _, t). force_all \<or> t \<le> now) pending))"

definition event_at :: "pending \<Rightarrow> fpath \<Rightarrow> fs_event" where
  "event_at pending p = fst (the (map_of pending p))"

definition without :: "fpath list \<Rightarrow> pending \<Rightarrow> pending" where
  "without ps pending = filter (\<lambda>x. fst x \<notin> set ps) pending"

definition pending_ok :: "pending \<Rightarrow> bool" where
  "pending_ok pending \<longleftrightarrow> distinct (map fst pending) \<and> (\<forall>(p, ev, t) \<in> set pending. event_path ev = p)"

lemma pending_ok_Nil [simp]: "pending_ok []"
  by (simp add: pending_ok_def)

lemma set_update_insert: "set (AList.update k v al) \<subseteq> insert (k, v) (set al)"
  by (induction al) auto

lemma pending_ok_enqueue:
  assumes "pending_ok pending"
  shows "pending_ok (enqueue_event now ev pending)"
  using assms set_update_insert [of "event_path ev" "(ev, now + FS_DEBOUNCE)" pending]
  by (auto simp: pending_ok_def enqueue_event_def distinct_update)

lemma pending_ok_without: "pending_ok pending \<Longrightarrow> pending_ok (without ps pending)"
  by (auto simp: pending_ok_def without_def distinct_map_filter)

lemma map_of_without: "map_of (without ps pending) p = (if p \<in> set ps then None else map_of pending p)"
  by (induction pending) (auto simp: without_def)

lemma flush_fold:
  assumes "distinct ps" "set ps \<subseteq> fst ` set pending"
  shows "fold (\<lambda>p (pending, s). case map_of pending p of
            None \<Rightarrow> (pending, s)
          | Some (ev, _) \<Rightarrow> (AList.delete p pending, snd (handle ev s))) ps (pending, s) =
      (without ps pending, fold (\<lambda>ev s. snd (handle ev s)) (map (event_at pending) ps) s)"
  using assms
proof (induction ps arbitrary: pending s)
  case Nil
  then show ?case by (simp add: without_def)
next
  case (Cons p ps)
  then obtain ev t where p: "map_of pending p = Some (ev, t)"
    by (metis list.set_intros(1) map_of_eq_None_iff not_None_eq subsetD surj_pair)
  let ?rest = "AList.delete p pending"
  have rest: "set ps \<subseteq> fst ` set ?rest" using Cons.prems by (force simp: AList.delete_eq)
  have ev: "map (event_at ?rest) ps = map (event_at pending) ps"
    using Cons.prems(1) by (auto simp: event_at_def delete_conv)
  have w: "without ps ?rest = without (p # ps) pending"
    by (auto simp: without_def AList.delete_eq intro: filter_cong)
  have e: "event_at pending p = ev" by (simp add: event_at_def p)
  have "distinct ps" using Cons.prems(1) by simp
  from Cons.IH [OF this rest, of "snd (handle ev s)"] show ?case
    unfolding ev w by (simp add: p e)
qed

lemma flush_expired_run:
  assumes "permutes order" "pending_ok pending"
  shows "flush_expired handle order now force_all pending s =
    (without (due order now force_all pending) pending,
     fold (\<lambda>ev s. snd (handle ev s)) (map (event_at pending) (due order now force_all pending)) s)"
    and "distinct (due order now force_all pending)"
    and "set (due order now force_all pending) =
      fst ` {x \<in> set pending. force_all \<or> snd (snd x) \<le> now}"
proof -
  let ?ps = "map fst (filter (\<lambda>(_, _, t). force_all \<or> t \<le> now) pending)"
  have "distinct ?ps" using assms(2) by (auto simp: pending_ok_def distinct_map_filter)
  then show dd: "distinct (due order now force_all pending)" using assms(1) by (simp add: due_def permutes_def)
  have "set (due order now force_all pending) = set ?ps" using assms(1) by (simp add: due_def permutes_def)
  then show ss: "set (due order now force_all pending) = fst ` {x \<in> set pending. force_all \<or> snd (snd x) \<le> now}"
    by (auto simp: case_prod_beta)
  have sub: "set (due order now force_all pending) \<subseteq> fst ` set pending" using ss by auto
  show "flush_expired handle order now force_all pending s =
    (without (due order now force_all pending) pending,
     fold (\<lambda>ev s. snd (handle ev s)) (map (event_at pending) (due order now force_all pending)) s)"
    using flush_fold [OF dd sub] by (simp add: flush_expired_def due_def [symmetric])
qed

section \<open>What the loop handles\<close>

fun handled :: "(fpath list \<Rightarrow> fpath list) \<Rightarrow> wake_up list \<Rightarrow> pending \<Rightarrow> fs_event list" where
  "handled order [] pending = []"
| "handled order (Arrives now ev # inputs) pending = handled order inputs (enqueue_event now ev pending)"
| "handled order (Wakes now # inputs) pending =
     map (event_at pending) (due order now False pending) @
     handled order inputs (without (due order now False pending) pending)"
| "handled order (Closes now # inputs) pending = map (event_at pending) (due order now True pending)"

fun arrivals :: "wake_up list \<Rightarrow> fs_event list" where
  "arrivals [] = []"
| "arrivals (Arrives now ev # inputs) = ev # arrivals inputs"
| "arrivals (Wakes now # inputs) = arrivals inputs"
| "arrivals (Closes now # inputs) = []"

fun closed :: "wake_up list \<Rightarrow> bool" where
  "closed [] = False"
| "closed (Arrives now ev # inputs) = closed inputs"
| "closed (Wakes now # inputs) = closed inputs"
| "closed (Closes now # inputs) = True"

text \<open>The state the loop leaves is that of the handled events, in order.\<close>

lemma debounced_run:
  assumes "permutes order" "pending_ok pending"
  shows "snd (debounced_fs_loop handle order inputs pending s) =
      fold (\<lambda>ev s. snd (handle ev s)) (handled order inputs pending) s \<and>
    (closed inputs \<longrightarrow> fst (debounced_fs_loop handle order inputs pending s) = [])"
  using assms(2)
proof (induction inputs arbitrary: pending s)
  case Nil
  then show ?case by simp
next
  case (Cons i inputs)
  show ?case
  proof (cases i)
    case (Arrives now ev)
    then show ?thesis using Cons.IH [OF pending_ok_enqueue [OF Cons.prems]] by simp
  next
    case (Wakes now)
    then show ?thesis using Cons.IH [OF pending_ok_without [OF Cons.prems]]
      by (simp add: flush_expired_run(1) [OF assms(1) Cons.prems])
  next
    case (Closes now)
    have "without (due order now True pending) pending = []"
      using flush_expired_run(3) [OF assms(1) Cons.prems, of now True] by (force simp: without_def filter_empty_conv)
    then show ?thesis using Closes by (simp add: flush_expired_run(1) [OF assms(1) Cons.prems])
  qed
qed

text \<open>The events of one path.\<close>

definition of_path :: "fpath \<Rightarrow> fs_event list \<Rightarrow> fs_event list" where
  "of_path p evs = filter (\<lambda>ev. event_path ev = p) evs"

definition waiting_event :: "pending \<Rightarrow> fpath \<Rightarrow> fs_event list" where
  "waiting_event pending p = (case map_of pending p of Some (ev, _) \<Rightarrow> [ev] | None \<Rightarrow> [])"

lemma of_path_simps [simp]:
  "of_path p [] = []"
  "of_path p (ev # evs) = (if event_path ev = p then ev # of_path p evs else of_path p evs)"
  "of_path p (xs @ ys) = of_path p xs @ of_path p ys"
  by (simp_all add: of_path_def)

lemma of_path_events:
  assumes "pending_ok pending" "distinct ps" "set ps \<subseteq> fst ` set pending"
  shows "of_path p (map (event_at pending) ps) = (if p \<in> set ps then waiting_event pending p else [])"
  using assms(2,3)
proof (induction ps)
  case Nil
  then show ?case by simp
next
  case (Cons q ps)
  then obtain ev t where q: "map_of pending q = Some (ev, t)"
    by (metis list.set_intros(1) map_of_eq_None_iff not_None_eq subsetD surj_pair)
  then have "event_path ev = q" using assms(1) by (auto simp: pending_ok_def dest: map_of_SomeD)
  with Cons q show ?case by (auto simp: event_at_def waiting_event_def)
qed

lemma flush_of_path:
  assumes "permutes order" "pending_ok pending"
  shows "of_path p (map (event_at pending) (due order now force_all pending)) @
      waiting_event (without (due order now force_all pending) pending) p = waiting_event pending p"
proof -
  have "set (due order now force_all pending) \<subseteq> fst ` set pending"
    using flush_expired_run(3) [OF assms] by auto
  from of_path_events [OF assms(2) flush_expired_run(2) [OF assms] this] show ?thesis
    by (simp add: waiting_event_def map_of_without)
qed

lemma waiting_enqueue:
  "waiting_event (enqueue_event now ev pending) p =
     (if event_path ev = p then [ev] else waiting_event pending p)"
  by (simp add: waiting_event_def enqueue_event_def update_conv)

lemma handled_of_path:
  assumes "permutes order" "pending_ok pending"
  shows "subseq (of_path p (handled order inputs pending)) (waiting_event pending p @ of_path p (arrivals inputs)) \<and>
    (closed inputs \<and> waiting_event pending p @ of_path p (arrivals inputs) \<noteq> [] \<longrightarrow>
       of_path p (handled order inputs pending) \<noteq> [] \<and>
       last (of_path p (handled order inputs pending)) = last (waiting_event pending p @ of_path p (arrivals inputs)))"
  using assms(2)
proof (induction inputs arbitrary: pending)
  case Nil
  then show ?case by simp
next
  case (Cons i inputs)
  show ?case
  proof (cases i)
    case (Arrives now ev)
    from Cons.IH [OF pending_ok_enqueue [OF Cons.prems], of now ev] Arrives show ?thesis
      by (auto simp: waiting_enqueue intro: list_emb_append2)
  next
    case (Wakes now)
    let ?ps = "due order now False pending"
    let ?d = "of_path p (map (event_at pending) ?ps)" and ?w = "waiting_event (without ?ps pending) p"
    let ?h = "of_path p (handled order inputs (without ?ps pending))"
    have split: "waiting_event pending p = ?d @ ?w" using flush_of_path [OF assms(1) Cons.prems] by simp
    note ih = Cons.IH [OF pending_ok_without [OF Cons.prems], of ?ps]
    have "subseq (?d @ ?h) (?d @ ?w @ of_path p (arrivals inputs))"
      using ih by (intro list_emb_append_mono) auto
    moreover have "?d @ ?h \<noteq> [] \<and> last (?d @ ?h) = last (?d @ ?w @ of_path p (arrivals inputs))"
      if "closed inputs" "?d @ ?w @ of_path p (arrivals inputs) \<noteq> []"
    proof (cases "?w @ of_path p (arrivals inputs) = []")
      case True
      with ih have "?h = []" by simp
      with True that(2) show ?thesis by simp
    next
      case False
      with ih that(1) show ?thesis by (metis append_is_Nil_conv last_appendR)
    qed
    ultimately show ?thesis using Wakes unfolding split by simp
  next
    case (Closes now)
    have "without (due order now True pending) pending = []"
      using flush_expired_run(3) [OF assms(1) Cons.prems, of now True] by (force simp: without_def filter_empty_conv)
    then have "of_path p (map (event_at pending) (due order now True pending)) = waiting_event pending p"
      using flush_of_path [OF assms(1) Cons.prems, of p now True] by (simp add: waiting_event_def)
    then show ?thesis using Closes by simp
  qed
qed

text \<open>The loop sleeps exactly until the first event is due.\<close>

lemma fold_min: "fold min ts (t :: nat) = Min (insert t (set ts))"
  by (metis Min.set_eq_fold list.simps(15))

lemma next_wait_Min: "pending \<noteq> [] \<Longrightarrow> next_wait now pending = Min ((\<lambda>(_, _, t). t - now) ` set pending)"
  by (cases pending) (auto simp: next_wait_def fold_min)

lemma next_wait_exact:
  assumes "pending \<noteq> []"
  shows "\<exists>(p, ev, t) \<in> set pending. t \<le> now + next_wait now pending"
    and "(p, ev, t) \<in> set pending \<Longrightarrow> now \<le> n \<Longrightarrow> n < now + next_wait now pending \<Longrightarrow> n < t"
proof -
  let ?s = "(\<lambda>(_, _, t). t - now) ` set pending"
  have m: "next_wait now pending = Min ?s" by (rule next_wait_Min [OF assms])
  have "Min ?s \<in> ?s" using assms by (intro Min_in) auto
  then obtain q ev' t' where "(q, ev', t') \<in> set pending" "Min ?s = t' - now" by auto
  then show "\<exists>(p, ev, t) \<in> set pending. t \<le> now + next_wait now pending" unfolding m by (intro bexI) auto
  assume "(p, ev, t) \<in> set pending" "now \<le> n" "n < now + next_wait now pending"
  moreover have "Min ?s \<le> t - now" using calculation(1) by (intro Min_le) force+
  ultimately show "n < t" unfolding m by linarith
qed

end
