(* ===== verification/FsProperties.thy ===== *)
theory FsProperties
  imports StoreProperties Debounce
begin

text \<open>
  The properties of a bound directory: the names of its files, the include patterns, what a
  materialize pass and a change on disk do, and the suppression of the program's own echo.
\<close>

section \<open>Names\<close>

text \<open>
  C37. Names. A normalised vault path names a file below the bound directory, different paths
  different files, and the file is translated back to its path when the binding admits it.
\<close>

theorem vault_path_round_trip:
  assumes "normalize nfc p = Ok p" "utf8_valid p" "CHR 0x5C \<notin> set p"
  shows "vault_path_to_fs_path b p = bd_root b @ split_on (CHR ''/'') p \<and>
    fs_path_to_vault_path nfc gi b (vault_path_to_fs_path b p) = (if path_allowed gi b p then Some p else None) \<and>
    fs_path_to_vault_dir_path nfc gi b (vault_path_to_fs_path b p) = (if dir_path_allowed gi b p then Some p else None) \<and>
    (\<forall>q. good_path q \<and> vault_path_to_fs_path b q = vault_path_to_fs_path b p \<longrightarrow> q = p)"
  using vault_path_below [OF normalize_good [OF assms(1)]] vault_path_back [OF assms]
    vault_path_inj [OF _ normalize_good [OF assms(1)]] by blast

definition example_binding :: "unit binding" where
  "example_binding = \<lparr>bd_root = [''home''], bd_opts = markdown_only,
     bd_sync_ignore = \<lparr>si_vault_root = [''home''], si_matchers = []\<rparr>, bd_dirty = dirty_new,
     bd_materialized = [], bd_last_ingested = [], bd_materialized_dirs = []\<rparr>"

definition no_gitignore :: "unit gitignore" where
  "no_gitignore = \<lparr>gi_build = (\<lambda>_ _. None), gi_matched = (\<lambda>_ _ _. NoVerdict)\<rparr>"

lemma example_allowed: "path_allowed no_gitignore example_binding ''x/y/z.md''"
proof -
  have "map (\<lambda>s. to_ascii_lowercase (trim_start_char (CHR ''.'') s)) [''md'', ''markdown''] = [''md'', ''markdown'']"
    by code_simp
  then have "bo_include_patterns markdown_only = [''**/*.'' @ ''md'', ''**/*.'' @ ''markdown'']"
    unfolding markdown_only_def for_extensions_def Let_def by (simp only:) simp
  moreover have "glob_match (''**/*.'' @ ''md'') ''x/y/z.md''"
  proof -
    have "ends_with ''x/y/z.md'' (CHR ''.'' # ''md'')" by code_simp
    then show ?thesis by (subst glob_extension) (simp_all add: star_def)
  qed
  moreover have "\<not> always_excluded ''x/y/z.md''" by code_simp
  ultimately show ?thesis by (simp add: path_allowed_def example_binding_def sync_ignored_def glob_match_any_def)
qed

theorem vault_path_round_trip_witness:
  "vault_path_to_fs_path example_binding ''x/y/z.md'' = [''home'', ''x'', ''y'', ''z.md''] \<and>
   fs_path_to_vault_path ascii_nfc no_gitignore example_binding [''home'', ''x'', ''y'', ''z.md''] = Some ''x/y/z.md''"
proof -
  have "utf8_valid ''x/y/z.md''" "CHR 0x5C \<notin> set ''x/y/z.md''" by code_simp+
  note r = vault_path_round_trip [OF demo_paths(4) this, of example_binding no_gitignore]
  have "split_on (CHR ''/'') ''x/y/z.md'' = [''x'', ''y'', ''z.md'']" by code_simp
  then have "vault_path_to_fs_path example_binding ''x/y/z.md'' = [''home'', ''x'', ''y'', ''z.md'']"
    using r by (simp add: example_binding_def)
  with r example_allowed show ?thesis by simp
qed



section \<open>From the document to the disk\<close>


definition stale_disk :: disk where
  "stale_disk = blank_disk\<lparr>d_nodes := [[''home''] \<mapsto> DDir, [''home'', ''n.md''] \<mapsto> DFile [7] 420]\<rparr>"

definition stale_vault :: "(ref_doc, unit, unit) vault" where
  "stale_vault = vault_start ''v'' hub1 [] default_config purged stale_disk"

definition stale_binding :: "unit binding" where
  "stale_binding = example_binding\<lparr>bd_materialized := [(''n.md'', content_hash example_crypto [7])]\<rparr>"

lemma purged_lists:
  "list_files ref_am purged = (Ok [], purged)" "list_directories ref_am purged = (Ok [], purged)"
proof -
  note d = soundD [OF purged_sound]
  have wf: "entries_wf purged_view" "dirs_ok purged_view"
    using vault_ok_entries [OF d(2)] vault_ok_dirs [OF d(2)] by blast+
  obtain fs where "list_files ref_am purged = (Ok fs, purged)"
    "set fs = {file_rec fid n |fid n. v_files purged_view fid = Some n \<and> live_path n \<noteq> None}"
    by (rule automerge_doc.list_files_run [OF ref.automerge_doc_axioms d(1) wf(1)])
  then show "list_files ref_am purged = (Ok [], purged)" by (simp add: purged_view_def)
  obtain ds where "list_directories ref_am purged = (Ok ds, purged)"
    "set ds = {dir_rec did n |did n. v_dirs purged_view did = Some n \<and> dir_live_path n \<noteq> None}"
    by (rule automerge_doc.list_directories_run [OF ref.automerge_doc_axioms d(1) wf(2)])
  then show "list_directories ref_am purged = (Ok [], purged)" by (simp add: purged_view_def)
qed

lemma stale_pass:
  "\<exists>v' b'. materialize ref_am example_crypto id id id (stale_vault, stale_binding) = (Ok (), v', b') \<and>
     file_at (va_disk v') [''home'', ''n.md''] = None"
proof -
  have p: "vault_path_to_fs_path b ''n.md'' = [''home'', ''n.md'']" if "bd_root b = [''home'']" for b :: "unit binding"
  proof -
    have "resolve [''home''] (split_on (CHR ''/'') ''n.md'') = [''home'', ''n.md'']" by code_simp
    with that show ?thesis by (simp add: vault_path_to_fs_path_def)
  qed
  show ?thesis
    by (simp add: materialize_def andthen_run with_vault_def on_doc_def on_disk_def the_binding_def live_map_def
        purged_lists stale_vault_def vault_start_def depth_order_def deep_first_def ret_run Let_def mat_delete_def
        with_binding_def p disk_hash_def adapter_read_def fs_read_def stale_disk_def blank_disk_def attempt_run
        adapter_delete_def fs_remove_file_def mark_dirty_def set_node_def tick_def file_at_def
        stale_binding_def example_binding_def is_safe_to_overwrite_def)
qed


section \<open>From the disk to the document\<close>

text \<open>
  C14. Taking in a text. When a text file of the binding is found changed, is within the size
  limit and is no echo of the program's own write, then afterwards the document reads back
  exactly that text, every other file is as before, the disk is untouched and the binding
  remembers the content under its hash.
\<close>

theorem text_ingested:
  assumes "automerge_doc am tree oid" "sound tree (va_doc v) w" "normalize nfc path = Ok path" "quiet (va_disk v)"
    and "file_at (va_disk v) (vault_path_to_fs_path b path) = Some bytes" "bytes \<noteq> []"
    and "\<not> over_size b path (length bytes)" "is_text_extension b path" "from_utf8 bytes = Some s"
    and "dirty_check_and_consume (clock (Suc (d_calls (va_disk v)))) path (content_hash c bytes) (bd_dirty b) = (False, m)"
  shows "\<exists>v' b' w'. ingest_file am c nfc clock settle path (v, b) = (Ok (), v', b') \<and> sound tree (va_doc v') w' \<and>
    read_file am nfc path (va_doc v') = (Ok s, va_doc v') \<and>
    {x \<in> live_files w'. fst x \<noteq> path} = {x \<in> live_files w. fst x \<noteq> path} \<and> d_nodes (va_disk v') = d_nodes (va_disk v) \<and>
    map_of (bd_last_ingested b') path = Some (content_hash c bytes) \<and>
    map_of (bd_materialized b') path = Some (content_hash c bytes)"
proof -
  let ?v = "v\<lparr>va_disk := tick (va_disk v)\<rparr>" and ?b = "b\<lparr>bd_dirty := m\<rparr>"
  have run: "ingest_file am c nfc clock settle path (v, b) = ingest_text am nfc path (content_hash c bytes) s (?v, ?b)"
    using ingest_file_bytes [OF assms(4-6), of am c nfc clock settle]
      ingest_bytes_text [OF assms(7-9), of clock ?v c m am nfc] assms(10) by simp
  have snd: "sound tree (va_doc ?v) w" using assms(2) by simp
  show ?thesis
  proof (cases rule: automerge_doc.ingest_text_run [OF assms(1) snd assms(3), where s = s and b = ?b
        and hash = "content_hash c bytes", case_names unchanged written])
    case unchanged
    have "snd (read_file am nfc path (va_doc v)) = va_doc v"
      by (rule automerge_doc.read_file_keeps [OF assms(1) soundD(1,2) [OF assms(2)] assms(3)])
    with unchanged(1) have rd: "read_file am nfc path (va_doc v) = (Ok s, va_doc v)"
      by (cases "read_file am nfc path (va_doc v)") simp
    from run unchanged(2) assms(2) rd show ?thesis by (simp add: record_run AList.update_conv') blast
  next
    case (written fid d w')
    from written(4) have live: "(path, fid, TextBody s) \<in> live_files w'" by (simp add: file_written_def)
    have rd: "read_file am nfc path d = (Ok s, d)"
      by (rule automerge_doc.read_file_run(1) [OF assms(1) soundD(1,2) [OF written(3)] assms(3) live])
    have "{x \<in> live_files w'. fst x \<noteq> path} = {x \<in> live_files w. fst x \<noteq> path}"
      using written(4) by (auto simp: file_written_def)
    with run written(3,5) rd show ?thesis by (auto simp: record_run AList.update_conv')
  qed
qed

definition fresh_disk :: disk where
  "fresh_disk = blank_disk\<lparr>d_nodes := [[''home''] \<mapsto> DDir, [''home'', ''x''] \<mapsto> DDir, [''home'', ''x'', ''y''] \<mapsto> DDir,
     [''home'', ''x'', ''y'', ''z.md''] \<mapsto> DFile [110, 101, 119] 420]\<rparr>"

theorem text_ingested_witness:
  "\<exists>v' b'. ingest_file ref_am example_crypto ascii_nfc id id ''x/y/z.md''
       (vault_start ''v'' hub1 [] default_config demo fresh_disk :: (ref_doc, unit, unit) vault, example_binding) = (Ok (), v', b') \<and>
     read_file ref_am ascii_nfc ''x/y/z.md'' (va_doc v') = (Ok ''new'', va_doc v')"
proof -
  let ?v = "vault_start ''v'' hub1 [] default_config demo fresh_disk :: (ref_doc, unit, unit) vault"
  have exts:
    "map (\<lambda>s. to_ascii_lowercase (trim_start_char (CHR ''.'') s)) [''md'', ''markdown''] = [''md'', ''markdown'']"
    "name_extension (last (split_on (CHR ''/'') ''x/y/z.md'')) = Some ''md''" "eq_ignore_ascii_case ''md'' ''md''"
    "split_on (CHR ''/'') ''x/y/z.md'' = [''x'', ''y'', ''z.md'']"
    by code_simp+
  then have istext: "is_text_extension example_binding ''x/y/z.md''"
    by (simp add: is_text_extension_def example_binding_def markdown_only_def for_extensions_def Let_def
        AUTHORIZED_KEYS_FILE_def is_syncignore_path_def SYNC_IGNORE_FILENAME_def)
  then have size: "\<not> over_size example_binding ''x/y/z.md'' (length [110, 101, 119 :: byte])"
    by (simp add: over_size_def example_binding_def markdown_only_def for_extensions_def Let_def)
  have utf8: "from_utf8 [110, 101, 119] = Some ''new''" by code_simp
  have path: "vault_path_to_fs_path example_binding ''x/y/z.md'' = [''home'', ''x'', ''y'', ''z.md'']"
    using vault_path_below [OF normalize_good [OF demo_paths(4)], of example_binding] exts(4)
    by (simp add: example_binding_def)
  have side: "sound ref_tree (va_doc ?v) demo_view" "quiet (va_disk ?v)"
    "file_at (va_disk ?v) (vault_path_to_fs_path example_binding ''x/y/z.md'') = Some [110, 101, 119]"
    "[110, 101, 119 :: byte] \<noteq> []"
    using demo_sound path by (simp_all add: vault_start_def fresh_disk_def blank_disk_def quiet_def file_at_def)
  have dirty: "dirty_check_and_consume (id (Suc (d_calls (va_disk ?v)))) ''x/y/z.md''
      (content_hash example_crypto [110, 101, 119]) (bd_dirty example_binding) = (False, Map.empty)"
    by (simp add: dirty_check_and_consume_def dirty_gc_def dirty_new_def example_binding_def Let_def)
  from text_ingested [where clock = id and v = ?v and b = example_binding and nfc = ascii_nfc, OF ref.automerge_doc_axioms side(1) demo_paths(4) side(2-4) size istext utf8 dirty, where settle = id]
  show ?thesis by blast
qed

text \<open>
  C15. The keys stay. Whatever is removed on disk, be it the keys file itself, another file or a
  directory that holds them, the event never fails, the document stays sound, and its
  \<^verbatim>\<open>authorized_keys\<close> file stays as it is.
\<close>

theorem keys_survive_removals:
  assumes "automerge_doc am tree oid" "unicode_nfc nfc" "sound tree (va_doc v) w" "normal_paths nfc w"
    and "dispatch_fs_event am c nfc gi wk clock settle (Removed p) (v, b) = (r, v', b')"
  shows "r = Ok () \<and> (\<exists>w'. sound tree (va_doc v') w' \<and>
    {x \<in> live_files w'. fst x = AUTHORIZED_KEYS_FILE} = {x \<in> live_files w. fst x = AUTHORIZED_KEYS_FILE})"
  using automerge_doc.removed_keeps_keys [OF assms(1-4)] assms(5) unfolding keys_files_def by simp

theorem keys_survive_removals_witness:
  "\<exists>v' b' w' fid. dispatch_fs_event ref_am example_crypto ascii_nfc no_gitignore (\<lambda>_ _. []) id id
       (Removed [''home'', ''authorized_keys'']) (keyring_vault, example_binding) = (Ok (), v', b') \<and>
     sound ref_tree (va_doc v') w' \<and>
     (AUTHORIZED_KEYS_FILE, fid, TextBody (render_authorized_keys example_crypto keyring_peers)) \<in> live_files w'"
proof -
  have doc: "va_doc keyring_vault = keyring_doc" by (simp add: keyring_vault_def vault_start_def)
  obtain fid w where f: "sound ref_tree (va_doc keyring_vault) w"
    "file_written demo_view AUTHORIZED_KEYS_FILE fid (TextBody (render_authorized_keys example_crypto keyring_peers)) w"
    by (rule keyring_written [OF doc])
  have "has_file w p \<Longrightarrow> p \<in> {''a/b.txt'', ''a/c.png'', AUTHORIZED_KEYS_FILE}" for p
    using f(2) by (auto simp: has_file_def file_written_def demo_live_files)
  then have n: "normal_paths ascii_nfc w" using demo_paths keys_path by (auto simp: normal_paths_def)
  obtain r v' b' where run: "dispatch_fs_event ref_am example_crypto ascii_nfc no_gitignore (\<lambda>_ _. []) id id
       (Removed [''home'', ''authorized_keys'']) (keyring_vault, example_binding) = (r, v', b')" by (metis prod_cases3)
  from keys_survive_removals [OF ref.automerge_doc_axioms ascii_nfc.unicode_nfc_axioms f(1) n run]
  obtain w' where w: "r = Ok ()" "sound ref_tree (va_doc v') w'"
    "{x \<in> live_files w'. fst x = AUTHORIZED_KEYS_FILE} = {x \<in> live_files w. fst x = AUTHORIZED_KEYS_FILE}" by blast
  have "(AUTHORIZED_KEYS_FILE, fid, TextBody (render_authorized_keys example_crypto keyring_peers)) \<in>
      {x \<in> live_files w. fst x = AUTHORIZED_KEYS_FILE}" using f(2) by (simp add: file_written_def)
  with w run show ?thesis by blast
qed

section \<open>The program's own echo\<close>

text \<open>
  C38. Suppression. In any sequence of writes by the program and events from the watcher, at any
  instants, the events on a path with a content that are taken for an echo are at most as many
  as the program's writes of that very content to that path; and an event within the time limit
  of a write not yet matched is taken for one, so the vault is left alone.
\<close>

theorem suppression_exact:
  "length (filter ((=) (p, h)) (suppressed ss dirty_new)) \<le> length (filter (\<lambda>s. snd s = Mark p h) ss) \<and>
   (soon - now < TTL \<longrightarrow> fst (dirty_check_and_consume soon p h (dirty_mark now now p h m))) \<and>
   (h = content_hash c bytes \<and> clock (d_calls (va_disk v)) - now < TTL \<longrightarrow>
      (\<exists>b'. ingest_bytes am c nfc clock p bytes (v, b\<lparr>bd_dirty := dirty_mark now now p h m\<rparr>) = (Ok (), v, b')))"
proof -
  have hit: "fst (dirty_check_and_consume t p h (dirty_mark now now p h m))" if "t - now < TTL" for t
  proof -
    obtain x m' where x: "dirty_check_and_consume t p h (dirty_mark now now p h m) = (x, m')" by fastforce
    have "now \<in># marks (dirty_gc t (dirty_mark now now p h m)) p h"
      using that by (simp add: marks_gc marks_mark)
    with check_result(1) [OF x] x show ?thesis by auto
  qed
  moreover have "\<exists>b'. ingest_bytes am c nfc clock p bytes (v, b\<lparr>bd_dirty := dirty_mark now now p h m\<rparr>) = (Ok (), v, b')"
    if "h = content_hash c bytes" "clock (d_calls (va_disk v)) - now < TTL"
  proof -
    from hit [OF that(2)] obtain m' where
      "dirty_check_and_consume (clock (d_calls (va_disk v))) p h (dirty_mark now now p h m) = (True, m')"
      by (cases "dirty_check_and_consume (clock (d_calls (va_disk v))) p h (dirty_mark now now p h m)") simp
    then show ?thesis
      using that(1) by (simp add: ingest_bytes_def andthen_run the_binding_def check_dirty_def Let_def ret_run)
  qed
  ultimately show ?thesis using suppressed_bound [of p h ss dirty_new] by simp
qed

theorem suppression_exact_witness:
  "fst (dirty_check_and_consume 1200 ''n.md'' ''h'' (dirty_mark 1000 1000 ''n.md'' ''h'' dirty_new))"
  by (rule suppression_exact [THEN conjunct2, THEN conjunct1, rule_format]) (simp add: TTL_def)

section \<open>Debouncing\<close>

text \<open>
  C13. No change is lost between the watcher and the ingestion. Whatever events arrive and whenever
  the loop wakes, its effect is that of handling some of the events, one after the other; for each
  path they are a subsequence of the events that arrived for it, and once the channel has closed
  the last of them is the last that arrived, and nothing is pending.
\<close>

theorem debounced_events:
  assumes "permutes order"
  shows "\<exists>evs. snd (debounced_fs_loop handle order inputs [] s) = fold (\<lambda>ev s. snd (handle ev s)) evs s \<and>
    (closed inputs \<longrightarrow> fst (debounced_fs_loop handle order inputs [] s) = []) \<and>
    (\<forall>p. subseq (of_path p evs) (of_path p (arrivals inputs)) \<and>
       (closed inputs \<and> of_path p (arrivals inputs) \<noteq> [] \<longrightarrow>
          of_path p evs \<noteq> [] \<and> last (of_path p evs) = last (of_path p (arrivals inputs))))"
proof -
  have "waiting_event [] p = []" for p by (simp add: waiting_event_def)
  with handled_of_path [OF assms pending_ok_Nil] debounced_run [OF assms pending_ok_Nil, of handle inputs s]
  show ?thesis by (intro exI [of _ "handled order inputs []"]) fastforce
qed

theorem debounced_events_witness:
  "\<exists>evs. snd (debounced_fs_loop
        (handle_fs_event ref_am example_crypto ascii_nfc no_gitignore (\<lambda>_ _. []) (\<lambda>n. n) (\<lambda>d. d)) (\<lambda>ps. ps)
        [Arrives 0 (Touched [''a'']), Arrives 90 (Touched [''b'']), Wakes 160, Arrives 170 (Removed [''a'']), Closes 200]
        [] (keyring_vault, example_binding)) =
      fold (\<lambda>ev s. snd (handle_fs_event ref_am example_crypto ascii_nfc no_gitignore (\<lambda>_ _. []) (\<lambda>n. n) (\<lambda>d. d) ev s))
        evs (keyring_vault, example_binding) \<and>
    last (of_path [''a''] evs) = Removed [''a'']"
proof -
  let ?in = "[Arrives 0 (Touched [''a'']), Arrives 90 (Touched [''b'']), Wakes 160, Arrives 170 (Removed [''a'']), Closes 200]"
  let ?h = "handle_fs_event ref_am example_crypto ascii_nfc no_gitignore (\<lambda>_ _. []) (\<lambda>n. n) (\<lambda>d. d)"
  have "permutes (\<lambda>ps :: fpath list. ps)" by (simp add: permutes_def)
  from debounced_events [OF this, of ?h ?in "(keyring_vault, example_binding)"] obtain evs where
    f: "snd (debounced_fs_loop ?h (\<lambda>ps. ps) ?in [] (keyring_vault, example_binding)) =
      fold (\<lambda>ev s. snd (?h ev s)) evs (keyring_vault, example_binding)"
    and l: "\<forall>p. closed ?in \<and> of_path p (arrivals ?in) \<noteq> [] \<longrightarrow> last (of_path p evs) = last (of_path p (arrivals ?in))"
    by blast
  from l [rule_format, of "[''a'']"] have "last (of_path [''a''] evs) = Removed [''a'']" by simp
  with f show ?thesis by blast
qed

end
