(* ===== verification/MirrorProperties.thy ===== *)
theory MirrorProperties
  imports Mirror FsProperties
begin

text \<open>
  The main property of the materialize pass: from a directory without local edits it makes the
  directory show the document, and leaves it without local edits.
\<close>

section \<open>Between two passes\<close>

text \<open>
  What a pass finds: no system errors, no obstacles, records that are true, files that are as
  they were written or taken in, and a store whose attachments are what they are named.
\<close>

definition bound_ok :: "crypto \<Rightarrow> view \<Rightarrow> ('d, 'y, 'g) bound \<Rightarrow> bool" where
  "bound_ok c w = (\<lambda>(v, b). quiet (va_disk v) \<and> way_clear b w (va_disk v) \<and> records_ok b w (va_disk v) \<and>
     no_local_edits c (va_storage_path v) b w (va_disk v) \<and> attachments_ok c (va_storage_path v) b w (va_disk v))"

lemma same_targets:
  assumes "attachments_ok c store b w d" "\<forall>q. q \<notin> may_touch b w \<longrightarrow> file_at e q = file_at d q"
  shows "targets c store e w = targets c store d w"
proof -
  have eq: "target_hash c store e n = target_hash c store d n" if "v_files w fid = Some n" "live_path n = Some p" for fid n p
  proof (cases "str_of (branch_of n) ''binary_hash''")
    case None
    then show ?thesis by (simp add: target_hash_def)
  next
    case (Some h)
    have "blob_path store h \<notin> may_touch b w" using assms(1) that Some unfolding attachments_ok_def by blast
    with assms(2) have "file_at e (blob_path store h) = file_at d (blob_path store h)" by blast
    with Some show ?thesis by (simp add: target_hash_def)
  qed
  show ?thesis
  proof (intro equalityI subsetI)
    fix x assume "x \<in> targets c store e w"
    then obtain fid n p where "x = (p, target_hash c store e n)" "v_files w fid = Some n" "live_path n = Some p"
      by (auto simp: targets_def)
    with eq show "x \<in> targets c store d w" by (auto simp: targets_def)
  next
    fix x assume "x \<in> targets c store d w"
    then obtain fid n p where "x = (p, target_hash c store d n)" "v_files w fid = Some n" "live_path n = Some p"
      by (auto simp: targets_def)
    with eq [of fid n p] show "x \<in> targets c store e w" unfolding targets_def by force
  qed
qed

lemma bound_ok_again:
  assumes "bound_ok c w (v, b)" "quiet d" "way_clear b w d" "bd_root b' = bd_root b"
    and "set (bd_materialized_dirs b') \<subseteq> Collect good_path" "fst ` set (bd_materialized b') \<subseteq> {p. has_file w p}"
    and "\<forall>p. has_dir w p \<longrightarrow> d_nodes d (vault_path_to_fs_path b p) = Some DDir"
    and "\<forall>(p, T) \<in> targets c (va_storage_path v) (va_disk v) w. mirrored c b T p (va_disk v) (v\<lparr>va_disk := d\<rparr>, b')"
    and "\<forall>q. q \<notin> may_touch b w \<longrightarrow> file_at d q = file_at (va_disk v) q" "all_placed w"
  shows "bound_ok c w (v\<lparr>va_disk := d\<rparr>, b')"
proof -
  have fs: "vault_path_to_fs_path b' = vault_path_to_fs_path b"
    by (rule ext) (rule same_fs_path [OF assms(4)])
  have old: "no_local_edits c (va_storage_path v) b w (va_disk v)" "attachments_ok c (va_storage_path v) b w (va_disk v)"
    using assms(1) by (simp_all add: bound_ok_def)
  have t: "targets c (va_storage_path v) d w = targets c (va_storage_path v) (va_disk v) w"
    by (rule same_targets [OF old(2) assms(9)])
  have good: "\<forall>p \<in> fst ` set (bd_materialized b') \<union> set (bd_materialized_dirs b'). good_path p"
    using assms(5,6) live_good [OF assms(10)] by blast
  have may_touch: "may_touch b' w \<subseteq> may_touch b w"
    using assms(6) unfolding may_touch_def file_targets_def fs by blast
  have "no_local_edits c (va_storage_path v) b' w d"
    unfolding no_local_edits_def t fs
  proof (intro conjI ballI)
    fix x assume x: "x \<in> targets c (va_storage_path v) (va_disk v) w"
    obtain p T where [simp]: "x = (p, T)" by (cases x)
    have m: "mirrored c b T p (va_disk v) (v\<lparr>va_disk := d\<rparr>, b')" using assms(8) x by auto
    show "case x of (p, T) \<Rightarrow> \<forall>t. T = Some t \<longrightarrow>
        (map_of (bd_materialized b') p = Some t \<longrightarrow> hash_at c d (vault_path_to_fs_path b p) = Some t) \<and>
        (\<forall>h. hash_at c d (vault_path_to_fs_path b p) = Some h \<longrightarrow> h = t \<or> known_hash b' p h)"
      using m by (auto simp: mirrored_def)
  qed (use assms(6) in auto)
  moreover have "attachments_ok c (va_storage_path v) b' w d"
    unfolding attachments_ok_def
  proof (intro allI impI)
    fix fid n h assume n: "v_files w fid = Some n \<and> live_path n \<noteq> None \<and> str_of (branch_of n) ''binary_hash'' = Some h"
    with old(2) have blob: "blob_path (va_storage_path v) h \<notin> may_touch b w"
      "\<forall>bs. file_at (va_disk v) (blob_path (va_storage_path v) h) = Some bs \<longrightarrow> content_hash c bs = h"
      unfolding attachments_ok_def by blast+
    with may_touch assms(9) show "blob_path (va_storage_path v) h \<notin> may_touch b' w \<and>
        (\<forall>bs. file_at d (blob_path (va_storage_path v) h) = Some bs \<longrightarrow> content_hash c bs = h)" by auto
  qed
  moreover have "way_clear b' w d" using assms(3) by (simp add: way_clear_def fs)
  moreover have "records_ok b' w d" using good assms(7) by (simp add: records_ok_def fs)
  ultimately show ?thesis using assms(2) by (simp add: bound_ok_def)
qed

section \<open>The directory shows the document\<close>

text \<open>
  C3. A materialize pass makes the directory show the document. On a sound vault whose paths are
  not in each other's way, from a directory in which every file is as it was written or taken in,
  the pass succeeds for every iteration order: every live directory exists, every live text has
  its content on disk, by its hash, and so has every live attachment that is in the store, and
  each is recorded; files of removed entries are gone; every other file is as before, and so is
  the vault. The directory is then ready for the next pass.
\<close>

theorem materialize_mirrors:
  assumes "automerge_doc am tree oid" "sound tree (va_doc v) w" "permutes order" "permutes meta_order"
    and "tidy w" "bound_ok c w (v, b)"
  shows "\<exists>d b'. materialize am c clock order meta_order (v, b) = (Ok (), v\<lparr>va_disk := d\<rparr>, b') \<and>
    (\<forall>p. has_dir w p \<longrightarrow> d_nodes d (vault_path_to_fs_path b p) = Some DDir) \<and>
    (\<forall>fid n p. v_files w fid = Some n \<and> live_path n = Some p \<longrightarrow>
       (case target_hash c (va_storage_path v) (va_disk v) n of
          Some h \<Rightarrow> map_option (content_hash c) (file_at d (vault_path_to_fs_path b p)) = Some h \<and>
            map_of (bd_materialized b') p = Some h
        | None \<Rightarrow> file_at d (vault_path_to_fs_path b p) = file_at (va_disk v) (vault_path_to_fs_path b p))) \<and>
    (\<forall>p \<in> fst ` set (bd_materialized b). \<not> has_file w p \<longrightarrow> file_at d (vault_path_to_fs_path b p) = None) \<and>
    (\<forall>q. q \<notin> may_touch b w \<longrightarrow> file_at d q = file_at (va_disk v) q) \<and>
    bound_ok c w (v\<lparr>va_disk := d\<rparr>, b')"
proof -
  have h: "quiet (va_disk v)" "way_clear b w (va_disk v)" "records_ok b w (va_disk v)"
    "no_local_edits c (va_storage_path v) b w (va_disk v)" "attachments_ok c (va_storage_path v) b w (va_disk v)"
    using assms(6) by (simp_all add: bound_ok_def)
  have placed: "all_placed w" using soundD(2) [OF assms(2)] by (simp add: vault_ok_def)
  obtain d b' where m: "materialize am c clock order meta_order (v, b) = (Ok (), v\<lparr>va_disk := d\<rparr>, b')"
    "\<forall>p. has_dir w p \<longrightarrow> d_nodes d (vault_path_to_fs_path b p) = Some DDir"
    "\<forall>(p, T) \<in> targets c (va_storage_path v) (va_disk v) w. mirrored c b T p (va_disk v) (v\<lparr>va_disk := d\<rparr>, b')"
    "\<forall>q \<in> stale_files b w. file_at d q = None" "fst ` set (bd_materialized b') \<subseteq> {p. has_file w p}"
    "\<forall>q. q \<notin> may_touch b w \<longrightarrow> file_at d q = file_at (va_disk v) q"
    "quiet d" "way_clear b w d" "bd_root b' = bd_root b" "set (bd_materialized_dirs b') \<subseteq> Collect good_path"
    by (rule automerge_doc.materialize_run [OF assms(1-4) h(1) assms(5) h(2-5), where clock = clock])
  have "case target_hash c (va_storage_path v) (va_disk v) n of
      Some h \<Rightarrow> map_option (content_hash c) (file_at d (vault_path_to_fs_path b p)) = Some h \<and>
        map_of (bd_materialized b') p = Some h
    | None \<Rightarrow> file_at d (vault_path_to_fs_path b p) = file_at (va_disk v) (vault_path_to_fs_path b p)"
    if "v_files w fid = Some n" "live_path n = Some p" for fid n p
  proof -
    have "(p, target_hash c (va_storage_path v) (va_disk v) n) \<in> targets c (va_storage_path v) (va_disk v) w"
      using that by (auto simp: targets_def)
    from bspec [OF m(3) this] show ?thesis by (simp add: mirrored_def split: option.splits)
  qed
  moreover have "\<forall>p \<in> fst ` set (bd_materialized b). \<not> has_file w p \<longrightarrow> file_at d (vault_path_to_fs_path b p) = None"
    using m(4) by (auto simp: stale_files_def)
  moreover have "bound_ok c w (v\<lparr>va_disk := d\<rparr>, b')"
    by (rule bound_ok_again [OF assms(6) m(7-10,5,2,3,6) placed])
  ultimately show ?thesis
    using m(1,2,6) by (intro exI [of _ d] exI [of _ b'] conjI allI impI) blast+
qed

section \<open>An example\<close>

text \<open>The demo document over a directory with one file that has been removed from the document.\<close>

definition demo_vault :: "(ref_doc, unit, unit) vault" where
  "demo_vault = vault_start ''v'' hub1 [] default_config demo stale_disk"

lemma demo_vault_sel [simp]: "va_doc demo_vault = demo" "va_disk demo_vault = stale_disk" "va_storage_path demo_vault = []"
  by (simp_all add: demo_vault_def vault_start_def)

lemma stale_disk_sel:
  "d_nodes stale_disk q = (if q = [''home'', ''n.md''] then Some (DFile [7] 420) else if q = [''home''] then Some DDir else None)"
  "file_at stale_disk q = (if q = [''home'', ''n.md''] then Some [7] else None)" "quiet stale_disk"
  by (auto simp: stale_disk_def blank_disk_def file_at_def quiet_def)

lemma demo_places:
  "vault_path_to_fs_path stale_binding ''a/b.txt'' = [''home'', ''a'', ''b.txt'']"
  "vault_path_to_fs_path stale_binding ''a/c.png'' = [''home'', ''a'', ''c.png'']"
  "vault_path_to_fs_path stale_binding ''a'' = [''home'', ''a'']"
  "vault_path_to_fs_path stale_binding ''n.md'' = [''home'', ''n.md'']"
proof -
  have "resolve [''home''] (split_on (CHR ''/'') ''a/b.txt'') = [''home'', ''a'', ''b.txt'']"
    "resolve [''home''] (split_on (CHR ''/'') ''a/c.png'') = [''home'', ''a'', ''c.png'']"
    "resolve [''home''] (split_on (CHR ''/'') ''a'') = [''home'', ''a'']"
    "resolve [''home''] (split_on (CHR ''/'') ''n.md'') = [''home'', ''n.md'']" by code_simp+
  then show "vault_path_to_fs_path stale_binding ''a/b.txt'' = [''home'', ''a'', ''b.txt'']"
    "vault_path_to_fs_path stale_binding ''a/c.png'' = [''home'', ''a'', ''c.png'']"
    "vault_path_to_fs_path stale_binding ''a'' = [''home'', ''a'']"
    "vault_path_to_fs_path stale_binding ''n.md'' = [''home'', ''n.md'']"
    by (simp_all add: vault_path_to_fs_path_def stale_binding_def example_binding_def)
qed

lemma demo_has_iff: "has_file demo_view p \<longleftrightarrow> p \<in> {''a/b.txt'', ''a/c.png''}" "has_dir demo_view p \<longleftrightarrow> p = ''a''"
  by (auto simp: has_file_def has_dir_def demo_live_files demo_live_dirs)

lemma demo_tidy: "tidy demo_view"
proof -
  have "\<forall>p \<in> {''a/b.txt'', ''a/c.png'', ''a''}. \<forall>seg \<in> set (split_on (CHR ''/'') p). \<not> suffix ''.agentsync-tmp'' seg"
    by code_simp
  then show ?thesis unfolding tidy_def demo_has_iff by auto
qed

lemma stale_way: "y \<noteq> ''n.md'' \<Longrightarrow> file_at stale_disk (take k (''home'' # y # zs)) = None"
  by (cases k; cases "k - 1") (auto simp: stale_disk_sel)

lemma demo_entries:
  obtains x y where "v_files demo_view = [''f'' \<mapsto> x, ''g'' \<mapsto> y]" "live_path x = Some ''a/b.txt''" "live_path y = Some ''a/c.png''"
    "target_hash example_crypto [] stale_disk x = Some (content_hash example_crypto (as_bytes ''hi''))"
    "target_hash example_crypto [] stale_disk y = None" "str_of (branch_of x) ''binary_hash'' = None"
    "str_of (branch_of y) ''binary_hash'' = Some ''h''"
proof (rule that [OF _ demo_file_entries(1) demo_file_entries(1)])
  show "v_files demo_view =
     [''f'' \<mapsto> show_node (JMap [(''meta'', demo_meta ''a/b.txt'' ''text'' 2), (''content'', JText ''hi'')]),
      ''g'' \<mapsto> show_node (JMap [(''meta'', demo_meta ''a/c.png'' ''attachment'' 7), (''binary_hash'', JLeaf (SStr ''h''))])]"
    by (simp add: demo_view_def)
  have "blob_path [] ''h'' = [''blobs'', ''h'']" by code_simp
  then show "target_hash example_crypto [] stale_disk
      (show_node (JMap [(''meta'', demo_meta ''a/c.png'' ''attachment'' 7), (''binary_hash'', JLeaf (SStr ''h''))])) = None"
    by (simp add: target_hash_def str_of_def meta_of_def demo_meta_def stale_disk_sel(2))
qed (simp_all add: target_hash_def str_of_def text_of_def meta_of_def demo_meta_def)

lemma demo_bound_ok: "bound_ok example_crypto demo_view (demo_vault, stale_binding)"
proof -
  obtain x y where e: "v_files demo_view = [''f'' \<mapsto> x, ''g'' \<mapsto> y]" "live_path x = Some ''a/b.txt''" "live_path y = Some ''a/c.png''"
    "target_hash example_crypto [] stale_disk x = Some (content_hash example_crypto (as_bytes ''hi''))"
    "target_hash example_crypto [] stale_disk y = None" "str_of (branch_of x) ''binary_hash'' = None"
    "str_of (branch_of y) ''binary_hash'' = Some ''h''" by (rule demo_entries)
  have targets: "T = None \<or> p = ''a/b.txt''" if "(p, T) \<in> targets example_crypto [] stale_disk demo_view" for p T
    using that e by (auto simp: targets_def split: if_splits)
  have mat: "bd_materialized stale_binding = [(''n.md'', content_hash example_crypto [7])]"
    "bd_materialized_dirs stale_binding = []" by (simp_all add: stale_binding_def example_binding_def)
  have "way_clear stale_binding demo_view stale_disk"
    by (auto simp: way_clear_def demo_places open_way_def dir_way_def stale_way stale_disk_sel(1) agentsync_tmp_def)
  moreover have "good_path ''n.md''" by code_simp
  then have "records_ok stale_binding demo_view stale_disk" by (simp add: records_ok_def mat)
  moreover have "no_local_edits example_crypto [] stale_binding demo_view stale_disk"
    using targets
    by (fastforce simp: no_local_edits_def demo_places stale_disk_sel(2) mat known_hash_def is_safe_to_overwrite_def)
  moreover have "attachments_ok example_crypto [] stale_binding demo_view stale_disk"
  proof -
    have "blob_path [] ''h'' = [''blobs'', ''h'']" by code_simp
    then show ?thesis
      using e by (auto simp: attachments_ok_def may_touch_def file_targets_def demo_places mat stale_disk_sel(2) agentsync_tmp_def
          split: if_splits)
  qed
  ultimately show ?thesis by (simp add: bound_ok_def stale_disk_sel)
qed

theorem materialize_mirrors_witness:
  "\<exists>d b'. materialize ref_am example_crypto id id id (demo_vault, stale_binding) = (Ok (), demo_vault\<lparr>va_disk := d\<rparr>, b') \<and>
     d_nodes d [''home'', ''a''] = Some DDir \<and>
     map_option (content_hash example_crypto) (file_at d [''home'', ''a'', ''b.txt'']) =
       Some (content_hash example_crypto (as_bytes ''hi'')) \<and>
     file_at d [''home'', ''n.md''] = None"
proof -
  obtain x y where e: "v_files demo_view = [''f'' \<mapsto> x, ''g'' \<mapsto> y]" "live_path x = Some ''a/b.txt''" "live_path y = Some ''a/c.png''"
    "target_hash example_crypto [] stale_disk x = Some (content_hash example_crypto (as_bytes ''hi''))"
    "target_hash example_crypto [] stale_disk y = None" "str_of (branch_of x) ''binary_hash'' = None"
    "str_of (branch_of y) ''binary_hash'' = Some ''h''" by (rule demo_entries)
  have sound: "sound ref_tree (va_doc demo_vault) demo_view" by (simp add: demo_sound)
  obtain d b' where m: "materialize ref_am example_crypto id id id (demo_vault, stale_binding) =
      (Ok (), demo_vault\<lparr>va_disk := d\<rparr>, b')"
    "\<forall>p. has_dir demo_view p \<longrightarrow> d_nodes d (vault_path_to_fs_path stale_binding p) = Some DDir"
    "\<forall>fid n p. v_files demo_view fid = Some n \<and> live_path n = Some p \<longrightarrow>
       (case target_hash example_crypto (va_storage_path demo_vault) (va_disk demo_vault) n of
          Some h \<Rightarrow> map_option (content_hash example_crypto) (file_at d (vault_path_to_fs_path stale_binding p)) = Some h \<and>
            map_of (bd_materialized b') p = Some h
        | None \<Rightarrow> file_at d (vault_path_to_fs_path stale_binding p) =
            file_at (va_disk demo_vault) (vault_path_to_fs_path stale_binding p))"
    "\<forall>p \<in> fst ` set (bd_materialized stale_binding). \<not> has_file demo_view p \<longrightarrow>
       file_at d (vault_path_to_fs_path stale_binding p) = None"
    using materialize_mirrors [OF ref.automerge_doc_axioms sound permutes_id permutes_id demo_tidy demo_bound_ok,
        where clock = id] by blast
  have "v_files demo_view ''f'' = Some x" using e(1) by simp
  with m(3) e(2,4) have "map_option (content_hash example_crypto) (file_at d [''home'', ''a'', ''b.txt'']) =
      Some (content_hash example_crypto (as_bytes ''hi''))" by (fastforce simp: demo_places)
  moreover have "file_at d [''home'', ''n.md''] = None"
    using m(4) by (simp add: stale_binding_def demo_places [unfolded stale_binding_def])
  ultimately show ?thesis using m(1,2) by (auto simp: demo_places)
qed

end
