(* ===== verification/CliArgs.thy ===== *)
theory CliArgs
  imports Binding
begin

text \<open>
  The parts of the command line that compute on strings: \<^verbatim>\<open>constants.rs\<close> (rendezvous URLs),
  \<^verbatim>\<open>cli.rs\<close> (argument resolution), \<^verbatim>\<open>commands/restore.rs\<close> (time stamps), \<^verbatim>\<open>commands/watch.rs\<close>
  (environment switches) and the defaults of \<^verbatim>\<open>commands/clone.rs\<close>.
\<close>

section \<open>Rendezvous URLs\<close>

definition DEFAULT_PORT :: nat where "DEFAULT_PORT = 443"
definition DEFAULT_LISTEN_ADDR :: string where "DEFAULT_LISTEN_ADDR = ''0.0.0.0:443''"
definition DEFAULT_LISTEN_ADDR_NO_TLS :: string where "DEFAULT_LISTEN_ADDR_NO_TLS = ''0.0.0.0:80''"

fun scheme_loop :: "nat \<Rightarrow> string \<Rightarrow> bool" where
  "scheme_loop i [] = False"
| "scheme_loop i (c # cs) =
     (if i = 0 then (if \<not> is_ascii_alphabetic c then False else scheme_loop (Suc i) cs)
      else if \<not> (is_ascii_alphabetic c \<or> is_ascii_digit c \<or> c \<in> {CHR ''+'', CHR ''-'', CHR ''.''})
      then starts_with (c # cs) ''://''
      else scheme_loop (Suc i) cs)"

definition has_scheme_prefix :: "string \<Rightarrow> bool" where
  "has_scheme_prefix s = scheme_loop 0 s"

definition normalize_with_scheme :: "string \<Rightarrow> bool \<Rightarrow> string" where
  "normalize_with_scheme url no_tls =
     (let trimmed = trim url in
      if starts_with trimmed ''ws://'' \<or> starts_with trimmed ''wss://'' then trimmed
      else if has_scheme_prefix trimmed then trimmed
      else (if no_tls then ''ws'' else ''wss'') @ ''://'' @ trimmed)"

definition normalize_rendezvous_url :: "string \<Rightarrow> string" where
  "normalize_rendezvous_url url = normalize_with_scheme url False"

text \<open>The specification: a letter, then letters, digits and \<^verbatim>\<open>+-.\<close>, then \<^verbatim>\<open>://\<close>.\<close>

definition scheme_char :: "char \<Rightarrow> bool" where
  "scheme_char c \<longleftrightarrow> is_ascii_alphabetic c \<or> is_ascii_digit c \<or> c \<in> {CHR ''+'', CHR ''-'', CHR ''.''}"

lemma colon_no_scheme_char: "\<not> scheme_char (CHR '':'')"
  by (simp add: scheme_char_def is_ascii_alphabetic_def is_ascii_digit_def byte_of_def)

lemma scheme_loop_spec:
  "0 < i \<Longrightarrow> scheme_loop i s \<longleftrightarrow> (\<exists>p r. s = p @ ''://'' @ r \<and> list_all scheme_char p)"
proof (induction i s rule: scheme_loop.induct)
  case (1 i)
  then show ?case by simp
next
  case (2 i c cs)
  show ?case
  proof (cases "scheme_char c")
    case True
    then have "scheme_loop i (c # cs) \<longleftrightarrow> scheme_loop (Suc i) cs"
      using 2(3) by (auto simp: scheme_char_def)
    also have "\<dots> \<longleftrightarrow> (\<exists>p r. cs = p @ ''://'' @ r \<and> list_all scheme_char p)"
      using 2(2) [OF _ _ zero_less_Suc] 2(3) True [unfolded scheme_char_def] by blast
    also have "\<dots> \<longleftrightarrow> (\<exists>p r. c # cs = p @ ''://'' @ r \<and> list_all scheme_char p)"
    proof
      assume "\<exists>p r. cs = p @ ''://'' @ r \<and> list_all scheme_char p"
      then obtain p r where "c # cs = (c # p) @ ''://'' @ r" "list_all scheme_char (c # p)" using True by auto
      then show "\<exists>p r. c # cs = p @ ''://'' @ r \<and> list_all scheme_char p" by blast
    next
      assume "\<exists>p r. c # cs = p @ ''://'' @ r \<and> list_all scheme_char p"
      then obtain p r where "c # cs = p @ ''://'' @ r" "list_all scheme_char p" by blast
      then show "\<exists>p r. cs = p @ ''://'' @ r \<and> list_all scheme_char p"
        using True colon_no_scheme_char by (cases p) auto
    qed
    finally show ?thesis .
  next
    case False
    then have "scheme_loop i (c # cs) \<longleftrightarrow> starts_with (c # cs) ''://''"
      using 2(3) by (simp add: scheme_char_def)
    also have "\<dots> \<longleftrightarrow> (\<exists>p r. c # cs = p @ ''://'' @ r \<and> list_all scheme_char p)"
    proof
      assume "starts_with (c # cs) ''://''"
      then obtain r where "c # cs = [] @ ''://'' @ r" by (auto simp: starts_with_iff)
      then show "\<exists>p r. c # cs = p @ ''://'' @ r \<and> list_all scheme_char p"
        by (intro exI [of _ "[]"] exI [of _ r]) simp
    next
      assume "\<exists>p r. c # cs = p @ ''://'' @ r \<and> list_all scheme_char p"
      then show "starts_with (c # cs) ''://''"
        using False by (auto simp: starts_with_iff Cons_eq_append_conv)
    qed
    finally show ?thesis .
  qed
qed

lemma has_scheme_spec:
  "has_scheme_prefix s \<longleftrightarrow> (\<exists>c p r. s = (c # p) @ ''://'' @ r \<and> is_ascii_alphabetic c \<and> list_all scheme_char p)"
proof (cases s)
  case Nil
  then show ?thesis by (simp add: has_scheme_prefix_def)
next
  case (Cons c cs)
  then have "has_scheme_prefix s \<longleftrightarrow> is_ascii_alphabetic c \<and> scheme_loop 1 cs" by (simp add: has_scheme_prefix_def)
  also have "\<dots> \<longleftrightarrow> is_ascii_alphabetic c \<and> (\<exists>p r. cs = p @ ''://'' @ r \<and> list_all scheme_char p)"
    by (simp add: scheme_loop_spec)
  finally show ?thesis using Cons by auto
qed

lemma ws_has_scheme:
  "has_scheme_prefix (''ws://'' @ r)" "has_scheme_prefix (''wss://'' @ r)"
proof -
  have w: "is_ascii_alphabetic (CHR ''w'')" "list_all scheme_char ''s''" "list_all scheme_char ''ss''"
    by (simp_all add: is_ascii_alphabetic_def scheme_char_def byte_of_def)
  show "has_scheme_prefix (''ws://'' @ r)" unfolding has_scheme_spec
    by (intro exI [of _ "CHR ''w''"] exI [of _ "''s''"] exI [of _ r]) (use w in simp)
  show "has_scheme_prefix (''wss://'' @ r)" unfolding has_scheme_spec
    by (intro exI [of _ "CHR ''w''"] exI [of _ "''ss''"] exI [of _ r]) (use w in simp)
qed

section \<open>Arguments\<close>

definition KNOWN_SUBCOMMANDS :: "string list" where
  "KNOWN_SUBCOMMANDS = [''init'', ''watch'', ''clone'', ''status'', ''push'', ''pull'', ''restore-at'', ''snapshot'',
     ''diff'', ''compact'', ''key'', ''hub'', ''completions'', ''version'', ''help'']"

fun has_explicit_subcommand :: "string list \<Rightarrow> bool" where
  "has_explicit_subcommand [] = False"
| "has_explicit_subcommand (t # ts) =
     (if t = ''--cwd'' then has_explicit_subcommand (drop 1 ts)
      else if starts_with t ''--cwd='' then has_explicit_subcommand ts
      else if starts_with t ''-'' then has_explicit_subcommand ts
      else t \<in> set KNOWN_SUBCOMMANDS)"

text \<open>\<open>path_exists\<close> is \<^verbatim>\<open>Path::exists\<close> in the current directory.\<close>

definition path_like :: "(string \<Rightarrow> bool) \<Rightarrow> string \<Rightarrow> bool" where
  "path_like path_exists t \<longleftrightarrow>
     \<not> starts_with t ''-'' \<and> t \<notin> set KNOWN_SUBCOMMANDS \<and>
     (starts_with t ''/'' \<or> starts_with t ''.'' \<or> starts_with t ''~'' \<or> path_exists t)"

definition resolve_args :: "(string \<Rightarrow> bool) \<Rightarrow> string list \<Rightarrow> string list" where
  "resolve_args path_exists raw =
     (case raw of
        [] \<Rightarrow> [''watch'']
      | t # ts \<Rightarrow>
          if t \<in> {''--help'', ''-h'', ''--version'', ''-V''} then raw
          else
            (let (head, tail) = (if path_like path_exists t then ([''--cwd'', t], ts) else ([], raw)) in
             if has_explicit_subcommand tail then head @ tail else head @ [''watch''] @ tail))"

section \<open>Time stamps\<close>

definition unit_ms :: "char \<Rightarrow> int option" where
  "unit_ms u =
     (if u = CHR ''s'' then Some 1000
      else if u = CHR ''m'' then Some (60 * 1000)
      else if u = CHR ''h'' then Some (60 * 60 * 1000)
      else if u = CHR ''d'' then Some (24 * 60 * 60 * 1000)
      else if u = CHR ''w'' then Some (7 * 24 * 60 * 60 * 1000)
      else None)"

definition parse_relative_ms :: "string \<Rightarrow> int option" where
  "parse_relative_ms s =
     (if length s < 2 then None
      else
        let num = butlast s; u = last s in
        if \<not> utf8_valid num then None
        else Option.bind (parse_i64 num) (\<lambda>n. Option.bind (unit_ms u) (\<lambda>m. checked_mul_i64 n m)))"

text \<open>The subtraction of two \<^verbatim>\<open>i64\<close> wraps in a release build.\<close>

definition wrap_i64 :: "int \<Rightarrow> int" where
  "wrap_i64 n = (n + 2 ^ 63) mod 2 ^ 64 - 2 ^ 63"

definition bad_timestamp :: "string \<Rightarrow> error" where
  "bad_timestamp s = Other (''unrecognised timestamp '' @ s @
     '': expected epoch ms (e.g. 1700000000000) or a relative offset like 5m / 2h / 1d / 1w'')"

definition parse_timestamp :: "string \<Rightarrow> int \<Rightarrow> int result" where
  "parse_timestamp s now =
     (let s = trim s in
      if s = [] then Err (Other ''empty timestamp'')
      else case parse_i64 s of
        Some n \<Rightarrow> Ok n
      | None \<Rightarrow> (case parse_relative_ms s of
          Some off \<Rightarrow> Ok (wrap_i64 (now - off))
        | None \<Rightarrow> Err (bad_timestamp s)))"

section \<open>Switches and defaults\<close>

text \<open>The value of the variable, None when it is unset or no Unicode.\<close>

definition env_truthy :: "string option \<Rightarrow> bool" where
  "env_truthy var =
     (case var of
        Some v \<Rightarrow> to_ascii_lowercase (trim v) \<in> {''1'', ''true'', ''yes'', ''on''}
      | None \<Rightarrow> False)"

definition LISTEN_DEFAULT_SENTINEL :: string where "LISTEN_DEFAULT_SENTINEL = ''<default>''"

definition listen_address :: "string \<Rightarrow> bool \<Rightarrow> string" where
  "listen_address addr no_tls =
     (if addr = LISTEN_DEFAULT_SENTINEL
      then (if no_tls then DEFAULT_LISTEN_ADDR_NO_TLS else DEFAULT_LISTEN_ADDR)
      else addr)"

definition no_target :: error where
  "no_target = Other (''remote vault has no name and URL host is unavailable; '' @
     ''pass an explicit local directory: agentsync clone <url> <dir>'')"

text \<open>\<open>url_host\<close> is the host of the parsed URL.\<close>

definition default_target_dir :: "string option \<Rightarrow> string option \<Rightarrow> string result" where
  "default_target_dir url_host remote_name =
     (let by_host = (case url_host of
          Some h \<Rightarrow> if h \<noteq> [] then Ok (map (\<lambda>c. if c = CHR ''.'' then CHR ''-'' else c) h)
            else Err no_target
        | None \<Rightarrow> Err no_target) in
      case remote_name of
        Some n \<Rightarrow> if trim n \<noteq> [] then Ok (trim n) else by_host
      | None \<Rightarrow> by_host)"

definition answer_trusts :: "string \<Rightarrow> bool" where
  "answer_trusts line \<longleftrightarrow> to_ascii_lowercase (trim line) \<in> {''y'', ''yes''}"

section \<open>Facts\<close>

lemma subcommand_first: "t \<in> set KNOWN_SUBCOMMANDS \<Longrightarrow> has_explicit_subcommand (t # ts)"
  by (auto simp: KNOWN_SUBCOMMANDS_def starts_with_def)

lemma cwd_dash: "starts_with t ''--cwd='' \<Longrightarrow> starts_with t ''-''"
  by (auto simp: starts_with_iff)

lemma watch_known: "''watch'' \<in> set KNOWN_SUBCOMMANDS"
  by (simp add: KNOWN_SUBCOMMANDS_def)

text \<open>What \<open>resolve_args\<close> hands to the parser names a subcommand, unless it asks for help or the version.\<close>

lemma resolve_args_subcommand:
  "has_explicit_subcommand (resolve_args e raw) \<or>
   (raw \<noteq> [] \<and> hd raw \<in> {''--help'', ''-h'', ''--version'', ''-V''} \<and> resolve_args e raw = raw)"
proof (cases raw)
  case Nil
  then show ?thesis using subcommand_first [OF watch_known]
    by (simp add: resolve_args_def del: has_explicit_subcommand.simps)
next
  case (Cons t ts)
  show ?thesis
  proof (cases "t \<in> {''--help'', ''-h'', ''--version'', ''-V''}")
    case True
    with Cons show ?thesis by (auto simp: resolve_args_def)
  next
    case False
    have "has_explicit_subcommand (''--cwd'' # t # xs) = has_explicit_subcommand xs" for xs by simp
    with False Cons subcommand_first [OF watch_known] show ?thesis
      by (simp add: resolve_args_def Let_def split: prod.split del: has_explicit_subcommand.simps)
  qed
qed

text \<open>Resolving twice is resolving once.\<close>

lemma resolve_args_resolved:
  assumes "has_explicit_subcommand raw" "starts_with (hd raw) ''-'' \<or> hd raw \<in> set KNOWN_SUBCOMMANDS" "raw \<noteq> []"
  shows "resolve_args e raw = raw"
proof -
  obtain t ts where raw: "raw = t # ts" using assms(3) by (cases raw) auto
  with assms(2) have "\<not> path_like e t" by (auto simp: path_like_def)
  with raw assms(1) show ?thesis by (simp add: resolve_args_def del: has_explicit_subcommand.simps)
qed

lemma resolve_args_head:
  "resolve_args e raw \<noteq> []" "starts_with (hd (resolve_args e raw)) ''-'' \<or> hd (resolve_args e raw) \<in> set KNOWN_SUBCOMMANDS"
proof -
  show "resolve_args e raw \<noteq> []"
    by (auto simp: resolve_args_def Let_def split: list.split prod.split if_splits)
  show "starts_with (hd (resolve_args e raw)) ''-'' \<or> hd (resolve_args e raw) \<in> set KNOWN_SUBCOMMANDS"
  proof (cases raw)
    case Nil
    then show ?thesis using watch_known by (simp add: resolve_args_def)
  next
    case (Cons t ts)
    show ?thesis
    proof (cases "path_like e t \<or> \<not> has_explicit_subcommand raw \<or> t \<in> {''--help'', ''-h'', ''--version'', ''-V''}")
      case True
      with Cons watch_known show ?thesis
        by (auto simp: resolve_args_def Let_def starts_with_def simp del: has_explicit_subcommand.simps)
    next
      case False
      then have "resolve_args e raw = raw" using Cons
        by (simp add: resolve_args_def del: has_explicit_subcommand.simps)
      moreover have "starts_with t ''-'' \<or> t \<in> set KNOWN_SUBCOMMANDS"
        using False Cons cwd_dash [of t] by (auto simp: starts_with_iff split: if_splits)
      ultimately show ?thesis using Cons by simp
    qed
  qed
qed

lemma resolve_args_keeps: "subseq raw (resolve_args e raw)"
proof (cases raw)
  case (Cons t ts)
  have "subseq raw (''--cwd'' # raw)" "subseq raw (''watch'' # raw)" "subseq (t # ts) (''--cwd'' # t # ''watch'' # ts)"
    by (simp_all add: list_emb_Cons)
  with Cons show ?thesis
    by (auto simp: resolve_args_def Let_def simp del: has_explicit_subcommand.simps)
qed simp

section \<open>URLs are normalised once\<close>

lemma ws_len_prefix:
  assumes "ws_len (p @ q) = 0"
  shows "ws_len p = 0"
  using assms
  by (cases p rule: ws_len.cases) (auto split: if_splits, (cases q rule: ws_len.cases; auto split: if_splits)+)

lemma trim_idem: "trim (trim s) = trim s"
proof -
  obtain q where q: "trim_start s = trim_end (trim_start s) @ q"
    using trim_end_prefix [of "trim_start s"] by (auto simp: prefix_def)
  have "ws_len (trim_end (trim_start s)) = 0" by (rule ws_len_prefix [where q = q]) (metis q trim_start_clean)
  then show ?thesis by (simp add: trim_def trim_start_id)
qed

lemma ws_end_len_append:
  assumes "ws_end_len y = 0" "\<forall>c \<in> set x. \<not> ws_lead c"
  shows "ws_end_len (x @ y) = 0"
proof -
  have d: "ws_len (drop k (x @ y)) = 0" if "k < length x" for k
  proof -
    have "drop k (x @ y) = (x ! k) # drop (Suc k) x @ y" using that by (simp add: Cons_nth_drop_Suc)
    moreover have "\<not> ws_lead (x ! k)" using assms(2) that by simp
    ultimately show ?thesis using ws_len_lead by simp
  qed
  have "ws_len (drop (length (x @ y) - j) (x @ y)) \<noteq> j" if "0 < j" "j \<le> length (x @ y)" "j \<le> 3" for j
  proof (cases "j \<le> length y")
    case True
    then have "drop (length (x @ y) - j) (x @ y) = drop (length y - j) y" by simp
    moreover have "j = 1 \<or> j = 2 \<or> j = 3" using that by auto
    ultimately show ?thesis using assms(1) True by (auto simp: ws_end_len_def split: if_splits)
  next
    case False
    then have "length (x @ y) - j < length x" using that by simp
    from d [OF this] that show ?thesis by simp
  qed
  from this [of 1] this [of 2] this [of 3] show ?thesis by (simp add: ws_end_len_def)
qed

lemma trim_scheme:
  assumes "sch = ''ws'' \<or> sch = ''wss''"
  shows "trim (sch @ ''://'' @ trim u) = sch @ ''://'' @ trim u"
proof (rule trim_id)
  have l: "\<forall>c \<in> set (sch @ ''://''). \<not> ws_lead c"
    using assms by (auto simp: ws_lead_def ascii_ws_def byte_of_def)
  from assms obtain r where "sch = CHR ''w'' # r" by blast
  with l show "ws_len (sch @ ''://'' @ trim u) = 0" using ws_len_lead [of "CHR ''w''"] by simp
  have "ws_end_len (trim u) = 0" unfolding trim_def by (rule trim_end_clean)
  from ws_end_len_append [OF this l] show "ws_end_len (sch @ ''://'' @ trim u) = 0" by simp
qed

lemma normalize_url_fixed:
  shows "trim (normalize_with_scheme u b) = normalize_with_scheme u b"
    and "has_scheme_prefix (normalize_with_scheme u b)"
    and "normalize_with_scheme (normalize_with_scheme u b) b' = normalize_with_scheme u b"
proof -
  show t: "trim (normalize_with_scheme u b) = normalize_with_scheme u b"
    using trim_scheme by (simp add: normalize_with_scheme_def Let_def trim_idem)
  show h: "has_scheme_prefix (normalize_with_scheme u b)"
    using ws_has_scheme by (auto simp: normalize_with_scheme_def Let_def starts_with_iff)
  show "normalize_with_scheme (normalize_with_scheme u b) b' = normalize_with_scheme u b"
    using t h unfolding normalize_with_scheme_def [of "normalize_with_scheme u b"] by (simp add: Let_def)
qed

end
