(* ===== verification/CliConfig.thy ===== *)
theory CliConfig
  imports CliArgs Vault Examples
begin

text \<open>
  \<^verbatim>\<open>crates/agentsync-cli/src/config.rs\<close> and the commands that work on the configuration alone:
  \<^verbatim>\<open>commands/mod.rs\<close>, \<^verbatim>\<open>hub.rs\<close> and \<^verbatim>\<open>key.rs\<close>. TOML is the parameter \<open>toml\<close>; an
  \<^verbatim>\<open>anyhow\<close> error is its text.
\<close>

section \<open>The configuration file\<close>

record vault_section =
  vs_id :: "string option"
  vs_name :: "string option"
  vs_rendezvous_url :: "string option"
  vs_hub_pubkey :: "string option"

record identity_section =
  is_path :: "string option"
  is_agent_socket :: "string option"
  is_agent_pubkey :: "string option"

record sync_section =
  sy_extensions :: "string list"
  sy_include :: "string list"
  sy_attachment_max_bytes :: nat
  sy_text_file_max_bytes :: nat
  sy_log_retention_days :: nat

record config_file =
  cf_vault :: vault_section
  cf_identity :: identity_section
  cf_sync :: sync_section

definition default_extensions :: "string list" where "default_extensions = [''md'', ''markdown'']"
definition default_attachment_max :: nat where "default_attachment_max = 10 * 1024 * 1024"
definition default_text_max :: nat where "default_text_max = 1 * 1024 * 1024"
definition default_retention :: nat where "default_retention = 30"

definition default_sync :: sync_section where
  "default_sync = \<lparr>sy_extensions = default_extensions, sy_include = [],
     sy_attachment_max_bytes = default_attachment_max, sy_text_file_max_bytes = default_text_max,
     sy_log_retention_days = default_retention\<rparr>"

definition empty_vault_section :: vault_section where
  "empty_vault_section = \<lparr>vs_id = None, vs_name = None, vs_rendezvous_url = None, vs_hub_pubkey = None\<rparr>"

definition empty_identity_section :: identity_section where
  "empty_identity_section = \<lparr>is_path = None, is_agent_socket = None, is_agent_pubkey = None\<rparr>"

definition empty_config :: config_file where
  "empty_config = \<lparr>cf_vault = empty_vault_section, cf_identity = empty_identity_section, cf_sync = default_sync\<rparr>"

record toml =
  tm_print :: "config_file \<Rightarrow> string result"
  tm_parse :: "string \<Rightarrow> config_file option"

locale toml_format =
  fixes tm :: toml
  assumes parse_print: "tm_print tm cfg = Ok s \<Longrightarrow> tm_parse tm s = Some cfg"
    and print_utf8: "tm_print tm cfg = Ok s \<Longrightarrow> utf8_valid s"
    and print_total: "\<exists>s. tm_print tm cfg = Ok s"

definition to_bind_options :: "sync_section \<Rightarrow> bind_options" where
  "to_bind_options s =
     (let ext = (\<lambda>e. to_ascii_lowercase (trim_start_char (CHR ''.'') e));
          inc = map (\<lambda>e. ''**/*.'' @ ext e) (sy_extensions s) in
      \<lparr>bo_include_patterns = foldl (\<lambda>inc extra. if extra \<in> set inc then inc else inc @ [extra]) inc (sy_include s),
       bo_text_extensions = map ext (sy_extensions s),
       bo_attachment_max_bytes = sy_attachment_max_bytes s,
       bo_text_file_max_bytes = sy_text_file_max_bytes s\<rparr>)"

definition state_dir :: "fpath \<Rightarrow> fpath" where
  "state_dir vault_root = vault_root @ [''.agentsync'']"

definition config_path :: "fpath \<Rightarrow> fpath" where
  "config_path vault_root = state_dir vault_root @ [''config.toml'']"

text \<open>\<^verbatim>\<open>with_context\<close> puts a text in front of the error.\<close>

definition context_err :: "string \<Rightarrow> error \<Rightarrow> error" where
  "context_err msg e = Other (msg @ '': '' @ show_error e)"

definition read_or_default :: "toml \<Rightarrow> fpath \<Rightarrow> (disk, config_file) action" where
  "read_or_default tm vault_root =
     (let path = config_path vault_root in
      andthen (fs_exists path) (\<lambda>present.
      if \<not> present then ret empty_config
      else
        andthen (map_err (context_err (''read '' @ show_path path)) (fs_read path)) (\<lambda>bytes.
        andthen (lift (ok_or (Other ''config.toml not valid utf-8'') (from_utf8 bytes))) (\<lambda>s.
        lift (ok_or (Other (''parse '' @ show_path path)) (tm_parse tm s))))))"

definition write_config :: "toml \<Rightarrow> fpath \<Rightarrow> config_file \<Rightarrow> (disk, unit) action" where
  "write_config tm vault_root cfg =
     andthen (fs_create_dir_all (state_dir vault_root)) (\<lambda>_.
     andthen (lift (tm_print tm cfg)) (\<lambda>s.
     fs_write (config_path vault_root) (as_bytes s)))"

section \<open>Identities\<close>

text \<open>The environment: the home directory, which is a path from the root, and the agent socket.\<close>

record shell_env =
  en_home :: "string option"
  en_userprofile :: "string option"
  en_ssh_auth_sock :: "string option"
  en_cwd :: fpath

definition user_identity_default :: "shell_env \<Rightarrow> fpath" where
  "user_identity_default env =
     (case (case en_home env of Some h \<Rightarrow> Some h | None \<Rightarrow> en_userprofile env) of
        Some h \<Rightarrow> path_join (en_cwd env) h
      | None \<Rightarrow> en_cwd env) @ [''.agentsync'', ''id_ed25519'']"

definition identity_path :: "shell_env \<Rightarrow> fpath \<Rightarrow> config_file \<Rightarrow> fpath" where
  "identity_path env vault_root cfg =
     (case is_path (cf_identity cfg) of
        Some rel \<Rightarrow> path_join vault_root rel
      | None \<Rightarrow> user_identity_default env)"

definition resolve_agent_socket :: "shell_env \<Rightarrow> config_file \<Rightarrow> fpath result" where
  "resolve_agent_socket env cfg =
     (case is_agent_socket (cf_identity cfg) of
        Some s \<Rightarrow> Ok (path_join (en_cwd env) s)
      | None \<Rightarrow> (case en_ssh_auth_sock env of
          Some s \<Rightarrow> Ok (path_join (en_cwd env) s)
        | None \<Rightarrow> Err (Other (''agent identity selected but no [identity] agent_socket and '' @
                     ''$SSH_AUTH_SOCK is unset''))))"

definition no_identity :: "fpath \<Rightarrow> error" where
  "no_identity path = Other (''identity file not found at '' @ show_path path @
     ''. Run `agentsync key generate` to create one, then add the printed pubkey '' @
     ''to authorized_keys before connecting.'')"

definition resolve_identity :: "crypto \<Rightarrow> shell_env \<Rightarrow> fpath \<Rightarrow> config_file \<Rightarrow> (disk, identity) action" where
  "resolve_identity c env vault_root cfg =
     (case is_agent_pubkey (cf_identity cfg) of
        Some agent_pubkey \<Rightarrow>
          andthen (lift (from_ssh_string c agent_pubkey)) (\<lambda>agent_pk.
          andthen (lift (resolve_agent_socket env cfg)) (\<lambda>socket.
          ret (identity_from_agent socket agent_pk)))
      | None \<Rightarrow>
          (let path = identity_path env vault_root cfg in
           andthen (fs_exists path) (\<lambda>present.
           if \<not> present then fail (no_identity path) else load_from_file c path)))"

definition resolve_hub_pubkey :: "crypto \<Rightarrow> config_file \<Rightarrow> pubkey option result" where
  "resolve_hub_pubkey c cfg =
     (case vs_hub_pubkey (cf_vault cfg) of
        None \<Rightarrow> Ok None
      | Some s \<Rightarrow> bind_result (from_ssh_string c s) (\<lambda>pk. Ok (Some pk)))"

section \<open>The commands on the configuration\<close>

definition require_config :: "toml \<Rightarrow> fpath \<Rightarrow> (disk, config_file) action" where
  "require_config tm path =
     andthen (read_or_default tm path) (\<lambda>cfg.
     if vs_id (cf_vault cfg) = None
     then fail (Other (''no vault configured at '' @ show_path path @
            '' - run `agentsync init` or `agentsync clone` first''))
     else ret cfg)"

datatype hub_op = Trust string | Forget | ShowHub

text \<open>The line that is printed is the result.\<close>

definition set_hub_pubkey :: "string option \<Rightarrow> config_file \<Rightarrow> config_file" where
  "set_hub_pubkey v cfg = cfg\<lparr>cf_vault := (cf_vault cfg)\<lparr>vs_hub_pubkey := v\<rparr>\<rparr>"

definition pinned_line :: "crypto \<Rightarrow> pubkey \<Rightarrow> string" where
  "pinned_line c pk = to_ssh_string c pk @ '' ('' @ fingerprint_sha256 c pk @ '')''"

definition run_hub :: "toml \<Rightarrow> crypto \<Rightarrow> fpath \<Rightarrow> hub_op \<Rightarrow> (disk, string) action" where
  "run_hub tm c path op =
     (case op of
        Trust s \<Rightarrow>
          andthen (lift (from_ssh_string c s)) (\<lambda>pk.
          andthen (read_or_default tm path) (\<lambda>cfg.
          andthen (write_config tm path (set_hub_pubkey (Some (to_ssh_string c pk)) cfg)) (\<lambda>_.
          ret (''pinned hub identity '' @ pinned_line c pk))))
      | Forget \<Rightarrow>
          andthen (read_or_default tm path) (\<lambda>cfg.
          andthen (write_config tm path (set_hub_pubkey None cfg)) (\<lambda>_.
          ret ''hub_pubkey cleared''))
      | ShowHub \<Rightarrow>
          andthen (read_or_default tm path) (\<lambda>cfg.
          ret (case vs_hub_pubkey (cf_vault cfg) of
              Some s \<Rightarrow> (case from_ssh_string c s of Inr pk \<Rightarrow> pinned_line c pk | Inl _ \<Rightarrow> s)
            | None \<Rightarrow> ''(no hub_pubkey pinned)'')))"

text \<open>\<open>fresh\<close> is what \<^verbatim>\<open>Identity::generate\<close> returns.\<close>

datatype key_op = Generate "string option" | ShowKey

definition set_identity_path :: "string option \<Rightarrow> config_file \<Rightarrow> config_file" where
  "set_identity_path p cfg =
     (case p of Some x \<Rightarrow> cfg\<lparr>cf_identity := (cf_identity cfg)\<lparr>is_path := Some x\<rparr>\<rparr> | None \<Rightarrow> cfg)"

definition run_key :: "toml \<Rightarrow> crypto \<Rightarrow> shell_env \<Rightarrow> identity \<Rightarrow> fpath \<Rightarrow> key_op \<Rightarrow> (disk, string) action" where
  "run_key tm c env fresh path op =
     (case op of
        Generate identity \<Rightarrow>
          andthen (read_or_default tm path) (\<lambda>cfg0.
          let cfg = set_identity_path (map_option to_string_lossy identity) cfg0;
              id_path = identity_path env path cfg in
          andthen (fs_exists id_path) (\<lambda>present.
          if present
          then fail (Other (''identity file already exists at '' @ show_path id_path @ ''; refusing to overwrite''))
          else
            andthen (save_to_file c fresh id_path) (\<lambda>_.
            andthen (if is_path (cf_identity cfg) \<noteq> None
                     then andthen (attempt (write_config tm path cfg)) (\<lambda>_. ret ()) else ret ()) (\<lambda>_.
            ret (to_ssh_string c (identity_pubkey fresh))))))
      | ShowKey \<Rightarrow>
          andthen (attempt (read_or_default tm path)) (\<lambda>r.
          let cfg = (case r of Inr cfg \<Rightarrow> cfg | Inl _ \<Rightarrow> empty_config) in
          case is_agent_pubkey (cf_identity cfg) of
            Some s \<Rightarrow> ret (trim s)
          | None \<Rightarrow>
              (let id_path = identity_path env path cfg in
               andthen (map_err (context_err (''load identity from '' @ show_path id_path)) (load_from_file c id_path))
                 (\<lambda>i. ret (to_ssh_string c (identity_pubkey i))))))"

section \<open>Facts\<close>

text \<open>Without extra patterns the options are those of \<^verbatim>\<open>BindOptions::for_extensions\<close>, but for the limits.\<close>

lemma to_bind_options_extensions:
  "sy_include s = [] \<Longrightarrow>
   to_bind_options s = (for_extensions (sy_extensions s))
     \<lparr>bo_attachment_max_bytes := sy_attachment_max_bytes s, bo_text_file_max_bytes := sy_text_file_max_bytes s\<rparr>"
  by (simp add: to_bind_options_def for_extensions_def Let_def comp_def)

lemma default_options: "to_bind_options default_sync = markdown_only"
  by (simp add: to_bind_options_extensions default_sync_def markdown_only_def default_extensions_def
      default_attachment_max_def default_text_max_def for_extensions_def Let_def)

lemma config_parent [simp]: "butlast (config_path p) = state_dir p" "config_path p \<noteq> []"
  by (simp_all add: config_path_def)

context toml_format
begin

text \<open>A configuration that was written is read back, whatever was there before.\<close>

lemma config_round_trip:
  assumes "write_config tm root cfg d = (Ok (), e)" "\<not> faulty e" "\<not> d_fault e (Suc (d_calls e))"
  shows "fst (read_or_default tm root e) = Ok cfg"
proof -
  obtain s d1 where s: "tm_print tm cfg = Ok s" "fs_write (config_path root) (as_bytes s) d1 = (Ok (), e)"
    using assms(1) by (auto simp: write_config_def andthen_eq_Inr lift_run)
  from write_Ok [OF s(2)] have f: "file_at e (config_path root) = Some (as_bytes s)" .
  then obtain m where n: "d_nodes e (config_path root) = Some (DFile (as_bytes s) m)"
    by (auto simp: file_at_def split: option.splits file_node.splits)
  have "from_utf8 (as_bytes s) = Some s" using print_utf8 [OF s(1)] by (simp add: from_utf8_def)
  with n assms(2,3) parse_print [OF s(1)] show ?thesis
    by (simp add: read_or_default_def Let_def andthen_run fs_exists_def map_err_def fs_read_def lift_run)
qed

text \<open>Pinning: what \<open>hub trust\<close> stores is the key a later connection demands.\<close>

lemma trust_then_resolve:
  assumes "base64_codec c" "length pk = 32" "run_hub tm c root (Trust (to_ssh_string c pk)) d = (Ok out, e)"
    and "\<not> faulty e" "\<not> d_fault e (Suc (d_calls e))"
  obtains cfg where "fst (read_or_default tm root e) = Ok cfg" "resolve_hub_pubkey c cfg = Ok (Some pk)"
proof -
  have pk: "from_ssh_string c (to_ssh_string c pk) = Ok pk"
    by (rule base64_codec.from_to_ssh_string [OF assms(1,2)])
  from assms(3) obtain cfg d1 where w: "write_config tm root (set_hub_pubkey (Some (to_ssh_string c pk)) cfg) d1 = (Ok (), e)"
    by (auto simp: run_hub_def andthen_eq_Inr lift_run ret_run pk)
  show thesis
    by (rule that [OF config_round_trip [OF w assms(4,5)]])
      (simp add: resolve_hub_pubkey_def set_hub_pubkey_def pk)
qed

lemma forget_then_resolve:
  assumes "run_hub tm c root Forget d = (Ok out, e)" "\<not> faulty e" "\<not> d_fault e (Suc (d_calls e))"
  obtains cfg where "fst (read_or_default tm root e) = Ok cfg" "resolve_hub_pubkey c cfg = Ok None"
proof -
  from assms(1) obtain cfg d1 where w: "write_config tm root (set_hub_pubkey None cfg) d1 = (Ok (), e)"
    by (auto simp: run_hub_def andthen_eq_Inr ret_run)
  show thesis
    by (rule that [OF config_round_trip [OF w assms(2,3)]])
      (simp add: resolve_hub_pubkey_def set_hub_pubkey_def)
qed

end

text \<open>An identity file that exists is never replaced.\<close>

lemma generate_refuses:
  assumes "run_key tm c env fresh root (Generate p) d = (r, e)" "file_at d f = Some bs" "\<And>n. \<not> d_fault d n"
    and "f = identity_path env root (set_identity_path (map_option to_string_lossy p) cfg)"
    and "fst (read_or_default tm root d) = Ok cfg"
  shows "\<not> is_ok r \<and> file_at e = file_at d"
proof -
  obtain d1 where d1: "read_or_default tm root d = (Ok cfg, d1)" using assms(5) by (metis prod.collapse)
  have keep: "read_or_default tm root x = (r', y) \<Longrightarrow> d_nodes y = d_nodes x \<and> d_fault y = d_fault x" for x r' y
    by (auto simp: read_or_default_def Let_def andthen_run fs_exists_def fs_read_def map_err_def ret_run lift_run
        tick_def split: prod.splits sum.splits if_splits option.splits file_node.splits)
  from keep [OF d1] assms(2,3) obtain m where "d_nodes d1 f = Some (DFile bs m)" "\<not> faulty d1"
    by (auto simp: file_at_def split: option.splits file_node.splits)
  then have ex: "fs_exists f d1 = (Ok True, tick d1)" by (simp add: fs_exists_def)
  with assms(1) d1 assms(4) have "r = Err (Other (''identity file already exists at '' @ show_path f @ ''; refusing to overwrite''))"
    "e = tick d1" by (simp_all add: run_key_def andthen_run Let_def fail_run)
  with keep [OF d1] show ?thesis by (simp add: file_at_def fun_eq_iff)
qed

section \<open>A concrete format\<close>

text \<open>Two letters per byte, over the self-delimiting encodings of \<open>Examples\<close>.\<close>

definition letters :: "byte list \<Rightarrow> string" where
  "letters bs = concat (map (\<lambda>b. [char_of (65 + unat b div 16), char_of (65 + unat b mod 16)]) bs)"

fun unletters :: "string \<Rightarrow> byte list" where
  "unletters (a # b # s) = of_nat ((byte_of a - 65) * 16 + (byte_of b - 65)) # unletters s"
| "unletters _ = []"

lemma letter_val: "n < 16 \<Longrightarrow> byte_of (char_of (65 + n)) = 65 + n"
  unfolding byte_of_def by (simp only: of_char_of) simp

lemma letters_Cons:
  "letters (b # bs) = char_of (65 + unat b div 16) # char_of (65 + unat b mod 16) # letters bs"
  by (simp add: letters_def)

lemma byte_digits: "unat (b :: byte) div 16 < 16" "unat b mod 16 < 16"
  using unat_byte [of b] by auto

lemma unletters_letters [simp]: "unletters (letters bs) = bs"
proof (induction bs)
  case Nil
  then show ?case by (simp add: letters_def)
next
  case (Cons b bs)
  have "unletters (letters (b # bs)) = of_nat (unat b div 16 * 16 + unat b mod 16) # unletters (letters bs)"
    by (simp only: letters_Cons unletters.simps letter_val [OF byte_digits(1)] letter_val [OF byte_digits(2)]
        add_diff_cancel_left')
  also have "unat b div 16 * 16 + unat b mod 16 = unat b" by (rule div_mult_mod_eq)
  finally show ?case using Cons by simp
qed

lemma letters_ascii: "utf8_valid (letters bs)"
proof (rule utf8_valid_ascii, induction bs)
  case (Cons b bs)
  have "65 + unat b div 16 < 128" "65 + unat b mod 16 < 128" using byte_digits [of b] by linarith+
  with Cons show ?case
    by (simp only: letters_Cons list.set insert_iff ball_simps letter_val [OF byte_digits(1)] letter_val [OF byte_digits(2)] simp_thms)
qed (simp add: letters_def)

definition quote_opt :: "string option \<Rightarrow> byte list" where
  "quote_opt x = (case x of None \<Rightarrow> [0] | Some s \<Rightarrow> 1 # quote_str s)"

fun unquote_opt :: "byte list \<Rightarrow> (string option \<times> byte list) option" where
  "unquote_opt [] = None"
| "unquote_opt (t # r) = (if t = 0 then Some (None, r) else map_option (map_prod Some id) (unquote_str r))"

lemma unquote_quote_opt [simp]: "unquote_opt (quote_opt x @ r) = Some (x, r)"
  by (cases x) (simp_all add: quote_opt_def)

definition quote_strs :: "string list \<Rightarrow> byte list" where
  "quote_strs xs = quote_nat (length xs) @ concat (map quote_str xs)"

fun unquote_n :: "nat \<Rightarrow> byte list \<Rightarrow> (string list \<times> byte list) option" where
  "unquote_n 0 r = Some ([], r)"
| "unquote_n (Suc n) r = Option.bind (unquote_str r) (\<lambda>(s, r). map_option (map_prod ((#) s) id) (unquote_n n r))"

lemma unquote_quote_n [simp]: "unquote_n (length xs) (concat (map quote_str xs) @ r) = Some (xs, r)"
  by (induction xs) simp_all

definition unquote_nat :: "byte list \<Rightarrow> (nat \<times> byte list) option" where
  "unquote_nat bs = map_option (map_prod length id) (unquote bs)"

lemma unquote_quote_nat [simp]: "unquote_nat (quote_nat n @ r) = Some (n, r)"
  by (simp add: unquote_nat_def quote_nat_def)

definition unquote_strs :: "byte list \<Rightarrow> (string list \<times> byte list) option" where
  "unquote_strs bs = Option.bind (unquote_nat bs) (\<lambda>(n, r). unquote_n n r)"

lemma unquote_quote_strs [simp]: "unquote_strs (quote_strs xs @ r) = Some (xs, r)"
  by (simp add: unquote_strs_def quote_strs_def)

definition quote_config :: "config_file \<Rightarrow> byte list" where
  "quote_config f =
     (let v = cf_vault f; i = cf_identity f; s = cf_sync f in
      quote_opt (vs_id v) @ quote_opt (vs_name v) @ quote_opt (vs_rendezvous_url v) @ quote_opt (vs_hub_pubkey v) @
      quote_opt (is_path i) @ quote_opt (is_agent_socket i) @ quote_opt (is_agent_pubkey i) @
      quote_strs (sy_extensions s) @ quote_strs (sy_include s) @ quote_nat (sy_attachment_max_bytes s) @
      quote_nat (sy_text_file_max_bytes s) @ quote_nat (sy_log_retention_days s) @ [])"

definition unquote_config :: "byte list \<Rightarrow> config_file option" where
  "unquote_config b =
     Option.bind (unquote_opt b) (\<lambda>(v1, b). Option.bind (unquote_opt b) (\<lambda>(v2, b).
     Option.bind (unquote_opt b) (\<lambda>(v3, b). Option.bind (unquote_opt b) (\<lambda>(v4, b).
     Option.bind (unquote_opt b) (\<lambda>(i1, b). Option.bind (unquote_opt b) (\<lambda>(i2, b).
     Option.bind (unquote_opt b) (\<lambda>(i3, b). Option.bind (unquote_strs b) (\<lambda>(s1, b).
     Option.bind (unquote_strs b) (\<lambda>(s2, b). Option.bind (unquote_nat b) (\<lambda>(s3, b).
     Option.bind (unquote_nat b) (\<lambda>(s4, b). map_option (\<lambda>(s5, _).
       \<lparr>cf_vault = \<lparr>vs_id = v1, vs_name = v2, vs_rendezvous_url = v3, vs_hub_pubkey = v4\<rparr>,
        cf_identity = \<lparr>is_path = i1, is_agent_socket = i2, is_agent_pubkey = i3\<rparr>,
        cf_sync = \<lparr>sy_extensions = s1, sy_include = s2, sy_attachment_max_bytes = s3,
                   sy_text_file_max_bytes = s4, sy_log_retention_days = s5\<rparr>\<rparr>) (unquote_nat b))))))))))))"

definition example_toml :: toml where
  "example_toml = \<lparr>tm_print = (\<lambda>f. Ok (letters (quote_config f))), tm_parse = (\<lambda>s. unquote_config (unletters s))\<rparr>"

lemma unquote_quote_config: "unquote_config (quote_config f) = Some f"
  using unquote_quote_nat [of "sy_log_retention_days (cf_sync f)" "[]"]
  unfolding unquote_config_def quote_config_def Let_def by simp

interpretation example_toml: toml_format example_toml
  by unfold_locales (auto simp: example_toml_def unquote_quote_config letters_ascii)

end
