(* ===== verification/CliCommands.thy ===== *)
theory CliCommands
  imports CliConfig VaultNet
begin

text \<open>
  The commands of \<^verbatim>\<open>crates/agentsync-cli/src/commands\<close> that open, create or clone a vault. A
  command is an action on the disk; what it prints is its result where a program reads it, and
  left out otherwise. The working directory is already canonical.
\<close>

section \<open>Opening the configured vault\<close>

definition in_vault :: "(('d, 'y, 'g) vault, 'a) action \<Rightarrow> ('d, 'y, 'g) vault \<Rightarrow> (disk, 'a) action" where
  "in_vault m v d = (case m (v\<lparr>va_disk := d\<rparr>) of (r, v') \<Rightarrow> (r, va_disk v'))"

definition configured_options :: "fpath \<Rightarrow> config_file \<Rightarrow> identity \<Rightarrow> pubkey option \<Rightarrow> string option \<Rightarrow> open_options" where
  "configured_options path cfg identity hub rendezvous =
     \<lparr>oo_rendezvous_url = rendezvous, oo_vault_id = the (vs_id (cf_vault cfg)), oo_identity = identity,
      oo_storage_path = state_dir path, oo_hub_pubkey = hub, oo_name = vs_name (cf_vault cfg)\<rparr>"

definition open_configured ::
    "('d, 'o, 'y) automerge \<Rightarrow> crypto \<Rightarrow> host \<Rightarrow> toml \<Rightarrow> shell_env \<Rightarrow> fpath \<Rightarrow>
     (disk, config_file \<times> ('d, 'y, 'g) vault) action" where
  "open_configured am c h tm env path =
     andthen (require_config tm path) (\<lambda>cfg.
     andthen (resolve_identity c env path cfg) (\<lambda>identity.
     andthen (lift (resolve_hub_pubkey c cfg)) (\<lambda>hub.
     andthen (vault_open am c h (configured_options path cfg identity hub (vs_rendezvous_url (cf_vault cfg)))) (\<lambda>v.
     ret (cfg, v)))))"

definition run_compact ::
    "('d, 'o, 'y) automerge \<Rightarrow> crypto \<Rightarrow> host \<Rightarrow> toml \<Rightarrow> shell_env \<Rightarrow> fpath \<Rightarrow> 'y \<Rightarrow> 'g \<Rightarrow> (disk, unit) action" where
  "run_compact am c h tm env path y g =
     andthen (open_configured am c h tm env path) (\<lambda>(cfg, v :: ('d, 'y, 'g) vault). in_vault (vault_flush am) v)"

text \<open>\<^verbatim>\<open>status\<close> and \<^verbatim>\<open>diff\<close> print the number of files.\<close>

definition run_status ::
    "('d, 'o, 'y) automerge \<Rightarrow> crypto \<Rightarrow> host \<Rightarrow> toml \<Rightarrow> shell_env \<Rightarrow> fpath \<Rightarrow> 'g \<Rightarrow>
     (disk, string \<times> string \<times> string \<times> nat) action" where
  "run_status am c h tm env path g =
     andthen (open_configured am c h tm env path) (\<lambda>(cfg, v :: ('d, 'y, 'g) vault).
     andthen (in_vault (vault_list_files am) v) (\<lambda>files.
     ret (the (vs_id (cf_vault cfg)), unwrap_or ''(unnamed)'' (vs_name (cf_vault cfg)),
          unwrap_or ''(none)'' (vs_rendezvous_url (cf_vault cfg)), length files)))"

definition run_diff ::
    "('d, 'o, 'y) automerge \<Rightarrow> crypto \<Rightarrow> host \<Rightarrow> toml \<Rightarrow> shell_env \<Rightarrow> fpath \<Rightarrow> 'g \<Rightarrow> (disk, nat) action" where
  "run_diff am c h tm env path g =
     andthen (open_configured am c h tm env path) (\<lambda>(cfg, v :: ('d, 'y, 'g) vault).
     andthen (in_vault (vault_list_files am) v) (\<lambda>files. ret (length files)))"

text \<open>
  What \<^verbatim>\<open>bind_directory\<close> and the passes over the bound directory take from outside, together:
  the ignore patterns, the directory walk, the clock, the iteration orders and the watcher.
\<close>

record 'g bind_env =
  be_gitignore :: "'g gitignore"
  be_walk :: walk
  be_clock :: "nat \<Rightarrow> nat"
  be_settle :: "disk \<Rightarrow> disk"
  be_head_order :: "byte list list \<Rightarrow> byte list list"
  be_order :: "string list \<Rightarrow> string list"
  be_dir_order :: "string list \<Rightarrow> string list"
  be_meta_order :: "(string \<times> file_meta) list \<Rightarrow> (string \<times> file_meta) list"
  be_watch :: "unit result"

definition bind_here ::
    "('d, 'o, 'y) automerge \<Rightarrow> crypto \<Rightarrow> (string \<Rightarrow> string) \<Rightarrow> 'g bind_env \<Rightarrow> fpath \<Rightarrow> config_file \<Rightarrow>
     (('d, 'y, 'g) vault, unit) action" where
  "bind_here am c nfc be path cfg =
     bind_directory am c nfc (be_gitignore be) (be_walk be) (be_clock be) (be_settle be) (be_order be)
       (be_meta_order be) (be_watch be) path (to_bind_options (cf_sync cfg))"

datatype snapshot_op = CreateSnapshot string | ListSnapshots | RestoreSnapshot string | DeleteSnapshot string

definition run_snapshot ::
    "('d, 'o, 'y) automerge \<Rightarrow> crypto \<Rightarrow> (string \<Rightarrow> string) \<Rightarrow> host \<Rightarrow> index_json \<Rightarrow> toml \<Rightarrow> shell_env \<Rightarrow> 'g bind_env \<Rightarrow>
     fpath \<Rightarrow> snapshot_op \<Rightarrow> (disk, label list) action" where
  "run_snapshot am c nfc h js tm env be path op =
     andthen (open_configured am c h tm env path) (\<lambda>(cfg, v :: ('d, 'y, 'g) vault).
     case op of
       CreateSnapshot label \<Rightarrow>
         in_vault (andthen (vault_create_label am c js label) (\<lambda>_. andthen (vault_flush am) (\<lambda>_. ret []))) v
     | ListSnapshots \<Rightarrow> in_vault (vault_list_labels am) v
     | RestoreSnapshot label \<Rightarrow>
         in_vault (andthen (bind_here am c nfc be path cfg) (\<lambda>_.
           andthen (vault_restore_label am c (be_clock be) (be_order be) (be_dir_order be) (be_meta_order be) label) (\<lambda>_.
           andthen (vault_flush am) (\<lambda>_. ret [])))) v
     | DeleteSnapshot label \<Rightarrow>
         in_vault (andthen (vault_delete_label am c js label) (\<lambda>_. andthen (vault_flush am) (\<lambda>_. ret []))) v)"

definition run_restore_at ::
    "('d, 'o, 'y) automerge \<Rightarrow> crypto \<Rightarrow> (string \<Rightarrow> string) \<Rightarrow> host \<Rightarrow> toml \<Rightarrow> shell_env \<Rightarrow> 'g bind_env \<Rightarrow> int \<Rightarrow>
     fpath \<Rightarrow> string \<Rightarrow> (disk, int) action" where
  "run_restore_at am c nfc h tm env be now path timestamp =
     andthen (require_config tm path) (\<lambda>cfg.
     andthen (resolve_identity c env path cfg) (\<lambda>identity.
     andthen (lift (parse_timestamp timestamp now)) (\<lambda>target_ms.
     andthen (lift (resolve_hub_pubkey c cfg)) (\<lambda>hub.
     andthen (vault_open am c h (configured_options path cfg identity hub (vs_rendezvous_url (cf_vault cfg))))
       (\<lambda>v :: ('d, 'y, 'g) vault.
     in_vault
       (andthen (bind_here am c nfc be path cfg) (\<lambda>_.
        andthen (vault_restore_to_time am (be_head_order be) (be_order be) (be_dir_order be) target_ms) (\<lambda>_.
        andthen (vault_materialize am c (be_clock be) (be_order be) (be_meta_order be)) (\<lambda>_.
        andthen (vault_flush am) (\<lambda>_. ret target_ms))))) v)))))"

text \<open>\<open>drain\<close> is what the sessions do to the vault in the second after the connection.\<close>

definition connect_failed :: "error \<Rightarrow> error" where
  "connect_failed e = Other (''connect: '' @ show_error e)"

definition run_push ::
    "('d, 'o, 'y) automerge \<Rightarrow> crypto \<Rightarrow> (string \<Rightarrow> string) \<Rightarrow> host \<Rightarrow> toml \<Rightarrow> shell_env \<Rightarrow> 'g bind_env \<Rightarrow>
     ('d, 'y, 'g) dialer \<Rightarrow> (('d, 'y, 'g) vault \<Rightarrow> ('d, 'y, 'g) vault) \<Rightarrow> fpath \<Rightarrow> (disk, unit) action" where
  "run_push am c nfc h tm env be dial drain path =
     andthen (open_configured am c h tm env path) (\<lambda>(cfg, v).
     in_vault
       (andthen (bind_here am c nfc be path cfg) (\<lambda>_.
        andthen (if vs_rendezvous_url (cf_vault cfg) \<noteq> None
                 then andthen (map_err connect_failed (vault_connect dial)) (\<lambda>_ s. (Ok (), drain s))
                 else ret ()) (\<lambda>_.
        vault_flush am))) v)"

definition run_pull where
  "run_pull am c nfc h tm env be dial drain path = run_push am c nfc h tm env be dial drain path"

section \<open>Creating a vault\<close>

definition default_name_from_path :: "fpath \<Rightarrow> string option" where
  "default_name_from_path p =
     (if p = [] then None
      else
        let name = to_string_lossy (last p) in
        if name = [] \<or> name = ''.'' \<or> name = ''..'' then None else Some name)"

text \<open>\<^verbatim>\<open>read_to_string(path).ok()\<close>: a file that cannot be read, or is no UTF-8, counts as absent.\<close>

definition read_text :: "fpath \<Rightarrow> (disk, string option) action" where
  "read_text p = andthen (attempt (fs_read p)) (\<lambda>r. ret (case r of Inr bs \<Rightarrow> from_utf8 bs | Inl _ \<Rightarrow> None))"

definition ensure_ignore_entry :: "fpath \<Rightarrow> string \<Rightarrow> (disk, unit) action" where
  "ensure_ignore_entry path entry =
     andthen (read_text path) (\<lambda>existing.
     if (case existing of Some s \<Rightarrow> entry \<in> trim ` set (lines s) | None \<Rightarrow> False) then ret ()
     else
       let body = unwrap_or [] existing;
           body = (if body \<noteq> [] \<and> \<not> ends_with body [CHR 0x0A] then body @ [CHR 0x0A] else body) in
       map_err (context_err (''write '' @ show_path path)) (fs_write path (as_bytes (body @ entry @ [CHR 0x0A]))))"

definition DEFAULT_SYNCIGNORE :: string where
  "DEFAULT_SYNCIGNORE = concat (map (\<lambda>l. l @ [CHR 0x0A])
     [''# .syncignore '' @ [CHR 0xE2, CHR 0x80, CHR 0x94] @ '' patterns excluded from agentsync's sync engine.'',
      ''# Same syntax as .gitignore. Add anything you don't want propagated to peers.'',
      [], ''node_modules/'', ''.DS_Store''])"

definition seed_syncignore :: "fpath \<Rightarrow> (disk, unit) action" where
  "seed_syncignore path =
     andthen (fs_exists path) (\<lambda>present.
     if present then ret ()
     else map_err (context_err (''write '' @ show_path path)) (fs_write path (as_bytes DEFAULT_SYNCIGNORE)))"

record init_args =
  ia_rendezvous :: "string option"
  ia_name :: "string option"
  ia_identity :: "string option"
  ia_no_ignore_files :: bool

text \<open>The identity at the configured path, or a fresh one that is stored there.\<close>

definition load_or_save_identity :: "crypto \<Rightarrow> identity \<Rightarrow> fpath \<Rightarrow> (disk, identity) action" where
  "load_or_save_identity c fresh id_path =
     andthen (fs_exists id_path) (\<lambda>present.
     if present then load_from_file c id_path
     else andthen (save_to_file c fresh id_path) (\<lambda>_. ret fresh))"

definition new_config :: "string option \<Rightarrow> string option \<Rightarrow> string option \<Rightarrow> string option \<Rightarrow> config_file" where
  "new_config name rendezvous hub identity =
     \<lparr>cf_vault = \<lparr>vs_id = None, vs_name = name, vs_rendezvous_url = rendezvous, vs_hub_pubkey = hub\<rparr>,
      cf_identity = \<lparr>is_path = map_option to_string_lossy identity, is_agent_socket = None, is_agent_pubkey = None\<rparr>,
      cf_sync = default_sync\<rparr>"

definition set_vault_id :: "string \<Rightarrow> config_file \<Rightarrow> config_file" where
  "set_vault_id i cfg = cfg\<lparr>cf_vault := (cf_vault cfg)\<lparr>vs_id := Some i\<rparr>\<rparr>"

definition run_init ::
    "('d, 'o, 'y) automerge \<Rightarrow> crypto \<Rightarrow> (string \<Rightarrow> string) \<Rightarrow> host \<Rightarrow> toml \<Rightarrow> shell_env \<Rightarrow> string \<Rightarrow> identity \<Rightarrow> 'g \<Rightarrow>
     fpath \<Rightarrow> init_args \<Rightarrow> (disk, string) action" where
  "run_init am c nfc h tm env uuid fresh g path args =
     andthen (fs_exists path) (\<lambda>present.
     andthen (if present then ret () else map_err (context_err (''create vault dir '' @ show_path path)) (fs_create_dir_all path)) (\<lambda>_.
     andthen (fs_exists (config_path path)) (\<lambda>configured.
     if configured
     then fail (Other (''vault already initialized at '' @ show_path path @ '' (config.toml exists)''))
     else
       let rendezvous = map_option normalize_rendezvous_url (ia_rendezvous args);
           name = (case ia_name args of Some n \<Rightarrow> Some n | None \<Rightarrow> default_name_from_path path);
           cfg = new_config name rendezvous None (ia_identity args) in
       andthen (load_or_save_identity c fresh (identity_path env path cfg)) (\<lambda>identity.
       andthen (vault_create am c nfc h uuid fresh
         \<lparr>co_rendezvous_url = rendezvous, co_identity = Some identity, co_storage_path = state_dir path\<rparr>)
         (\<lambda>v :: ('d, 'y, 'g) vault.
       andthen (write_config tm path (set_vault_id (va_vault_id v) cfg)) (\<lambda>_.
       andthen (in_vault (vault_flush am) v) (\<lambda>_.
       andthen (if ia_no_ignore_files args then ret ()
                else
                  andthen (ensure_ignore_entry (path @ [''.gitignore'']) ''.agentsync/'') (\<lambda>_.
                  andthen (ensure_ignore_entry (path @ [''.agentsignore'']) ''.agentsync/'') (\<lambda>_.
                  seed_syncignore (path @ [''.syncignore''])))) (\<lambda>_.
       ret (va_vault_id v)))))))))"

section \<open>Cloning a vault\<close>

text \<open>A handle that does nothing, for the connection that asks the hub who it is.\<close>

definition noop_handle :: "unit sync_handle" where
  "noop_handle = \<lparr>
     sh_register = (\<lambda>out pk s. (Ok 0, s)),
     sh_unregister = (\<lambda>i s. s),
     sh_generate = (\<lambda>i s. (Ok None, s)),
     sh_receive = (\<lambda>i bs s. (Ok (), s)),
     sh_read_blob = (\<lambda>h s. (Err (NotFound ''noop''), s)),
     sh_write_blob = (\<lambda>h bs s. (Ok (), s)),
     sh_authorized_pubkeys = (\<lambda>s. ([], s)),
     sh_authorized_peers = default_authorized_peers (\<lambda>s. ([], s)),
     sh_disconnect_unauthorized = (\<lambda>pks s. s)\<rparr>"

definition probe_hub ::
    "'i network \<Rightarrow> codec \<Rightarrow> crypto \<Rightarrow> agent \<Rightarrow> (nat \<Rightarrow> byte) \<Rightarrow> string \<Rightarrow> string option \<Rightarrow> pubkey option \<Rightarrow> identity \<Rightarrow>
     client_conn result" where
  "probe_hub net fc c agent rng url vault_id pin identity =
     (case client_connect net fc c agent rng 0 url vault_id pin identity noop_handle () of
        (Inl e, _) \<Rightarrow> Err e
      | (Inr (_, conn), _) \<Rightarrow> Ok conn)"

record clone_args =
  ca_remote_url :: string
  ca_local_path :: "string option"
  ca_identity :: "string option"
  ca_vault_id :: "string option"
  ca_accept_hub_key :: "string option"
  ca_no_tls :: bool

text \<open>\<^verbatim>\<open>read_dir\<close>: whether there is an entry beside the state directory.\<close>

definition has_other_entry :: "fpath \<Rightarrow> (disk, bool) action" where
  "has_other_entry p d =
     (if faulty d then (Err io_fault, tick d)
      else if \<not> is_dir d p then (Err io_other, tick d)
      else (Ok (\<exists>e. e \<noteq> ''.agentsync'' \<and> d_nodes d (p @ [e]) \<noteq> None), tick d))"

definition check_target :: "fpath \<Rightarrow> (disk, unit) action" where
  "check_target target =
     andthen (fs_exists target) (\<lambda>present.
     if present
     then andthen (has_other_entry target) (\<lambda>other.
          if other then fail (Other (''clone target '' @ show_path target @ '' is not empty'')) else ret ())
     else ret ())"

definition accepted_key :: "crypto \<Rightarrow> string option \<Rightarrow> pubkey option result" where
  "accepted_key c a = (case a of None \<Rightarrow> Ok None | Some s \<Rightarrow> bind_result (from_ssh_string c s) (\<lambda>pk. Ok (Some pk)))"

text \<open>
  \<open>answer\<close> is the line the user types, \<open>probe\<close> the connection to the hub. The result is the
  vault, bound and connected.
\<close>

definition run_clone ::
    "('d, 'o, 'y) automerge \<Rightarrow> crypto \<Rightarrow> (string \<Rightarrow> string) \<Rightarrow> host \<Rightarrow> toml \<Rightarrow> shell_env \<Rightarrow> 'g bind_env \<Rightarrow> 'i network \<Rightarrow>
     (string \<Rightarrow> string option \<Rightarrow> pubkey option \<Rightarrow> identity \<Rightarrow> client_conn result) \<Rightarrow>
     (identity \<Rightarrow> ('d, 'y, 'g) dialer) \<Rightarrow> string \<Rightarrow> identity \<Rightarrow> clone_args \<Rightarrow> (disk, ('d, 'y, 'g) vault) action" where
  "run_clone am c nfc h tm env be net probe dial answer fresh args =
     (let rendezvous = normalize_with_scheme (ca_remote_url args) (ca_no_tls args) in
      andthen (lift (accepted_key c (ca_accept_hub_key args))) (\<lambda>pre_accepted.
      let probe_path = (case ca_identity args of Some p \<Rightarrow> path_join (en_cwd env) p | None \<Rightarrow> user_identity_default env) in
      andthen (load_or_save_identity c fresh probe_path) (\<lambda>identity.
      andthen (lift (on_err (context_err (''connect to rendezvous '' @ rendezvous))
        (probe rendezvous (ca_vault_id args) pre_accepted identity))) (\<lambda>conn.
      andthen (case ca_local_path args of
          Some p \<Rightarrow> ret (path_join (en_cwd env) p)
        | None \<Rightarrow> lift (bind_result (default_target_dir
            (case nt_parse net rendezvous of Inr u \<Rightarrow> u_host u | Inl _ \<Rightarrow> None) (cc_vault_name conn))
            (\<lambda>p. Ok (path_join (en_cwd env) p)))) (\<lambda>target.
      andthen (check_target target) (\<lambda>_.
      andthen (fs_create_dir_all target) (\<lambda>_.
      let cfg = new_config (cc_vault_name conn) (Some rendezvous) (map_option (to_ssh_string c) pre_accepted)
            (ca_identity args);
          id_path = identity_path env target cfg in
      andthen (fs_exists id_path) (\<lambda>present.
      andthen (if present then ret () else save_to_file c identity id_path) (\<lambda>_.
      if pre_accepted = None \<and> \<not> answer_trusts answer
      then fail (Other ''hub identity rejected; aborting clone'')
      else
        let accepted_hub = unwrap_or (cc_hub_pubkey conn) pre_accepted;
            cfg = set_hub_pubkey (Some (to_ssh_string c accepted_hub)) (set_vault_id (cc_vault_id conn) cfg) in
        andthen (write_config tm target cfg) (\<lambda>_.
        andthen (vault_open am c h \<lparr>oo_rendezvous_url = Some rendezvous, oo_vault_id = cc_vault_id conn,
            oo_identity = identity, oo_storage_path = state_dir target, oo_hub_pubkey = Some accepted_hub,
            oo_name = cc_vault_name conn\<rparr>) (\<lambda>v d.
        case andthen (bind_here am c nfc be target cfg) (\<lambda>_. map_err connect_failed (vault_connect (dial identity)))
            (v\<lparr>va_disk := d\<rparr>) of
          (Inl e, v') \<Rightarrow> (Err e, va_disk v')
        | (Inr _, v') \<Rightarrow> (Ok v', va_disk v'))))))))))))"

section \<open>Watching\<close>

text \<open>\<^verbatim>\<open>--authorized-keys\<close>: the keys that are not listed yet are appended. The result is their number.\<close>

definition merge_peers :: "authorized_peer list \<Rightarrow> authorized_peer list \<Rightarrow> authorized_peer list" where
  "merge_peers existing new_peers =
     foldl (\<lambda>merged p. if ap_pubkey p \<in> ap_pubkey ` set merged then merged else merged @ [p]) existing new_peers"

definition merge_authorized_keys ::
    "('d, 'o, 'y) automerge \<Rightarrow> crypto \<Rightarrow> (string \<Rightarrow> string) \<Rightarrow> string \<Rightarrow> (('d, 'y, 'g) vault, nat) action" where
  "merge_authorized_keys am c nfc raw =
     (let new_peers = parse_authorized_keys c (map (\<lambda>x. if x = CHR '','' then CHR 0x0A else x) raw) in
      if new_peers = [] then ret 0
      else
        andthen (attempt (vault_read_text_file am nfc AUTHORIZED_KEYS_FILE)) (\<lambda>r.
        let existing = parse_authorized_keys c (case r of Inr s \<Rightarrow> s | Inl _ \<Rightarrow> []);
            merged = merge_peers existing new_peers;
            added = length merged - length existing in
        if added > 0
        then andthen (vault_write_text_file am nfc AUTHORIZED_KEYS_FILE (render_authorized_keys c merged)) (\<lambda>_. ret added)
        else ret 0))"

definition load_pubkey_arg :: "shell_env \<Rightarrow> string \<Rightarrow> (disk, string) action" where
  "load_pubkey_arg env s =
     (if starts_with s ''ssh-'' then ret s
      else
        andthen (map_err (context_err (''read pubkey file at '' @ s)) (fs_read (path_join (en_cwd env) s))) (\<lambda>bytes.
        andthen (lift (ok_or (Other (''read pubkey file at '' @ s)) (from_utf8 bytes))) (\<lambda>t.
        case lines t of
          [] \<Rightarrow> fail (Other (''empty pubkey file at '' @ s))
        | line # _ \<Rightarrow> ret (trim line))))"

record watch_args =
  wa_listen :: "string option"
  wa_no_tls :: bool
  wa_rendezvous :: "string option"
  wa_offline :: bool
  wa_identity_agent :: "string option"
  wa_identity_agent_pubkey :: "string option"
  wa_authorized_keys :: "string option"

text \<open>The URL of the flag, else of the configuration, none when offline.\<close>

definition watch_url :: "watch_args \<Rightarrow> bool \<Rightarrow> config_file \<Rightarrow> string option" where
  "watch_url args no_tls cfg =
     (if wa_offline args then None
      else case wa_rendezvous args of
          Some u \<Rightarrow> Some (normalize_with_scheme u no_tls)
        | None \<Rightarrow> vs_rendezvous_url (cf_vault cfg))"

definition watch_config :: "string option \<Rightarrow> string option \<Rightarrow> config_file \<Rightarrow> config_file" where
  "watch_config socket pubkey cfg =
     (let cfg = (case socket of Some p \<Rightarrow>
            cfg\<lparr>cf_identity := (cf_identity cfg)\<lparr>is_agent_socket := Some (to_string_lossy p)\<rparr>\<rparr> | None \<Rightarrow> cfg) in
      case pubkey of Some s \<Rightarrow> cfg\<lparr>cf_identity := (cf_identity cfg)\<lparr>is_agent_pubkey := Some s\<rparr>\<rparr> | None \<Rightarrow> cfg)"

datatype watch_mode = Listening string bool | Reconnecting string | Local

text \<open>
  The command up to the point where it waits for the interrupt: the vault and what it does next.
  \<open>addr_ok\<close> is the parser of socket addresses.
\<close>

definition start_watch ::
    "('d, 'o, 'y) automerge \<Rightarrow> crypto \<Rightarrow> (string \<Rightarrow> string) \<Rightarrow> host \<Rightarrow> toml \<Rightarrow> shell_env \<Rightarrow> 'g bind_env \<Rightarrow>
     (string \<Rightarrow> bool) \<Rightarrow> string option \<Rightarrow> fpath \<Rightarrow> watch_args \<Rightarrow>
     (disk, ('d, 'y, 'g) vault \<times> watch_mode) action" where
  "start_watch am c nfc h tm env be addr_ok env_no_tls path args =
     (let no_tls = (wa_no_tls args \<or> env_truthy env_no_tls) in
      andthen (require_config tm path) (\<lambda>cfg0.
      andthen (case wa_identity_agent_pubkey args of
          Some s \<Rightarrow> andthen (load_pubkey_arg env s) (\<lambda>p. ret (Some p)) | None \<Rightarrow> ret None) (\<lambda>pubkey.
      let cfg = watch_config (wa_identity_agent args) pubkey cfg0 in
      andthen (resolve_identity c env path cfg) (\<lambda>identity.
      let url = watch_url args no_tls cfg in
      andthen (lift (resolve_hub_pubkey c cfg)) (\<lambda>hub.
      andthen (vault_open am c h (configured_options path cfg identity hub url)) (\<lambda>v d.
      case andthen (bind_here am c nfc be path cfg) (\<lambda>_.
           case wa_authorized_keys args of
             Some raw \<Rightarrow> andthen (merge_authorized_keys am c nfc raw) (\<lambda>_. ret ())
           | None \<Rightarrow> ret ()) (v\<lparr>va_disk := d\<rparr>) of
        (Inl e, v') \<Rightarrow> (Err e, va_disk v')
      | (Inr _, v') \<Rightarrow>
          (case wa_listen args of
             Some addr \<Rightarrow>
               (let resolved = listen_address addr no_tls in
                if addr_ok resolved then (Ok (v', Listening resolved no_tls), va_disk v')
                else (Err (Other (''invalid --listen address: '' @ resolved)), va_disk v'))
           | None \<Rightarrow> (case url of
               Some u \<Rightarrow> (Ok (v', Reconnecting u), va_disk v')
             | None \<Rightarrow> (Ok (v', Local), va_disk v')))))))))"

end
