(* ===== verification/KeyProperties.thy ===== *)
theory KeyProperties
  imports CliCommands Keyring Ingest
begin

text \<open>
  Adding authorised keys from the command line (\<^verbatim>\<open>merge_authorized_keys\<close> of
  \<^verbatim>\<open>commands/watch.rs\<close>): what the parser returns can be rendered and parsed again, merging
  appends the keys that are not listed, and so the keys listed in the vault's document are
  kept and the new ones added, once.
\<close>

section \<open>Parsed peers can be rendered\<close>

lemma label_of_trim: "CHR 0x0A \<notin> set s \<Longrightarrow> label_ok (trim s)"
  using set_trim [of s] by (auto simp: label_ok_def trim_idem)

lemma label_of_empty: "label_ok []"
  by (simp add: label_ok_def)

lemma separated_label: "CHR 0x0A \<notin> set s \<Longrightarrow> label_ok (snd (split_at_separators seps s))"
  by (induction seps)
    (auto simp: label_of_empty intro!: label_of_trim split: option.split dest: in_set_dropD)

lemma split_ws_once_set:
  "split_ws_once s = (a, r) \<Longrightarrow> set a \<subseteq> set s \<and> (\<forall>t. r = Some t \<longrightarrow> set t \<subseteq> set s)"
proof (induction s arbitrary: a r)
  case (Cons x xs)
  then show ?case
    using set_drop_subset [of "ws_len (x # xs)" "x # xs"]
    by (cases "split_ws_once xs") (fastforce split: if_splits)
qed simp

lemma splitn_ws_set: "w \<in> set (splitn_ws n s) \<Longrightarrow> set w \<subseteq> set s"
proof (induction n s arbitrary: w rule: splitn_ws.induct)
  case (3 n s)
  obtain a r where ar: "split_ws_once s = (a, r)" by (cases "split_ws_once s")
  with split_ws_once_set [OF ar] 3 show ?case by (cases r) fastforce+
qed auto

lemma body_set: "set (unwrap_or (trim_start l) (strip_list_marker (trim_start l))) \<subseteq> set l"
  using set_mono_suffix [OF trim_start_suffix [of l]]
  by (auto simp: strip_list_marker_def strip_prefix_def split: option.splits if_splits dest: in_set_dropD)

lemma legacy_label: "parse_legacy c body = Some p \<Longrightarrow> CHR 0x0A \<notin> set body \<Longrightarrow> label_ok (ap_label p)"
  using separated_label [of body "[em_dash_sep, en_dash_sep, '' -- '', '' - '']"]
  by (auto simp: parse_legacy_def split_key_and_label_def Let_def split: sum.splits prod.splits)

lemma parse_line_ok:
  assumes "parse_line c l = Some p" "CHR 0x0A \<notin> set l"
  shows "peer_ok p"
proof -
  let ?body = "unwrap_or (trim_start l) (strip_list_marker (trim_start l))"
  have clean: "CHR 0x0A \<notin> set ?body" using body_set [of l] assms(2) by blast
  have "label_ok (ap_label p)"
  proof (cases "starts_with ?body [CHR 0x60]")
    case True
    with assms(1) legacy_label [OF _ clean] show ?thesis by (auto simp: parse_line_def Let_def split: if_splits)
  next
    case False
    with assms(1) obtain kind blob rest pk where s: "splitn_ws 3 ?body = kind # blob # rest"
      "p = \<lparr>ap_pubkey = pk, ap_label = (case rest of [] \<Rightarrow> [] | l # _ \<Rightarrow> trim l)\<rparr>"
      by (auto simp: parse_line_def Let_def split: if_splits list.splits sum.splits)
    have "CHR 0x0A \<notin> set w" if "w \<in> set rest" for w
      using splitn_ws_set [of w 3 ?body] s(1) clean that by auto
    with s(2) show ?thesis by (cases rest) (auto simp: label_of_empty intro: label_of_trim)
  qed
  with parse_line_key [OF assms(1)] show ?thesis by (simp add: peer_ok_def)
qed

lemma break_on_fst: "c \<notin> set (fst (break_on c s))"
  by (induction s) (auto split: prod.split)

lemma lines_no_newline: "l \<in> set (lines s) \<Longrightarrow> CHR 0x0A \<notin> set l"
proof (induction s arbitrary: l rule: lines.induct)
  case (1 s)
  obtain a r where ar: "break_on (CHR 0x0A) s = (a, r)" by (cases "break_on (CHR 0x0A) s")
  have clean: "CHR 0x0A \<notin> set a" using break_on_fst [of "CHR 0x0A" s] ar by simp
  then have "CHR 0x0A \<notin> set (strip_cr a)" by (auto simp: strip_cr_def dest: in_set_butlastD)
  with 1 ar clean show ?case by (subst (asm) (2) lines.simps) (auto split: option.splits if_splits)
qed

lemma parsed_peers_ok: "p \<in> set (parse_authorized_keys c t) \<Longrightarrow> peer_ok p"
  by (auto simp: parse_authorized_keys_def set_map_filter intro: parse_line_ok dest: lines_no_newline)

section \<open>Merging\<close>

abbreviation keys_of :: "authorized_peer list \<Rightarrow> pubkey set" where
  "keys_of ps \<equiv> ap_pubkey ` set ps"

lemma merge_peers_appends:
  obtains added where "merge_peers old new = old @ added" "set added \<subseteq> set new"
    "keys_of added = keys_of new - keys_of old" "distinct (map ap_pubkey added)"
proof -
  have "\<exists>added. merge_peers old new = old @ added \<and> set added \<subseteq> set new \<and>
      keys_of added = keys_of new - keys_of old \<and> distinct (map ap_pubkey added)"
  proof (induction new rule: rev_induct)
    case (snoc p ps)
    then obtain added where a: "merge_peers old ps = old @ added" "set added \<subseteq> set ps"
      "keys_of added = keys_of ps - keys_of old" "distinct (map ap_pubkey added)" by blast
    show ?case
    proof (cases "ap_pubkey p \<in> keys_of (old @ added)")
      case True
      with a show ?thesis by (intro exI [of _ added]) (auto simp: merge_peers_def)
    next
      case False
      with a show ?thesis by (intro exI [of _ "added @ [p]"]) (auto simp: merge_peers_def)
    qed
  qed (simp add: merge_peers_def)
  with that show thesis by blast
qed

lemma merge_peers_known:
  assumes "keys_of new \<subseteq> keys_of old"
  shows "merge_peers old new = old"
proof -
  obtain added where "merge_peers old new = old @ added" "keys_of added = keys_of new - keys_of old"
    by (rule merge_peers_appends)
  moreover from this(2) assms have "keys_of added = {}" by (simp only: Diff_eq_empty_iff)
  ultimately show ?thesis by simp
qed

abbreviation flag_peers :: "crypto \<Rightarrow> string \<Rightarrow> authorized_peer list" where
  "flag_peers c raw \<equiv> parse_authorized_keys c (map (\<lambda>x. if x = CHR '','' then CHR 0x0A else x) raw)"

text \<open>What the operation does, from the peers it finds.\<close>

lemma merge_run:
  assumes "automerge_doc am tree oid" "sound tree (va_doc s) v"
    and "normalize nfc AUTHORIZED_KEYS_FILE = Ok AUTHORIZED_KEYS_FILE"
    and "vault_authorized_peers am c nfc s = (old, t)"
  shows "t = s"
    "merge_authorized_keys am c nfc raw s =
      (let merged = merge_peers old (flag_peers c raw); n = length merged - length old in
       if n = 0 then (Ok 0, s)
       else andthen (vault_write_text_file am nfc AUTHORIZED_KEYS_FILE (render_authorized_keys c merged)) (\<lambda>_. ret n) s)"
proof -
  obtain r where r: "read_file am nfc AUTHORIZED_KEYS_FILE (va_doc s) = (r, va_doc s)"
    using automerge_doc.read_file_keeps [OF assms(1) soundD(1,2) [OF assms(2)] assms(3)] by (metis prod.collapse)
  then have old: "old = parse_authorized_keys c (case r of Inr t \<Rightarrow> t | Inl _ \<Rightarrow> [])" "t = s"
    using assms(4) by (auto simp: vault_authorized_peers_def on_doc_def parse_authorized_keys_def split: sum.splits)
  then show "t = s" by simp
  from r old show "merge_authorized_keys am c nfc raw s =
      (let merged = merge_peers old (flag_peers c raw); n = length merged - length old in
       if n = 0 then (Ok 0, s)
       else andthen (vault_write_text_file am nfc AUTHORIZED_KEYS_FILE (render_authorized_keys c merged)) (\<lambda>_. ret n) s)"
    by (simp add: merge_authorized_keys_def andthen_run attempt_run vault_read_text_file_def on_doc_def Let_def
        merge_peers_known ret_run)
qed

lemma authorized_ok:
  "vault_authorized_peers am c nfc s = (ps, t) \<Longrightarrow> p \<in> set ps \<Longrightarrow> peer_ok p"
  by (auto simp: vault_authorized_peers_def parsed_peers_ok split: prod.splits sum.splits)

lemma merge_nothing:
  assumes "automerge_doc am tree oid" "sound tree (va_doc s) v"
    and "normalize nfc AUTHORIZED_KEYS_FILE = Ok AUTHORIZED_KEYS_FILE"
    and "vault_authorized_peers am c nfc s = (old, s)" "keys_of (flag_peers c raw) \<subseteq> keys_of old"
  shows "merge_authorized_keys am c nfc raw s = (Ok 0, s)"
  by (simp add: merge_run(2) [OF assms(1-4)] merge_peers_known [OF assms(5)] Let_def)

section \<open>The property\<close>

text \<open>
  C16. \<^verbatim>\<open>merge_authorized_keys\<close> never fails on a sound vault and never loses a key: the peers
  listed before are still listed, in their order and with their labels, followed by exactly the
  peers of the argument whose keys were not listed, each key once, and their number is returned.
  The vault stays sound, no file but \<^verbatim>\<open>authorized_keys\<close> changes, nothing is written when
  nothing is new, and merging the same argument again adds nothing.
\<close>

theorem keys_merged:
  assumes "automerge_doc am tree oid" "base64_codec c" "sound tree (va_doc s) v"
    and "normalize nfc AUTHORIZED_KEYS_FILE = Ok AUTHORIZED_KEYS_FILE"
    and "vault_authorized_peers am c nfc s = (old, t)"
    and "new = parse_authorized_keys c (map (\<lambda>x. if x = CHR '','' then CHR 0x0A else x) raw)"
  shows "\<exists>added s' v'. merge_authorized_keys am c nfc raw s = (Ok (length added), s') \<and>
    vault_authorized_peers am c nfc s' = (old @ added, s') \<and>
    set added \<subseteq> set new \<and> ap_pubkey ` set added = ap_pubkey ` set new - ap_pubkey ` set old \<and>
    distinct (map ap_pubkey added) \<and> sound tree (va_doc s') v' \<and>
    {f \<in> live_files v'. fst f \<noteq> AUTHORIZED_KEYS_FILE} = {f \<in> live_files v. fst f \<noteq> AUTHORIZED_KEYS_FILE} \<and>
    (added = [] \<longrightarrow> s' = s) \<and> merge_authorized_keys am c nfc raw s' = (Ok 0, s')"
proof -
  note run = merge_run(2) [OF assms(1,3-5), where raw = raw, folded assms(6)]
  from assms(5) merge_run(1) [OF assms(1,3-5)] have read: "vault_authorized_peers am c nfc s = (old, s)" by simp
  obtain added where a: "merge_peers old new = old @ added" "set added \<subseteq> set new"
    "keys_of added = keys_of new - keys_of old" "distinct (map ap_pubkey added)"
    by (rule merge_peers_appends)
  show ?thesis
  proof (cases "added = []")
    case True
    with run a read assms(3) show ?thesis by (intro exI [of _ "[]"] exI [of _ s] exI [of _ v]) simp
  next
    case False
    obtain fid d v' where w: "write_text_file am nfc AUTHORIZED_KEYS_FILE (render_authorized_keys c (old @ added))
        (va_doc s) = (Ok fid, d)" "sound tree d v'"
      "file_written v AUTHORIZED_KEYS_FILE fid (TextBody (render_authorized_keys c (old @ added))) v'"
      by (rule automerge_doc.write_text_run [OF assms(1,3,4)])
    obtain s' where s': "merge_authorized_keys am c nfc raw s = (Ok (length added), s')" "va_doc s' = d"
      using run a(1) False vault_write_run [OF w(1)] by (simp add: Let_def andthen_run ret_run)
    have "\<forall>p \<in> set (old @ added). peer_ok p"
      using authorized_ok [OF read] parsed_peers_ok a(2) assms(6) by auto
    note now = written_keys_read [OF assms(1,2) _ assms(4) this w(3), where s = s', unfolded s'(2), OF w(2)]
    have "keys_of (flag_peers c raw) \<subseteq> keys_of (old @ added)" using a(3) assms(6) by auto
    note again = merge_nothing [OF assms(1) _ assms(4) now this, unfolded s'(2), OF w(2)]
    have "{f \<in> live_files v'. fst f \<noteq> AUTHORIZED_KEYS_FILE} = {f \<in> live_files v. fst f \<noteq> AUTHORIZED_KEYS_FILE}"
      using w(3) by (auto simp: file_written_def)
    with s' now again a False w(2) show ?thesis by blast
  qed
qed

text \<open>A rendered peer, given as the argument, is that peer.\<close>

lemma flag_of_peer:
  assumes "base64_codec c" "peer_ok p" "CHR '','' \<notin> set (ap_label p)"
  shows "flag_peers c (render_peer c p) = [p]"
proof -
  have "CHR '','' \<notin> set (b64_encode c bs)" for bs
    using base64_codec.b64_chars [OF assms(1), of bs]
    by (auto simp: b64_char_def is_ascii_alphabetic_def is_ascii_digit_def byte_of_def)
  with assms(3) have "CHR '','' \<notin> set (render_peer c p)"
    by (auto simp: render_peer_def to_ssh_string_def SSH_KEY_TYPE_def)
  then have id: "map (\<lambda>x. if x = CHR '','' then CHR 0x0A else x) (render_peer c p) = render_peer c p"
    by (intro map_idI) auto
  have "render_peer c p \<noteq> []" by (simp add: render_peer_def to_ssh_string_def SSH_KEY_TYPE_def)
  then have "lines (render_peer c p) = [render_peer c p]"
    using base64_codec.render_peer_line(1) [OF assms(1,2)] by (intro lines_last)
  then show ?thesis
    by (simp add: id parse_authorized_keys_def List.map_filter_simps base64_codec.parse_render_peer [OF assms(1,2)])
qed

definition hub_peer :: authorized_peer where
  "hub_peer = \<lparr>ap_pubkey = identity_pubkey hub1, ap_label = ''hub''\<rparr>"

lemma hub_peer_flag:
  "parse_authorized_keys example_crypto
     (map (\<lambda>x. if x = CHR '','' then CHR 0x0A else x) (render_peer example_crypto hub_peer)) = [hub_peer]"
proof -
  have "trim ''hub'' = ''hub''" by code_simp
  then show ?thesis
    by (intro flag_of_peer [OF ex.base64_codec_axioms])
      (simp_all add: hub_peer_def peer_ok_def label_ok_def identity_from_seed_def
        ed25519.public_length [OF ex.ed25519_axioms])
qed

theorem keys_merged_witness:
  "\<exists>s'. merge_authorized_keys ref_am example_crypto ascii_nfc (render_peer example_crypto hub_peer) keyring_vault =
       (Ok 1, s') \<and>
     vault_authorized_peers ref_am example_crypto ascii_nfc s' = (keyring_peers @ [hub_peer], s')"
proof -
  have doc: "va_doc keyring_vault = keyring_doc" by (simp add: keyring_vault_def vault_start_def)
  obtain v where v: "sound ref_tree (va_doc keyring_vault) v" using keyring_live [OF refl] doc by metis
  have other: "identity_pubkey hub1 \<noteq> identity_pubkey peer2"
    by (simp add: identity_from_seed_def example_crypto_def fit_def)
  obtain added s' where m: "merge_authorized_keys ref_am example_crypto ascii_nfc
       (render_peer example_crypto hub_peer) keyring_vault = (Ok (length added), s')"
    "vault_authorized_peers ref_am example_crypto ascii_nfc s' = (keyring_peers @ added, s')"
    "set added \<subseteq> {hub_peer}" "ap_pubkey ` set added = {ap_pubkey hub_peer} - {identity_pubkey peer2}"
    "distinct (map ap_pubkey added)"
    using keys_merged [OF ref.automerge_doc_axioms ex.base64_codec_axioms v keys_path
        keyring_authorized(1) [OF doc] hub_peer_flag [symmetric]]
    by (auto simp: keyring_peers_def)
  with other have "set added = {hub_peer}" by (auto simp: hub_peer_def)
  with m(5) have "added = [hub_peer]" by (cases added; cases "tl added") auto
  with m(1,2) show ?thesis by simp
qed

end
