(* ===== verification/CliMain.thy ===== *)
theory CliMain
  imports CliCommands
begin

text \<open>
  \<^verbatim>\<open>crates/agentsync-cli/src/main.rs\<close> and the command type of \<^verbatim>\<open>cli.rs\<close>: the arguments are
  resolved, parsed and dispatched to the command they name; shell completions are printed or
  installed. The parser and the completion generator of \<^verbatim>\<open>clap\<close> are parameters.
\<close>

section \<open>The command line\<close>

datatype shell_kind = Bash | Zsh | Fish | PowerShell | Elvish

record completions_args =
  sa_shell :: shell_kind
  sa_install :: bool

datatype command =
    Init init_args
  | Watch watch_args
  | Clone clone_args
  | Status
  | Push
  | Pull
  | RestoreAt string
  | Snapshot snapshot_op
  | Diff string "string option"
  | Compact
  | Key key_op
  | Hub hub_op
  | Completions completions_args
  | Version

record cli =
  cl_cwd :: string
  cl_command :: command

section \<open>Completions\<close>

datatype clap_shell = ClapBash | ClapZsh | ClapFish | ClapPowerShell | ClapElvish

fun to_clap_shell :: "shell_kind \<Rightarrow> clap_shell" where
  "to_clap_shell Bash = ClapBash"
| "to_clap_shell Zsh = ClapZsh"
| "to_clap_shell Fish = ClapFish"
| "to_clap_shell PowerShell = ClapPowerShell"
| "to_clap_shell Elvish = ClapElvish"

fun shell_debug :: "shell_kind \<Rightarrow> string" where
  "shell_debug Bash = ''Bash''"
| "shell_debug Zsh = ''Zsh''"
| "shell_debug Fish = ''Fish''"
| "shell_debug PowerShell = ''PowerShell''"
| "shell_debug Elvish = ''Elvish''"

definition zsh_hint :: string where
  "zsh_hint = ''Make sure ~/.zfunc is on $fpath and '' @ [CHR 0x60] @ ''compinit'' @ [CHR 0x60] @
     '' is loaded in ~/.zshrc:'' @ [CHR 0x0A, CHR 0x09] @ ''fpath=(~/.zfunc $fpath)'' @ [CHR 0x0A, CHR 0x09] @
     ''autoload -U compinit && compinit''"

definition home_dir :: "shell_env \<Rightarrow> fpath result" where
  "home_dir env =
     (case (case en_home env of Some h \<Rightarrow> Some h | None \<Rightarrow> en_userprofile env) of
        Some h \<Rightarrow> Ok (path_join (en_cwd env) h)
      | None \<Rightarrow> Err (Other ''$HOME (or %USERPROFILE%) is not set''))"

fun completion_target :: "fpath \<Rightarrow> shell_kind \<Rightarrow> (fpath \<times> string option) result" where
  "completion_target home Bash =
     Ok (home @ [''.local'', ''share'', ''bash-completion'', ''completions'', ''agentsync''], None)"
| "completion_target home Zsh = Ok (home @ [''.zfunc'', ''_agentsync''], Some zsh_hint)"
| "completion_target home Fish = Ok (home @ [''.config'', ''fish'', ''completions'', ''agentsync.fish''], None)"
| "completion_target home kind =
     Err (Other (''--install isn't supported for '' @ shell_debug kind @ '' (no conventional dropbox path); '' @
       ''pipe stdout into your shell profile instead''))"

definition install_completions ::
    "(clap_shell \<Rightarrow> byte list) \<Rightarrow> shell_env \<Rightarrow> shell_kind \<Rightarrow> clap_shell \<Rightarrow> (disk, fpath \<times> string option) action" where
  "install_completions generate env kind shell =
     andthen (lift (home_dir env)) (\<lambda>home.
     andthen (lift (completion_target home kind)) (\<lambda>(path, hint).
     andthen (map_err (context_err (''create '' @ show_path (butlast path))) (fs_create_dir_all (butlast path))) (\<lambda>_.
     andthen (map_err (context_err (''write '' @ show_path path)) (fs_write path (generate shell))) (\<lambda>_.
     ret (path, hint)))))"

section \<open>Dispatch\<close>

text \<open>What a command ends with: what it prints, or the vault it goes on serving.\<close>

datatype ('d, 'y, 'g) outcome =
    Silent
  | Printed string
  | Labels "label list"
  | Summary string string string nat
  | Files nat
  | Restored int
  | Cloned "('d, 'y, 'g) vault"
  | Watching "('d, 'y, 'g) vault" watch_mode
  | Script "byte list"
  | Installed fpath "string option"

text \<open>
  All that the program takes from outside: the libraries, the environment, the answers of the
  user and of the network. \<open>pg_blank\<close> and \<open>pg_sync\<close> only fix types.
\<close>

record ('d, 'o, 'y, 'g, 'i) program =
  pg_am :: "('d, 'o, 'y) automerge"
  pg_crypto :: crypto
  pg_nfc :: "string \<Rightarrow> string"
  pg_host :: host
  pg_index :: index_json
  pg_toml :: toml
  pg_env :: shell_env
  pg_bind :: "'g bind_env"
  pg_net :: "'i network"
  pg_probe :: "string \<Rightarrow> string option \<Rightarrow> pubkey option \<Rightarrow> identity \<Rightarrow> client_conn result"
  pg_dial :: "identity \<Rightarrow> ('d, 'y, 'g) dialer"
  pg_push_dial :: "('d, 'y, 'g) dialer"
  pg_drain :: "('d, 'y, 'g) vault \<Rightarrow> ('d, 'y, 'g) vault"
  pg_addr_ok :: "string \<Rightarrow> bool"
  pg_no_tls :: "string option"
  pg_now :: int
  pg_uuid :: string
  pg_fresh :: identity
  pg_answer :: string
  pg_blank :: 'g
  pg_sync :: 'y
  pg_generate :: "clap_shell \<Rightarrow> byte list"
  pg_version :: string
  pg_exists :: "string \<Rightarrow> bool"
  pg_parse :: "string list \<Rightarrow> cli option"

definition map_ok :: "('a \<Rightarrow> 'b) \<Rightarrow> ('s, 'a) action \<Rightarrow> ('s, 'b) action" where
  "map_ok f m = andthen m (\<lambda>x. ret (f x))"

definition run_completions ::
    "('d, 'o, 'y, 'g, 'i) program \<Rightarrow> completions_args \<Rightarrow> (disk, ('d, 'y, 'g) outcome) action" where
  "run_completions pg args =
     (let shell = to_clap_shell (sa_shell args) in
      if \<not> sa_install args then ret (Script (pg_generate pg shell))
      else map_ok (\<lambda>(path, hint). Installed path hint)
        (install_completions (pg_generate pg) (pg_env pg) (sa_shell args) shell))"

fun dispatch ::
    "('d, 'o, 'y, 'g, 'i) program \<Rightarrow> fpath \<Rightarrow> command \<Rightarrow> (disk, ('d, 'y, 'g) outcome) action" where
  "dispatch pg cwd (Init args) =
     map_ok Printed (run_init (pg_am pg) (pg_crypto pg) (pg_nfc pg) (pg_host pg) (pg_toml pg) (pg_env pg)
       (pg_uuid pg) (pg_fresh pg) (pg_blank pg) cwd args)"
| "dispatch pg cwd (Watch args) =
     map_ok (\<lambda>(v, mode). Watching v mode)
       (start_watch (pg_am pg) (pg_crypto pg) (pg_nfc pg) (pg_host pg) (pg_toml pg) (pg_env pg)
         (pg_bind pg) (pg_addr_ok pg) (pg_no_tls pg) cwd args)"
| "dispatch pg cwd (Clone args) =
     map_ok Cloned (run_clone (pg_am pg) (pg_crypto pg) (pg_nfc pg) (pg_host pg) (pg_toml pg) (pg_env pg)
       (pg_bind pg) (pg_net pg) (pg_probe pg) (pg_dial pg) (pg_answer pg) (pg_fresh pg) args)"
| "dispatch pg cwd Status =
     map_ok (\<lambda>(i, name, url, n). Summary i name url n)
       (run_status (pg_am pg) (pg_crypto pg) (pg_host pg) (pg_toml pg) (pg_env pg) cwd (pg_blank pg))"
| "dispatch pg cwd Push =
     map_ok (\<lambda>_. Silent) (run_push (pg_am pg) (pg_crypto pg) (pg_nfc pg) (pg_host pg) (pg_toml pg) (pg_env pg)
       (pg_bind pg) (pg_push_dial pg) (pg_drain pg) cwd)"
| "dispatch pg cwd Pull =
     map_ok (\<lambda>_. Silent) (run_pull (pg_am pg) (pg_crypto pg) (pg_nfc pg) (pg_host pg) (pg_toml pg) (pg_env pg)
       (pg_bind pg) (pg_push_dial pg) (pg_drain pg) cwd)"
| "dispatch pg cwd (RestoreAt timestamp) =
     map_ok Restored (run_restore_at (pg_am pg) (pg_crypto pg) (pg_nfc pg) (pg_host pg) (pg_toml pg) (pg_env pg)
       (pg_bind pg) (pg_now pg) cwd timestamp)"
| "dispatch pg cwd (Snapshot op) =
     map_ok Labels (run_snapshot (pg_am pg) (pg_crypto pg) (pg_nfc pg) (pg_host pg) (pg_index pg) (pg_toml pg)
       (pg_env pg) (pg_bind pg) cwd op)"
| "dispatch pg cwd (Diff from_point to_point) =
     map_ok Files (run_diff (pg_am pg) (pg_crypto pg) (pg_host pg) (pg_toml pg) (pg_env pg) cwd (pg_blank pg))"
| "dispatch pg cwd Compact =
     map_ok (\<lambda>_. Silent) (run_compact (pg_am pg) (pg_crypto pg) (pg_host pg) (pg_toml pg) (pg_env pg) cwd
       (pg_sync pg) (pg_blank pg))"
| "dispatch pg cwd (Key op) =
     map_ok Printed (run_key (pg_toml pg) (pg_crypto pg) (pg_env pg) (pg_fresh pg) cwd op)"
| "dispatch pg cwd (Hub op) = map_ok Printed (run_hub (pg_toml pg) (pg_crypto pg) cwd op)"
| "dispatch pg cwd (Completions args) = run_completions pg args"
| "dispatch pg cwd Version = ret (Printed (''agentsync '' @ pg_version pg))"

text \<open>\<^verbatim>\<open>None\<close> is the exit of \<^verbatim>\<open>clap\<close> with its message.\<close>

definition main_run ::
    "('d, 'o, 'y, 'g, 'i) program \<Rightarrow> string list \<Rightarrow> (disk, ('d, 'y, 'g) outcome option) action" where
  "main_run pg raw =
     (case pg_parse pg (''agentsync'' # resolve_args (pg_exists pg) raw) of
        None \<Rightarrow> ret None
      | Some parsed \<Rightarrow>
          map_ok Some (dispatch pg (path_join (en_cwd (pg_env pg)) (cl_cwd parsed)) (cl_command parsed)))"

section \<open>Facts\<close>

text \<open>An installed script is complete and in its place; no other file is changed.\<close>

lemma install_completions_Ok:
  assumes "install_completions generate env kind shell d = (Ok (path, hint), e)"
  shows "file_at e path = Some (generate shell) \<and> (\<forall>q. q \<noteq> path \<longrightarrow> file_at e q = file_at d q)"
proof -
  from assms obtain d1 where c: "fs_create_dir_all (butlast path) d = (Ok (), d1)"
    and w: "fs_write path (generate shell) d1 = (Ok (), e)"
    by (auto simp: install_completions_def andthen_run lift_run ret_run map_err_def split: prod.splits sum.splits)
  have "file_at e q = file_at d q" if "q \<noteq> path" for q
    using write_frame [OF w that] create_dir_all_files [OF c, of q] by (simp add: file_at_def)
  with write_Ok [OF w] show ?thesis by blast
qed

lemma install_unsupported:
  "kind \<in> {PowerShell, Elvish} \<Longrightarrow> \<exists>x. install_completions generate env kind shell d = (Err x, d)"
  by (cases "home_dir env") (auto simp: install_completions_def andthen_run lift_run)

text \<open>\<^verbatim>\<open>pull\<close> is \<^verbatim>\<open>push\<close>, and \<^verbatim>\<open>diff\<close> ignores the points it is given.\<close>

lemma dispatch_pull: "dispatch pg cwd Pull = dispatch pg cwd Push"
  by (simp add: run_pull_def)

lemma dispatch_diff: "dispatch pg cwd (Diff a b) = dispatch pg cwd (Diff a' b')"
  by simp

text \<open>Commands that only print leave the disk as it is.\<close>

lemma dispatch_print:
  "dispatch pg cwd Version d = (Ok (Printed (''agentsync '' @ pg_version pg)), d)"
  "\<not> sa_install args \<Longrightarrow>
     dispatch pg cwd (Completions args) d = (Ok (Script (pg_generate pg (to_clap_shell (sa_shell args)))), d)"
  by (simp_all add: run_completions_def ret_run)

text \<open>Without arguments the program watches.\<close>

lemma main_default:
  assumes "pg_parse pg [''agentsync'', ''watch''] = Some \<lparr>cl_cwd = cwd, cl_command = Watch args\<rparr>"
  shows "main_run pg [] = map_ok Some (dispatch pg (path_join (en_cwd (pg_env pg)) cwd) (Watch args))"
  using assms by (simp add: main_run_def resolve_args_def)

end
