(* ===== verification/ClientTasks.thy ===== *)
theory ClientTasks
  imports CliCommands
begin

text \<open>
  The life of a connection that \<^verbatim>\<open>ClientConn::connect\<close> (\<^verbatim>\<open>net/client.rs\<close>) has opened: its three
  tasks, the signal that it is over, those who wait for the signal (\<^verbatim>\<open>ClosedSignal::wait\<close>, which
  the reconnect supervisor of \<^verbatim>\<open>vault.rs\<close> calls), and \<^verbatim>\<open>close\<close> and \<^verbatim>\<open>drop\<close>, which abort the
  tasks. Every action between two points where a task may be suspended is one step, and the steps
  interleave freely.
\<close>

section \<open>State\<close>

text \<open>
  The reader leaves its loop and unregisters the peer, stores the flag, and wakes the waiters. An
  abort stops it only in its loop: behind it there is no point where it could be suspended.
\<close>

datatype reader_phase = Running | Unregistered | Flagged | Finished | Aborted

text \<open>
  A waiter registers with the \<^verbatim>\<open>Notify\<close> before it looks at the flag; \<open>True\<close> means that it was
  woken since. \<^verbatim>\<open>notify_waiters\<close> wakes those that are registered.
\<close>

datatype waiter = Arriving | Enabled bool | Waiting bool | Returned

record 's client_run =
  cr_link :: link
  cr_hub :: 's
  cr_phase :: reader_phase
  cr_flag :: bool
  cr_close :: bool
  cr_waiters :: "nat \<Rightarrow> waiter"

definition client_begin :: "link \<Rightarrow> 's \<Rightarrow> 's client_run" where
  "client_begin l h =
     \<lparr>cr_link = l, cr_hub = h, cr_phase = Running, cr_flag = False, cr_close = False,
      cr_waiters = (\<lambda>_. Arriving)\<rparr>"

section \<open>Steps\<close>

definition client_reader :: "codec \<Rightarrow> 's sync_handle \<Rightarrow> 's client_run \<Rightarrow> 's client_run" where
  "client_reader fc sh s =
     (case reader_step fc sh (cr_link s) (cr_hub s) of
        (l, h) \<Rightarrow> s\<lparr>cr_link := l, cr_hub := h, cr_phase := (if k_reading l then Running else Unregistered)\<rparr>)"

definition client_flag :: "'s client_run \<Rightarrow> 's client_run" where
  "client_flag s = s\<lparr>cr_flag := True, cr_phase := Flagged\<rparr>"

fun wake :: "waiter \<Rightarrow> waiter" where
  "wake (Enabled _) = Enabled True"
| "wake (Waiting _) = Waiting True"
| "wake w = w"

definition client_notify :: "'s client_run \<Rightarrow> 's client_run" where
  "client_notify s = s\<lparr>cr_phase := Finished, cr_waiters := (\<lambda>i. wake (cr_waiters s i))\<rparr>"

definition client_writer :: "codec \<Rightarrow> 's client_run \<Rightarrow> 's client_run" where
  "client_writer fc s = s\<lparr>cr_link := writer_step fc (cr_close s) (cr_link s)\<rparr>"

definition client_notifier :: "'s sync_handle \<Rightarrow> 's client_run \<Rightarrow> 's client_run" where
  "client_notifier sh s =
     (case notifier_step sh (cr_link s) (cr_hub s) of (l, h) \<Rightarrow> s\<lparr>cr_link := l, cr_hub := h\<rparr>)"

text \<open>\<^verbatim>\<open>abort\<close> of the reader and the notifier after the close signal to the writer.\<close>

definition client_abort :: "'s client_run \<Rightarrow> 's client_run" where
  "client_abort s =
     s\<lparr>cr_close := True,
       cr_link := (cr_link s)\<lparr>k_reading := False, k_notifying := False\<rparr>,
       cr_phase := (if cr_phase s = Running then Aborted else cr_phase s)\<rparr>"

definition client_unregister :: "'s sync_handle \<Rightarrow> 's client_run \<Rightarrow> 's client_run" where
  "client_unregister sh s = s\<lparr>cr_hub := sh_unregister sh (k_peer (cr_link s)) (cr_hub s)\<rparr>"

text \<open>\<^verbatim>\<open>ClosedSignal::wait\<close>: enable, load the flag, await. A waiter that nobody woke stays.\<close>

definition wait_next :: "bool \<Rightarrow> waiter \<Rightarrow> waiter" where
  "wait_next closed w =
     (case w of
        Arriving \<Rightarrow> Enabled False
      | Enabled woken \<Rightarrow> if closed then Returned else Waiting woken
      | Waiting woken \<Rightarrow> if woken then Returned else Waiting False
      | Returned \<Rightarrow> Returned)"

definition wait_step :: "nat \<Rightarrow> 's client_run \<Rightarrow> 's client_run" where
  "wait_step i s = s\<lparr>cr_waiters := (cr_waiters s)(i := wait_next (cr_flag s) (cr_waiters s i))\<rparr>"

inductive client_step :: "codec \<Rightarrow> 's sync_handle \<Rightarrow> 's client_run \<Rightarrow> 's client_run \<Rightarrow> bool"
  for fc :: codec and sh :: "'s sync_handle" where
  reads: "cr_phase s = Running \<Longrightarrow> client_step fc sh s (client_reader fc sh s)"
| flags: "cr_phase s = Unregistered \<Longrightarrow> client_step fc sh s (client_flag s)"
| notifies: "cr_phase s = Flagged \<Longrightarrow> client_step fc sh s (client_notify s)"
| writes: "k_writing (cr_link s) \<Longrightarrow> client_step fc sh s (client_writer fc s)"
| syncs: "k_notifying (cr_link s) \<Longrightarrow> client_step fc sh s (client_notifier sh s)"
| aborts: "client_step fc sh s (client_abort s)"
| unregisters: "cr_close s \<Longrightarrow> client_step fc sh s (client_unregister sh s)"
| waits: "client_step fc sh s (wait_step i s)"
| others: "client_step fc sh s (s\<lparr>cr_hub := h\<rparr>)"

inductive client_reached :: "codec \<Rightarrow> 's sync_handle \<Rightarrow> link \<Rightarrow> 's \<Rightarrow> 's client_run \<Rightarrow> bool"
  for fc :: codec and sh :: "'s sync_handle" and l :: link and h :: 's where
  begins: "client_reached fc sh l h (client_begin l h)"
| steps: "client_reached fc sh l h s \<Longrightarrow> client_step fc sh s t \<Longrightarrow> client_reached fc sh l h t"

section \<open>No wake-up is lost\<close>

text \<open>
  The flag is up exactly behind the loop of the reader; nobody returns before it is up; and once
  the waiters are woken, none is left that looked at the flag too early.
\<close>

definition signal_ok :: "'s client_run \<Rightarrow> bool" where
  "signal_ok s \<longleftrightarrow>
     (cr_flag s \<longleftrightarrow> cr_phase s = Flagged \<or> cr_phase s = Finished) \<and>
     (\<forall>i. cr_waiters s i = Returned \<longrightarrow> cr_flag s) \<and>
     (\<forall>i. cr_waiters s i = Enabled True \<or> cr_waiters s i = Waiting True \<longrightarrow> cr_phase s = Finished) \<and>
     (cr_phase s = Finished \<longrightarrow> (\<forall>i. cr_waiters s i \<noteq> Waiting False))"

lemma wake_simps [simp]:
  "wake w = Returned \<longleftrightarrow> w = Returned"
  "wake w \<noteq> Waiting False"
  by (cases w; simp)+

lemma signal_ok_wait:
  assumes "signal_ok s"
  shows "signal_ok (wait_step i s)"
proof (cases "cr_waiters s i")
  case Arriving
  with assms show ?thesis by (auto simp: signal_ok_def wait_step_def wait_next_def)
next
  case (Enabled woken)
  with assms show ?thesis by (cases "cr_flag s") (auto simp: signal_ok_def wait_step_def wait_next_def)
next
  case (Waiting woken)
  with assms show ?thesis by (cases woken) (auto simp: signal_ok_def wait_step_def wait_next_def)
next
  case Returned
  with assms show ?thesis by (auto simp: signal_ok_def wait_step_def wait_next_def)
qed

lemma signal_ok_step: "client_step fc sh s t \<Longrightarrow> signal_ok s \<Longrightarrow> signal_ok t"
proof (induction rule: client_step.induct)
  case (waits s i)
  then show ?case by (rule signal_ok_wait)
qed (auto simp: signal_ok_def client_reader_def client_flag_def client_notify_def client_writer_def
    client_notifier_def client_abort_def client_unregister_def split: prod.splits)

lemma client_reached_ok: "client_reached fc sh l h s \<Longrightarrow> signal_ok s"
proof (induction rule: client_reached.induct)
  case begins
  then show ?case by (simp add: signal_ok_def client_begin_def)
next
  case (steps s t)
  then show ?case using signal_ok_step by blast
qed

lemma wait_returns:
  assumes "signal_ok s" "cr_phase s = Finished"
  shows "cr_waiters ((wait_step i ^^ 2) s) i = Returned"
proof -
  have f: "cr_flag s" "cr_waiters s i \<noteq> Waiting False" using assms by (auto simp: signal_ok_def)
  then show ?thesis
    by (cases "cr_waiters s i") (auto simp: wait_step_def wait_next_def numeral_2_eq_2)
qed

text \<open>
  A reader that meets the end of its stream finishes with its next three steps, and the peer is
  unregistered before anybody can see the flag.
\<close>

definition client_ends :: "codec \<Rightarrow> 's sync_handle \<Rightarrow> 's client_run \<Rightarrow> 's client_run" where
  "client_ends fc sh s = client_notify (client_flag (client_reader fc sh s))"

lemma client_ends_reached:
  assumes "client_reached fc sh l h s" "cr_phase s = Running" "c_in (k_conn (cr_link s)) = []"
  shows "client_reached fc sh l h (client_ends fc sh s)"
    "cr_phase (client_ends fc sh s) = Finished"
    "cr_hub (client_ends fc sh s) = sh_unregister sh (k_peer (cr_link s)) (cr_hub s)"
proof -
  have u: "cr_phase (client_reader fc sh s) = Unregistered"
    "cr_hub (client_reader fc sh s) = sh_unregister sh (k_peer (cr_link s)) (cr_hub s)"
    using assms(3) by (simp_all add: client_reader_def reader_step_def stop_reader_def)
  have "client_reached fc sh l h (client_reader fc sh s)"
    by (rule client_reached.steps [OF assms(1) client_step.reads [OF assms(2)]])
  then have "client_reached fc sh l h (client_flag (client_reader fc sh s))"
    by (rule client_reached.steps) (rule client_step.flags [OF u(1)])
  then show "client_reached fc sh l h (client_ends fc sh s)" unfolding client_ends_def
    by (rule client_reached.steps) (rule client_step.notifies, simp add: client_flag_def)
  show "cr_phase (client_ends fc sh s) = Finished"
    "cr_hub (client_ends fc sh s) = sh_unregister sh (k_peer (cr_link s)) (cr_hub s)"
    using u(2) by (simp_all add: client_ends_def client_notify_def client_flag_def)
qed

text \<open>
  \<^verbatim>\<open>close\<close> aborts the reader before it can store the flag: who waits then waits for ever.
\<close>

lemma aborted_stays:
  assumes "client_step fc sh s t" "cr_phase s = Aborted" "\<not> cr_flag s" "cr_waiters s i = Waiting False"
  shows "cr_phase t = Aborted \<and> \<not> cr_flag t \<and> cr_waiters t i = Waiting False"
  using assms
  by (induction rule: client_step.induct)
    (auto simp: client_writer_def client_notifier_def client_abort_def client_unregister_def wait_step_def
      wait_next_def split: prod.splits)

lemma aborted_strands:
  assumes "(client_step fc sh)\<^sup>*\<^sup>* s t" "cr_phase s = Aborted" "\<not> cr_flag s" "cr_waiters s i = Waiting False"
  shows "cr_waiters t i = Waiting False"
proof -
  from assms(1) have "cr_phase t = Aborted \<and> \<not> cr_flag t \<and> cr_waiters t i = Waiting False"
    by (induction rule: rtranclp_induct) (use assms(2-4) aborted_stays in blast)+
  then show ?thesis by blast
qed

section \<open>The signal of a closed connection\<close>


text \<open>A connection whose stream has ended, and one that waits for its end.\<close>

definition ended_link :: link where
  "ended_link =
     \<lparr>k_peer = 7, k_pubkey = [], k_conn = fresh_conn [], k_queue = [], k_reading = True, k_writing = True,
      k_notifying = True, k_close_sent = False\<rparr>"


end
