(* ===== verification/HostNative.thy ===== *)
theory HostNative
  imports StoreFiles "HOL-Library.Char_ord" "HOL-Library.List_Lexorder"
begin

text \<open>
  What the core asks of its host (\<^verbatim>\<open>host/*.rs\<close>), the native host (\<^verbatim>\<open>host/native/*.rs\<close>), the rest of
  \<^verbatim>\<open>tls.rs\<close>, and the streams of \<^verbatim>\<open>net/transport.rs\<close>. The interface of a bound directory is a locale;
  the native adapter is its instance. \<^verbatim>\<open>rcgen\<close>, \<^verbatim>\<open>rustls\<close> and the streams of \<^verbatim>\<open>tokio\<close> are
  parameters.
\<close>

section \<open>Listing a directory\<close>

record dir_entry =
  de_path :: fpath
  de_is_dir :: bool
  de_size :: nat

text \<open>\<open>rd\<close> lists the entries of a directory in the order of the file system.\<close>

definition fs_read_dir :: "(disk \<Rightarrow> fpath \<Rightarrow> fpath list) \<Rightarrow> fpath \<Rightarrow> (disk, fpath list) action" where
  "fs_read_dir rd p d =
     (if faulty d then (Err io_fault, tick d)
      else if is_dir d p then (Ok (rd d p), tick d)
      else (Err (if d_nodes d p = None then io_not_found else io_other), tick d))"

text \<open>The size the file system reports for a directory is \<open>ds\<close>.\<close>

definition fs_metadata :: "(fpath \<Rightarrow> nat) \<Rightarrow> fpath \<Rightarrow> (disk, bool \<times> nat) action" where
  "fs_metadata ds p d =
     (if faulty d then (Err io_fault, tick d)
      else if is_dir d p then (Ok (True, ds p), tick d)
      else case file_at d p of
        Some bs \<Rightarrow> (Ok (False, length bs), tick d)
      | None \<Rightarrow> (Err io_not_found, tick d))"

definition list_entry :: "(fpath \<Rightarrow> nat) \<Rightarrow> fpath \<Rightarrow> (disk, dir_entry option) action" where
  "list_entry ds q =
     andthen (fs_metadata ds q) (\<lambda>(dir, size). ret (Some \<lparr>de_path = q, de_is_dir = dir, de_size = size\<rparr>))"

definition adapter_list ::
    "(disk \<Rightarrow> fpath \<Rightarrow> fpath list) \<Rightarrow> (fpath \<Rightarrow> nat) \<Rightarrow> fpath \<Rightarrow> (disk, dir_entry list) action" where
  "adapter_list rd ds p d =
     (case fs_read_dir rd p d of
        (Inl x, e) \<Rightarrow> (if x = io_not_found then Ok [] else Err x, e)
      | (Inr qs, e) \<Rightarrow> collect qs (list_entry ds) e)"

definition children :: "disk \<Rightarrow> fpath \<Rightarrow> fpath set" where
  "children d p = {q. q \<noteq> [] \<and> butlast q = p \<and> d_nodes d q \<noteq> None}"

locale dir_reader =
  fixes rd :: "disk \<Rightarrow> fpath \<Rightarrow> fpath list"
  assumes entries: "finite (children d p) \<Longrightarrow> set (rd d p) = children d p"

definition no_faults :: "disk \<Rightarrow> bool" where
  "no_faults d \<longleftrightarrow> (\<forall>n. \<not> d_fault d n)"

lemma no_faults_tick [simp]: "no_faults (tick d) = no_faults d"
  by (simp add: no_faults_def)

lemma is_dir_tick [simp]: "is_dir (tick d) p = is_dir d p"
  by (simp add: is_dir_def)

definition entry_of :: "(fpath \<Rightarrow> nat) \<Rightarrow> disk \<Rightarrow> fpath \<Rightarrow> dir_entry" where
  "entry_of ds d q =
     \<lparr>de_path = q, de_is_dir = is_dir d q,
      de_size = (if is_dir d q then ds q else length (unwrap_or [] (file_at d q)))\<rparr>"

lemma list_entry_run:
  assumes "no_faults d" "d_nodes d q \<noteq> None"
  shows "list_entry ds q d = (Ok (Some (entry_of ds d q)), tick d)"
proof -
  obtain n where n: "d_nodes d q = Some n" using assms(2) by auto
  have "\<not> faulty d" using assms(1) by (simp add: no_faults_def)
  then show ?thesis
    using n by (cases n) (auto simp: list_entry_def andthen_run ret_run fs_metadata_def entry_of_def is_dir_def file_at_def)
qed

lemma collect_metadata:
  assumes "no_faults d" "\<forall>q \<in> set qs. d_nodes d q \<noteq> None"
  shows "\<exists>e. collect qs (list_entry ds) d = (Ok (map (entry_of ds d) qs), e)"
  using assms
proof (induction qs arbitrary: d)
  case Nil
  then show ?case by (simp add: ret_run)
next
  case (Cons q qs)
  have same: "entry_of ds (tick d) = entry_of ds d" by (simp add: entry_of_def fun_eq_iff)
  from Cons.IH [of "tick d"] Cons.prems obtain e where
    "collect qs (list_entry ds) (tick d) = (Ok (map (entry_of ds d) qs), e)" unfolding same by auto
  then show ?case using list_entry_run [OF Cons.prems(1)] Cons.prems(2) by (simp add: andthen_run ret_run)
qed

text \<open>On a disk without faults a listing names exactly the entries, with their kinds and sizes.\<close>

lemma adapter_list_exact:
  assumes "dir_reader rd" "no_faults d" "is_dir d p" "finite (children d p)"
  obtains e where "adapter_list rd ds p d = (Ok (map (entry_of ds d) (rd d p)), e)" "set (rd d p) = children d p"
proof -
  have s: "set (rd d p) = children d p" by (rule dir_reader.entries [OF assms(1,4)])
  have r: "fs_read_dir rd p d = (Ok (rd d p), tick d)"
    using assms(2,3) by (simp add: fs_read_dir_def no_faults_def)
  have same: "entry_of ds (tick d) = entry_of ds d" by (simp add: entry_of_def fun_eq_iff)
  have "\<forall>q \<in> set (rd d p). d_nodes (tick d) q \<noteq> None" unfolding s by (simp add: children_def)
  then obtain e where "adapter_list rd ds p d = (Ok (map (entry_of ds (tick d)) (rd d p)), e)"
    using collect_metadata [of "tick d" "rd d p" ds] assms(2) r by (auto simp: adapter_list_def)
  then show thesis unfolding same using s that by blast
qed

text \<open>A reader that sorts by name.\<close>

interpretation sorted_reader: dir_reader "\<lambda>d p. sorted_list_of_set (children d p)"
  by unfold_locales simp

section \<open>The bound directory\<close>

definition map_dir_entry :: "dir_entry \<Rightarrow> dir_entry" where
  "map_dir_entry e = \<lparr>de_path = de_path e, de_is_dir = de_is_dir e, de_size = de_size e\<rparr>"

definition native_list ::
    "(disk \<Rightarrow> fpath \<Rightarrow> fpath list) \<Rightarrow> (fpath \<Rightarrow> nat) \<Rightarrow> fpath \<Rightarrow> (disk, dir_entry list) action" where
  "native_list rd ds p = andthen (adapter_list rd ds p) (\<lambda>es. ret (map map_dir_entry es))"

definition native_read :: "fpath \<Rightarrow> (disk, byte list) action" where
  "native_read p = adapter_read p"

definition native_write :: "fpath \<Rightarrow> byte list \<Rightarrow> (disk, unit) action" where
  "native_write p bs = adapter_write p bs"

definition native_delete :: "fpath \<Rightarrow> (disk, unit) action" where
  "native_delete p = adapter_delete p"

definition native_exists :: "fpath \<Rightarrow> (disk, bool) action" where
  "native_exists p = adapter_exists p"

definition native_hash :: "crypto \<Rightarrow> fpath \<Rightarrow> (disk, string) action" where
  "native_hash c p = adapter_hash c p"

text \<open>The forwarding task of a watcher stops at the first event the host does not take.\<close>

datatype host_event = HostTouched fpath | HostRemoved fpath | HostRenamed fpath fpath

fun map_event :: "fs_event \<Rightarrow> host_event" where
  "map_event (Touched p) = HostTouched p"
| "map_event (Removed p) = HostRemoved p"
| "map_event (Renamed p q) = HostRenamed p q"

fun forward_events :: "(nat \<Rightarrow> bool) \<Rightarrow> nat \<Rightarrow> fs_event list \<Rightarrow> host_event list" where
  "forward_events open n [] = []"
| "forward_events open n (ev # evs) = (if open n then map_event ev # forward_events open (Suc n) evs else [])"

lemma forward_all: "(\<And>n. open n) \<Longrightarrow> forward_events open n evs = map map_event evs"
  by (induction evs arbitrary: n) simp_all

locale fs_adapter =
  fixes fetch :: "fpath \<Rightarrow> ('s, byte list) action"
    and store :: "fpath \<Rightarrow> byte list \<Rightarrow> ('s, unit) action"
    and drop_file :: "fpath \<Rightarrow> ('s, unit) action"
    and content :: "'s \<Rightarrow> fpath \<Rightarrow> byte list option"
    and scratch :: "fpath \<Rightarrow> fpath"
  assumes read_law: "fetch p s = (r, t) \<Longrightarrow> content t = content s \<and> (\<forall>bs. r = Ok bs \<longrightarrow> content s p = Some bs)"
    and write_law: "store p bs s = (u, t) \<Longrightarrow>
      (u = Ok () \<and> content t p = Some bs \<or> (\<exists>x. u = Err x) \<and> content t p = content s p) \<and>
      (\<forall>q. q \<noteq> p \<and> q \<noteq> scratch p \<longrightarrow> content t q = content s q)"
    and delete_law: "drop_file p s = (u, t) \<Longrightarrow>
      (u = Ok () \<and> content t p = None \<or> (\<exists>x. u = Err x) \<and> content t p = content s p) \<and>
      (\<forall>q. q \<noteq> p \<longrightarrow> content t q = content s q)"
begin

lemma stored_then_fetched:
  assumes "store p bs s = (Ok (), t)" "fetch p t = (Ok bs', t')"
  shows "bs' = bs"
  using write_law [OF assms(1)] read_law [OF assms(2)] by auto

lemma dropped_then_fetched:
  assumes "drop_file p s = (Ok (), t)" "fetch p t = (r, t')"
  shows "\<not> is_ok r"
  using delete_law [OF assms(1)] read_law [OF assms(2)] by (cases r) auto

text \<open>A run of writes and deletions, each of which may fail, changes nothing outside its paths.\<close>

fun changes :: "(fpath \<times> byte list option) list \<Rightarrow> 's \<Rightarrow> 's" where
  "changes [] s = s"
| "changes ((p, Some bs) # cs) s = changes cs (snd (store p bs s))"
| "changes ((p, None) # cs) s = changes cs (snd (drop_file p s))"

lemma changes_frame:
  assumes "\<forall>(p, x) \<in> set cs. q \<noteq> p \<and> q \<noteq> scratch p"
  shows "content (changes cs s) q = content s q"
  using assms
proof (induction cs s rule: changes.induct)
  case (2 p bs cs s)
  then show ?case using write_law [of p bs s] by (cases "store p bs s") auto
next
  case (3 p cs s)
  then show ?case using delete_law [of p s] by (cases "drop_file p s") auto
qed simp

end

interpretation native_fs: fs_adapter native_read native_write native_delete file_at agentsync_tmp
proof
  fix p d r e
  assume "native_read p d = (r, e)"
  then show "file_at e = file_at d \<and> (\<forall>bs. r = Ok bs \<longrightarrow> file_at d p = Some bs)"
    by (auto simp: native_read_def adapter_read_def fs_read_def file_at_def fun_eq_iff
        split: if_splits option.splits file_node.splits)
next
  fix p bs d u e
  assume "native_write p bs d = (u, e)"
  from adapter_write_atomic [OF this [unfolded native_write_def]]
  show "(u = Ok () \<and> file_at e p = Some bs \<or> (\<exists>x. u = Err x) \<and> file_at e p = file_at d p) \<and>
      (\<forall>q. q \<noteq> p \<and> q \<noteq> agentsync_tmp p \<longrightarrow> file_at e q = file_at d q)" by blast
next
  fix p d u e
  assume "native_delete p d = (u, e)"
  note l = adapter_delete_files [OF this [unfolded native_delete_def]]
  have "u = Ok () \<or> (\<exists>x. u = Err x)" by (cases u) simp_all
  then show "(u = Ok () \<and> file_at e p = None \<or> (\<exists>x. u = Err x) \<and> file_at e p = file_at d p) \<and>
      (\<forall>q. q \<noteq> p \<longrightarrow> file_at e q = file_at d q)" using l by blast
qed

section \<open>Storage\<close>

definition native_doc_ensure :: "fpath \<Rightarrow> (disk, unit) action" where
  "native_doc_ensure root =
     andthen (fs_create_dir_all root) (\<lambda>_.
     andthen (fs_create_dir_all (root @ [''snapshots''])) (\<lambda>_.
     fs_create_dir_all (root @ [''blobs''])))"

definition native_blob_has :: "fpath \<Rightarrow> string \<Rightarrow> (disk, bool) action" where
  "native_blob_has root hash = blob_has root hash"

definition native_blob_get :: "fpath \<Rightarrow> string \<Rightarrow> (disk, byte list) action" where
  "native_blob_get root hash = blob_get root hash"

definition native_blob_put :: "crypto \<Rightarrow> fpath \<Rightarrow> byte list \<Rightarrow> (disk, string) action" where
  "native_blob_put c root bs = blob_put c root bs"

definition native_blob_put_with_hash :: "crypto \<Rightarrow> fpath \<Rightarrow> string \<Rightarrow> byte list \<Rightarrow> (disk, unit) action" where
  "native_blob_put_with_hash c root hash bs = blob_put_with_hash c root hash bs"

definition native_blob_ensure :: "fpath \<Rightarrow> (disk, unit) action" where
  "native_blob_ensure root = blob_ensure_dirs root"

definition native_snapshots_ensure :: "fpath \<Rightarrow> (disk, unit) action" where
  "native_snapshots_ensure root = fs_create_dir_all (root @ [''snapshots''])"

text \<open>The host makes the same directories as the store of the vault.\<close>

lemma native_doc_ensure_same: "native_doc_ensure root = doc_ensure_dirs root"
  by (simp add: native_doc_ensure_def doc_ensure_dirs_def)

section \<open>Certificates\<close>

text \<open>\<^verbatim>\<open>rcgen\<close>: parameters for names, a key pair, and the certificate signed with it.\<close>

record 'k rcgen =
  rc_params :: "string list \<Rightarrow> unit result"
  rc_generate :: "'k result"
  rc_self_signed :: "string list \<Rightarrow> int \<Rightarrow> int \<Rightarrow> 'k \<Rightarrow> byte list result"
  rc_serialize :: "'k \<Rightarrow> byte list"

definition rcgen_err :: "string \<Rightarrow> (error \<Rightarrow> string) \<Rightarrow> error \<Rightarrow> error" where
  "rcgen_err what shown e = Other (''rcgen '' @ what @ '': '' @ shown e)"

fun relabel :: "(error \<Rightarrow> error) \<Rightarrow> 'a result \<Rightarrow> 'a result" where
  "relabel f (Inl e) = Inl (f e)"
| "relabel f (Inr x) = Inr x"

text \<open>\<open>now\<close> is in seconds; the certificate is valid for ten years of 365 days.\<close>

definition generate_self_signed ::
    "'k rcgen \<Rightarrow> (error \<Rightarrow> string) \<Rightarrow> int \<Rightarrow> (byte list \<times> byte list) result" where
  "generate_self_signed rc shown now =
     (let names = [''agentsync.local'']; not_after = now + 10 * 365 * 24 * 3600 in
      bind_result (relabel (rcgen_err ''params'' shown) (rc_params rc names)) (\<lambda>_.
      bind_result (relabel (rcgen_err ''keypair'' shown) (rc_generate rc)) (\<lambda>key_pair.
      bind_result (relabel (rcgen_err ''sign'' shown) (rc_self_signed rc names now not_after key_pair)) (\<lambda>cert_der.
      Ok (cert_der, rc_serialize rc key_pair)))))"

text \<open>\<^verbatim>\<open>rustls\<close> turns a chain and a key into a configuration.\<close>

definition server_config ::
    "(byte list list \<Rightarrow> byte list \<Rightarrow> 'cfg result) \<Rightarrow> (error \<Rightarrow> string) \<Rightarrow> byte list \<Rightarrow> byte list \<Rightarrow> 'cfg result" where
  "server_config single_cert shown cert_der key_der =
     relabel (\<lambda>e. Other (''rustls server cert: '' @ shown e)) (single_cert [cert_der] key_der)"

text \<open>\<^verbatim>\<open>AcceptAny\<close>: every certificate and every signature is accepted.\<close>

definition verify_server_cert :: "byte list \<Rightarrow> byte list list \<Rightarrow> string \<Rightarrow> byte list \<Rightarrow> int \<Rightarrow> unit result" where
  "verify_server_cert end_entity intermediates server_name ocsp now = Ok ()"

definition verify_tls12_signature :: "byte list \<Rightarrow> byte list \<Rightarrow> byte list \<Rightarrow> unit result" where
  "verify_tls12_signature message cert dss = Ok ()"

definition verify_tls13_signature :: "byte list \<Rightarrow> byte list \<Rightarrow> byte list \<Rightarrow> unit result" where
  "verify_tls13_signature message cert dss = Ok ()"

datatype signature_scheme =
    ED25519 | ECDSA_NISTP256_SHA256 | ECDSA_NISTP384_SHA384 | RSA_PSS_SHA256 | RSA_PSS_SHA384
  | RSA_PSS_SHA512 | RSA_PKCS1_SHA256 | RSA_PKCS1_SHA384 | RSA_PKCS1_SHA512

definition supported_verify_schemes :: "signature_scheme list" where
  "supported_verify_schemes =
     [ED25519, ECDSA_NISTP256_SHA256, ECDSA_NISTP384_SHA384, RSA_PSS_SHA256, RSA_PSS_SHA384,
      RSA_PSS_SHA512, RSA_PKCS1_SHA256, RSA_PKCS1_SHA384, RSA_PKCS1_SHA512]"

record tls_cert =
  tc_cert_der :: "byte list"
  tc_key_der :: "byte list"

definition native_tls_load_or_generate ::
    "(byte list \<times> byte list) result \<Rightarrow> fpath \<Rightarrow> (disk, tls_cert) action" where
  "native_tls_load_or_generate generated dir =
     andthen (load_or_generate_self_signed generated dir) (\<lambda>(cert_der, key_der).
     ret \<lparr>tc_cert_der = cert_der, tc_key_der = key_der\<rparr>)"

lemma generate_self_signed_Ok:
  "generate_self_signed rc shown now = Ok (crt, key) \<longleftrightarrow>
     (\<exists>k. rc_params rc [''agentsync.local''] = Ok () \<and> rc_generate rc = Ok k \<and>
        rc_self_signed rc [''agentsync.local''] now (now + 315360000) k = Ok crt \<and> key = rc_serialize rc k)"
  by (cases "rc_params rc [''agentsync.local'']"; cases "rc_generate rc";
      cases "rc_self_signed rc [''agentsync.local''] now (now + 315360000) (projr (rc_generate rc))")
    (auto simp: generate_self_signed_def Let_def)

section \<open>Clock, signer and randomness\<close>

text \<open>Milliseconds since the epoch, cut to 64 bits; 0 for a clock before the epoch.\<close>

definition system_now_ms :: "nat option \<Rightarrow> int" where
  "system_now_ms since_epoch =
     (case since_epoch of Some ms \<Rightarrow> sint (word_of_nat ms :: 64 word) | None \<Rightarrow> 0)"

lemma system_now_ms_exact: "ms < 2 ^ 63 \<Longrightarrow> system_now_ms (Some ms) = int ms"
  by (simp add: system_now_ms_def sint_uint unsigned_of_nat take_bit_nat_eq_self signed_take_bit_int_eq_self_iff)

definition signer_sign :: "agent \<Rightarrow> crypto \<Rightarrow> identity \<Rightarrow> byte list \<Rightarrow> byte list result" where
  "signer_sign agent c i msg = identity_sign agent c i msg"

definition signer_pubkey :: "identity \<Rightarrow> pubkey" where
  "signer_pubkey i = identity_pubkey i"

definition fill_bytes :: "(nat \<Rightarrow> byte) \<Rightarrow> byte list \<Rightarrow> byte list" where
  "fill_bytes rng buf = map rng [0..<length buf]"

section \<open>Transports that are not wired yet\<close>

definition native_connect :: "string \<Rightarrow> pubkey option \<Rightarrow> unit result" where
  "native_connect url expected =
     Err (Other ''NativeTransport::connect not yet wired (cutover lands in Phase 1.3)'')"

definition native_bind :: "string \<Rightarrow> (byte list \<times> byte list) option \<Rightarrow> unit result" where
  "native_bind addr tls =
     Err (Other ''NativeListener::bind not yet wired (cutover lands in Phase 1.3)'')"

section \<open>Plain and encrypted streams\<close>

datatype 'a poll = Ready 'a | Blocked

record 's stream_ops =
  so_read :: "nat \<Rightarrow> 's \<Rightarrow> byte list result poll \<times> 's"
  so_write :: "byte list \<Rightarrow> 's \<Rightarrow> nat result poll \<times> 's"
  so_flush :: "'s \<Rightarrow> unit result poll \<times> 's"
  so_shutdown :: "'s \<Rightarrow> unit result poll \<times> 's"

datatype ('t, 's) client_stream = ClientPlain 't | ClientTls 's
datatype ('t, 's) server_stream = ServerPlain 't | ServerTls 's

fun client_poll_read ::
    "'t stream_ops \<Rightarrow> 's stream_ops \<Rightarrow> nat \<Rightarrow> ('t, 's) client_stream \<Rightarrow> byte list result poll \<times> ('t, 's) client_stream" where
  "client_poll_read tcp tls n (ClientPlain s) = map_prod id ClientPlain (so_read tcp n s)"
| "client_poll_read tcp tls n (ClientTls s) = map_prod id ClientTls (so_read tls n s)"

fun client_poll_write ::
    "'t stream_ops \<Rightarrow> 's stream_ops \<Rightarrow> byte list \<Rightarrow> ('t, 's) client_stream \<Rightarrow> nat result poll \<times> ('t, 's) client_stream" where
  "client_poll_write tcp tls bs (ClientPlain s) = map_prod id ClientPlain (so_write tcp bs s)"
| "client_poll_write tcp tls bs (ClientTls s) = map_prod id ClientTls (so_write tls bs s)"

fun client_poll_flush ::
    "'t stream_ops \<Rightarrow> 's stream_ops \<Rightarrow> ('t, 's) client_stream \<Rightarrow> unit result poll \<times> ('t, 's) client_stream" where
  "client_poll_flush tcp tls (ClientPlain s) = map_prod id ClientPlain (so_flush tcp s)"
| "client_poll_flush tcp tls (ClientTls s) = map_prod id ClientTls (so_flush tls s)"

fun client_poll_shutdown ::
    "'t stream_ops \<Rightarrow> 's stream_ops \<Rightarrow> ('t, 's) client_stream \<Rightarrow> unit result poll \<times> ('t, 's) client_stream" where
  "client_poll_shutdown tcp tls (ClientPlain s) = map_prod id ClientPlain (so_shutdown tcp s)"
| "client_poll_shutdown tcp tls (ClientTls s) = map_prod id ClientTls (so_shutdown tls s)"

fun server_poll_read ::
    "'t stream_ops \<Rightarrow> 's stream_ops \<Rightarrow> nat \<Rightarrow> ('t, 's) server_stream \<Rightarrow> byte list result poll \<times> ('t, 's) server_stream" where
  "server_poll_read tcp tls n (ServerPlain s) = map_prod id ServerPlain (so_read tcp n s)"
| "server_poll_read tcp tls n (ServerTls s) = map_prod id ServerTls (so_read tls n s)"

fun server_poll_write ::
    "'t stream_ops \<Rightarrow> 's stream_ops \<Rightarrow> byte list \<Rightarrow> ('t, 's) server_stream \<Rightarrow> nat result poll \<times> ('t, 's) server_stream" where
  "server_poll_write tcp tls bs (ServerPlain s) = map_prod id ServerPlain (so_write tcp bs s)"
| "server_poll_write tcp tls bs (ServerTls s) = map_prod id ServerTls (so_write tls bs s)"

fun server_poll_flush ::
    "'t stream_ops \<Rightarrow> 's stream_ops \<Rightarrow> ('t, 's) server_stream \<Rightarrow> unit result poll \<times> ('t, 's) server_stream" where
  "server_poll_flush tcp tls (ServerPlain s) = map_prod id ServerPlain (so_flush tcp s)"
| "server_poll_flush tcp tls (ServerTls s) = map_prod id ServerTls (so_flush tls s)"

fun server_poll_shutdown ::
    "'t stream_ops \<Rightarrow> 's stream_ops \<Rightarrow> ('t, 's) server_stream \<Rightarrow> unit result poll \<times> ('t, 's) server_stream" where
  "server_poll_shutdown tcp tls (ServerPlain s) = map_prod id ServerPlain (so_shutdown tcp s)"
| "server_poll_shutdown tcp tls (ServerTls s) = map_prod id ServerTls (so_shutdown tls s)"

text \<open>A stream never changes between plain and encrypted.\<close>

fun encrypted :: "('t, 's) client_stream \<Rightarrow> bool" where
  "encrypted (ClientPlain _) = False"
| "encrypted (ClientTls _) = True"

lemma client_stream_stays:
  "encrypted (snd (client_poll_read tcp tls n s)) = encrypted s"
  "encrypted (snd (client_poll_write tcp tls bs s)) = encrypted s"
  "encrypted (snd (client_poll_flush tcp tls s)) = encrypted s"
  "encrypted (snd (client_poll_shutdown tcp tls s)) = encrypted s"
  by (cases s; simp)+

end
