(* ===== verification/ServerTasks.thy ===== *)
theory ServerTasks
  imports Sessions HostNative
begin

text \<open>
  The life of a hub's listener (\<^verbatim>\<open>Server\<close> of \<^verbatim>\<open>net/server.rs\<close>): binding, the loop that accepts
  connections, \<^verbatim>\<open>shutdown\<close> and \<^verbatim>\<open>drop\<close>. The tasks are told to stop through a broadcast channel of
  \<^verbatim>\<open>tokio\<close>, whose receivers get what is sent after they have subscribed; a peer's task subscribes
  when its connection is accepted. Every action between two points where a task may be suspended
  is one step, and the steps interleave freely.
\<close>

section \<open>State\<close>

text \<open>
  The accept loop waits, has a connection in hand, or has ended. The server is running, waits for
  its accept loop, waits for the peers, or is gone.
\<close>

datatype accept_phase = Accepting | InHand | Ended

datatype server_phase = Serving | Joining | Draining | Gone

text \<open>
  A peer's task: the number of signals sent before it subscribed, and whether it runs.
  \<open>sr_aborted\<close>: \<^verbatim>\<open>drop\<close> has aborted the accept loop; \<open>sr_late\<close>: \<^verbatim>\<open>shutdown\<close> gave up waiting for it.
\<close>

record serving =
  sr_accept :: accept_phase
  sr_enforcing :: bool
  sr_sent :: nat
  sr_peers :: "(nat \<times> bool) list"
  sr_phase :: server_phase
  sr_aborted :: bool
  sr_late :: bool

record server =
  sb_addr :: string
  sb_scheme :: string
  sb_cert_fp :: "byte list"
  sb_run :: serving

definition serve_start :: serving where
  "serve_start = \<lparr>sr_accept = Accepting, sr_enforcing = True, sr_sent = 0, sr_peers = [], sr_phase = Serving,
     sr_aborted = False, sr_late = False\<rparr>"

text \<open>
  \<open>listen\<close> binds the socket and gives the address it got; \<open>single_cert\<close> is the configuration of
  \<^verbatim>\<open>rustls\<close>. Nothing runs when either fails. The result has the acceptor, if there is TLS.
\<close>

definition server_bind ::
    "(string \<Rightarrow> string result) \<Rightarrow> (byte list list \<Rightarrow> byte list \<Rightarrow> 'cfg result) \<Rightarrow> (error \<Rightarrow> string) \<Rightarrow> crypto \<Rightarrow>
     string \<Rightarrow> server_tls \<Rightarrow> ('cfg option \<times> server) result" where
  "server_bind listen single_cert shown c addr tls =
     bind_result (listen addr) (\<lambda>bound.
     let scheme = (case tls of TlsEnabled _ _ \<Rightarrow> ''wss'' | TlsDisabled \<Rightarrow> ''ws'') in
     bind_result
       (case tls of
          TlsEnabled cert_der key_der \<Rightarrow> bind_result (server_config single_cert shown cert_der key_der) (\<lambda>cfg. Ok (Some cfg))
        | TlsDisabled \<Rightarrow> Ok None)
       (\<lambda>acceptor. Ok (acceptor, \<lparr>sb_addr = bound, sb_scheme = scheme, sb_cert_fp = server_fp c tls, sb_run = serve_start\<rparr>)))"

text \<open>The transport is encrypted iff the fingerprint is that of a certificate.\<close>

lemma server_bind_Ok:
  assumes "server_bind listen single_cert shown c addr tls = Ok (acceptor, sv)"
  shows "listen addr = Ok (sb_addr sv)" "sb_cert_fp sv = server_fp c tls" "sb_run sv = serve_start"
    "acceptor = None \<longleftrightarrow> tls = TlsDisabled" "sb_scheme sv = ''wss'' \<longleftrightarrow> acceptor \<noteq> None"
  using assms by (auto simp: server_bind_def bind_result_eq_Inr Let_def split: server_tls.splits)

section \<open>Steps\<close>

text \<open>\<^verbatim>\<open>shutdown_tx.send\<close>, and whether a receiver that subscribed after \<open>n\<close> signals has one to read.\<close>

definition send_shutdown :: "serving \<Rightarrow> serving" where
  "send_shutdown s = s\<lparr>sr_sent := Suc (sr_sent s)\<rparr>"

definition signalled :: "serving \<Rightarrow> nat \<Rightarrow> bool" where
  "signalled s n \<longleftrightarrow> n < sr_sent s"

text \<open>
  A connection in hand becomes a task of its own, subscribed before it is spawned. An aborted
  loop ends at the next point where it would be suspended.
\<close>

definition spawn_peer :: "serving \<Rightarrow> serving" where
  "spawn_peer s =
     s\<lparr>sr_peers := sr_peers s @ [(sr_sent s, True)], sr_accept := (if sr_aborted s then Ended else Accepting)\<rparr>"

definition accept_failed :: "serving \<Rightarrow> serving" where
  "accept_failed s = s\<lparr>sr_accept := (if sr_aborted s then Ended else Accepting)\<rparr>"

definition end_peer :: "nat \<Rightarrow> serving \<Rightarrow> serving" where
  "end_peer i s = s\<lparr>sr_peers := (sr_peers s)[i := (fst (sr_peers s ! i), False)]\<rparr>"

text \<open>\<^verbatim>\<open>drop\<close>: the signal, and an abort of the two tasks whose handles are still there.\<close>

definition drop_server :: "bool \<Rightarrow> serving \<Rightarrow> serving" where
  "drop_server handles s =
     (send_shutdown s)\<lparr>sr_phase := Gone,
       sr_aborted := (sr_aborted s \<or> handles),
       sr_accept := (if handles \<and> sr_accept s = Accepting then Ended else sr_accept s),
       sr_enforcing := (sr_enforcing s \<and> \<not> handles)\<rparr>"

text \<open>
  \<^verbatim>\<open>shutdown\<close> sends the signal, takes the two handles and waits two seconds for each task, then
  for each peer; its end drops the server, without the handles.
\<close>

definition shutdown_begin :: "serving \<Rightarrow> serving" where
  "shutdown_begin s = (send_shutdown s)\<lparr>sr_phase := Joining\<rparr>"

definition shutdown_joined :: "serving \<Rightarrow> serving" where
  "shutdown_joined s = s\<lparr>sr_phase := Draining, sr_late := (sr_accept s \<noteq> Ended)\<rparr>"

definition shutdown_end :: "serving \<Rightarrow> serving" where
  "shutdown_end s = drop_server False s"

text \<open>The select of the accept loop is biased: it takes a connection only when there is no signal.\<close>

inductive serve_step :: "serving \<Rightarrow> serving \<Rightarrow> bool" where
  accept_conn: "sr_accept s = Accepting \<Longrightarrow> \<not> signalled s 0 \<Longrightarrow> serve_step s (s\<lparr>sr_accept := InHand\<rparr>)"
| accept_stop: "sr_accept s = Accepting \<Longrightarrow> signalled s 0 \<Longrightarrow> serve_step s (s\<lparr>sr_accept := Ended\<rparr>)"
| spawned: "sr_accept s = InHand \<Longrightarrow> serve_step s (spawn_peer s)"
| failed: "sr_accept s = InHand \<Longrightarrow> serve_step s (accept_failed s)"
| enforcer_stop: "signalled s 0 \<Longrightarrow> serve_step s (s\<lparr>sr_enforcing := False\<rparr>)"
| peer_end: "i < length (sr_peers s) \<Longrightarrow> serve_step s (end_peer i s)"
| shut: "sr_phase s = Serving \<Longrightarrow> serve_step s (shutdown_begin s)"
| joined: "sr_phase s = Joining \<Longrightarrow> serve_step s (shutdown_joined s)"
| shut_end: "sr_phase s = Draining \<Longrightarrow> serve_step s (shutdown_end s)"
| dropped: "sr_phase s = Serving \<Longrightarrow> serve_step s (drop_server True s)"

inductive serve_reachable :: "serving \<Rightarrow> bool" where
  serve_begin: "serve_reachable serve_start"
| serve_next: "serve_reachable s \<Longrightarrow> serve_step s t \<Longrightarrow> serve_reachable t"

inductive_cases serve_stepE: "serve_step s t"

section \<open>Who hears of the end\<close>

definition late_peers :: "serving \<Rightarrow> nat" where
  "late_peers s = length (filter (\<lambda>(n, _). 0 < n) (sr_peers s))"

definition expected_sent :: "serving \<Rightarrow> nat" where
  "expected_sent s = (case sr_phase s of Serving \<Rightarrow> 0 | Joining \<Rightarrow> 1 | Draining \<Rightarrow> 1 | Gone \<Rightarrow> if sr_aborted s then 1 else 2)"

definition serve_inv :: "serving \<Rightarrow> bool" where
  "serve_inv s \<longleftrightarrow> sr_sent s = expected_sent s \<and>
     (\<forall>(n, r) \<in> set (sr_peers s). n \<le> sr_sent s) \<and>
     (sr_sent s = 0 \<longrightarrow> late_peers s = 0) \<and>
     late_peers s + (if sr_accept s = InHand \<and> 0 < sr_sent s then 1 else 0) \<le> 1 \<and>
     (sr_aborted s \<longrightarrow> sr_phase s = Gone \<and> sr_accept s \<noteq> Accepting) \<and>
     (\<not> sr_aborted s \<and> \<not> sr_late s \<and> (sr_phase s = Draining \<or> sr_phase s = Gone) \<longrightarrow>
        sr_accept s = Ended \<and> (\<forall>(n, r) \<in> set (sr_peers s). n \<le> 1))"

lemma serve_inv_start: "serve_inv serve_start"
  by (simp add: serve_inv_def serve_start_def expected_sent_def late_peers_def)

lemma late_end_peer: "i < length (sr_peers s) \<Longrightarrow> late_peers (end_peer i s) = late_peers s"
proof -
  assume i: "i < length (sr_peers s)"
  have "length (filter (\<lambda>(n, _). 0 < n) (xs[i := (fst (xs ! i), False)])) = length (filter (\<lambda>(n, _). 0 < n) xs)"
    if "i < length xs" for xs :: "(nat \<times> bool) list"
    using that by (induction xs arbitrary: i) (auto split: nat.split)
  with i show ?thesis by (simp add: late_peers_def end_peer_def)
qed

lemma end_peer_mem:
  assumes "i < length (sr_peers s)" "(n, r) \<in> set (sr_peers (end_peer i s))"
  obtains q where "(n, q) \<in> set (sr_peers s)"
proof (cases "(n, r) \<in> set (sr_peers s)")
  case False
  with assms have "n = fst (sr_peers s ! i)"
    using set_update_subset_insert [of "sr_peers s" i "(fst (sr_peers s ! i), False)"] by (auto simp: end_peer_def)
  with assms(1) show thesis by (metis nth_mem prod.collapse that)
qed (rule that)

lemma serve_inv_end_peer: "i < length (sr_peers s) \<Longrightarrow> serve_inv s \<Longrightarrow> serve_inv (end_peer i s)"
proof -
  assume i: "i < length (sr_peers s)" and inv: "serve_inv s"
  have same: "sr_sent (end_peer i s) = sr_sent s" "sr_accept (end_peer i s) = sr_accept s"
    "sr_phase (end_peer i s) = sr_phase s" "sr_aborted (end_peer i s) = sr_aborted s" "sr_late (end_peer i s) = sr_late s"
    by (simp_all add: end_peer_def)
  have bound: "\<forall>(n, r) \<in> set (sr_peers (end_peer i s)). n \<le> k" if "\<forall>(n, r) \<in> set (sr_peers s). n \<le> k" for k
    using that end_peer_mem [OF i] by (metis (no_types, lifting) case_prodD case_prodI2)
  show ?thesis
    using inv bound unfolding serve_inv_def same expected_sent_def late_end_peer [OF i] by blast
qed

lemma serve_inv_step: "serve_step s t \<Longrightarrow> serve_inv s \<Longrightarrow> serve_inv t"
proof (induction rule: serve_step.induct)
  case (peer_end i s)
  then show ?case by (rule serve_inv_end_peer)
next
  case (spawned s)
  then show ?case
    by (cases "sr_phase s")
      (auto simp: serve_inv_def spawn_peer_def expected_sent_def late_peers_def split: if_splits)
next
  case (failed s)
  then show ?case
    by (cases "sr_phase s") (auto simp: serve_inv_def accept_failed_def expected_sent_def late_peers_def split: if_splits)
next
  case (dropped s)
  then show ?case
    by (cases "sr_accept s")
      (auto simp: serve_inv_def drop_server_def send_shutdown_def expected_sent_def late_peers_def)
next
  case (shut_end s)
  then show ?case
    by (cases "sr_accept s")
      (auto simp: serve_inv_def shutdown_end_def drop_server_def send_shutdown_def expected_sent_def late_peers_def)
next
  case (shut s)
  then show ?case
    by (auto simp: serve_inv_def shutdown_begin_def send_shutdown_def expected_sent_def late_peers_def)
next
  case (joined s)
  then show ?case
    by (auto simp: serve_inv_def shutdown_joined_def expected_sent_def late_peers_def)
qed (auto simp: serve_inv_def expected_sent_def late_peers_def signalled_def split: server_phase.splits)

lemma serve_reachable_inv: "serve_reachable s \<Longrightarrow> serve_inv s"
  by (induction rule: serve_reachable.induct) (auto intro: serve_inv_start serve_inv_step)

text \<open>The loop that has ended spawns nothing more.\<close>

lemma ended_spawns_none: "serve_step s t \<Longrightarrow> sr_accept s = Ended \<Longrightarrow> length (sr_peers t) = length (sr_peers s)"
  by (induction rule: serve_step.induct)
    (simp_all add: end_peer_def shutdown_begin_def shutdown_joined_def shutdown_end_def drop_server_def send_shutdown_def)

lemma unsignalled_late:
  assumes "0 < sr_sent s"
  shows "length (filter (\<lambda>(n, _). \<not> signalled s n) (sr_peers s)) \<le> late_peers s"
proof -
  have "length (filter (\<lambda>(n, _). \<not> n < sr_sent s) xs) \<le> length (filter (\<lambda>(n, _). 0 < n) xs)" for xs :: "(nat \<times> bool) list"
    using assms by (induction xs) auto
  then show ?thesis by (simp add: late_peers_def signalled_def)
qed

text \<open>
  C22. The end of a hub. Under every interleaving at most one connection, the one the accept loop
  had in hand, becomes a session after the shutdown signal, and at most one session is ever
  without a signal to read. When \<^verbatim>\<open>shutdown\<close> is over and has not given up waiting for the accept
  loop, no session is: the second signal, which the drop at its end sends, reaches that one too,
  and no session begins any more.
\<close>

theorem shutdown_reaches_peers:
  assumes "serve_reachable s"
  shows "length (filter (\<lambda>(n, _). 0 < n) (sr_peers s)) \<le> 1 \<and>
    (0 < sr_sent s \<longrightarrow> length (filter (\<lambda>(n, _). \<not> signalled s n) (sr_peers s)) \<le> 1) \<and>
    (sr_phase s = Gone \<and> \<not> sr_aborted s \<and> \<not> sr_late s \<longrightarrow>
       sr_accept s = Ended \<and> (\<forall>(n, r) \<in> set (sr_peers s). signalled s n) \<and>
       (\<forall>t. serve_step s t \<longrightarrow> length (sr_peers t) = length (sr_peers s)))"
proof (intro conjI impI)
  have inv: "serve_inv s" by (rule serve_reachable_inv [OF assms])
  then have late: "late_peers s \<le> 1" by (simp add: serve_inv_def)
  then show "length (filter (\<lambda>(n, _). 0 < n) (sr_peers s)) \<le> 1" by (simp add: late_peers_def)
  show "length (filter (\<lambda>(n, _). \<not> signalled s n) (sr_peers s)) \<le> 1" if "0 < sr_sent s"
    using unsignalled_late [OF that] late by simp
  assume gone: "sr_phase s = Gone \<and> \<not> sr_aborted s \<and> \<not> sr_late s"
  with inv have e: "sr_accept s = Ended" "\<forall>(n, r) \<in> set (sr_peers s). n \<le> 1" "sr_sent s = 2"
    by (simp_all add: serve_inv_def expected_sent_def)
  then show "sr_accept s = Ended" "\<forall>(n, r) \<in> set (sr_peers s). signalled s n" by (auto simp: signalled_def)
  show "\<forall>t. serve_step s t \<longrightarrow> length (sr_peers t) = length (sr_peers s)" using ended_spawns_none e(1) by blast
qed

text \<open>Two runs with a connection in hand when the end begins: a shutdown, and a drop.\<close>

definition in_hand :: serving where
  "in_hand = serve_start\<lparr>sr_accept := InHand\<rparr>"

lemma in_hand_reached: "serve_reachable in_hand"
  unfolding in_hand_def
  by (rule serve_next [OF serve_begin accept_conn]) (simp_all add: serve_start_def signalled_def)

definition late_shutdown :: serving where
  "late_shutdown = shutdown_end (shutdown_joined ((spawn_peer (shutdown_begin in_hand))\<lparr>sr_accept := Ended\<rparr>))"

lemma late_shutdown_reached: "serve_reachable late_shutdown"
proof -
  note d = in_hand_def serve_start_def shutdown_begin_def send_shutdown_def spawn_peer_def shutdown_joined_def signalled_def
  have 1: "serve_reachable (shutdown_begin in_hand)"
    by (rule serve_next [OF in_hand_reached shut]) (simp add: d)
  have 2: "serve_reachable (spawn_peer (shutdown_begin in_hand))"
    by (rule serve_next [OF 1 spawned]) (simp add: d)
  have 3: "serve_reachable ((spawn_peer (shutdown_begin in_hand))\<lparr>sr_accept := Ended\<rparr>)"
    by (rule serve_next [OF 2 accept_stop]) (simp_all add: d)
  have 4: "serve_reachable (shutdown_joined ((spawn_peer (shutdown_begin in_hand))\<lparr>sr_accept := Ended\<rparr>))"
    by (rule serve_next [OF 3 joined]) (simp add: d)
  show ?thesis unfolding late_shutdown_def by (rule serve_next [OF 4 shut_end]) (simp add: d)
qed

theorem shutdown_reaches_peers_witness:
  "serve_reachable late_shutdown \<and> sr_peers late_shutdown = [(1, True)] \<and> signalled late_shutdown 1 \<and>
   sr_accept late_shutdown = Ended"
proof -
  have s: "sr_peers late_shutdown = [(1, True)]" "sr_phase late_shutdown = Gone" "\<not> sr_aborted late_shutdown"
    "\<not> sr_late late_shutdown"
    by (simp_all add: late_shutdown_def in_hand_def serve_start_def shutdown_begin_def send_shutdown_def spawn_peer_def
        shutdown_joined_def shutdown_end_def drop_server_def)
  with shutdown_reaches_peers [OF late_shutdown_reached] late_shutdown_reached show ?thesis by simp
qed

text \<open>
  A server that is only dropped, as when \<^verbatim>\<open>listen\<close> is called a second time, sends one signal, and
  the connection in hand becomes a session that never reads one.
\<close>

lemma drop_misses_peer:
  "\<exists>s. serve_reachable s \<and> sr_phase s = Gone \<and> sr_accept s = Ended \<and> sr_peers s = [(1, True)] \<and> \<not> signalled s 1"
proof -
  note d = in_hand_def serve_start_def drop_server_def send_shutdown_def spawn_peer_def signalled_def
  have 1: "serve_reachable (drop_server True in_hand)"
    by (rule serve_next [OF in_hand_reached dropped]) (simp add: d)
  have "serve_reachable (spawn_peer (drop_server True in_hand))"
    by (rule serve_next [OF 1 spawned]) (simp add: d)
  then show ?thesis by (intro exI [of _ "spawn_peer (drop_server True in_hand)"]) (simp add: d)
qed

end
