(* ===== verification/HostBundle.thy ===== *)
theory HostBundle
  imports HostNative
begin

text \<open>
  The traits of the host (\<^verbatim>\<open>host/*.rs\<close>) as records of operations, the bundle of the native host
  (\<^verbatim>\<open>host/native/mod.rs\<close>), and the handles of spawned tasks (\<^verbatim>\<open>host/runtime.rs\<close>,
  \<^verbatim>\<open>host/native/runtime.rs\<close>). The storage contracts hold of what the bundle hands out.
\<close>

section \<open>The traits\<close>

record 's doc_storage_ops =
  dso_load :: "('s, byte list option) action"
  dso_save :: "byte list \<Rightarrow> ('s, unit) action"
  dso_ensure_ready :: "('s, unit) action"

record 's blob_storage_ops =
  bso_has :: "string \<Rightarrow> ('s, bool) action"
  bso_get :: "string \<Rightarrow> ('s, byte list) action"
  bso_put :: "byte list \<Rightarrow> ('s, string) action"
  bso_put_with_hash :: "string \<Rightarrow> byte list \<Rightarrow> ('s, unit) action"
  bso_ensure_ready :: "('s, unit) action"

record 's snapshot_storage_ops =
  sso_read :: "('s, host_snapshot list) action"
  sso_write :: "host_snapshot list \<Rightarrow> ('s, unit) action"
  sso_ensure_ready :: "('s, unit) action"

record 's filesystem_ops =
  fso_read :: "fpath \<Rightarrow> ('s, byte list) action"
  fso_write :: "fpath \<Rightarrow> byte list \<Rightarrow> ('s, unit) action"
  fso_delete :: "fpath \<Rightarrow> ('s, unit) action"
  fso_list :: "fpath \<Rightarrow> ('s, dir_entry list) action"
  fso_exists :: "fpath \<Rightarrow> ('s, bool) action"
  fso_hash :: "fpath \<Rightarrow> ('s, string) action"
  fso_create_dir_all :: "fpath \<Rightarrow> ('s, unit) action"
  fso_remove_dir :: "fpath \<Rightarrow> ('s, unit) action"

text \<open>
  \<^verbatim>\<open>trait Host\<close>, its capabilities that a host may lack as options. \<open>'s\<close> is what the operations work on.
\<close>

record 's host_ops =
  ho_now_ms :: int
  ho_fill_bytes :: "byte list \<Rightarrow> byte list"
  ho_transport :: "string \<Rightarrow> pubkey option \<Rightarrow> unit result"
  ho_listener :: "(string \<Rightarrow> (byte list \<times> byte list) option \<Rightarrow> unit result) option"
  ho_doc_storage :: "'s doc_storage_ops"
  ho_blob_storage :: "'s blob_storage_ops"
  ho_snapshot_storage :: "'s snapshot_storage_ops"
  ho_filesystem :: "'s filesystem_ops option"
  ho_tls :: "(fpath \<Rightarrow> ('s, tls_cert) action) option"

section \<open>The native host\<close>

text \<open>The fields of \<^verbatim>\<open>NativeHost\<close> that hold data: the roots of the three stores.\<close>

record native_host =
  nh_doc_storage :: fpath
  nh_blob_storage :: fpath
  nh_snapshot_storage :: fpath

definition native_host_new :: "fpath \<Rightarrow> native_host" where
  "native_host_new storage_path =
     \<lparr>nh_doc_storage = storage_path, nh_blob_storage = storage_path, nh_snapshot_storage = storage_path\<rparr>"

definition native_doc_ops :: "fpath \<Rightarrow> disk doc_storage_ops" where
  "native_doc_ops root =
     \<lparr>dso_load = native_doc_load root, dso_save = native_doc_save root, dso_ensure_ready = native_doc_ensure root\<rparr>"

definition native_blob_ops :: "crypto \<Rightarrow> fpath \<Rightarrow> disk blob_storage_ops" where
  "native_blob_ops c root =
     \<lparr>bso_has = native_blob_has root, bso_get = native_blob_get root, bso_put = native_blob_put c root,
      bso_put_with_hash = native_blob_put_with_hash c root, bso_ensure_ready = native_blob_ensure root\<rparr>"

definition native_snapshot_ops :: "crypto \<Rightarrow> index_json \<Rightarrow> fpath \<Rightarrow> disk snapshot_storage_ops" where
  "native_snapshot_ops c js root =
     \<lparr>sso_read = native_snapshots_read c js root, sso_write = native_snapshots_write c js root,
      sso_ensure_ready = native_snapshots_ensure root\<rparr>"

definition native_fs_ops ::
    "crypto \<Rightarrow> (disk \<Rightarrow> fpath \<Rightarrow> fpath list) \<Rightarrow> (fpath \<Rightarrow> nat) \<Rightarrow> disk filesystem_ops" where
  "native_fs_ops c rd ds =
     \<lparr>fso_read = native_read, fso_write = native_write, fso_delete = native_delete, fso_list = native_list rd ds,
      fso_exists = native_exists, fso_hash = native_hash c, fso_create_dir_all = native_create_dir_all,
      fso_remove_dir = native_remove_dir\<rparr>"

text \<open>\<^verbatim>\<open>impl Host for NativeHost\<close>: every capability is there.\<close>

definition native_host_ops ::
    "crypto \<Rightarrow> index_json \<Rightarrow> (disk \<Rightarrow> fpath \<Rightarrow> fpath list) \<Rightarrow> (fpath \<Rightarrow> nat) \<Rightarrow> (byte list \<times> byte list) result \<Rightarrow>
     nat option \<Rightarrow> (nat \<Rightarrow> byte) \<Rightarrow> native_host \<Rightarrow> disk host_ops" where
  "native_host_ops c js rd ds generated since_epoch rng h =
     \<lparr>ho_now_ms = system_now_ms since_epoch, ho_fill_bytes = fill_bytes rng, ho_transport = native_connect,
      ho_listener = Some native_bind,
      ho_doc_storage = native_doc_ops (nh_doc_storage h),
      ho_blob_storage = native_blob_ops c (nh_blob_storage h),
      ho_snapshot_storage = native_snapshot_ops c js (nh_snapshot_storage h),
      ho_filesystem = Some (native_fs_ops c rd ds),
      ho_tls = Some (native_tls_load_or_generate generated)\<rparr>"

text \<open>What the bundle hands out keeps the contracts of the stores and of the bound directory.\<close>

interpretation bundle_doc: doc_storage
  "dso_load (native_doc_ops root)" "dso_save (native_doc_ops root)" "stored_doc root"
  by (simp add: native_doc_ops_def native_doc.doc_storage_axioms)

interpretation bundle_fs: fs_adapter
  "fso_read (native_fs_ops c rd ds)" "fso_write (native_fs_ops c rd ds)" "fso_delete (native_fs_ops c rd ds)"
  file_at agentsync_tmp
  by (simp add: native_fs_ops_def native_fs.fs_adapter_axioms)

lemma bundle_blobs:
  assumes "sha_hex c"
  shows "blob_storage (bso_get (native_blob_ops c root)) (bso_put (native_blob_ops c root))
    (bso_put_with_hash (native_blob_ops c root)) (blob_at root) (blobs_ok c root) blob_name (content_hash c)"
proof -
  have "native_blob_get root = blob_get root" "native_blob_put c root = blob_put c root"
    "native_blob_put_with_hash c root = blob_put_with_hash c root"
    by (simp_all add: fun_eq_iff native_blob_get_def native_blob_put_def native_blob_put_with_hash_def)
  with native_blobs [OF assms, of root] show ?thesis by (simp add: native_blob_ops_def)
qed

section \<open>Spawned tasks\<close>

text \<open>A handle is used once: it aborts its task or waits for it. An ended task is not aborted any more.\<close>

datatype task_state = TaskRunning | TaskDone | TaskAborted

record task_pool =
  tp_next :: nat
  tp_tasks :: "nat \<Rightarrow> task_state"

definition spawn_task :: "task_pool \<Rightarrow> nat option \<times> task_pool" where
  "spawn_task s = (Some (tp_next s), s\<lparr>tp_next := Suc (tp_next s), tp_tasks := (tp_tasks s)(tp_next s := TaskRunning)\<rparr>)"

definition handle_abort :: "nat option \<Rightarrow> task_pool \<Rightarrow> task_pool" where
  "handle_abort h s =
     (case h of
        None \<Rightarrow> s
      | Some t \<Rightarrow> if tp_tasks s t = TaskRunning then s\<lparr>tp_tasks := (tp_tasks s)(t := TaskAborted)\<rparr> else s)"

text \<open>\<^verbatim>\<open>join\<close> returns when the task has ended, in whatever way; None is a wait that goes on.\<close>

definition handle_join :: "nat option \<Rightarrow> task_pool \<Rightarrow> unit option" where
  "handle_join h s =
     (case h of None \<Rightarrow> Some () | Some t \<Rightarrow> if tp_tasks s t = TaskRunning then None else Some ())"

lemma abort_then_join: "handle_join h (handle_abort h s) = Some ()"
  by (simp add: handle_join_def handle_abort_def split: option.split)

lemma abort_others: "h \<noteq> Some t \<Longrightarrow> tp_tasks (handle_abort h s) t = tp_tasks s t"
  by (simp add: handle_abort_def split: option.split)

end
