(* ===== verification/Wasm.thy ===== *)
theory Wasm
  imports CliArgs Vault Protocol
begin

text \<open>
  \<^verbatim>\<open>crates/agentsync-wasm/src/lib.rs\<close>: the interface that JavaScript clients call. Errors are
  turned into messages, structures into JavaScript values; everything else is the core code.
  \<^verbatim>\<open>serde_wasm_bindgen\<close> and the byte form of an automerge sync state are the parameter \<open>js\<close>.
\<close>

section \<open>Results\<close>

type_synonym 'a js_result = "string + 'a"

definition js_err :: "error \<Rightarrow> string" where
  "js_err e = show_error e"

definition js_res :: "'a result \<Rightarrow> 'a js_result" where
  "js_res r = map_sum js_err id r"

definition js_bind :: "'a js_result \<Rightarrow> ('a \<Rightarrow> 'b js_result) \<Rightarrow> 'b js_result" where
  "js_bind r f = (case r of Inl e \<Rightarrow> Inl e | Inr x \<Rightarrow> f x)"

text \<open>A method of the wrapped document: the state is the document, errors are messages.\<close>

definition js_act :: "('s, 'a) action \<Rightarrow> 's \<Rightarrow> 'a js_result \<times> 's" where
  "js_act m s = map_prod js_res id (m s)"

lemma js_res_simps [simp]:
  "js_res (Inl e) = Inl (show_error e)"
  "js_res (Inr x) = Inr x"
  by (simp_all add: js_res_def js_err_def)

lemma js_bind_simps [simp]:
  "js_bind (Inl e) f = Inl e"
  "js_bind (Inr x) f = f x"
  by (simp_all add: js_bind_def)

lemma js_bind_eq_Inr: "js_bind r f = Inr y \<longleftrightarrow> (\<exists>x. r = Inr x \<and> f x = Inr y)"
  by (cases r) simp_all

lemma js_res_eq_Inr [simp]: "js_res r = Inr x \<longleftrightarrow> r = Inr x"
  by (cases r) simp_all

section \<open>Values that cross the border\<close>

record authorized_peer_json =
  aj_pubkey :: string
  aj_label :: string

record label_json =
  lj_name :: string
  lj_heads_b64 :: string
  lj_created_at_ms :: int

record ('j, 'y) js_env =
  js_of_peers :: "authorized_peer_json list \<Rightarrow> 'j js_result"
  js_to_peers :: "'j \<Rightarrow> authorized_peer_json list js_result"
  js_of_frame :: "frame \<Rightarrow> 'j js_result"
  js_to_frame :: "'j \<Rightarrow> frame js_result"
  js_of_files :: "file_meta list \<Rightarrow> 'j js_result"
  js_of_dirs :: "directory_meta list \<Rightarrow> 'j js_result"
  js_of_labels :: "label_json list \<Rightarrow> 'j js_result"
  js_of_sync :: "'y \<Rightarrow> byte list"
  js_to_sync :: "byte list \<Rightarrow> 'y js_result"

text \<open>What is converted to JavaScript is read back.\<close>

locale js_serde =
  fixes js :: "('j, 'y) js_env"
  assumes peers_back: "js_of_peers js ps = Inr v \<Longrightarrow> js_to_peers js v = Inr ps"
    and frame_back: "js_of_frame js f = Inr v \<Longrightarrow> js_to_frame js v = Inr f"

section \<open>Identities\<close>

definition js_generate :: "crypto \<Rightarrow> byte list \<Rightarrow> identity" where
  "js_generate c rng = identity_from_seed c rng"

definition js_from_seed :: "crypto \<Rightarrow> byte list \<Rightarrow> identity js_result" where
  "js_from_seed c seed =
     (if length seed \<noteq> 32 then Inl ''seed must be 32 bytes'' else Inr (identity_from_seed c seed))"

definition js_seed :: "identity \<Rightarrow> byte list js_result" where
  "js_seed i = js_res (identity_seed i)"

definition js_pubkey :: "identity \<Rightarrow> pubkey" where
  "js_pubkey i = identity_pubkey i"

definition js_sign :: "agent \<Rightarrow> crypto \<Rightarrow> identity \<Rightarrow> byte list \<Rightarrow> byte list js_result" where
  "js_sign agent c i message = js_res (identity_sign agent c i message)"

section \<open>Public keys\<close>

definition js_from_bytes :: "byte list \<Rightarrow> pubkey js_result" where
  "js_from_bytes bytes = js_res (pubkey_from_bytes bytes)"

definition js_from_ssh_string :: "crypto \<Rightarrow> string \<Rightarrow> pubkey js_result" where
  "js_from_ssh_string c s = js_res (from_ssh_string c s)"

definition js_to_ssh_string :: "crypto \<Rightarrow> pubkey \<Rightarrow> string" where
  "js_to_ssh_string c pk = to_ssh_string c pk"

definition js_fingerprint :: "crypto \<Rightarrow> pubkey \<Rightarrow> string" where
  "js_fingerprint c pk = fingerprint_sha256 c pk"

definition js_bytes :: "pubkey \<Rightarrow> byte list" where
  "js_bytes pk = pk"

definition js_verify :: "crypto \<Rightarrow> pubkey \<Rightarrow> byte list \<Rightarrow> byte list \<Rightarrow> bool" where
  "js_verify c pk message signature = pubkey_verify c pk message signature"

section \<open>The authorized_keys file\<close>

definition peer_to_json :: "crypto \<Rightarrow> authorized_peer \<Rightarrow> authorized_peer_json" where
  "peer_to_json c p = \<lparr>aj_pubkey = to_ssh_string c (ap_pubkey p), aj_label = ap_label p\<rparr>"

definition js_parse_authorized_keys :: "crypto \<Rightarrow> ('j, 'y) js_env \<Rightarrow> string \<Rightarrow> 'j js_result" where
  "js_parse_authorized_keys c js body =
     js_of_peers js (map (peer_to_json c) (parse_authorized_keys c body))"

text \<open>\<^verbatim>\<open>collect::<Result<_, _>>\<close> stops at the first entry whose key does not parse.\<close>

fun peers_from_json :: "crypto \<Rightarrow> authorized_peer_json list \<Rightarrow> authorized_peer list js_result" where
  "peers_from_json c [] = Inr []"
| "peers_from_json c (e # es) =
     js_bind (js_res (from_ssh_string c (aj_pubkey e))) (\<lambda>pk.
     js_bind (peers_from_json c es) (\<lambda>ps. Inr (\<lparr>ap_pubkey = pk, ap_label = aj_label e\<rparr> # ps)))"

definition js_render_authorized_keys :: "crypto \<Rightarrow> ('j, 'y) js_env \<Rightarrow> 'j \<Rightarrow> string js_result" where
  "js_render_authorized_keys c js v =
     js_bind (js_to_peers js v) (\<lambda>entries.
     js_bind (peers_from_json c entries) (\<lambda>peers. Inr (render_authorized_keys c peers)))"

section \<open>The handshake\<close>

definition js_random_nonce :: "(nat \<Rightarrow> byte) \<Rightarrow> byte list" where
  "js_random_nonce rng = random_nonce rng"

definition js_build_transcript ::
    "byte list \<Rightarrow> byte list \<Rightarrow> byte list \<Rightarrow> byte list \<Rightarrow> byte list \<Rightarrow> byte list js_result" where
  "js_build_transcript hub_nonce peer_nonce tls_cert_fingerprint hub_pubkey peer_pubkey =
     (if length hub_nonce \<noteq> 32 then Inl ''hub_nonce must be 32 bytes''
      else if length peer_nonce \<noteq> 32 then Inl ''peer_nonce must be 32 bytes''
      else if length hub_pubkey \<noteq> 32 then Inl ''hub_pubkey must be 32 bytes''
      else if length peer_pubkey \<noteq> 32 then Inl ''peer_pubkey must be 32 bytes''
      else Inr (build_transcript hub_nonce peer_nonce tls_cert_fingerprint hub_pubkey peer_pubkey))"

definition js_decode_frame :: "codec \<Rightarrow> ('j, 'y) js_env \<Rightarrow> byte list \<Rightarrow> 'j js_result" where
  "js_decode_frame fc js bytes = js_bind (js_res (frame_decode fc bytes)) (js_of_frame js)"

definition js_encode_frame :: "codec \<Rightarrow> ('j, 'y) js_env \<Rightarrow> 'j \<Rightarrow> byte list js_result" where
  "js_encode_frame fc js v = js_bind (js_to_frame js v) (\<lambda>frame. js_res (fr_encode fc frame))"

section \<open>Sync states\<close>

definition js_sync_state_new :: "('d, 'o, 'y) automerge \<Rightarrow> 'y" where
  "js_sync_state_new am = am_sync_new am"

definition js_sync_state_encode :: "('j, 'y) js_env \<Rightarrow> 'y \<Rightarrow> byte list" where
  "js_sync_state_encode js state = js_of_sync js state"

definition js_sync_state_decode :: "('j, 'y) js_env \<Rightarrow> byte list \<Rightarrow> 'y js_result" where
  "js_sync_state_decode js bytes = js_to_sync js bytes"

section \<open>Documents\<close>

definition js_doc_new ::
    "('d, 'o, 'y) automerge \<Rightarrow> crypto \<Rightarrow> host \<Rightarrow> string \<Rightarrow> 'd doc js_result" where
  "js_doc_new am c h vault_id =
     (case doc_new am c h vault_id of (r, d) \<Rightarrow> js_bind (js_res r) (\<lambda>_. Inr d))"

definition js_doc_load :: "('d, 'o, 'y) automerge \<Rightarrow> host \<Rightarrow> byte list \<Rightarrow> 'd doc js_result" where
  "js_doc_load am h bytes = js_res (doc_load am h bytes)"

definition js_doc_save :: "('d, 'o, 'y) automerge \<Rightarrow> 'd doc \<Rightarrow> byte list \<times> 'd doc" where
  "js_doc_save am d = doc_save am d"

definition js_doc_save_incremental :: "('d, 'o, 'y) automerge \<Rightarrow> 'd doc \<Rightarrow> byte list \<times> 'd doc" where
  "js_doc_save_incremental am d = doc_save_incremental am d"

definition js_doc_vault_id :: "('d, 'o, 'y) automerge \<Rightarrow> 'd doc \<Rightarrow> string js_result \<times> 'd doc" where
  "js_doc_vault_id am = js_act (doc_vault_id am)"

definition js_doc_heads :: "('d, 'o, 'y) automerge \<Rightarrow> 'd doc \<Rightarrow> byte list list js_result \<times> 'd doc" where
  "js_doc_heads am = js_act (doc_heads am)"

definition js_doc_merge ::
    "('d, 'o, 'y) automerge \<Rightarrow> 'd doc \<Rightarrow> 'd doc \<Rightarrow> bool js_result \<times> 'd doc \<times> 'd doc" where
  "js_doc_merge am d other = map_prod js_res id (doc_merge am d other)"

definition js_generate_sync_message ::
    "('d, 'o, 'y) automerge \<Rightarrow> 'd doc \<Rightarrow> 'y \<Rightarrow> byte list option \<times> 'd doc \<times> 'y" where
  "js_generate_sync_message am d state = generate_sync_message am d state"

definition js_receive_sync_message ::
    "('d, 'o, 'y) automerge \<Rightarrow> 'd doc \<Rightarrow> 'y \<Rightarrow> byte list \<Rightarrow> bool js_result \<times> 'd doc \<times> 'y" where
  "js_receive_sync_message am d state bytes = map_prod js_res id (receive_sync_message am d state bytes)"

definition js_write_text_file ::
    "('d, 'o, 'y) automerge \<Rightarrow> (string \<Rightarrow> string) \<Rightarrow> string \<Rightarrow> string \<Rightarrow> 'd doc \<Rightarrow> string js_result \<times> 'd doc" where
  "js_write_text_file am nfc path content = js_act (write_text_file am nfc path content)"

definition js_read_file ::
    "('d, 'o, 'y) automerge \<Rightarrow> (string \<Rightarrow> string) \<Rightarrow> string \<Rightarrow> 'd doc \<Rightarrow> string js_result \<times> 'd doc" where
  "js_read_file am nfc path = js_act (read_file am nfc path)"

definition js_file_exists ::
    "('d, 'o, 'y) automerge \<Rightarrow> (string \<Rightarrow> string) \<Rightarrow> string \<Rightarrow> 'd doc \<Rightarrow> bool \<times> 'd doc" where
  "js_file_exists am nfc path = file_exists am nfc path"

definition js_delete_file ::
    "('d, 'o, 'y) automerge \<Rightarrow> (string \<Rightarrow> string) \<Rightarrow> string \<Rightarrow> 'd doc \<Rightarrow> unit js_result \<times> 'd doc" where
  "js_delete_file am nfc path = js_act (delete_file am nfc path)"

definition js_rename_file ::
    "('d, 'o, 'y) automerge \<Rightarrow> (string \<Rightarrow> string) \<Rightarrow> string \<Rightarrow> string \<Rightarrow> 'd doc \<Rightarrow> unit js_result \<times> 'd doc" where
  "js_rename_file am nfc from_path to_path = js_act (rename_file am nfc from_path to_path)"

definition js_write_attachment ::
    "('d, 'o, 'y) automerge \<Rightarrow> (string \<Rightarrow> string) \<Rightarrow> string \<Rightarrow> string \<Rightarrow> int \<Rightarrow>
     'd doc \<Rightarrow> string js_result \<times> 'd doc" where
  "js_write_attachment am nfc path hash sz = js_act (write_attachment am nfc path hash sz)"

definition files_to_js :: "('j, 'y) js_env \<Rightarrow> file_meta list \<Rightarrow> 'j js_result" where
  "files_to_js js files = js_of_files js files"

definition js_list_files ::
    "('d, 'o, 'y) automerge \<Rightarrow> ('j, 'y) js_env \<Rightarrow> 'd doc \<Rightarrow> 'j js_result \<times> 'd doc" where
  "js_list_files am js d = (case js_act (list_files am) d of (r, t) \<Rightarrow> (js_bind r (files_to_js js), t))"

definition js_create_directory ::
    "('d, 'o, 'y) automerge \<Rightarrow> (string \<Rightarrow> string) \<Rightarrow> string \<Rightarrow> 'd doc \<Rightarrow> string js_result \<times> 'd doc" where
  "js_create_directory am nfc path = js_act (create_directory am nfc path)"

definition js_delete_directory ::
    "('d, 'o, 'y) automerge \<Rightarrow> (string \<Rightarrow> string) \<Rightarrow> string \<Rightarrow> bool \<Rightarrow> 'd doc \<Rightarrow> unit js_result \<times> 'd doc" where
  "js_delete_directory am nfc path recursive = js_act (delete_directory am nfc path recursive)"

definition js_list_directories ::
    "('d, 'o, 'y) automerge \<Rightarrow> ('j, 'y) js_env \<Rightarrow> 'd doc \<Rightarrow> 'j js_result \<times> 'd doc" where
  "js_list_directories am js d =
     (case js_act (list_directories am) d of (r, t) \<Rightarrow> (js_bind r (js_of_dirs js), t))"

section \<open>History\<close>

definition js_create_label :: "('d, 'o, 'y) automerge \<Rightarrow> string \<Rightarrow> 'd doc \<Rightarrow> unit js_result \<times> 'd doc" where
  "js_create_label am name = js_act (create_label am name)"

definition js_delete_label :: "('d, 'o, 'y) automerge \<Rightarrow> string \<Rightarrow> 'd doc \<Rightarrow> unit js_result \<times> 'd doc" where
  "js_delete_label am name = js_act (delete_label am name)"

definition encode_heads_b64 :: "crypto \<Rightarrow> change_hash list \<Rightarrow> string" where
  "encode_heads_b64 c heads = b64np_encode c (concat heads)"

definition label_to_json :: "crypto \<Rightarrow> label \<Rightarrow> label_json" where
  "label_to_json c l =
     \<lparr>lj_name = lb_name l, lj_heads_b64 = encode_heads_b64 c (lb_heads l), lj_created_at_ms = lb_created_at l\<rparr>"

definition js_list_labels ::
    "('d, 'o, 'y) automerge \<Rightarrow> crypto \<Rightarrow> ('j, 'y) js_env \<Rightarrow> 'd doc \<Rightarrow> 'j js_result \<times> 'd doc" where
  "js_list_labels am c js d =
     (case js_act (list_labels am) d of
        (r, t) \<Rightarrow> (js_bind r (\<lambda>labels. js_of_labels js (map (label_to_json c) labels)), t))"

definition js_restore_to_label ::
    "('d, 'o, 'y) automerge \<Rightarrow> (string list \<Rightarrow> string list) \<Rightarrow> (string list \<Rightarrow> string list) \<Rightarrow>
     string \<Rightarrow> 'd doc \<Rightarrow> unit js_result \<times> 'd doc" where
  "js_restore_to_label am order dir_order label =
     js_act (andthen (get_label_heads am label) (restore_to_heads am order dir_order))"

text \<open>
  An IEEE double: not a number, an infinity (negative when \<open>True\<close>), or \<open>m\<close> times a power of
  two. \<^verbatim>\<open>as i64\<close> rounds toward zero and saturates.
\<close>

datatype f64 = NaN | Infinity bool | Finite int int

definition shift_toward_zero :: "int \<Rightarrow> int \<Rightarrow> int" where
  "shift_toward_zero m e =
     (if 0 \<le> e then m * 2 ^ nat e
      else if 0 \<le> m then m div 2 ^ nat (- e)
      else - ((- m) div 2 ^ nat (- e)))"

fun f64_as_i64 :: "f64 \<Rightarrow> int" where
  "f64_as_i64 NaN = 0"
| "f64_as_i64 (Infinity negative) = (if negative then - (2 ^ 63) else 2 ^ 63 - 1)"
| "f64_as_i64 (Finite m e) = max (- (2 ^ 63)) (min (2 ^ 63 - 1) (shift_toward_zero m e))"

definition js_restore_to_time ::
    "('d, 'o, 'y) automerge \<Rightarrow> (change_hash list \<Rightarrow> change_hash list) \<Rightarrow>
     (string list \<Rightarrow> string list) \<Rightarrow> (string list \<Rightarrow> string list) \<Rightarrow> f64 \<Rightarrow> 'd doc \<Rightarrow> unit js_result \<times> 'd doc" where
  "js_restore_to_time am head_order order dir_order target_ms =
     js_act (restore_to_time am head_order order dir_order (f64_as_i64 target_ms))"

section \<open>Helpers\<close>

definition js_content_hash :: "crypto \<Rightarrow> byte list \<Rightarrow> string" where
  "js_content_hash c bytes = content_hash c bytes"

definition schema_version :: nat where
  "schema_version = nat (SCHEMA_VERSION mod 2 ^ 32)"

definition default_port :: nat where
  "default_port = DEFAULT_PORT"

definition js_normalize_rendezvous_url :: "string \<Rightarrow> string" where
  "js_normalize_rendezvous_url url = normalize_rendezvous_url url"

section \<open>Peers through JavaScript\<close>

context base64_codec
begin

lemma peers_from_to_json:
  assumes "\<forall>p \<in> set ps. length (ap_pubkey p) = 32"
  shows "peers_from_json c (map (peer_to_json c) ps) = Inr ps"
  using assms by (induction ps) (simp_all add: peer_to_json_def from_to_ssh_string)

end

text \<open>What \<^verbatim>\<open>parseAuthorizedKeys\<close> returns is rendered as the core renders the parsed peers.\<close>

lemma js_parse_render:
  assumes "js_serde js" "base64_codec c"
    and "js_parse_authorized_keys c js body = Inr v"
  shows "js_render_authorized_keys c js v = Inr (render_authorized_keys c (parse_authorized_keys c body))"
proof -
  have "js_to_peers js v = Inr (map (peer_to_json c) (parse_authorized_keys c body))"
    using assms(3) by (simp add: js_parse_authorized_keys_def js_serde.peers_back [OF assms(1)])
  moreover have "\<forall>p \<in> set (parse_authorized_keys c body). length (ap_pubkey p) = 32"
    using parsed_key_length by blast
  ultimately show ?thesis
    by (simp add: js_render_authorized_keys_def base64_codec.peers_from_to_json [OF assms(2)])
qed

lemma js_transcript_iff:
  "js_build_transcript hn pn fp hk pk = Inr t \<longleftrightarrow>
     length hn = 32 \<and> length pn = 32 \<and> length hk = 32 \<and> length pk = 32 \<and> t = build_transcript hn pn fp hk pk"
  by (auto simp: js_build_transcript_def)

text \<open>An identity imported from its seed gives the seed back, and its signatures verify.\<close>

lemma js_seed_round_trip:
  assumes "length seed = 32"
  shows "js_bind (js_from_seed c seed) js_seed = Inr seed"
  using assms by (simp add: js_from_seed_def js_seed_def identity_from_seed_def)

lemma js_signature_verifies:
  assumes "ed25519 c" "js_from_seed c seed = Inr i" "js_sign agent c i m = Inr sig"
  shows "js_verify c (js_pubkey i) m sig"
  using assms
  by (auto simp: js_from_seed_def js_sign_def js_verify_def js_pubkey_def identity_from_seed_def
      identity_sign_def pubkey_verify_def SIGNATURE_LEN_def ed25519.sign_length ed25519.sign_verify split: if_splits)

lemma js_frame_round_trip:
  assumes "frame_codec fc" "js_serde js" "fr_encode fc f = Ok bs" "js_decode_frame fc js bs = Inr v"
  shows "js_encode_frame fc js v = Inr bs"
  using assms frame_codec.frame_decode_encode [OF assms(1,3)] js_serde.frame_back [OF assms(2)]
  by (simp add: js_decode_frame_def js_encode_frame_def)

text \<open>The cast of a time stays in range, and an integer of at most 53 bits is not changed.\<close>

lemma f64_as_i64_range: "i64_ok (f64_as_i64 x)"
  by (cases x) (simp_all add: i64_ok_def)

lemma f64_as_i64_exact:
  assumes "i64_ok m"
  shows "f64_as_i64 (Finite m 0) = m"
  using assms by (simp add: i64_ok_def shift_toward_zero_def)

lemma schema_version_one: "schema_version = 1"
  by (simp add: schema_version_def SCHEMA_VERSION_def)

section \<open>A concrete conversion\<close>

text \<open>
  Structures become objects, vectors arrays, and a number that JavaScript cannot hold exactly
  is refused. The sync state is left opaque.
\<close>

datatype js_value =
    JsNull
  | JsNumber int
  | JsString string
  | JsBytes "byte list"
  | JsArray "js_value list"
  | JsObject "(string \<times> js_value) list"

definition js_number :: "int \<Rightarrow> js_value js_result" where
  "js_number i =
     (if \<bar>i\<bar> < 2 ^ 53 then Inr (JsNumber i)
      else Inl (show_int i @ '' can't be represented as a JavaScript number''))"

definition js_optional :: "string option \<Rightarrow> js_value" where
  "js_optional x = (case x of None \<Rightarrow> JsNull | Some s \<Rightarrow> JsString s)"

definition js_object :: "string \<Rightarrow> (string \<times> js_value) list \<Rightarrow> js_value" where
  "js_object tag entries = JsObject ((''t'', JsString tag) # entries)"

fun frame_to_js :: "frame \<Rightarrow> js_value js_result" where
  "frame_to_js (HelloHub i pk n fp name) = Inr (js_object ''hello_hub''
     [(''vault_id'', JsString i), (''hub_identity_pubkey'', JsBytes pk), (''hub_nonce'', JsBytes n),
      (''tls_cert_fingerprint'', JsBytes fp), (''vault_name'', js_optional name)])"
| "frame_to_js (HelloPeer pk n op) = Inr (js_object ''hello_peer''
     [(''peer_identity_pubkey'', JsBytes pk), (''peer_nonce'', JsBytes n),
      (''op'', JsString (case op of Join \<Rightarrow> ''join'' | Create \<Rightarrow> ''create''))])"
| "frame_to_js (ProofHub s) = Inr (js_object ''proof_hub'' [(''sig'', JsBytes s)])"
| "frame_to_js (ProofPeer s) = Inr (js_object ''proof_peer'' [(''sig'', JsBytes s)])"
| "frame_to_js (SyncFrame s) = Inr (js_object ''sync'' [(''bytes'', JsBytes s)])"
| "frame_to_js (BlobFetch h) = Inr (js_object ''blob_fetch'' [(''hash'', JsString h)])"
| "frame_to_js (BlobPush h s) = Inr (js_object ''blob_push'' [(''hash'', JsString h), (''bytes'', JsBytes s)])"
| "frame_to_js (Ping ts) = js_bind (js_number ts) (\<lambda>n. Inr (js_object ''ping'' [(''ts'', n)]))"
| "frame_to_js (Pong ts) = js_bind (js_number ts) (\<lambda>n. Inr (js_object ''pong'' [(''ts'', n)]))"
| "frame_to_js (ErrorFrame m) = Inr (js_object ''error'' [(''message'', JsString m)])"

definition entry_bytes :: "(string \<times> js_value) list \<Rightarrow> string \<Rightarrow> byte list js_result" where
  "entry_bytes es k = (case map_of es k of Some (JsBytes s) \<Rightarrow> Inr s | _ \<Rightarrow> Inl (''missing field '' @ k))"

definition entry_string :: "(string \<times> js_value) list \<Rightarrow> string \<Rightarrow> string js_result" where
  "entry_string es k = (case map_of es k of Some (JsString s) \<Rightarrow> Inr s | _ \<Rightarrow> Inl (''missing field '' @ k))"

definition entry_number :: "(string \<times> js_value) list \<Rightarrow> string \<Rightarrow> int js_result" where
  "entry_number es k = (case map_of es k of Some (JsNumber i) \<Rightarrow> Inr i | _ \<Rightarrow> Inl (''missing field '' @ k))"

definition entry_optional :: "(string \<times> js_value) list \<Rightarrow> string \<Rightarrow> string option" where
  "entry_optional es k = (case map_of es k of Some (JsString s) \<Rightarrow> Some s | _ \<Rightarrow> None)"

definition hello_hub_of :: "(string \<times> js_value) list \<Rightarrow> frame js_result" where
  "hello_hub_of es =
     js_bind (entry_string es ''vault_id'') (\<lambda>i.
     js_bind (entry_bytes es ''hub_identity_pubkey'') (\<lambda>pk.
     js_bind (entry_bytes es ''hub_nonce'') (\<lambda>n.
     js_bind (entry_bytes es ''tls_cert_fingerprint'') (\<lambda>fp.
     Inr (HelloHub i pk n fp (entry_optional es ''vault_name''))))))"

definition hello_peer_of :: "(string \<times> js_value) list \<Rightarrow> frame js_result" where
  "hello_peer_of es =
     js_bind (entry_bytes es ''peer_identity_pubkey'') (\<lambda>pk.
     js_bind (entry_bytes es ''peer_nonce'') (\<lambda>n.
     js_bind (entry_string es ''op'') (\<lambda>op.
     if op = ''join'' then Inr (HelloPeer pk n Join)
     else if op = ''create'' then Inr (HelloPeer pk n Create) else Inl (''unknown variant '' @ op))))"

definition tagged_frame :: "string \<Rightarrow> (string \<times> js_value) list \<Rightarrow> frame js_result" where
  "tagged_frame t es =
     (if t = ''hello_hub'' then hello_hub_of es
      else if t = ''hello_peer'' then hello_peer_of es
      else if t = ''proof_hub'' then js_bind (entry_bytes es ''sig'') (\<lambda>s. Inr (ProofHub s))
      else if t = ''proof_peer'' then js_bind (entry_bytes es ''sig'') (\<lambda>s. Inr (ProofPeer s))
      else if t = ''sync'' then js_bind (entry_bytes es ''bytes'') (\<lambda>s. Inr (SyncFrame s))
      else if t = ''blob_fetch'' then js_bind (entry_string es ''hash'') (\<lambda>h. Inr (BlobFetch h))
      else if t = ''blob_push'' then js_bind (entry_string es ''hash'') (\<lambda>h.
        js_bind (entry_bytes es ''bytes'') (\<lambda>s. Inr (BlobPush h s)))
      else if t = ''ping'' then js_bind (entry_number es ''ts'') (\<lambda>n. Inr (Ping n))
      else if t = ''pong'' then js_bind (entry_number es ''ts'') (\<lambda>n. Inr (Pong n))
      else if t = ''error'' then js_bind (entry_string es ''message'') (\<lambda>m. Inr (ErrorFrame m))
      else Inl (''unknown variant '' @ t))"

fun frame_of_js :: "js_value \<Rightarrow> frame js_result" where
  "frame_of_js (JsObject es) = js_bind (entry_string es ''t'') (\<lambda>t. tagged_frame t es)"
| "frame_of_js _ = Inl ''invalid type''"

lemmas js_entry_defs = js_object_def entry_string_def entry_bytes_def entry_number_def entry_optional_def
  js_optional_def js_number_def tagged_frame_def hello_hub_of_def hello_peer_of_def

lemma frame_of_to_js: "frame_to_js f = Inr v \<Longrightarrow> frame_of_js v = Inr f"
  by (cases f) (auto simp: js_entry_defs js_bind_eq_Inr split: option.splits hello_op.splits if_splits)

definition peer_to_js :: "authorized_peer_json \<Rightarrow> js_value" where
  "peer_to_js p = JsObject [(''pubkey'', JsString (aj_pubkey p)), (''label'', JsString (aj_label p))]"

fun peer_of_js :: "js_value \<Rightarrow> authorized_peer_json option" where
  "peer_of_js (JsObject [(_, JsString k), (_, JsString l)]) = Some \<lparr>aj_pubkey = k, aj_label = l\<rparr>"
| "peer_of_js _ = None"

fun peers_of_js :: "js_value \<Rightarrow> authorized_peer_json list js_result" where
  "peers_of_js (JsArray vs) =
     (if list_all (\<lambda>v. peer_of_js v \<noteq> None) vs then Inr (List.map_filter peer_of_js vs)
      else Inl ''invalid type'')"
| "peers_of_js _ = Inl ''invalid type''"

lemma peer_of_to_js [simp]: "peer_of_js (peer_to_js p) = Some p"
  by (simp add: peer_to_js_def)

lemma peers_of_to_js: "peers_of_js (JsArray (map peer_to_js ps)) = Inr ps"
proof -
  have "List.map_filter peer_of_js (map peer_to_js ps) = ps"
    by (induction ps) (simp_all add: List.map_filter_simps)
  then show ?thesis by (simp add: list_all_iff)
qed

definition example_js :: "(js_value, unit) js_env" where
  "example_js =
     \<lparr>js_of_peers = (\<lambda>ps. Inr (JsArray (map peer_to_js ps))), js_to_peers = peers_of_js,
      js_of_frame = frame_to_js, js_to_frame = frame_of_js,
      js_of_files = (\<lambda>fs. Inr (JsArray (map (\<lambda>f. JsObject [(''id'', JsString (fm_id f)), (''path'', JsString (fm_path f))]) fs))),
      js_of_dirs = (\<lambda>ds. Inr (JsArray (map (\<lambda>d. JsObject [(''id'', JsString (dm_id d)), (''path'', JsString (dm_path d))]) ds))),
      js_of_labels = (\<lambda>ls. Inr (JsArray (map (\<lambda>l. JsObject [(''name'', JsString (lj_name l)), (''heads_b64'', JsString (lj_heads_b64 l))]) ls))),
      js_of_sync = (\<lambda>_. []), js_to_sync = (\<lambda>_. Inr ())\<rparr>"

interpretation example_js: js_serde example_js
  by unfold_locales (auto simp: example_js_def peers_of_to_js frame_of_to_js simp del: peers_of_js.simps)

text \<open>A frame with a number beyond 53 bits does not reach JavaScript.\<close>

lemma large_ping_refused:
  assumes "2 ^ 53 \<le> \<bar>i\<bar>"
  shows "js_of_frame example_js (Ping i) =
    Inl (show_int i @ '' can't be represented as a JavaScript number'')"
  using assms by (simp add: example_js_def js_number_def)

end
