(* ===== verification/Findings.thy ===== *)
theory Findings
  imports NetProperties CliMain ClientTasks Wasm
begin

text \<open>
  What the model shows against the code: short proofs of behaviour that the code, its comments or
  its documents do not intend.
\<close>

section \<open>A reflected signature\<close>

text \<open>
  The transcript does not name the roles. When the hub's own key is among the authorised keys, a
  peer that owns no key at all claims the hub's key, reads the hub's signature from \<^verbatim>\<open>ProofHub\<close>
  and sends it back as \<^verbatim>\<open>ProofPeer\<close>: the hub accepts.
\<close>

lemma reflected_signature_accepted:
  assumes "frame_codec fc" "ed25519 c" "i = identity_from_seed c seed" "identity_pubkey i \<in> set keys"
    and "authorized h = (Ok keys, h')" "length (n :: byte list) = 32"
    and "frame_short (HelloHub vault_id (identity_pubkey i) (random_nonce rng) fp name)"
  shows "\<exists>b1 b2 b3 b4 sig. fr_decode fc b3 = Some (ProofHub sig) \<and> fr_decode fc b4 = Some (ProofPeer sig) \<and>
    hub_handshake fc c agent i vault_id name fp rng authorized (fresh_conn ([Binary b2, Binary b4] @ es), h) =
      (Ok (identity_pubkey i), \<lparr>c_in = es, c_out = [b1, b3], c_sends = 2, c_fault = (\<lambda>_. False)\<rparr>, h')"
proof -
  let ?pk = "identity_pubkey i"
  let ?tr = "build_transcript (random_nonce rng) n fp ?pk ?pk"
  let ?sig = "ed_sign c seed ?tr"
  have pk: "?pk = ed_public c seed" "length ?pk = 32"
    using assms(2,3) by (simp_all add: identity_from_seed_def ed25519.public_length)
  have sig: "length ?sig = 64" "identity_sign agent c i ?tr = Ok ?sig" "pubkey_verify c ?pk ?tr ?sig"
    using assms(2,3) pk
    by (simp_all add: ed25519.sign_length ed25519.sign_verify identity_sign_def identity_from_seed_def
        pubkey_verify_def SIGNATURE_LEN_def)
  note enc = frame_codec.encode_short [OF assms(1)]
  obtain b1 where b1: "fr_encode fc (HelloHub vault_id ?pk (random_nonce rng) fp name) = Ok b1"
    using enc [OF assms(7)] by blast
  obtain b2 where b2: "fr_encode fc (HelloPeer ?pk n Join) = Ok b2"
    using enc [of "HelloPeer ?pk n Join"] pk assms(6) by auto
  obtain b3 where b3: "fr_encode fc (ProofHub ?sig) = Ok b3" using enc [of "ProofHub ?sig"] sig(1) by auto
  obtain b4 where b4: "fr_encode fc (ProofPeer ?sig) = Ok b4" using enc [of "ProofPeer ?sig"] sig(1) by auto
  have "hub_handshake fc c agent i vault_id name fp rng authorized (fresh_conn ([Binary b2, Binary b4] @ es), h) =
      (Ok ?pk, \<lparr>c_in = es, c_out = [b1, b3], c_sends = 2, c_fault = (\<lambda>_. False)\<rparr>, h')"
    by (rule frame_codec.hub_honest_run [where authorized = authorized and h = h and hub_sig = ?sig and sig = ?sig,
          OF assms(1) b1 b2 pk(2) assms(6,5,4) sig(2) b3 b4 sig(3)])
  with frame_codec.decode_encode [OF assms(1) b3] frame_codec.decode_encode [OF assms(1) b4] show ?thesis
    by blast
qed

section \<open>Sessions that do not end\<close>

text \<open>
  On the hub of a vault, the session of a peer without a slot makes no step but for what its
  socket brings: the writer has nothing to send and never sees its channel closed, and the
  notifier goes round.
\<close>

lemma gone_session_stays:
  assumes "vault_slots v (k_peer l) = None" "k_queue l = []"
  shows "writer_step fc False l = l \<and> notifier_step (vault_sync_handle am c nfc) l v = (l, v)"
  using sync_hub.dead_session [OF vault_hub.sync_hub_axioms assms] by blast

section \<open>Strings and times\<close>

text \<open>A negative offset names a time in the future.\<close>

lemma negative_offset_is_future:
  assumes "0 \<le> now" "now < 2 ^ 62"
  shows "parse_timestamp ''-5m'' now = Ok (now + 300000)"
proof -
  have "trim ''-5m'' = ''-5m''" "parse_i64 ''-5m'' = None" "parse_relative_ms ''-5m'' = Some (- 300000)"
    by code_simp+
  then show ?thesis using assms by (simp add: parse_timestamp_def wrap_i64_def)
qed

text \<open>An RFC 3339 time is refused, though the help of the command offers it.\<close>

lemma rfc3339_refused: "\<not> is_ok (parse_timestamp ''2024-01-01T00:00:00Z'' now)"
proof -
  have "trim ''2024-01-01T00:00:00Z'' = ''2024-01-01T00:00:00Z''" "parse_i64 ''2024-01-01T00:00:00Z'' = None"
    "parse_relative_ms ''2024-01-01T00:00:00Z'' = None" by code_simp+
  then show ?thesis by (simp add: parse_timestamp_def)
qed

text \<open>No port is appended to a URL, and the default port is 443.\<close>

lemma no_port_appended: "js_normalize_rendezvous_url ''my-hub'' = ''wss://my-hub'' \<and> default_port = 443"
proof -
  have "normalize_rendezvous_url ''my-hub'' = ''wss://my-hub''" by code_simp
  then show ?thesis by (simp add: js_normalize_rendezvous_url_def default_port_def DEFAULT_PORT_def)
qed

section \<open>Labels\<close>

text \<open>
  When the index of the labels cannot be written, the label is in the document, but nobody is
  told that the document has changed.
\<close>

lemma label_error_is_silent:
  assumes "vault_create_label am c js name v = (Err e, w)"
  shows "va_doc_changed w = va_doc_changed v"
  using assms
  by (auto simp: vault_create_label_def andthen_run on_doc_def flush_snapshots_index_def on_disk_def
      notify_doc_changed_def split: prod.splits sum.splits)

end
