(* ===== verification/Spec2Isabelle.thy ===== *)
theory Spec2Isabelle
  imports DocProperties IdentityProperties MirrorProperties KeyProperties CliMain ClientTasks ServerTasks HostBundle Wasm Findings
begin

text \<open>
  \<^bold>\<open>agentsync\<close>: real-time synchronisation of a directory between devices. A verification
  development of the Rust crates \<^verbatim>\<open>agentsync-core\<close>, \<^verbatim>\<open>agentsync-cli\<close> and \<^verbatim>\<open>agentsync-wasm\<close>
  (\<^verbatim>\<open>crates/*/src\<close>; paths below are relative to \<^verbatim>\<open>crates/agentsync-core/src\<close> unless a crate is
  named).

  \<^bold>\<open>The program.\<close> A vault is an automerge document with three maps, \<^verbatim>\<open>files\<close>, \<^verbatim>\<open>directories\<close> and
  \<^verbatim>\<open>labels\<close>, whose entries carry a path and a deletion time. Paths are normalised strings. The
  document is kept in \<^verbatim>\<open>doc.bin\<close>, attachments in a store by hash, the labels also in a JSON
  index. A vault is bound to a directory: a materialize pass writes the document to disk, a
  watcher brings changes on disk back, and marks of the program's own writes suppress their
  echo. Devices meet at a hub: after a handshake in four messages, signed with ed25519 over a
  transcript, a hub and its peers exchange automerge sync messages and attachments. Whose keys
  the hub accepts is a text file of the document itself, \<^verbatim>\<open>authorized_keys\<close>. The command line
  opens, creates, clones and watches vaults; the WebAssembly crate exports the document, the
  identities and the codec to JavaScript.

  \<^bold>\<open>How the model reads.\<close> A \<^verbatim>\<open>&mut self\<close> method that returns \<^verbatim>\<open>Result\<close> is an \<open>action\<close> of \<open>Prelude\<close>: a
  function from a state to a result (\<open>error + 'a\<close>) and the state it leaves, so that an error
  keeps the writes made before it, and \<open>andthen\<close> is \<^verbatim>\<open>?\<close>. Strings are the list of their UTF-8
  bytes, \<^verbatim>\<open>i64\<close> values are \<open>int\<close> with range checks or wrap-around where the code computes on them,
  peer ids are \<open>64 word\<close>, bytes \<open>8 word\<close>. Clocks, random bytes, UUIDs and the iteration orders of
  hash maps are parameters. The disk (\<open>Disk\<close>) counts its calls; each of them may fail as the
  function \<open>d_fault\<close> says, and a failing write leaves a prefix of its bytes.

  \<^bold>\<open>Libraries that are not in the repository\<close> are parameters, with the behaviour the code relies on
  as the assumptions of a locale, each interpreted on a concrete instance that the witnesses
  evaluate: \<open>automerge_doc\<close>, \<open>automerge_history\<close>, \<open>automerge_saved\<close> (automerge; instances in
  \<open>Reference_Doc\<close>, a tree of maps with a change history, and \<open>Reference_Save\<close>, with a byte format),
  \<open>base64_codec\<close>, \<open>ed25519\<close>, \<open>sha_hex\<close> (\<open>Crypto\<close>; RFC 4648 base64 and toy digests and signatures),
  \<open>unicode_nfc\<close> (\<open>Paths\<close>), \<open>index_format\<close> (serde_json, \<open>StoreFiles\<close>), \<open>frame_codec\<close> (MessagePack,
  \<open>Protocol\<close>), \<open>toml_format\<close> (\<open>CliConfig\<close>), \<open>js_serde\<close> (\<open>Wasm\<close>), \<open>dir_reader\<close> (\<open>HostNative\<close>), the
  patterns of the ignore crate (\<open>SyncIgnore\<close>), sockets, TLS and URL parsing (\<open>network\<close> in
  \<open>Sessions\<close>), rcgen and rustls (\<open>HostNative\<close>), clap (\<open>CliMain\<close>). The handshake properties take
  signatures as symbolic: \<open>Authentication\<close> lets a dishonest party send what it likes, but a
  signature that verifies under an honest key was made by the code of that key.

  \<^bold>\<open>Interfaces inside the program\<close> are locales too: \<open>sync_hub\<close> (\<^verbatim>\<open>trait SyncHandle\<close>, \<open>PeerHub\<close>),
  \<open>doc_storage\<close> and \<open>blob_storage\<close> (\<open>Store\<close>), \<open>fs_adapter\<close> (\<open>HostNative\<close>), each interpreted on the
  definitions of the component that provides it; the client lemmas are proved inside them.
  \<open>HostBundle\<close> interprets the storage contracts again on the bundle of host traits that
  \<^verbatim>\<open>native_host\<close> hands out.
\<close>

section \<open>Theories\<close>

text \<open>
  \<^bold>\<open>Base.\<close> \<open>Prelude\<close>: \<^verbatim>\<open>error.rs\<close>, actions and loops (\<open>foreach\<close>, \<open>collect\<close>, \<open>first_some\<close>), the
  collection \<open>act_simps\<close>. \<open>RustStd\<close>: the string, byte and integer functions of the standard
  library. \<open>Disk\<close>: the system calls. \<open>Crypto\<close>, \<open>Automerge\<close>: the parameters named above. \<open>Examples\<close>,
  \<open>Demo\<close>, \<open>Keyring\<close>: concrete codecs, documents and vaults for the witnesses; \<open>Keyring\<close> also relates
  the text of \<^verbatim>\<open>authorized_keys\<close> to the keys the hub reads.

  \<^bold>\<open>The document.\<close> \<open>Paths\<close>: \<^verbatim>\<open>path.rs\<close>. \<open>Doc\<close>: \<^verbatim>\<open>doc/mod.rs\<close>. \<open>DocFiles\<close>: the operations of
  \<^verbatim>\<open>doc/files.rs\<close>. \<open>DocDirs\<close> and \<open>DocTrees\<close>: \<^verbatim>\<open>doc/directories.rs\<close>. \<open>DocHistory\<close>: \<^verbatim>\<open>doc/history.rs\<close>.
  The abstract state is the \<open>view\<close> of \<open>DocView\<close>, the contents of the three maps; \<open>sound\<close> says that a
  document shows a view that is well formed, with at most one live entry for a path and live
  ancestors for all of them. \<open>DocWrites\<close>, \<open>DocRestore\<close> and \<open>DocGenesis\<close> run the operations on sound
  documents; \<open>DocProperties\<close> states them as refinements of operations on the set of live files
  and directories. \<open>restore_to_heads\<close> is proved for every order in which its hash maps iterate.

  \<^bold>\<open>Identities.\<close> \<open>Identity\<close>: \<^verbatim>\<open>identity.rs\<close>, the ssh-agent protocol included. \<open>AuthorizedKeys\<close>:
  \<^verbatim>\<open>peers_md.rs\<close>. \<open>IdentityProperties\<close>: their round trips.

  \<^bold>\<open>Storage and host.\<close> \<open>Store\<close>: \<^verbatim>\<open>store/doc_store.rs\<close>, \<^verbatim>\<open>store/blobs.rs\<close>. \<open>StoreFiles\<close>:
  \<^verbatim>\<open>store/snapshots.rs\<close>, \<^verbatim>\<open>fs/node_adapter.rs\<close>, the files of \<^verbatim>\<open>tls.rs\<close>. \<open>HostNative\<close>: \<^verbatim>\<open>host/**\<close>, the
  rest of \<^verbatim>\<open>tls.rs\<close>, \<^verbatim>\<open>net/transport.rs\<close>. \<open>HostBundle\<close>: the host traits, the bundle of the native
  host, the handles of spawned tasks. \<open>StoreProperties\<close>: saves under failures, a restart, the
  store of attachments.

  \<^bold>\<open>The bound directory.\<close> \<open>Suppression\<close>, \<open>SyncIgnore\<close>, \<open>Glob\<close>, \<open>Binding\<close>: the files of \<^verbatim>\<open>fs/\<close> of these
  names (\<open>Glob\<close> is \<^verbatim>\<open>glob_match\<close> of \<^verbatim>\<open>binding.rs\<close>, proved to decide the language of its pattern).
  \<open>Materialize\<close>: \<^verbatim>\<open>materialize_inner\<close> of \<^verbatim>\<open>vault.rs\<close>. \<open>Ingest\<close>: \<^verbatim>\<open>fs/ingest.rs\<close>. \<open>Debounce\<close>:
  \<^verbatim>\<open>debounced_fs_loop\<close> of \<^verbatim>\<open>vault.rs\<close> as a function of what wakes it. \<open>FsProperties\<close>: their
  properties. \<open>Mirror\<close> follows a materialize pass on the disk, step by step; \<open>MirrorProperties\<close>:
  what the pass achieves.

  \<^bold>\<open>The vault and the network.\<close> \<open>Vault\<close>, \<open>VaultNet\<close>: \<^verbatim>\<open>vault.rs\<close>, its document operations, and its
  connections, reconnection, listening and binding. \<open>Protocol\<close>: \<^verbatim>\<open>net/protocol.rs\<close>, \<^verbatim>\<open>auth.rs\<close>.
  \<open>Handshake\<close>: both sides of the handshake (\<^verbatim>\<open>net/client.rs\<close>, \<^verbatim>\<open>net/server.rs\<close>). \<open>Authentication\<close>: many
  parties with arbitrary traffic as a reachability relation. \<open>PeerHub\<close>: the sync handle of a
  vault. \<open>Sessions\<close>: the sessions of a hub, as steps of an interleaving relation \<open>hub_step\<close>, and
  the connection of a client. \<open>Channels\<close>: delivery of frames, the enforcer. \<open>ClientTasks\<close>: the
  tasks of a client's connection and its closed signal, as the relation \<open>client_step\<close>.
  \<open>ServerTasks\<close>: the listener of a hub, from binding to shutdown and drop, as the relation
  \<open>serve_step\<close>.
  \<open>NetProperties\<close>, \<open>SessionProperties\<close>: their properties.

  \<^bold>\<open>The front ends.\<close> \<open>CliArgs\<close>, \<open>CliConfig\<close>, \<open>CliCommands\<close>, \<open>CliMain\<close>: \<^verbatim>\<open>agentsync-cli\<close> from the
  arguments to the commands, up to the wait for the interrupt. \<open>KeyProperties\<close>: keys added by a flag.
  \<open>Wasm\<close>: \<^verbatim>\<open>agentsync-wasm\<close>.
  \<open>Findings\<close>: behaviour the code does not intend.
\<close>

section \<open>What is shown\<close>

text \<open>
  The properties are the theorems with a claim number, each after the text that states it.
  Document: every write, deletion, renaming and restoring implements its abstract operation and
  keeps the vault sound, and leaves it unchanged when it reports that a path is missing or taken;
  listings are complete. Bound directory: a materialize pass in a run without system errors makes
  the directory show the document. Network: agreement of both sides of the handshake, who signs
  what and when, completion of honest runs; invariants of all interleavings of a hub's tasks;
  order of delivery; the client's checks; the supervisor leaves no slots behind; reconnecting
  terminates; the closed signal is neither early nor lost; a shutdown whose accept loop ended in
  time reaches every session. Disk: saves are atomic under any
  failures; a flushed vault reopens as it was; attachments stay under their hash; a materialize
  pass never destroys content the program does not know; a change on disk is taken in, no event
  is lost by debouncing, and no removal on disk drops the authorised keys; keys added by a flag
  extend those listed; suppression is exact.
  Formats: round trips of keys, identities, heads and the key file.

  \<^bold>\<open>Termination and bounds.\<close> The recursion of \<open>connect_loop\<close> is justified by the attempts left,
  that of \<open>glob_loop\<close> by a lexicographic measure of pattern and text, the parsers by the length of
  their input. No definition of the program uses fuel; the decoder of \<open>Reference_Save\<close> takes as
  fuel the length of the bytes, and each of its steps consumes one. Times and sizes that the
  code keeps in 64 bits are bounded where it checks them (\<open>parse_i64\<close>, \<open>checked_mul_i64\<close>) and wrap
  where it does not (\<open>wrap_i64\<close>). Back-off delays saturate.

  \<^bold>\<open>Steps.\<close> In \<open>hub_step\<close> and \<open>client_step\<close> one iteration of a task is one step; the steps of all tasks
  interleave freely, and the rest of the program may change the vault between any two of them.
  Interleavings inside an iteration, between two of its lock acquisitions, are not
  distinguished, but for the end of a client's reader, whose actions are
  single steps. In \<open>serve_step\<close> a step is an action between two points where the task may be suspended, and the two-second waits of
  \<^verbatim>\<open>shutdown\<close> may end at any time. A pass
  of materialize or of the ingestion is one action of the vault.
\<close>

section \<open>Not modelled\<close>

text \<open>
  Generation of random identities beyond the seed; the text of foreign errors, which is carried
  opaquely; logging and console output that no program reads; how long a timeout lasts: the waits
  of shutdowns may end at any time; the scheduler of tokio, for which the step
  relations stand; the non-Unix variants of file permissions; the argument parser and the
  completion scripts, generated by clap; the module roots, which only re-export. The byte
  formats of automerge, MessagePack, TOML and JSON are the libraries'. Tests, the TypeScript SDK
  and its bindings are outside the implementation.
\<close>

end
